(* ===== verification/Esp_Prelude.thy ===== *)
theory Esp_Prelude
  imports Main "HOL-Library.Word" "HOL-Library.Monad_Syntax"
begin

text \<open>
  Shared vocabulary of the development.

  The firmware is C code for a 32-bit little-endian core: bytes are \<open>8 word\<close>, and C
  \<open>int\<close> and \<open>long\<close> are \<open>int\<close> wherever the code cannot leave the 32-bit range.
  Memory that a pointer denotes is a list of bytes; a pointer into it is an offset.
  Every access goes through \<open>load\<close>, \<open>store\<close> and the block copies below, and the
  whole program is written in the option monad: \<open>None\<close> is undefined behaviour of the
  C code (an access outside its object, a null dereference, a division by zero, an
  out-of-range shift). A theorem that an operation returns \<open>Some\<close> is therefore a
  memory safety theorem.
\<close>

type_synonym u8 = "8 word"
type_synonym u16 = "16 word"
type_synonym u32 = "32 word"
type_synonym bytes = "8 word list"

named_theorems mem_simps \<open>checked memory accesses under a known bound\<close>
named_theorems byte_simps \<open>reading and writing integers as bytes\<close>

section \<open>Checked memory\<close>

definition load :: "'a list \<Rightarrow> nat \<Rightarrow> 'a option" where
  "load m i = (if i < length m then Some (m ! i) else None)"

definition store :: "'a list \<Rightarrow> nat \<Rightarrow> 'a \<Rightarrow> 'a list option" where
  "store m i x = (if i < length m then Some (m[i := x]) else None)"

text \<open>\<open>memcpy(m + i, xs, length xs)\<close> and reading \<open>n\<close> cells from offset \<open>i\<close>.\<close>

definition store_block :: "'a list \<Rightarrow> nat \<Rightarrow> 'a list \<Rightarrow> 'a list option" where
  "store_block m i xs =
     (if i + length xs \<le> length m
      then Some (take i m @ xs @ drop (i + length xs) m) else None)"

definition load_block :: "'a list \<Rightarrow> nat \<Rightarrow> nat \<Rightarrow> 'a list option" where
  "load_block m i n = (if i + n \<le> length m then Some (take n (drop i m)) else None)"

section \<open>C conversions\<close>

text \<open>Conversion to the unsigned and signed 16-bit types, and to \<open>int32_t\<close>.\<close>

definition to_u16 :: "int \<Rightarrow> nat" where
  "to_u16 x = nat (x mod 65536)"

definition to_s16 :: "int \<Rightarrow> int" where
  "to_s16 x = (x + 32768) mod 65536 - 32768"

definition to_s32 :: "int \<Rightarrow> int" where
  "to_s32 x = (x + 2147483648) mod 4294967296 - 2147483648"

text \<open>The result of signed 32-bit arithmetic: overflow is undefined.\<close>

definition s32 :: "int \<Rightarrow> int option" where
  "s32 x = (if -2147483648 \<le> x \<and> x \<le> 2147483647 then Some x else None)"

text \<open>The two bytes of a 16-bit value, most significant first.\<close>

definition hi8 :: "nat \<Rightarrow> u8" where
  "hi8 n = of_nat (n div 256)"

definition lo8 :: "nat \<Rightarrow> u8" where
  "lo8 n = of_nat (n mod 256)"

definition be16 :: "u8 \<Rightarrow> u8 \<Rightarrow> nat" where
  "be16 h l = unat h * 256 + unat l"

text \<open>
  C strings: the bytes before the first zero byte, and the test that there is one
  (reading a string that is not terminated runs out of its object).
\<close>

definition strlen :: "bytes \<Rightarrow> nat option" where
  "strlen s = (if 0 \<in> set s then Some (length (takeWhile (\<lambda>c. c \<noteq> 0) s)) else None)"

text \<open>The text of a terminated string.\<close>

definition cstr :: "bytes \<Rightarrow> bytes" where
  "cstr s = takeWhile (\<lambda>c. c \<noteq> 0) s"

section \<open>Lemmas\<close>

lemma load_Some [mem_simps]: "i < length m \<Longrightarrow> load m i = Some (m ! i)"
  by (simp add: load_def)

lemma load_None [mem_simps]: "length m \<le> i \<Longrightarrow> load m i = None"
  by (simp add: load_def)

lemma store_Some [mem_simps]: "i < length m \<Longrightarrow> store m i x = Some (m[i := x])"
  by (simp add: store_def)

lemma store_None [mem_simps]: "length m \<le> i \<Longrightarrow> store m i x = None"
  by (simp add: store_def)

lemma store_SomeD: "store m i x = Some m' \<Longrightarrow> i < length m \<and> m' = m[i := x]"
  by (auto simp: store_def split: if_splits)

lemma store_length: "store m i x = Some m' \<Longrightarrow> length m' = length m"
  by (auto simp: store_def split: if_splits)

lemma store_block_Some [mem_simps]:
  "i + length xs \<le> length m \<Longrightarrow>
   store_block m i xs = Some (take i m @ xs @ drop (i + length xs) m)"
  by (simp add: store_block_def)

lemma store_block_length: "store_block m i xs = Some m' \<Longrightarrow> length m' = length m"
  by (auto simp: store_block_def split: if_splits)

lemma load_block_Some [mem_simps]:
  "i + n \<le> length m \<Longrightarrow> load_block m i n = Some (take n (drop i m))"
  by (simp add: load_block_def)

text \<open>Reading a memory whose rest from an offset is known.\<close>

lemma load_drop: "drop i m = x # ys \<Longrightarrow> load m i = Some x"
  by (metis drop_eq_Nil hd_drop_conv_nth list.discI list.sel(1) load_Some not_le)

lemma drop_Suc_drop: "drop i m = x # ys \<Longrightarrow> drop (Suc i) m = ys"
  by (metis drop_Suc list.sel(3) tl_drop)

lemma drop_append_drop: "drop i m = ys @ zs \<Longrightarrow> drop (i + length ys) m = zs"
  by (metis add.commute append_eq_conv_conj drop_drop)

lemma load_block_drop:
  assumes "drop i m = ys @ zs" and "i \<le> length m"
  shows "load_block m i (length ys) = Some ys"
proof -
  have "length m - i = length ys + length zs" using assms(1) by (metis length_append length_drop)
  with assms show ?thesis by (simp add: load_block_def)
qed

lemma take_drop_Suc:
  "off + Suc n \<le> length xs \<Longrightarrow> take (Suc n) (drop off xs) = xs ! off # take n (drop (off + 1) xs)"
  by (simp add: Cons_nth_drop_Suc [symmetric])

lemma to_u16_id [simp]: "0 \<le> x \<Longrightarrow> x < 65536 \<Longrightarrow> to_u16 x = nat x"
  by (simp add: to_u16_def)

lemma to_u16_of_nat [simp]: "n < 65536 \<Longrightarrow> to_u16 (int n) = n"
  by (simp add: to_u16_def)

lemma to_u16_less [simp]: "to_u16 x < 65536"
  by (simp add: to_u16_def nat_less_iff)

lemma to_s16_id [simp]: "-32768 \<le> x \<Longrightarrow> x < 32768 \<Longrightarrow> to_s16 x = x"
  by (simp add: to_s16_def)

lemma to_u16_to_s16 [simp]: "to_u16 (to_s16 x) = to_u16 x"
  by (simp add: to_u16_def to_s16_def mod_diff_left_eq)

lemma to_s16_high: "32768 \<le> x \<Longrightarrow> x < 65536 \<Longrightarrow> to_s16 x = x - 65536"
  using mod_add_self2 [of "x - 32768" 65536] by (simp add: to_s16_def add.commute)

lemma to_s16_not_m1: "0 \<le> x \<Longrightarrow> x < 65535 \<Longrightarrow> to_s16 x \<noteq> -1"
  by (cases "x < 32768") (simp_all add: to_s16_high)

lemma to_s32_id [simp]: "-2147483648 \<le> x \<Longrightarrow> x < 2147483648 \<Longrightarrow> to_s32 x = x"
  by (simp add: to_s32_def)

lemma s32_Some [simp]: "-2147483648 \<le> x \<Longrightarrow> x \<le> 2147483647 \<Longrightarrow> s32 x = Some x"
  by (simp add: s32_def)

lemma unat_u8_less [simp]: "unat (x :: u8) < 256"
  using unsigned_less [of x] by simp

lemma unat_u16_less [simp]: "unat (x :: u16) < 65536"
  using unsigned_less [of x] by simp

lemma unat_hi8 [byte_simps]: "unat (hi8 n) = (n div 256) mod 256"
  by (simp add: hi8_def unat_of_nat)

lemma unat_lo8 [byte_simps]: "unat (lo8 n) = n mod 256"
  by (simp add: lo8_def unat_of_nat)

lemma be16_hi_lo [byte_simps]: "n < 65536 \<Longrightarrow> be16 (hi8 n) (lo8 n) = n"
  by (simp add: be16_def byte_simps)

lemma be16_less [simp]: "be16 h l < 65536"
  using unat_u8_less [of h] unat_u8_less [of l] unfolding be16_def by linarith

text \<open>Disjoint bit fields: an \<open>OR\<close> of a shifted value and a small one is their sum.\<close>

lemma or_shifted: "0 \<le> x \<Longrightarrow> x < 2 ^ n \<Longrightarrow> or (push_bit n y) (x :: int) = y * 2 ^ n + x"
proof -
  assume "0 \<le> x" "x < 2 ^ n"
  then have "x = take_bit n x" by (simp add: take_bit_int_eq_self)
  moreover have "and (push_bit n y) (take_bit n x) = 0"
    by (rule bit_eqI) (simp add: bit_simps)
  ultimately have "and (push_bit n y) x = 0" by simp
  then have "push_bit n y + x = or (push_bit n y) x" by (rule disjunctive_add_eq_or)
  then show ?thesis by (simp add: push_bit_eq_mult)
qed

lemma strlen_terminated [simp]: "0 \<notin> set s \<Longrightarrow> strlen (s @ 0 # rest) = Some (length s)"
  by (auto simp: strlen_def takeWhile_append)

subsection \<open>Bit fields of a byte\<close>

unbundle bit_operations_syntax

lemma unat_and_mask: "unat ((x :: 'a :: len word) AND mask n) = unat x mod 2 ^ n"
  unfolding take_bit_eq_mask [symmetric] unsigned_take_bit_eq unfolding take_bit_eq_mod ..

lemma unat_drop_and: "unat (drop_bit k (x :: u8) AND mask n) = (unat x div 2 ^ k) mod 2 ^ n"
  unfolding unat_and_mask unat_drop_bit_eq unfolding drop_bit_eq_div ..

lemma and_7F: "unat ((x :: u8) AND 0x7F) = unat x mod 128"
  using unat_and_mask [of x 7] by (simp add: mask_eq_exp_minus_1)

lemma get_type_bits: "unat (drop_bit 4 ((x :: u8) AND 0xF0)) = unat x div 16"
proof -
  have "drop_bit 4 (x AND 0xF0) = drop_bit 4 x AND mask 4"
    by (simp add: drop_bit_and mask_eq_exp_minus_1)
  moreover have "unat x div 16 < 16" using unat_u8_less [of x] by linarith
  ultimately show ?thesis by (simp add: unat_drop_and)
qed

lemma get_dup_bits: "unat (drop_bit 3 ((x :: u8) AND 0x08)) = unat x div 8 mod 2"
  using unat_drop_and [of 3 x 1] by (simp add: drop_bit_and)

lemma get_qos_bits: "unat (drop_bit 1 ((x :: u8) AND 0x06)) = unat x div 2 mod 4"
  using unat_drop_and [of 1 x 2] by (simp add: drop_bit_and mask_eq_exp_minus_1)

lemma get_retain_bits: "unat ((x :: u8) AND 0x01) = unat x mod 2"
  using unat_and_mask [of x 1] by simp

lemma and_80: "((x :: u8) AND 0x80 = 0) = (unat x < 128)"
proof -
  have "(x AND 0x80 = 0) = (\<not> bit x 7)"
    using and_exp_eq_0_iff_not_bit [of x 7] by simp
  also have "bit x 7 = odd (unat x div 2 ^ 7)"
    using bit_unsigned_iff [of x 7, where 'a = nat] by (simp add: bit_iff_odd)
  also have "(\<not> odd (unat x div 2 ^ 7)) = (unat x < 128)"
  proof (cases "unat x < 128")
    case False
    then have "unat x div 2 ^ 7 = 1" using unat_u8_less [of x] by (intro div_nat_eqI) simp_all
    with False show ?thesis by simp
  qed simp
  finally show ?thesis .
qed
end
