(* ===== verification/Sw_Timer.thy ===== *)
theory Sw_Timer
  imports Esp_Prelude
begin

text \<open>
  The software timers of \<open>user/timer.c\<close>: a small table of periodic callbacks that the
  interrupt of the hardware timer FRC1 counts down.
\<close>

section \<open>Model\<close>

text \<open>The functions that the firmware registers.\<close>

datatype t_call_back =
    CB_timerEnableTriack | CB_timerDisableTriack | CB_ZeroCross | CB_timerZeroCross
  | CB_timerPwm1 | CB_timerPwm2 | CB_timerMesureSampleAdc

record callback_time =
  cb_period :: u32
  cb_cpt :: int
  cb_fn :: "t_call_back option"

text \<open>
  \<open>tab_callback_time\<close> has \<open>NB_MAX_CALLBACK_TIME\<close> elements, 3 or 4 depending on the build;
  \<open>us\<close> and \<open>ticks\<close> are the globals of those names.
\<close>

record timers =
  tab_callback_time :: "callback_time list"
  tm_us :: u32
  tm_ticks :: u32

text \<open>\<open>APB_CLK_FREQ>>4\<close>, and the macro \<open>US_TO_RTC_TIMER_TICKS\<close> in unsigned arithmetic.\<close>

definition APB16 :: u32 where
  "APB16 = 80 * 1000000 div 16"

definition US_TO_RTC_TIMER_TICKS :: "u32 \<Rightarrow> u32" where
  "US_TO_RTC_TIMER_TICKS t =
     (if t \<noteq> 0 then
        (if t > 0x35A then drop_bit 2 t * (APB16 div 250000) + (t AND 3) * (APB16 div 1000000)
         else (t * APB16) div 1000000)
      else 0)"

text \<open>A loop over the table that changes the first matching element and returns.\<close>

fun update_first :: "('a \<Rightarrow> bool) \<Rightarrow> ('a \<Rightarrow> 'a option) \<Rightarrow> 'a list \<Rightarrow> 'a list option" where
  "update_first P f [] = Some []"
| "update_first P f (x # xs) =
     (if P x then do { y \<leftarrow> f x; Some (y # xs) }
      else do { ys \<leftarrow> update_first P f xs; Some (x # ys) })"

text \<open>\<open>period=period/us; cpt=period\<close>: undefined before \<open>timer_init\<close>.\<close>

definition set_period :: "u32 \<Rightarrow> u32 \<Rightarrow> callback_time \<Rightarrow> callback_time option" where
  "set_period p us s =
     (if us = 0 then None
      else Some (s\<lparr>cb_period := p div us, cb_cpt := to_s32 (uint (p div us))\<rparr>))"

definition timer_change :: "u32 \<Rightarrow> t_call_back \<Rightarrow> timers \<Rightarrow> timers option" where
  "timer_change p f t = do {
     tab \<leftarrow> update_first (\<lambda>s. cb_fn s = Some f) (set_period p (tm_us t)) (tab_callback_time t);
     Some (t\<lparr>tab_callback_time := tab\<rparr>)
   }"

definition timer_remove_callback :: "t_call_back \<Rightarrow> timers \<Rightarrow> timers option" where
  "timer_remove_callback f t = do {
     tab \<leftarrow> update_first (\<lambda>s. cb_fn s = Some f) (\<lambda>s. Some (s\<lparr>cb_cpt := 1000000, cb_fn := None\<rparr>))
       (tab_callback_time t);
     Some (t\<lparr>tab_callback_time := tab\<rparr>)
   }"

definition timer_add_callback :: "u32 \<Rightarrow> t_call_back \<Rightarrow> timers \<Rightarrow> timers option" where
  "timer_add_callback p f t = do {
     tab \<leftarrow> update_first (\<lambda>s. cb_fn s = None)
       (\<lambda>s. do { s \<leftarrow> set_period p (tm_us t) s; Some (s\<lparr>cb_fn := Some f\<rparr>) }) (tab_callback_time t);
     Some (t\<lparr>tab_callback_time := tab\<rparr>)
   }"

text \<open>\<open>timer_init\<close>: the registers of FRC1 are not part of the state.\<close>

definition timer_init :: "u16 \<Rightarrow> timers \<Rightarrow> timers" where
  "timer_init us t =
     t\<lparr>tab_callback_time := map (\<lambda>s. s\<lparr>cb_fn := None\<rparr>) (tab_callback_time t),
       tm_us := ucast us, tm_ticks := US_TO_RTC_TIMER_TICKS (ucast us) - 5\<rparr>"

text \<open>
  The interrupt handler. A callback may change the table, so each element is read when the
  loop reaches it. \<open>run\<close> is what a callback does to the table and to the rest of the program's
  state. Counting below \<open>INT_MIN\<close> is undefined.
\<close>

fun timer_slots :: "(t_call_back \<Rightarrow> timers \<times> 'a \<Rightarrow> (timers \<times> 'a) option) \<Rightarrow> nat list
    \<Rightarrow> timers \<times> 'a \<Rightarrow> (timers \<times> 'a) option" where
  "timer_slots run [] st = Some st"
| "timer_slots run (l # ls) (t, a) = do {
     s \<leftarrow> load (tab_callback_time t) l;
     st \<leftarrow> (case cb_fn s of
         None \<Rightarrow> Some (t, a)
       | Some f \<Rightarrow>
           if cb_cpt s \<le> -2147483648 then None
           else if cb_cpt s - 1 = 0 then do {
             tab \<leftarrow> store (tab_callback_time t) l (s\<lparr>cb_cpt := to_s32 (uint (cb_period s))\<rparr>);
             run f (t\<lparr>tab_callback_time := tab\<rparr>, a)
           }
           else do {
             tab \<leftarrow> store (tab_callback_time t) l (s\<lparr>cb_cpt := cb_cpt s - 1\<rparr>);
             Some (t\<lparr>tab_callback_time := tab\<rparr>, a)
           });
     timer_slots run ls st
   }"

definition timer_tim1_intr_handler :: "(t_call_back \<Rightarrow> timers \<times> 'a \<Rightarrow> (timers \<times> 'a) option)
    \<Rightarrow> timers \<times> 'a \<Rightarrow> (timers \<times> 'a) option" where
  "timer_tim1_intr_handler run st = timer_slots run [0..<length (tab_callback_time (fst st))] st"

section \<open>The tick count\<close>

lemma and_3: "unat ((x :: u32) AND 3) = unat x mod 4"
  using unat_and_mask [of x 2] by (simp add: mask_eq_decr_exp)

text \<open>
  the two branches of \<open>US_TO_RTC_TIMER_TICKS\<close> compute the same: five ticks per
  microsecond for every 16-bit number of microseconds, without wrap-around in either branch.
  So \<open>timer_init\<close> loads \<open>5 us - 5\<close> for every period it is given but 0.
\<close>

theorem timer_ticks_linear:
  "US_TO_RTC_TIMER_TICKS (ucast us) = 5 * ucast (us :: u16) \<and>
   tm_ticks (timer_init us t) = 5 * ucast us - 5"
proof -
  let ?t = "ucast us :: u32"
  have "unat us < 65536" by simp
  then have b: "unat ?t < 65536" by (simp add: unsigned_ucast_eq take_bit_eq_mod le_less_trans [OF mod_less_eq_dividend])
  have "US_TO_RTC_TIMER_TICKS ?t = 5 * ?t"
  proof (cases "?t > 0x35A")
    case True
    have "unat (drop_bit 2 ?t * 20 + (?t AND 3) * 5) = unat ?t div 4 * 20 + unat ?t mod 4 * 5"
      using b by (simp add: unat_word_ariths and_3 unat_drop_bit_eq drop_bit_eq_div)
    also have "\<dots> = 5 * unat ?t" by presburger
    also have "\<dots> = unat (5 * ?t)" using b by (simp add: unat_word_ariths)
    finally have "drop_bit 2 ?t * 20 + (?t AND 3) * 5 = 5 * ?t" by (rule word_unat_eq_iff [THEN iffD2])
    with True show ?thesis by (auto simp: US_TO_RTC_TIMER_TICKS_def APB16_def)
  next
    case False
    then have "unat ?t \<le> 858" by (simp add: word_le_nat_alt not_less)
    then have "unat ((?t * 5000000) div 1000000) = unat (5 * ?t)"
      by (simp add: unat_div unat_word_ariths)
    then have "(?t * 5000000) div 1000000 = 5 * ?t" by (rule word_unat_eq_iff [THEN iffD2])
    with False show ?thesis by (auto simp: US_TO_RTC_TIMER_TICKS_def APB16_def)
  qed
  then show ?thesis by (simp add: timer_init_def)
qed

section \<open>Periodic callbacks\<close>

text \<open>One interrupt on one slot, when callbacks leave the table alone: what it runs.\<close>

definition slot_step :: "callback_time \<Rightarrow> callback_time \<times> t_call_back list" where
  "slot_step s = (case cb_fn s of None \<Rightarrow> (s, [])
     | Some f \<Rightarrow> if cb_cpt s - 1 = 0 then (s\<lparr>cb_cpt := to_s32 (uint (cb_period s))\<rparr>, [f])
               else (s\<lparr>cb_cpt := cb_cpt s - 1\<rparr>, []))"

text \<open>A callback that only leaves its name in a log.\<close>

definition log_run :: "t_call_back \<Rightarrow> timers \<times> t_call_back list \<Rightarrow> (timers \<times> t_call_back list) option" where
  "log_run f = (\<lambda>(t, a). Some (t, a @ [f]))"

lemma timer_slots_log:
  assumes "\<forall>s \<in> set ys. cb_fn s \<noteq> None \<longrightarrow> -2147483648 < cb_cpt s"
  shows "timer_slots log_run [length xs..<length xs + length ys] (t\<lparr>tab_callback_time := xs @ ys\<rparr>, a) =
    Some (t\<lparr>tab_callback_time := xs @ map (fst \<circ> slot_step) ys\<rparr>, a @ concat (map (snd \<circ> slot_step) ys))"
  using assms
proof (induction ys arbitrary: xs a)
  case Nil
  then show ?case by simp
next
  case (Cons y ys)
  have l: "[length xs..<length xs + length (y # ys)] =
      length xs # [length (xs @ [z])..<length (xs @ [z]) + length ys]" for z :: callback_time
    by (simp add: upt_rec)
  have y: "load (xs @ y # ys) (length xs) = Some y" by (simp add: load_def)
  have st: "store (xs @ y # ys) (length xs) z = Some (xs @ z # ys)" for z by (simp add: store_def)
  show ?case
  proof (cases "cb_fn y")
    case None
    then show ?thesis
      using Cons.IH [of "xs @ [y]" a] Cons.prems unfolding l [of y]
      by (simp add: y slot_step_def)
  next
    case (Some f)
    then show ?thesis
      using Cons.IH [of "xs @ [fst (slot_step y)]" "a @ snd (slot_step y)"] Cons.prems
      unfolding l [of "fst (slot_step y)"]
      by (cases "cb_cpt y - 1 = 0") (simp_all add: y st slot_step_def log_run_def)
  qed
qed

lemma handler_log:
  assumes "\<forall>s \<in> set (tab_callback_time t). cb_fn s \<noteq> None \<longrightarrow> -2147483648 < cb_cpt s"
  shows "timer_tim1_intr_handler log_run (t, a) =
    Some (t\<lparr>tab_callback_time := map (fst \<circ> slot_step) (tab_callback_time t)\<rparr>,
      a @ concat (map (snd \<circ> slot_step) (tab_callback_time t)))"
  using timer_slots_log [of "tab_callback_time t" "[]" t a] assms
  by (simp add: timer_tim1_intr_handler_def)

text \<open>A slot that was armed \<open>k\<close> interrupts ago.\<close>

definition armed :: "callback_time \<Rightarrow> bool" where
  "armed s \<longleftrightarrow> cb_fn s \<noteq> None \<longrightarrow>
     0 < cb_period s \<and> uint (cb_period s) < 2147483648 \<and> cb_cpt s = uint (cb_period s)"

definition age :: "nat \<Rightarrow> callback_time \<Rightarrow> callback_time" where
  "age k s = (if cb_fn s = None then s
     else s\<lparr>cb_cpt := int (unat (cb_period s) - k mod unat (cb_period s))\<rparr>)"

lemma armed_period:
  assumes "armed s" and "cb_fn s \<noteq> None"
  shows "0 < unat (cb_period s)" "unat (cb_period s) < 2147483648" "cb_cpt s = int (unat (cb_period s))"
proof -
  have "int (unat (cb_period s)) = uint (cb_period s)" by simp
  moreover have "0 < cb_period s" "uint (cb_period s) < 2147483648" "cb_cpt s = uint (cb_period s)"
    using assms by (simp_all add: armed_def)
  ultimately show "0 < unat (cb_period s)" "unat (cb_period s) < 2147483648" "cb_cpt s = int (unat (cb_period s))"
    by (simp add: word_less_nat_alt, linarith, simp)
qed

lemma age_step:
  assumes "armed s"
  shows "slot_step (age k s) =
    (age (Suc k) s, case cb_fn s of None \<Rightarrow> [] | Some f \<Rightarrow> if Suc k mod unat (cb_period s) = 0 then [f] else [])"
proof (cases "cb_fn s")
  case None
  then show ?thesis by (simp add: slot_step_def age_def)
next
  case (Some f)
  let ?n = "unat (cb_period s)"
  have n: "0 < ?n" "?n < 2147483648" using armed_period [OF assms] Some by simp_all
  have b: "k mod ?n < ?n" using n(1) by simp
  have u: "uint (cb_period s) = int ?n" by simp
  have p: "to_s32 (uint (cb_period s)) = int ?n" unfolding u using n(2) by (intro to_s32_id) linarith+
  define m where "m = ?n - k mod ?n"
  have a: "age k s = s\<lparr>cb_cpt := int m\<rparr>" unfolding age_def m_def using Some by simp
  show ?thesis
  proof (cases "Suc (k mod ?n) = ?n")
    case True
    then have m: "m = 1" "Suc k mod ?n = 0" using b by (simp_all add: mod_Suc m_def)
    then have "age (Suc k) s = s\<lparr>cb_cpt := int ?n\<rparr>" unfolding age_def using Some by simp
    then show ?thesis using Some p m by (simp add: a slot_step_def)
  next
    case False
    then have m: "m \<noteq> 1" "Suc k mod ?n = Suc (k mod ?n)" using b by (simp_all add: mod_Suc m_def)
    then have "int m - 1 = int (?n - Suc k mod ?n)" using b unfolding m_def by linarith
    then have "age (Suc k) s = s\<lparr>cb_cpt := int m - 1\<rparr>" unfolding age_def using Some by simp
    then show ?thesis using Some m by (simp add: a slot_step_def)
  qed
qed

fun interrupts :: "(t_call_back \<Rightarrow> timers \<times> 'a \<Rightarrow> (timers \<times> 'a) option) \<Rightarrow> nat
    \<Rightarrow> timers \<times> 'a \<Rightarrow> (timers \<times> 'a) option" where
  "interrupts run 0 st = Some st"
| "interrupts run (Suc k) st = do { st \<leftarrow> interrupts run k st; timer_tim1_intr_handler run st }"

lemma age_fn [simp]: "cb_fn (age k s) = cb_fn s"
  by (simp add: age_def)

lemma age_cpt: "armed s \<Longrightarrow> cb_fn s \<noteq> None \<Longrightarrow> 0 < cb_cpt (age k s)"
proof -
  assume s: "armed s" "cb_fn s \<noteq> None"
  let ?n = "unat (cb_period s)"
  have "k mod ?n < ?n" using armed_period(1) [OF s] by simp
  then have "0 < int (?n - k mod ?n)" by linarith
  moreover have "cb_cpt (age k s) = int (?n - k mod ?n)" unfolding age_def using s(2) by auto
  ultimately show ?thesis by linarith
qed

lemma interrupts_log:
  assumes "\<forall>s \<in> set (tab_callback_time t). armed s"
  shows "\<exists>log. interrupts log_run k (t, []) =
      Some (t\<lparr>tab_callback_time := map (age k) (tab_callback_time t)\<rparr>, log) \<and>
    (\<forall>A s B f. tab_callback_time t = A @ s # B \<longrightarrow> cb_fn s = Some f \<longrightarrow>
      Some f \<notin> cb_fn ` set (A @ B) \<longrightarrow> count_list log f = k div unat (cb_period s))"
proof (induction k)
  case 0
  have "age 0 s = s" if "armed s" for s using armed_period(3) [OF that] by (cases s) (simp add: age_def)
  with assms have "map (age 0) (tab_callback_time t) = tab_callback_time t" by (simp add: map_idI)
  then show ?case by simp
next
  case (Suc k)
  let ?tab = "tab_callback_time t"
  obtain log where log: "interrupts log_run k (t, []) = Some (t\<lparr>tab_callback_time := map (age k) ?tab\<rparr>, log)"
    "\<And>A s B f. ?tab = A @ s # B \<Longrightarrow> cb_fn s = Some f \<Longrightarrow> Some f \<notin> cb_fn ` set (A @ B) \<Longrightarrow>
      count_list log f = k div unat (cb_period s)" using Suc.IH by blast
  let ?new = "concat (map (snd \<circ> slot_step) (map (age k) ?tab))"
  have "timer_tim1_intr_handler log_run (t\<lparr>tab_callback_time := map (age k) ?tab\<rparr>, log) =
      Some (t\<lparr>tab_callback_time := map (fst \<circ> slot_step) (map (age k) ?tab)\<rparr>, log @ ?new)"
  proof -
    have "\<forall>s \<in> set (map (age k) ?tab). cb_fn s \<noteq> None \<longrightarrow> -2147483648 < cb_cpt s"
      using assms age_cpt by (auto simp: Ball_def) (smt (verit) age_fn option.discI)
    from handler_log [of "t\<lparr>tab_callback_time := map (age k) ?tab\<rparr>", simplified, OF this [simplified]] show ?thesis
      by simp
  qed
  moreover have "map (fst \<circ> slot_step) (map (age k) ?tab) = map (age (Suc k)) ?tab"
    using assms by (simp add: age_step)
  moreover have "count_list (log @ ?new) f = Suc k div unat (cb_period s)"
    if "?tab = A @ s # B" "cb_fn s = Some f" "Some f \<notin> cb_fn ` set (A @ B)" for A s B f
  proof -
    have none: "count_list (concat (map (snd \<circ> slot_step) (map (age k) C))) f = 0"
      if "Some f \<notin> cb_fn ` set C" for C
      using that by (induction C) (auto simp: slot_step_def split: option.splits)
    have "armed s" using assms that(1) by simp
    then have "count_list (snd (slot_step (age k s))) f = (if Suc k mod unat (cb_period s) = 0 then 1 else 0)"
      using that(2) by (simp add: age_step)
    with none [of A] none [of B] that(3) have "count_list ?new f = (if Suc k mod unat (cb_period s) = 0 then 1 else 0)"
      unfolding that(1) by (simp add: image_Un)
    with log(2) [OF that] show ?thesis by (simp add: div_Suc)
  qed
  ultimately show ?case using log(1) by auto
qed

text \<open>
  C33: callbacks run at their period. While callbacks leave the table alone, a callback that is
  registered once and armed with a period of \<open>n\<close> interrupts, \<open>n > 0\<close>, has run exactly
  \<open>k div n\<close> times after \<open>k\<close> interrupts, however many other callbacks share the table.
\<close>

theorem timer_fires_periodically:
  assumes "\<forall>s \<in> set (tab_callback_time t). armed s"
    and "tab_callback_time t = A @ s # B" and "cb_fn s = Some f" and "Some f \<notin> cb_fn ` set (A @ B)"
  shows "\<exists>t' log. interrupts log_run k (t, []) = Some (t', log) \<and>
    count_list log f = k div unat (cb_period s)"
  using interrupts_log [OF assms(1), of k] assms(2-4) by blast

text \<open>
  The table that \<open>user_init\<close> sets up for a dimmer: a 21 us time base, the zero-cross
  simulation after 20001 us and the PWM callback after 500 us.
\<close>

definition example_timers :: timers where
  "example_timers = the (do {
     t \<leftarrow> Some (timer_init 21 \<lparr>tab_callback_time = replicate 3 \<lparr>cb_period = 0, cb_cpt = 0, cb_fn = None\<rparr>,
       tm_us = 0, tm_ticks = 0\<rparr>);
     t \<leftarrow> timer_add_callback 20001 CB_timerZeroCross t;
     timer_add_callback 500 CB_timerPwm1 t })"

lemma example_timers:
  "tab_callback_time example_timers =
    [\<lparr>cb_period = 952, cb_cpt = 952, cb_fn = Some CB_timerZeroCross\<rparr>] @
    \<lparr>cb_period = 23, cb_cpt = 23, cb_fn = Some CB_timerPwm1\<rparr> # [\<lparr>cb_period = 0, cb_cpt = 0, cb_fn = None\<rparr>]"
  by code_simp

lemma timer_fires_periodically_witness:
  "\<exists>t' log. interrupts log_run 100 (example_timers, []) = Some (t', log) \<and> count_list log CB_timerPwm1 = 4"
proof -
  have "\<forall>s \<in> set (tab_callback_time example_timers). armed s"
    by (simp add: example_timers armed_def)
  from timer_fires_periodically [OF this example_timers, of CB_timerPwm1 100] show ?thesis by simp
qed

end
