(* ===== verification/Device_State.thy ===== *)
theory Device_State
  imports Sw_Timer "HOL-Library.Signed_Division"
begin

text \<open>
  The state of the actuators and sensors of \<open>user/user_main.c\<close> and the builds that
  \<open>include/user_config.h\<close> knows.

  A build is a record of the macros the code tests. Hardware is visible as the levels of the
  output pins and as arguments for what is read; a one-shot or repeating SDK timer is the
  period it is armed with. A call of \<open>send_paquet_sensor\<close> is a report in a list, which the
  messaging part of the firmware turns into publications.
\<close>

section \<open>Builds\<close>

record build =
  TRIACK :: bool
  TRIACK_ON_OFF :: bool
  TRIACK_ON_OFF_INVERSE :: bool
  TRIACK_ON_OFF_PUISSANCE :: int
  HALF_SIN :: bool
  HALF_SIN_NEG :: bool
  PWM :: bool
  BIT_PWM :: "nat list"
  STORE :: bool
  RELAY :: bool
  BIT_RELAY :: nat
  SET_GPIO :: bool
  TLI4970_ENABLE :: bool
  DETECT_0V :: bool
  SLEEP :: bool
  METEO :: bool
  PCF8885 :: bool
  SWITCH_ONLY :: bool
  ON_BATTERY :: bool
  ADS786x :: bool
  PRECISION_TIMER :: u16
  NB_MAX_CALLBACK_TIME :: nat
  PWM_SCALL :: u32

definition PUISSANCE_MAX :: int where "PUISSANCE_MAX = 100000"
definition TRIAC_MIN :: int where "TRIAC_MIN = 900"
definition TRIAC_SCALL :: int where "TRIAC_SCALL = 83"
definition BIT_TRIAC :: nat where "BIT_TRIAC = 15"
definition P_MIN_STORE_UP :: u32 where "P_MIN_STORE_UP = 60"
definition P_MIN_STORE_DOWN :: u32 where "P_MIN_STORE_DOWN = 17"
definition TIMOUT_STORE_START :: nat where "TIMOUT_STORE_START = 1500"
definition TIMOUT_STORE :: nat where "TIMOUT_STORE = 200"

definition plain_build :: build where
  "plain_build = \<lparr>TRIACK = False, TRIACK_ON_OFF = False, TRIACK_ON_OFF_INVERSE = False,
     TRIACK_ON_OFF_PUISSANCE = 0, HALF_SIN = False, HALF_SIN_NEG = False, PWM = False, BIT_PWM = [],
     STORE = False, RELAY = False, BIT_RELAY = 0, SET_GPIO = False, TLI4970_ENABLE = False,
     DETECT_0V = False, SLEEP = False, METEO = False, PCF8885 = False, SWITCH_ONLY = False,
     ON_BATTERY = False, ADS786x = False, PRECISION_TIMER = 21, NB_MAX_CALLBACK_TIME = 3, PWM_SCALL = 5\<rparr>"

definition build_PRISE :: build where
  "build_PRISE = plain_build\<lparr>TLI4970_ENABLE := True, TRIACK := True\<rparr>"

definition build_PWM_12V :: build where
  "build_PWM_12V = plain_build\<lparr>PWM := True, BIT_PWM := [4, 5]\<rparr>"

definition build_PWM_TRIACK :: build where
  "build_PWM_TRIACK = plain_build\<lparr>PWM := True, TLI4970_ENABLE := True, TRIACK := True, BIT_PWM := [5],
     TRIACK_ON_OFF := True, TRIACK_ON_OFF_PUISSANCE := PUISSANCE_MAX\<rparr>"

definition build_PWM_TRIACK_0V_DETECT :: build where
  "build_PWM_TRIACK_0V_DETECT = build_PWM_TRIACK\<lparr>DETECT_0V := True\<rparr>"

definition build_STORE :: build where
  "build_STORE = plain_build\<lparr>PWM := True, TRIACK := True, BIT_PWM := [5, 0], STORE := True,
     TRIACK_ON_OFF := True, TRIACK_ON_OFF_PUISSANCE := PUISSANCE_MAX, PRECISION_TIMER := 100,
     NB_MAX_CALLBACK_TIME := 4, PWM_SCALL := 100\<rparr>"

definition build_SONOFF :: build where
  "build_SONOFF = plain_build\<lparr>RELAY := True, BIT_RELAY := 12, SET_GPIO := True\<rparr>"

definition build_RADIATOR :: build where
  "build_RADIATOR = plain_build\<lparr>PRECISION_TIMER := 100, TRIACK := True, TRIACK_ON_OFF := True,
     TRIACK_ON_OFF_PUISSANCE := 9000, TRIACK_ON_OFF_INVERSE := True, HALF_SIN := True, HALF_SIN_NEG := True\<rparr>"

definition build_METEO :: build where
  "build_METEO = plain_build\<lparr>SLEEP := True, METEO := True, ON_BATTERY := True\<rparr>"

definition build_METEO_ADS786X :: build where
  "build_METEO_ADS786X = build_METEO\<lparr>ADS786x := True\<rparr>"

definition build_SWITCH_PCF8885 :: build where
  "build_SWITCH_PCF8885 = plain_build\<lparr>SLEEP := True, PCF8885 := True, SWITCH_ONLY := True, ON_BATTERY := True\<rparr>"

definition build_PWM_12V_AND_SWITCH_PCF8885 :: build where
  "build_PWM_12V_AND_SWITCH_PCF8885 = build_PWM_12V\<lparr>PCF8885 := True\<rparr>"

text \<open>\<open>PWM_SCALL_SLOW\<close>, which no build sets.\<close>

definition PWM_SCALL_SLOW :: "build \<Rightarrow> u32" where
  "PWM_SCALL_SLOW b = PWM_SCALL b * 4"

section \<open>Reports\<close>

datatype sensor_type_t =
    TEMPERATURE | TEMPERATURE_MIN | TEMPERATURE_MAX | CURRENT | POWER | HUMIDITY | LIGHT | VOLTAGE
  | BATTERY | PRESSURE | SPEED | DIRECTION | ICON | SWITCH | POURCENT

fun sensor_code :: "sensor_type_t \<Rightarrow> nat" where
  "sensor_code TEMPERATURE = 0" | "sensor_code TEMPERATURE_MIN = 1" | "sensor_code TEMPERATURE_MAX = 2"
| "sensor_code CURRENT = 3" | "sensor_code POWER = 4" | "sensor_code HUMIDITY = 5"
| "sensor_code LIGHT = 6" | "sensor_code VOLTAGE = 7" | "sensor_code BATTERY = 8"
| "sensor_code PRESSURE = 9" | "sensor_code SPEED = 10" | "sensor_code DIRECTION = 11"
| "sensor_code ICON = 12" | "sensor_code SWITCH = 13" | "sensor_code POURCENT = 14"

text \<open>A call of \<open>send_paquet_sensor(ID(topic), type, val, retain, name)\<close>; texts without terminator.\<close>

record report =
  rp_topic :: bytes
  rp_type :: sensor_type_t
  rp_val :: int
  rp_retain :: int
  rp_name :: "bytes option"

text \<open>String literals as bytes.\<close>

definition chars :: "string \<Rightarrow> bytes" where
  "chars s = map of_char s"

section \<open>Pins of the interrupts\<close>

definition RECEIVEGPIO_STORE :: nat where "RECEIVEGPIO_STORE = 12"
definition RECEIVEGPIO_ZERO_CROSS :: nat where "RECEIVEGPIO_ZERO_CROSS = 4"
definition RECEIVEGPIO_IRQ_PCF8885 :: nat where "RECEIVEGPIO_IRQ_PCF8885 = 13"

section \<open>The device\<close>

text \<open>
  \<open>pwm_on\<close> are the static variables \<open>on\<close> of \<open>timerPwm1\<close> and \<open>timerPwm2\<close>; \<open>num_mesure\<close> and
  \<open>mesure_sum\<close> those of \<open>timerMesureSampleAdc\<close>. An SDK timer is the function and the period it is armed with;
  \<open>irq_store\<close> says that the shutter's sensor interrupt is enabled, \<open>deep_sleep\<close> for how many
  microseconds the chip was sent to sleep, from which it wakes up by a reset, and \<open>disconnect_ignored\<close> that \<open>DisconnectMQTT\<close> has replaced the
  client's callback for a lost connection by the empty \<open>diconnectedCB\<close>. The code names \<open>t_sleep\<close> also \<open>echelle\<close>.
\<close>

datatype timer_call = Call_DisconnectMQTT | Call_go_sleep | Call_pcf8885func | Call_timer_mesure_handler

record device =
  puissance_triac :: int
  timer_triack_on :: bool
  puissance_pwm :: "u32 list"
  pwm_on :: "bool list"
  niveau :: int
  consinge :: int
  niveau_100 :: int
  echelle :: u32
  timer_timout_store :: "nat option"
  timer_0V :: "nat option"
  timer_DisconnectMQTT :: "(timer_call \<times> nat) option"
  timer_mesure :: "(timer_call \<times> nat) option"
  timer_time_out_connection :: "nat option"
  irq_store :: bool
  pins :: "nat \<Rightarrow> bool"
  TLI4970_is_enable :: nat
  temp_from_zero_cross :: u32
  num_mesure :: u32
  mesure_sum :: int
  moyen_power :: int
  old_stat_switch :: u8
  ubat :: int
  disconnect_ignored :: bool
  deep_sleep :: "u32 option"
  timers :: timers
  reports :: "report list"

definition set_pin :: "nat \<Rightarrow> bool \<Rightarrow> device \<Rightarrow> device" where
  "set_pin n v d = d\<lparr>pins := (pins d)(n := v)\<rparr>"

definition send_report :: "report \<Rightarrow> device \<Rightarrow> device" where
  "send_report r d = d\<lparr>reports := reports d @ [r]\<rparr>"

text \<open>An operation of the timer table.\<close>

definition on_timers :: "(timers \<Rightarrow> timers option) \<Rightarrow> device \<Rightarrow> device option" where
  "on_timers f d = do { t \<leftarrow> f (timers d); Some (d\<lparr>timers := t\<rparr>) }"

text \<open>\<open>puissance_pwm[l]=v\<close>\<close>

definition set_pwm :: "nat \<Rightarrow> u32 \<Rightarrow> device \<Rightarrow> device option" where
  "set_pwm l v d = do { ps \<leftarrow> store (puissance_pwm d) l v; Some (d\<lparr>puissance_pwm := ps\<rparr>) }"

end
