(* ===== verification/Shutter.thy ===== *)
theory Shutter
  imports Device_State
begin

text \<open>
  The roller shutter of the \<open>STORE\<close> build: the set point arrives by MQTT, a Hall sensor
  interrupt counts motor turns and stops the motor, and a timer stops a blocked motor.
\<close>

section \<open>Model\<close>

text \<open>C division of signed integers.\<close>

definition div_s32 :: "int \<Rightarrow> int \<Rightarrow> int option" where
  "div_s32 x y = (if y = 0 then None else s32 (x sdiv y))"

text \<open>\<open>(signed int)niveau*100/(signed int)echelle\<close>\<close>

definition niveau_pourcent :: "device \<Rightarrow> int option" where
  "niveau_pourcent d = do { x \<leftarrow> s32 (niveau d * 100); div_s32 x (sint (echelle d)) }"

definition report_niveau :: "device \<Rightarrow> report" where
  "report_niveau d = \<lparr>rp_topic = chars ''/sensors/switch/'', rp_type = SWITCH, rp_val = niveau_100 d,
     rp_retain = 0, rp_name = Some (chars ''_MsenS_'')\<rparr>"

text \<open>
  \<open>3*echelle/100\<close> is unsigned, and so are the comparisons with it: \<open>delta\<close> is converted.
\<close>

definition near :: "device \<Rightarrow> u32" where
  "near d = 3 * echelle d div 100"

definition store_motor_down :: "build \<Rightarrow> int \<Rightarrow> device \<Rightarrow> device option" where
  "store_motor_down b delta d = do {
     p \<leftarrow> load (puissance_pwm d) 0;
     if p = 0 then Some d
     else if delta \<ge> 0 then do {
       d \<leftarrow> set_pwm 0 0 d;
       Some (if TRIACK b then d\<lparr>puissance_triac := 0\<rparr> else d)
     }
     else if word_of_int delta < - near d then set_pwm 0 100 d
     else set_pwm 0 P_MIN_STORE_DOWN d
   }"

definition store_motor_up :: "build \<Rightarrow> int \<Rightarrow> device \<Rightarrow> device option" where
  "store_motor_up b delta d = do {
     p \<leftarrow> load (puissance_pwm d) 1;
     if p = 0 then Some d
     else if delta \<le> 0 then do {
       d \<leftarrow> set_pwm 1 0 d;
       Some (if TRIACK b then d\<lparr>puissance_triac := 0\<rparr> else d)
     }
     else if word_of_int delta > near d then set_pwm 1 100 d
     else set_pwm 1 P_MIN_STORE_UP d
   }"

text \<open>
  Counting a turn. The sensor build has \<open>STORE_DIR_SENSOR\<close> as negation: a low direction input
  counts upwards. A turn in the direction of the set point restarts the timeout.
\<close>

definition store_count :: "bool \<Rightarrow> device \<Rightarrow> device option" where
  "store_count dir d =
     (if \<not> dir then do {
        let d = (if niveau d < consinge d then d\<lparr>timer_timout_store := Some TIMOUT_STORE\<rparr> else d);
        n \<leftarrow> s32 (niveau d + 1);
        Some (d\<lparr>niveau := n\<rparr>)
      } else do {
        let d = (if niveau d > consinge d then d\<lparr>timer_timout_store := Some TIMOUT_STORE\<rparr> else d);
        n \<leftarrow> s32 (niveau d - 1);
        Some (d\<lparr>niveau := n\<rparr>)
      })"

definition store_level :: "device \<Rightarrow> device option" where
  "store_level d = do {
     n \<leftarrow> niveau_pourcent d;
     let n = (if n > 100 then 100 else if n < 0 then 0 else n);
     if n \<noteq> niveau_100 d then
       (let d = d\<lparr>niveau_100 := n\<rparr> in Some (send_report (report_niveau d) d))
     else Some d
   }"

text \<open>The interrupt; \<open>hall\<close> and \<open>dir\<close> are the levels of the two sensor inputs.\<close>

definition storeIRQ :: "build \<Rightarrow> bool \<Rightarrow> bool \<Rightarrow> device \<Rightarrow> device option" where
  "storeIRQ b hall dir d = do {
     delta \<leftarrow> s32 (consinge d - niveau d);
     d \<leftarrow> store_motor_down b delta d;
     d \<leftarrow> store_motor_up b delta d;
     if \<not> hall then do { d \<leftarrow> store_count dir d; store_level d } else Some d
   }"

text \<open>
  The timeout: a motor still running is taken to be blocked at the set point. The percentage it
  computes is not used; the report carries the old one.
\<close>

definition timeout_store :: "build \<Rightarrow> device \<Rightarrow> device option" where
  "timeout_store b d = do {
     let d = d\<lparr>timer_timout_store := None\<rparr>;
     p0 \<leftarrow> load (puissance_pwm d) 0;
     p1 \<leftarrow> load (puissance_pwm d) 1;
     d \<leftarrow> (if p0 \<noteq> 0 \<or> p1 \<noteq> 0 then do {
            d \<leftarrow> set_pwm 0 0 d;
            d \<leftarrow> set_pwm 1 0 d;
            Some (d\<lparr>niveau := (if niveau d < consinge d
              then sint (word_of_int (consinge d) + echelle d div 500)
              else sint (word_of_int (consinge d) - echelle d div 500))\<rparr>)
          } else Some d);
     let d = (if TRIACK b then d\<lparr>puissance_triac := 0\<rparr> else d);
     n \<leftarrow> niveau_pourcent d;
     Some (send_report (report_niveau d) d)
   }"

text \<open>
  The \<open>STORE\<close> part of \<open>mqttDataCb\<close>. \<open>data\<close> is the memory from the payload pointer on, if that
  is not null.
\<close>

definition store_data :: "build \<Rightarrow> bytes option \<Rightarrow> device \<Rightarrow> device option" where
  "store_data b data d = do {
     data \<leftarrow> data;
     cmd \<leftarrow> load data 0;
     if cmd \<noteq> of_char (CHR ''S'') then Some d else do {
       v \<leftarrow> load data 1;
       let val_100 = (if unat v > 100 then 100 else unat v);
       let d = d\<lparr>consinge := sint (of_nat val_100 * echelle d div 100)\<rparr>;
       delta \<leftarrow> s32 (consinge d - niveau d);
       if delta > 0 then do {
         d \<leftarrow> set_pwm 0 0 (d\<lparr>timer_timout_store := Some TIMOUT_STORE_START\<rparr>);
         d \<leftarrow> set_pwm 1 100 d;
         Some (if TRIACK b then d\<lparr>puissance_triac := PUISSANCE_MAX\<rparr> else d)
       }
       else if delta < 0 then do {
         d \<leftarrow> set_pwm 0 100 (d\<lparr>timer_timout_store := Some TIMOUT_STORE_START\<rparr>);
         d \<leftarrow> set_pwm 1 0 d;
         Some (if TRIACK b then d\<lparr>puissance_triac := PUISSANCE_MAX\<rparr> else d)
       }
       else do {
         d \<leftarrow> set_pwm 0 0 d;
         d \<leftarrow> set_pwm 1 0 d;
         Some (if TRIACK b then d\<lparr>puissance_triac := 0\<rparr> else d)
       }
     }
   }"

section \<open>The motor\<close>

inductive shutter_step :: "build \<Rightarrow> device \<Rightarrow> device \<Rightarrow> bool" for b where
  command: "store_data b data d = Some d' \<Longrightarrow> shutter_step b d d'"
| turn: "storeIRQ b hall dir d = Some d' \<Longrightarrow> shutter_step b d d'"
| timeout: "timer_timout_store d = Some ms \<Longrightarrow> timeout_store b d = Some d' \<Longrightarrow> shutter_step b d d'"

inductive_cases shutter_stepE: "shutter_step b d d'"

lemmas pwm_access = set_pwm_def load_def store_def

text \<open>
  At most one direction is powered, and the triac of the motor supply is on exactly while one is.
\<close>

definition motor_ok :: "device \<Rightarrow> bool" where
  "motor_ok d = (case puissance_pwm d of
     [down, up] \<Rightarrow> (down = 0 \<or> up = 0) \<and>
       puissance_triac d = (if down = 0 \<and> up = 0 then 0 else PUISSANCE_MAX)
   | _ \<Rightarrow> False)"

lemma motor_ok_simps [simp]:
  "motor_ok (d\<lparr>niveau := n\<rparr>) = motor_ok d" "motor_ok (d\<lparr>consinge := n\<rparr>) = motor_ok d"
  "motor_ok (d\<lparr>niveau_100 := n\<rparr>) = motor_ok d" "motor_ok (d\<lparr>timer_timout_store := t\<rparr>) = motor_ok d"
  "motor_ok (send_report r d) = motor_ok d"
  by (simp_all add: motor_ok_def send_report_def split: list.splits)

definition powered :: "device \<Rightarrow> u32 \<Rightarrow> u32 \<Rightarrow> int \<Rightarrow> device" where
  "powered d down up triac = d\<lparr>puissance_pwm := [down, up], puissance_triac := triac\<rparr>"

lemma motor_ok_powered [simp]:
  "motor_ok (powered d down up t) = ((down = 0 \<or> up = 0) \<and> t = (if down = 0 \<and> up = 0 then 0 else PUISSANCE_MAX))"
  by (simp add: motor_ok_def powered_def)

lemma motor_ok_cases:
  assumes "motor_ok d"
  obtains down up where "puissance_pwm d = [down, up]" "down = 0 \<or> up = 0"
    "puissance_triac d = (if down = 0 \<and> up = 0 then 0 else PUISSANCE_MAX)"
  using assms by (auto simp: motor_ok_def split: list.splits)

lemma motor_down_eq:
  assumes "puissance_pwm d = [x, y]" and "TRIACK b"
  shows "store_motor_down b delta d = Some (if x = 0 then d
    else if delta \<ge> 0 then powered d 0 y 0
    else powered d (if word_of_int delta < - near d then 100 else P_MIN_STORE_DOWN) y (puissance_triac d))"
  using assms by (simp add: store_motor_down_def pwm_access powered_def)

lemma motor_up_eq:
  assumes "puissance_pwm d = [x, y]" and "TRIACK b"
  shows "store_motor_up b delta d = Some (if y = 0 then d
    else if delta \<le> 0 then powered d x 0 0
    else powered d x (if word_of_int delta > near d then 100 else P_MIN_STORE_UP) (puissance_triac d))"
  using assms by (simp add: store_motor_up_def pwm_access powered_def)

lemma motor_down_ok:
  "store_motor_down b delta d = Some d' \<Longrightarrow> TRIACK b \<Longrightarrow> motor_ok d \<Longrightarrow> motor_ok d'"
  by (erule motor_ok_cases) (auto simp: motor_down_eq motor_ok_def powered_def P_MIN_STORE_DOWN_def split: if_splits)

lemma motor_up_ok:
  "store_motor_up b delta d = Some d' \<Longrightarrow> TRIACK b \<Longrightarrow> motor_ok d \<Longrightarrow> motor_ok d'"
  by (erule motor_ok_cases) (auto simp: motor_up_eq motor_ok_def powered_def P_MIN_STORE_UP_def split: if_splits)

lemma store_count_ok: "store_count dir d = Some d' \<Longrightarrow> motor_ok d \<Longrightarrow> motor_ok d'"
  by (auto simp: store_count_def Let_def bind_eq_Some_conv split: if_splits)

lemma store_level_ok: "store_level d = Some d' \<Longrightarrow> motor_ok d \<Longrightarrow> motor_ok d'"
  by (auto simp: store_level_def Let_def bind_eq_Some_conv split: if_splits)

lemma storeIRQ_ok: "storeIRQ b hall dir d = Some d' \<Longrightarrow> TRIACK b \<Longrightarrow> motor_ok d \<Longrightarrow> motor_ok d'"
  by (auto simp: storeIRQ_def bind_eq_Some_conv split: if_splits
    dest: motor_down_ok motor_up_ok store_count_ok store_level_ok)

lemma timeout_ok:
  assumes r: "timeout_store b d = Some d'" and b: "TRIACK b" and d: "motor_ok d"
  shows "motor_ok d'"
proof -
  obtain x y where p: "puissance_pwm d = [x, y]" using d by (rule motor_ok_cases)
  have "\<exists>d1. d' = send_report (report_niveau d1) d1 \<and> puissance_pwm d1 = [0, 0] \<and> puissance_triac d1 = 0"
  proof (cases "x = 0 \<and> y = 0")
    case True
    let ?d = "d\<lparr>timer_timout_store := None, puissance_triac := 0\<rparr>"
    from r b p True have "d' = send_report (report_niveau ?d) ?d"
      by (simp add: timeout_store_def pwm_access bind_eq_Some_conv Let_def)
    then show ?thesis using p True by (intro exI [of _ ?d]) simp
  next
    case False
    let ?n = "if niveau d < consinge d then sint (word_of_int (consinge d) + echelle d div 500)
      else sint (word_of_int (consinge d) - echelle d div 500)"
    let ?d = "d\<lparr>timer_timout_store := None, puissance_pwm := [0, 0], niveau := ?n, puissance_triac := 0\<rparr>"
    from r b p False have "d' = send_report (report_niveau ?d) ?d"
      by (auto simp: timeout_store_def pwm_access bind_eq_Some_conv Let_def split: if_splits)
    then show ?thesis by (intro exI [of _ ?d]) simp
  qed
  then show ?thesis by (auto simp: motor_ok_def send_report_def)
qed

lemma store_data_eq:
  assumes "puissance_pwm d = [x, y]" and "TRIACK b" and "load m 0 = Some 0x53" and "load m 1 = Some v"
    and "c = sint (of_nat (if unat v > 100 then 100 else unat v) * echelle d div 100)"
  shows "store_data b (Some m) d = do {
    delta \<leftarrow> s32 (c - niveau d);
    Some (if delta > 0 then powered (d\<lparr>consinge := c, timer_timout_store := Some TIMOUT_STORE_START\<rparr>) 0 100 PUISSANCE_MAX
      else if delta < 0 then powered (d\<lparr>consinge := c, timer_timout_store := Some TIMOUT_STORE_START\<rparr>) 100 0 PUISSANCE_MAX
      else powered (d\<lparr>consinge := c\<rparr>) 0 0 0) }"
  using assms(1-4) unfolding assms(5)
  by (cases "s32 (sint (of_nat (if unat v > 100 then 100 else unat v) * echelle d div 100) - niveau d)")
    (simp_all add: store_data_def set_pwm_def store_def powered_def Let_def)

lemma store_data_ok:
  assumes r: "store_data b data d = Some d'" and b: "TRIACK b" and d: "motor_ok d"
  shows "motor_ok d'"
proof -
  obtain x y where p: "puissance_pwm d = [x, y]" using d by (rule motor_ok_cases)
  obtain m c where m: "data = Some m" "load m 0 = Some c" using r by (auto simp: store_data_def bind_eq_Some_conv)
  show ?thesis
  proof (cases "c = 0x53")
    case False
    with r m d show ?thesis by (simp add: store_data_def)
  next
    case True
    with r m obtain v where v: "load m 1 = Some v" by (auto simp: store_data_def bind_eq_Some_conv)
    from r show ?thesis
      unfolding m(1) store_data_eq [OF p b m(2) [unfolded True] v refl]
      by (auto simp: bind_eq_Some_conv PUISSANCE_MAX_def)
  qed
qed

inductive shutter_run :: "build \<Rightarrow> device \<Rightarrow> device \<Rightarrow> bool" for b d where
  start: "shutter_run b d d"
| step: "shutter_run b d d' \<Longrightarrow> shutter_step b d' d'' \<Longrightarrow> shutter_run b d d''"


text \<open>A shutter at level 0 of 1000 turns, told to open to 50 percent.\<close>

definition example_shutter :: device where
  "example_shutter = \<lparr>puissance_triac = 0, timer_triack_on = False, puissance_pwm = [0, 0],
     pwm_on = [False, False], niveau = 0, consinge = 0, niveau_100 = 0, echelle = 1000,
     timer_timout_store = None, timer_0V = None, timer_DisconnectMQTT = None, timer_mesure = None, timer_time_out_connection = None, irq_store = False, pins = (\<lambda>_. False),
     TLI4970_is_enable = 0, temp_from_zero_cross = 0, num_mesure = 0, mesure_sum = 0, moyen_power = 0, old_stat_switch = 0, ubat = 0,
     disconnect_ignored = False, deep_sleep = None,
     timers = \<lparr>tab_callback_time = [], tm_us = 100, tm_ticks = 495\<rparr>, reports = []\<rparr>"

definition example_opening :: device where
  "example_opening = the (store_data build_STORE (Some [0x53, 50]) example_shutter)"

lemma example_opening:
  "store_data build_STORE (Some [0x53, 50]) example_shutter = Some example_opening"
  "puissance_pwm example_opening = [0, 100]" "niveau example_opening = 0" "consinge example_opening = 500"
  "echelle example_opening = 1000" "puissance_triac example_opening = PUISSANCE_MAX"
  unfolding example_opening_def
  by (simp_all add: store_data_def example_shutter_def load_def set_pwm_def store_def build_STORE_def
    plain_build_def Let_def)


section \<open>Arriving at the set point\<close>

lemma sdiv_pos: "0 \<le> (x :: int) \<Longrightarrow> 0 < y \<Longrightarrow> x sdiv y = x div y"
  by (cases "x = 0") (simp_all add: signed_divide_int_def)

lemma pourcent_total:
  assumes "0 \<le> niveau d" and "niveau d \<le> 21474836" and "0 < sint (echelle d)"
  shows "niveau_pourcent d = Some (niveau d * 100 div sint (echelle d))"
proof -
  have "0 \<le> niveau d * 100 div sint (echelle d)" using assms by (intro pos_imp_zdiv_nonneg_iff [THEN iffD2]) simp_all
  moreover have "niveau d * 100 div sint (echelle d) \<le> niveau d * 100"
    using zdiv_mono2 [of "niveau d * 100" 1 "sint (echelle d)"] assms by simp
  ultimately show ?thesis using assms by (simp add: niveau_pourcent_def div_s32_def sdiv_pos)
qed

lemma store_level_keeps:
  assumes "0 \<le> niveau d" and "niveau d \<le> 21474836" and "0 < sint (echelle d)"
  shows "\<exists>n rs. store_level d = Some (d\<lparr>niveau_100 := n, reports := rs\<rparr>)"
proof -
  let ?n = "niveau d * 100 div sint (echelle d)"
  let ?m = "if ?n > 100 then 100 else if ?n < 0 then 0 else ?n"
  show ?thesis
  proof (cases "?m = niveau_100 d")
    case True
    then have "store_level d = Some (d\<lparr>niveau_100 := niveau_100 d, reports := reports d\<rparr>)"
      by (simp add: store_level_def pourcent_total [OF assms] Let_def)
    then show ?thesis by blast
  next
    case False
    then show ?thesis by (auto simp: store_level_def pourcent_total [OF assms] Let_def send_report_def)
  qed
qed

text \<open>The motor opens and the numbers are in range.\<close>

definition is_opening :: "device \<Rightarrow> bool" where
  "is_opening d \<longleftrightarrow> (\<exists>p. puissance_pwm d = [0, p] \<and> p \<noteq> 0) \<and> 0 \<le> niveau d \<and> consinge d < 21474836 \<and>
     0 < sint (echelle d)"

lemma turn_opens:
  assumes "is_opening d" and "TRIACK b" and "niveau d < consinge d"
  shows "\<exists>d'. storeIRQ b False False d = Some d' \<and> is_opening d' \<and> niveau d' = niveau d + 1 \<and>
    consinge d' = consinge d \<and> timer_timout_store d' = Some TIMOUT_STORE"
proof -
  obtain p where p: "puissance_pwm d = [0, p]" "p \<noteq> 0" and r: "0 \<le> niveau d" "consinge d < 21474836" "0 < sint (echelle d)"
    using assms(1) by (auto simp: is_opening_def)
  let ?delta = "consinge d - niveau d"
  let ?q = "if word_of_int ?delta > near d then 100 else P_MIN_STORE_UP"
  let ?d1 = "powered d 0 ?q (puissance_triac d)"
  let ?d2 = "?d1\<lparr>niveau := niveau d + 1, timer_timout_store := Some TIMOUT_STORE\<rparr>"
  have m: "store_motor_down b ?delta d = Some d" "store_motor_up b ?delta d = Some ?d1"
    using p assms(2,3) by (simp_all add: motor_down_eq motor_up_eq)
  have c: "store_count False ?d1 = Some ?d2"
    using assms(3) r by (simp add: store_count_def powered_def Let_def)
  obtain n rs where l: "store_level ?d2 = Some (?d2\<lparr>niveau_100 := n, reports := rs\<rparr>)"
    using store_level_keeps [of ?d2] r assms(3) by (auto simp: powered_def)
  have "storeIRQ b False False d = Some (?d2\<lparr>niveau_100 := n, reports := rs\<rparr>)"
    unfolding storeIRQ_def using assms(3) r m c l by simp
  then show ?thesis using r by (auto simp: is_opening_def powered_def P_MIN_STORE_UP_def)
qed

lemma turn_stops:
  assumes "is_opening d" and "TRIACK b" and "niveau d = consinge d"
  shows "\<exists>d'. storeIRQ b False False d = Some d' \<and> puissance_pwm d' = [0, 0] \<and> puissance_triac d' = 0 \<and>
    niveau d' = consinge d + 1"
proof -
  obtain p where p: "puissance_pwm d = [0, p]" "p \<noteq> 0" and r: "0 \<le> niveau d" "consinge d < 21474836" "0 < sint (echelle d)"
    using assms(1) by (auto simp: is_opening_def)
  let ?d1 = "powered d 0 0 0"
  let ?d2 = "?d1\<lparr>niveau := niveau d + 1\<rparr>"
  have m: "store_motor_down b 0 d = Some d" "store_motor_up b 0 d = Some ?d1"
    using p assms(2) by (simp_all add: motor_down_eq motor_up_eq)
  have c: "store_count False ?d1 = Some ?d2"
    using assms(3) r by (simp add: store_count_def powered_def Let_def)
  obtain n rs where l: "store_level ?d2 = Some (?d2\<lparr>niveau_100 := n, reports := rs\<rparr>)"
    using store_level_keeps [of ?d2] r assms(3) by (auto simp: powered_def)
  have "storeIRQ b False False d = Some (?d2\<lparr>niveau_100 := n, reports := rs\<rparr>)"
    unfolding storeIRQ_def using assms(3) m c l by simp
  then show ?thesis using assms(3) by (auto simp: powered_def)
qed

text \<open>\<open>n\<close> turns of the motor in the opening direction.\<close>

fun opening_turns :: "build \<Rightarrow> nat \<Rightarrow> device \<Rightarrow> device option" where
  "opening_turns b 0 d = Some d"
| "opening_turns b (Suc n) d = do { d \<leftarrow> storeIRQ b False False d; opening_turns b n d }"



end
