(* ===== verification/Dimmer.thy ===== *)
theory Dimmer
  imports Shutter
begin

text \<open>
  Power control: the PWM outputs, the triac that is fired a delay after each zero crossing of
  the mains, the relay, the power meter, and the MQTT data callback that sets them.
\<close>

section \<open>PWM outputs\<close>

text \<open>
  \<open>timerPwm1\<close> and \<open>timerPwm2\<close> are the same code for the outputs 0 and 1; \<open>f\<close> is the function
  itself. Powers below 10 and above 90 run on the slow scale.
\<close>

definition pwm_scale :: "build \<Rightarrow> u32 \<Rightarrow> u32" where
  "pwm_scale b p = (if p > 90 \<or> p < 10 then PWM_SCALL_SLOW b else PWM_SCALL b)"

definition set_pwm_on :: "nat \<Rightarrow> bool \<Rightarrow> device \<Rightarrow> device option" where
  "set_pwm_on l v d = do { on \<leftarrow> store (pwm_on d) l v; Some (d\<lparr>pwm_on := on\<rparr>) }"

definition timerPwm :: "build \<Rightarrow> nat \<Rightarrow> t_call_back \<Rightarrow> device \<Rightarrow> device option" where
  "timerPwm b l f d = do {
     p \<leftarrow> load (puissance_pwm d) l;
     pin \<leftarrow> load (BIT_PWM b) l;
     on \<leftarrow> load (pwm_on d) l;
     if p < 2 then on_timers (timer_change 10000 f) (set_pin pin False d)
     else if p > 98 then on_timers (timer_change 10000 f) (set_pin pin True d)
     else if on then do {
       d \<leftarrow> set_pwm_on l False d;
       on_timers (timer_change ((100 - p) * pwm_scale b p) f) (set_pin pin False d)
     }
     else do {
       d \<leftarrow> set_pwm_on l True d;
       on_timers (timer_change (p * pwm_scale b p) f) (set_pin pin True d)
     }
   }"

definition timerPwm1 :: "build \<Rightarrow> device \<Rightarrow> device option" where
  "timerPwm1 b = timerPwm b 0 CB_timerPwm1"

definition timerPwm2 :: "build \<Rightarrow> device \<Rightarrow> device option" where
  "timerPwm2 b = timerPwm b 1 CB_timerPwm2"

section \<open>Triac\<close>

definition timerEnableTriack :: "device \<Rightarrow> device option" where
  "timerEnableTriack d = Some (set_pin BIT_TRIAC True d)"

definition timerDisableTriack :: "device \<Rightarrow> device option" where
  "timerDisableTriack d = on_timers (timer_change 1000000 CB_timerDisableTriack) (set_pin BIT_TRIAC False d)"

text \<open>The current sensor's supply is pin 16 (low is on), its chip select pin 2.\<close>

definition TLI4970_enable :: "device \<Rightarrow> device" where
  "TLI4970_enable d = set_pin 2 True (set_pin 16 False d)"

definition TLI4970_disable :: "device \<Rightarrow> device" where
  "TLI4970_disable d = set_pin 16 True (set_pin 2 False d)"

definition triac_timer_off :: "device \<Rightarrow> device option" where
  "triac_timer_off d =
     (if timer_triack_on d then do {
        d \<leftarrow> on_timers (timer_remove_callback CB_timerEnableTriack) d;
        Some (d\<lparr>timer_triack_on := False\<rparr>)
      } else Some d)"

text \<open>
  \<open>ZeroCross\<close>: the version of the half-wave builds, and the one that fires the triac
  \<open>10000 - puissance_triac\<close> microseconds after the zero crossing.
\<close>

definition ZeroCross_half :: "device \<Rightarrow> device option" where
  "ZeroCross_half d = do {
     let d = (if puissance_triac d > 0 then set_pin BIT_TRIAC True d else d);
     d \<leftarrow> on_timers (timer_change 9000 CB_timerDisableTriack) d;
     on_timers (timer_change 100000 CB_ZeroCross) d
   }"

definition ZeroCross_sensor :: "build \<Rightarrow> device \<Rightarrow> device" where
  "ZeroCross_sensor b d =
     (if \<not> TLI4970_ENABLE b then d
      else if puissance_triac d > 0 then
        (if TLI4970_is_enable d = 0 then (TLI4970_enable d)\<lparr>TLI4970_is_enable := 1\<rparr> else d)
      else d\<lparr>TLI4970_is_enable := 0\<rparr>)"

definition ZeroCross_full :: "build \<Rightarrow> device \<Rightarrow> device option" where
  "ZeroCross_full b d = do {
     let d = ZeroCross_sensor b d;
     if puissance_triac d \<ge> PUISSANCE_MAX then do {
       d \<leftarrow> triac_timer_off d;
       Some (set_pin BIT_TRIAC True d)
     }
     else if puissance_triac d > 0 then do {
       let d = set_pin BIT_TRIAC False d;
       let delay = word_of_int (10000 - puissance_triac d);
       if timer_triack_on d then on_timers (timer_change delay CB_timerEnableTriack) d
       else do {
         d \<leftarrow> on_timers (timer_add_callback delay CB_timerEnableTriack) d;
         Some (d\<lparr>timer_triack_on := True\<rparr>)
       }
     }
     else do {
       d \<leftarrow> triac_timer_off d;
       Some (set_pin BIT_TRIAC False d)
     }
   }"

definition ZeroCross :: "build \<Rightarrow> device \<Rightarrow> device option" where
  "ZeroCross b d = (if HALF_SIN b then ZeroCross_half d else ZeroCross_full b d)"

definition timerZeroCross :: "build \<Rightarrow> device \<Rightarrow> device option" where
  "timerZeroCross b d = do {
     d \<leftarrow> on_timers (timer_change 10000 CB_timerZeroCross) d;
     ZeroCross b d
   }"

definition ZeroCrossIRQ :: "build \<Rightarrow> device \<Rightarrow> device option" where
  "ZeroCrossIRQ b d = do {
     let d = d\<lparr>temp_from_zero_cross := 0\<rparr>;
     d \<leftarrow> (if HALF_SIN b then
            (if HALF_SIN_NEG b then on_timers (timer_change 19800 CB_ZeroCross) d
             else on_timers (timer_change 9800 CB_ZeroCross) d)
          else on_timers (timer_change 9800 CB_timerZeroCross) d);
     Some (if DETECT_0V b then d\<lparr>timer_0V := Some 45\<rparr> else d)
   }"

text \<open>The mains is off: no zero crossing for 45 ms.\<close>

definition no_zero_cross :: "device \<Rightarrow> device" where
  "no_zero_cross d =
     (let r = (\<lambda>v n. \<lparr>rp_topic = chars ''/sensors/switch/'', rp_type = SWITCH, rp_val = v,
                rp_retain = 0, rp_name = Some (chars n)\<rparr>)
      in (send_report (r 0 ''_sensor'') (send_report (r 100 ''_1'') d))\<lparr>timer_0V := None\<rparr>)"

section \<open>The power meter\<close>

text \<open>\<open>tab_sin\<close>: a period of the mains voltage in volts, in 40 samples.\<close>

definition tab_sin :: "int list" where
  "tab_sin = [0, 50, 100, 147, 191, 229, 263, 289, 309, 321, 325, 321, 309, 289, 263, 229, 191, 147,
     100, 50, 0, -50, -100, -147, -191, -229, -263, -289, -309, -321, -325, -321, -309, -289, -263,
     -229, -191, -147, -100, -50]"

definition NB_MESURE_ADC_BEFOR_SEND :: u32 where "NB_MESURE_ADC_BEFOR_SEND = 2000"

text \<open>\<open>TLI4970_get_curent\<close>: \<open>reply\<close> is what the SPI transaction returns; milliamperes.\<close>

definition TLI4970_get_curent :: "u32 \<Rightarrow> int option" where
  "TLI4970_get_curent reply =
     (if bit reply 15 then Some 0 else div_s32 ((uint (reply AND 0x1FFF) - 0x1000) * 25) 2)"

text \<open>
  \<open>timerMesureSampleAdc\<close>: \<open>active\<close> is \<open>StationName[0] && mqttIsConected()\<close>. A \<open>long int\<close> has
  32 bits.
\<close>

definition meter_read :: "u32 \<Rightarrow> device \<Rightarrow> (int \<times> device) option" where
  "meter_read reply d =
     (if TLI4970_is_enable d \<noteq> 0 then
        (if TLI4970_is_enable d = 2 then do { v \<leftarrow> TLI4970_get_curent reply; Some (v, d) }
         else Some (0, d\<lparr>TLI4970_is_enable := 2\<rparr>))
      else Some (0, TLI4970_disable d))"

definition meter_sample :: "int \<Rightarrow> device \<Rightarrow> device option" where
  "meter_sample val d = do {
     let t = temp_from_zero_cross d + 1;
     let t = (if t \<ge> 40 then 0 else t);
     volt \<leftarrow> load tab_sin (unat t);
     x \<leftarrow> s32 (val * volt);
     sum \<leftarrow> s32 (mesure_sum d + x);
     let n = num_mesure d + 1;
     let d = d\<lparr>temp_from_zero_cross := t, num_mesure := n, mesure_sum := sum\<rparr>;
     if n \<ge> NB_MESURE_ADC_BEFOR_SEND then do {
       m \<leftarrow> div_s32 sum (uint NB_MESURE_ADC_BEFOR_SEND);
       Some (d\<lparr>num_mesure := 0, mesure_sum := 0, moyen_power := m\<rparr>)
     } else Some d
   }"

definition timerMesureSampleAdc :: "bool \<Rightarrow> u32 \<Rightarrow> device \<Rightarrow> device option" where
  "timerMesureSampleAdc active reply d =
     (if \<not> active then Some d else do { (val, d) \<leftarrow> meter_read reply d; meter_sample val d })"

text \<open>\<open>time_send_mesures\<close>: the last mean value.\<close>

definition time_send_mesures :: "device \<Rightarrow> device" where
  "time_send_mesures d = send_report \<lparr>rp_topic = chars ''/sensors/powers/'', rp_type = POWER,
     rp_val = moyen_power d, rp_retain = 0, rp_name = None\<rparr> d"

section \<open>The data callback\<close>

text \<open>The payload: memory from its pointer on, if that is not null. \<open>char\<close> is unsigned.\<close>

definition byte_of :: "bytes option \<Rightarrow> nat \<Rightarrow> u8 option" where
  "byte_of data i = do { m \<leftarrow> data; load m i }"

definition triac_data :: "build \<Rightarrow> bytes option \<Rightarrow> device \<Rightarrow> device option" where
  "triac_data b data d = do {
     cmd \<leftarrow> byte_of data 0;
     if cmd = of_char (CHR ''S'') then do {
       v \<leftarrow> byte_of data 1;
       Some (d\<lparr>puissance_triac :=
         (if TRIACK_ON_OFF_INVERSE b then (if v > 0 then 0 else TRIACK_ON_OFF_PUISSANCE b)
          else if v > 0 then
            (if TRIACK_ON_OFF b then TRIACK_ON_OFF_PUISSANCE b
             else if unat v \<ge> 100 then PUISSANCE_MAX
             else int (unat v) * TRIAC_SCALL + TRIAC_MIN)
          else 0)\<rparr>)
     }
     else if cmd = of_char (CHR ''T'') then
       Some (d\<lparr>puissance_triac := (if puissance_triac d \<noteq> 0 then 0 else PUISSANCE_MAX)\<rparr>)
     else Some d
   }"

text \<open>
  The PWM loop over the outputs \<open>ls\<close>. \<open>if(puissance_pwm)\<close> tests the address of the array, so a
  toggle always switches off.
\<close>

fun pwm_data :: "nat list \<Rightarrow> bytes option \<Rightarrow> nat \<Rightarrow> device \<Rightarrow> device option" where
  "pwm_data [] data data_len d = Some d"
| "pwm_data (l # ls) data data_len d =
     (if l + 1 < data_len then do {
        cmd \<leftarrow> byte_of data 0;
        d \<leftarrow> (if cmd = of_char (CHR ''S'') then do {
               v \<leftarrow> byte_of data (1 + l);
               set_pwm l (if unat v \<ge> 100 then 100 else of_nat (unat v)) d
             } else Some d);
        d \<leftarrow> (if cmd = of_char (CHR ''T'') then set_pwm l 0 d else Some d);
        pwm_data ls data data_len d
      } else Some d)"

definition relay_data :: "build \<Rightarrow> bytes option \<Rightarrow> device \<Rightarrow> device option" where
  "relay_data b data d = do { v \<leftarrow> byte_of data 1; Some (set_pin (BIT_RELAY b) (v \<noteq> 0) d) }"

definition mqttDataCb :: "build \<Rightarrow> bytes option \<Rightarrow> nat \<Rightarrow> device \<Rightarrow> device option" where
  "mqttDataCb b data data_len d = do {
     let d = (if SLEEP b then d\<lparr>timer_DisconnectMQTT := Some (Call_DisconnectMQTT, 200)\<rparr> else d);
     d \<leftarrow> (if TRIACK b \<and> \<not> STORE b then triac_data b data d else Some d);
     d \<leftarrow> (if PWM b then
            (if STORE b then store_data b data d
             else pwm_data [0..<length (BIT_PWM b)] data data_len d)
          else Some d);
     let d = (if SET_GPIO b then set_pin 13 True d else d);
     if RELAY b then relay_data b data d else Some d
   }"

section \<open>The timer table under the dimmer's operations\<close>

lemma update_first_none: "\<forall>x \<in> set xs. \<not> P x \<Longrightarrow> update_first P f xs = Some xs"
  by (induction xs) simp_all

lemma update_first_split:
  "\<forall>x \<in> set ys. \<not> P x \<Longrightarrow> P x \<Longrightarrow> update_first P f (ys @ x # zs) = do { y \<leftarrow> f x; Some (ys @ y # zs) }"
  by (induction ys) (simp_all split: bind_splits)

text \<open>How often a callback is registered, whether a slot is free, and the period of a callback.\<close>

definition registered :: "t_call_back \<Rightarrow> timers \<Rightarrow> nat" where
  "registered f t = length (filter (\<lambda>s. cb_fn s = Some f) (tab_callback_time t))"

definition free_slot :: "timers \<Rightarrow> bool" where
  "free_slot t = list_ex (\<lambda>s. cb_fn s = None) (tab_callback_time t)"

definition slot_period :: "t_call_back \<Rightarrow> timers \<Rightarrow> u32 option" where
  "slot_period f t = map_option cb_period (find (\<lambda>s. cb_fn s = Some f) (tab_callback_time t))"

lemma find_split: "\<forall>x \<in> set ys. \<not> P x \<Longrightarrow> P x \<Longrightarrow> find P (ys @ x # zs) = Some x"
  by (induction ys) simp_all

lemma timer_change_spec:
  assumes "tm_us t \<noteq> 0"
  shows "\<exists>t'. timer_change p f t = Some t' \<and> tm_us t' = tm_us t \<and> registered g t' = registered g t \<and>
    free_slot t' = free_slot t \<and> (registered f t \<noteq> 0 \<longrightarrow> slot_period f t' = Some (p div tm_us t))"
proof (cases "\<exists>s \<in> set (tab_callback_time t). cb_fn s = Some f")
  case False
  then have "timer_change p f t = Some t"
    by (subst timer_change_def) (simp add: update_first_none)
  moreover have "registered f t = 0" using False by (simp add: registered_def filter_empty_conv)
  ultimately show ?thesis by simp
next
  case True
  then obtain ys s zs where tab: "tab_callback_time t = ys @ s # zs" "cb_fn s = Some f" "\<forall>x \<in> set ys. cb_fn x \<noteq> Some f"
    using split_list_first_prop [OF True] by blast
  let ?s = "s\<lparr>cb_period := p div tm_us t, cb_cpt := to_s32 (uint (p div tm_us t))\<rparr>"
  have "timer_change p f t = Some (t\<lparr>tab_callback_time := ys @ ?s # zs\<rparr>)"
    using tab assms by (simp add: timer_change_def update_first_split set_period_def)
  then show ?thesis using tab by (simp add: registered_def free_slot_def slot_period_def find_split)
qed

lemma timer_remove_spec:
  "\<exists>t'. timer_remove_callback f t = Some t' \<and> tm_us t' = tm_us t \<and> registered f t' = registered f t - 1 \<and>
    (registered f t \<noteq> 0 \<longrightarrow> free_slot t')"
proof (cases "\<exists>s \<in> set (tab_callback_time t). cb_fn s = Some f")
  case False
  then have "timer_remove_callback f t = Some t"
    by (subst timer_remove_callback_def) (simp add: update_first_none)
  moreover have "registered f t = 0" using False by (simp add: registered_def filter_empty_conv)
  ultimately show ?thesis by simp
next
  case True
  then obtain ys s zs where tab: "tab_callback_time t = ys @ s # zs" "cb_fn s = Some f" "\<forall>x \<in> set ys. cb_fn x \<noteq> Some f"
    using split_list_first_prop [OF True] by blast
  let ?s = "s\<lparr>cb_cpt := 1000000, cb_fn := None\<rparr>"
  have "timer_remove_callback f t = Some (t\<lparr>tab_callback_time := ys @ ?s # zs\<rparr>)"
    using tab by (simp add: timer_remove_callback_def update_first_split)
  then show ?thesis using tab by (simp add: registered_def free_slot_def)
qed

lemma timer_add_spec:
  assumes "tm_us t \<noteq> 0" and "free_slot t" and "registered f t = 0"
  shows "\<exists>t'. timer_add_callback p f t = Some t' \<and> tm_us t' = tm_us t \<and> registered f t' = 1 \<and>
    slot_period f t' = Some (p div tm_us t)"
proof -
  have free: "\<exists>s \<in> set (tab_callback_time t). cb_fn s = None" using assms(2) by (simp add: free_slot_def list_ex_iff)
  obtain ys s zs where tab: "tab_callback_time t = ys @ s # zs" "cb_fn s = None" "\<forall>x \<in> set ys. cb_fn x \<noteq> None"
    using split_list_first_prop [OF free] by blast
  have "\<forall>x \<in> set ys. cb_fn x \<noteq> Some f" using assms(3) tab(1) by (auto simp: registered_def filter_empty_conv)
  moreover let ?s = "s\<lparr>cb_period := p div tm_us t, cb_cpt := to_s32 (uint (p div tm_us t)), cb_fn := Some f\<rparr>"
  have "timer_add_callback p f t = Some (t\<lparr>tab_callback_time := ys @ ?s # zs\<rparr>)"
    using tab assms(1) by (simp add: timer_add_callback_def update_first_split set_period_def)
  ultimately show ?thesis using tab(1,2) assms(3) by (simp add: registered_def slot_period_def find_split)
qed

section \<open>Firing the triac\<close>

text \<open>The powers that \<open>mqttDataCb\<close> can set: off, a delay inside the half wave, or always on.\<close>

definition power_ok :: "int \<Rightarrow> bool" where
  "power_ok p \<longleftrightarrow> p = 0 \<or> 983 \<le> p \<and> p \<le> 9117 \<or> p = PUISSANCE_MAX"

text \<open>
  The flag \<open>timer_triack_on\<close> says whether the firing callback is registered, which it is at most
  once; while it is not, the table has room for it.
\<close>

definition dimmer_ok :: "device \<Rightarrow> bool" where
  "dimmer_ok d \<longleftrightarrow> tm_us (timers d) \<noteq> 0 \<and> power_ok (puissance_triac d) \<and>
     registered CB_timerEnableTriack (timers d) = (if timer_triack_on d then 1 else 0) \<and>
     (timer_triack_on d \<or> free_slot (timers d))"

lemma dimmer_ok_simps [simp]:
  "dimmer_ok (set_pin n v d) = dimmer_ok d" "dimmer_ok (d\<lparr>TLI4970_is_enable := e\<rparr>) = dimmer_ok d"
  "dimmer_ok (TLI4970_enable d) = dimmer_ok d" "dimmer_ok (TLI4970_disable d) = dimmer_ok d"
  "dimmer_ok (ZeroCross_sensor b d) = dimmer_ok d" "dimmer_ok (d\<lparr>timer_DisconnectMQTT := t\<rparr>) = dimmer_ok d"
  "dimmer_ok (d\<lparr>puissance_pwm := ps\<rparr>) = dimmer_ok d" "dimmer_ok (d\<lparr>pwm_on := on\<rparr>) = dimmer_ok d"
  by (simp_all add: dimmer_ok_def set_pin_def TLI4970_enable_def TLI4970_disable_def ZeroCross_sensor_def)

lemma set_pin_simps [simp]:
  "timers (set_pin n v d) = timers d" "puissance_triac (set_pin n v d) = puissance_triac d"
  "timer_triack_on (set_pin n v d) = timer_triack_on d" "puissance_pwm (set_pin n v d) = puissance_pwm d"
  "pins (set_pin n v d) n = v" "pwm_on (set_pin n v d) = pwm_on d"
  by (simp_all add: set_pin_def)

lemma ZeroCross_sensor_simps [simp]:
  "timers (ZeroCross_sensor b d) = timers d" "puissance_triac (ZeroCross_sensor b d) = puissance_triac d"
  "timer_triack_on (ZeroCross_sensor b d) = timer_triack_on d"
  by (simp_all add: ZeroCross_sensor_def TLI4970_enable_def set_pin_def)

lemma change_ok:
  assumes "dimmer_ok d"
  shows "\<exists>d'. on_timers (timer_change p f) d = Some d' \<and> dimmer_ok d' \<and> puissance_triac d' = puissance_triac d"
proof -
  obtain t' where "timer_change p f (timers d) = Some t'" "tm_us t' = tm_us (timers d)"
    "registered CB_timerEnableTriack t' = registered CB_timerEnableTriack (timers d)"
    "free_slot t' = free_slot (timers d)"
    using timer_change_spec [of "timers d" p f CB_timerEnableTriack] assms by (auto simp: dimmer_ok_def)
  then show ?thesis using assms by (simp add: on_timers_def dimmer_ok_def)
qed

lemma triac_timer_off_ok:
  assumes "dimmer_ok d"
  shows "\<exists>d'. triac_timer_off d = Some d' \<and> dimmer_ok d' \<and> puissance_triac d' = puissance_triac d"
proof (cases "timer_triack_on d")
  case False
  then show ?thesis using assms by (simp add: triac_timer_off_def)
next
  case True
  obtain t' where "timer_remove_callback CB_timerEnableTriack (timers d) = Some t'" "tm_us t' = tm_us (timers d)"
    "registered CB_timerEnableTriack t' = registered CB_timerEnableTriack (timers d) - 1"
    "registered CB_timerEnableTriack (timers d) \<noteq> 0 \<longrightarrow> free_slot t'"
    using timer_remove_spec [of CB_timerEnableTriack "timers d"] by blast
  then show ?thesis using assms True by (simp add: triac_timer_off_def on_timers_def dimmer_ok_def)
qed

text \<open>The delay that a zero crossing arms.\<close>

definition dimming :: "int \<Rightarrow> bool" where
  "dimming p \<longleftrightarrow> 0 < p \<and> p < PUISSANCE_MAX"

lemma ZeroCross_full_ok:
  assumes d: "dimmer_ok d"
  shows "\<exists>d'. ZeroCross_full b d = Some d' \<and> dimmer_ok d' \<and> puissance_triac d' = puissance_triac d \<and>
    (dimming (puissance_triac d) \<longrightarrow> slot_period CB_timerEnableTriack (timers d') =
      Some (word_of_int (10000 - puissance_triac d) div tm_us (timers d)))"
proof -
  let ?s = "ZeroCross_sensor b d"
  have s: "dimmer_ok ?s" using d by simp
  consider "puissance_triac d \<ge> PUISSANCE_MAX" | "dimming (puissance_triac d)" | "puissance_triac d \<le> 0"
    unfolding dimming_def by linarith
  then show ?thesis
  proof cases
    case 1
    with triac_timer_off_ok [OF s] show ?thesis by (auto simp: ZeroCross_full_def Let_def dimming_def)
  next
    case 3
    with triac_timer_off_ok [OF s] show ?thesis
      by (auto simp: ZeroCross_full_def Let_def dimming_def PUISSANCE_MAX_def)
  next
    case 2
    let ?t = "timers d" and ?p = "word_of_int (10000 - puissance_triac d) :: u32"
    show ?thesis
    proof (cases "timer_triack_on d")
      case True
      then have "registered CB_timerEnableTriack ?t \<noteq> 0" using d by (simp add: dimmer_ok_def)
      with timer_change_spec [of ?t ?p CB_timerEnableTriack CB_timerEnableTriack] d obtain t' where
        "timer_change ?p CB_timerEnableTriack ?t = Some t'" "tm_us t' = tm_us ?t"
        "registered CB_timerEnableTriack t' = registered CB_timerEnableTriack ?t"
        "free_slot t' = free_slot ?t" "slot_period CB_timerEnableTriack t' = Some (?p div tm_us ?t)"
        by (auto simp: dimmer_ok_def)
      with True 2 s show ?thesis
        by (auto simp: ZeroCross_full_def Let_def dimming_def on_timers_def dimmer_ok_def)
    next
      case False
      with d have "registered CB_timerEnableTriack ?t = 0" "free_slot ?t" "tm_us ?t \<noteq> 0"
        by (simp_all add: dimmer_ok_def)
      with timer_add_spec [of ?t CB_timerEnableTriack ?p] obtain t' where
        "timer_add_callback ?p CB_timerEnableTriack ?t = Some t'" "tm_us t' = tm_us ?t"
        "registered CB_timerEnableTriack t' = 1" "slot_period CB_timerEnableTriack t' = Some (?p div tm_us ?t)"
        by auto
      with False 2 s show ?thesis
        by (auto simp: ZeroCross_full_def Let_def dimming_def on_timers_def dimmer_ok_def)
    qed
  qed
qed

lemma timerZeroCross_ok:
  assumes "dimmer_ok d" and "\<not> HALF_SIN b"
  shows "\<exists>d'. timerZeroCross b d = Some d' \<and> dimmer_ok d'"
proof -
  obtain d1 where d1: "on_timers (timer_change 10000 CB_timerZeroCross) d = Some d1" "dimmer_ok d1"
    using change_ok [OF assms(1)] by blast
  with ZeroCross_full_ok [OF d1(2), of b] assms(2) show ?thesis by (auto simp: timerZeroCross_def ZeroCross_def)
qed

lemma triac_data_ok:
  assumes "triac_data b data d = Some d'" and "dimmer_ok d" and "power_ok (TRIACK_ON_OFF_PUISSANCE b)"
  shows "dimmer_ok d'"
proof -
  have pow: "power_ok 0" "power_ok PUISSANCE_MAX" by (simp_all add: power_ok_def)
  have dim: "power_ok (int (unat v) * TRIAC_SCALL + TRIAC_MIN)" if "v \<noteq> 0" "\<not> 100 \<le> unat v" for v :: u8
    using that by (simp add: power_ok_def TRIAC_SCALL_def TRIAC_MIN_def word_unat_eq_iff del: of_nat_unat)
  have "dimmer_ok (d\<lparr>puissance_triac := p\<rparr>)" if "power_ok p" for p
    using that assms(2) by (simp add: dimmer_ok_def)
  moreover obtain c where c: "byte_of data 0 = Some c" using assms(1) by (auto simp: triac_data_def bind_eq_Some_conv)
  moreover consider "c = 0x53" | "c = 0x54" | "c \<noteq> 0x53" "c \<noteq> 0x54" by blast
  then have "d' = d \<or> (\<exists>p. power_ok p \<and> d' = d\<lparr>puissance_triac := p\<rparr>)"
  proof cases
    case 1
    with assms(1) c obtain v where v: "byte_of data 1 = Some v" by (auto simp: triac_data_def bind_eq_Some_conv)
    let ?p = "if TRIACK_ON_OFF_INVERSE b then (if v > 0 then 0 else TRIACK_ON_OFF_PUISSANCE b)
          else if v > 0 then
            (if TRIACK_ON_OFF b then TRIACK_ON_OFF_PUISSANCE b
             else if unat v \<ge> 100 then PUISSANCE_MAX else int (unat v) * TRIAC_SCALL + TRIAC_MIN)
          else 0"
    have "d' = d\<lparr>puissance_triac := ?p\<rparr>" using assms(1) c v 1 by (simp add: triac_data_def)
    moreover have "v > 0 \<Longrightarrow> v \<noteq> 0" by simp
    then have "power_ok ?p" using pow dim assms(3) by presburger
    ultimately show ?thesis by blast
  next
    case 2
    let ?p = "if puissance_triac d \<noteq> 0 then 0 else PUISSANCE_MAX"
    have "d' = d\<lparr>puissance_triac := ?p\<rparr>" using assms(1) c 2 by (simp add: triac_data_def)
    moreover have "power_ok ?p" using pow by presburger
    ultimately show ?thesis by blast
  next
    case 3
    with assms(1) c show ?thesis by (simp add: triac_data_def)
  qed
  ultimately show ?thesis using assms(2) by auto
qed

lemma set_pwm_ok: "set_pwm l v d = Some d' \<Longrightarrow> dimmer_ok d \<Longrightarrow> dimmer_ok d'"
  by (auto simp: set_pwm_def bind_eq_Some_conv)

lemma pwm_data_ok: "pwm_data ls data n d = Some d' \<Longrightarrow> dimmer_ok d \<Longrightarrow> dimmer_ok d'"
proof (induction ls arbitrary: d)
  case (Cons l ls)
  show ?case
  proof (cases "l + 1 < n")
    case False
    with Cons.prems show ?thesis by simp
  next
    case True
    with Cons.prems(1) obtain d1 d2 where
      "d1 = d \<or> (\<exists>v. set_pwm l v d = Some d1)" "d2 = d1 \<or> (\<exists>v. set_pwm l v d1 = Some d2)"
      "pwm_data ls data n d2 = Some d'"
      by (auto simp: bind_eq_Some_conv split: if_splits)
    with Cons.IH Cons.prems(2) set_pwm_ok show ?thesis by blast
  qed
qed simp

text \<open>What happens to a dimmer; \<open>counted\<close> is the timer interrupt between two callbacks.\<close>

inductive dimmer_step :: "build \<Rightarrow> device \<Rightarrow> device \<Rightarrow> bool" for b where
  command: "mqttDataCb b data n d = Some d' \<Longrightarrow> dimmer_step b d d'"
| zero_crossing: "ZeroCrossIRQ b d = Some d' \<Longrightarrow> dimmer_step b d d'"
| simulated: "timerZeroCross b d = Some d' \<Longrightarrow> dimmer_step b d d'"
| fired: "timerEnableTriack d = Some d' \<Longrightarrow> dimmer_step b d d'"
| pwm: "timerPwm b l f d = Some d' \<Longrightarrow> dimmer_step b d d'"
| metered: "timerMesureSampleAdc active reply d = Some d' \<Longrightarrow> dimmer_step b d d'"
| counted: "dimmer_step b d (d\<lparr>timers := (timers d)\<lparr>tab_callback_time :=
      map (fst \<circ> slot_step) (tab_callback_time (timers d))\<rparr>\<rparr>)"

inductive_cases dimmer_stepE: "dimmer_step b d d'"

inductive dimmer_run :: "build \<Rightarrow> device \<Rightarrow> device \<Rightarrow> bool" for b d where
  start: "dimmer_run b d d"
| step: "dimmer_run b d d' \<Longrightarrow> dimmer_step b d' d'' \<Longrightarrow> dimmer_run b d d''"

text \<open>A build with a full-wave triac whose fixed power is a valid one.\<close>

definition triac_build :: "build \<Rightarrow> bool" where
  "triac_build b \<longleftrightarrow> TRIACK b \<and> \<not> STORE b \<and> \<not> HALF_SIN b \<and> power_ok (TRIACK_ON_OFF_PUISSANCE b)"

lemma data_ok:
  assumes "mqttDataCb b data n d = Some d'" and "dimmer_ok d" and "triac_build b"
  shows "dimmer_ok d'"
proof -
  let ?d0 = "if SLEEP b then d\<lparr>timer_DisconnectMQTT := Some (Call_DisconnectMQTT, 200)\<rparr> else d"
  have b: "TRIACK b" "\<not> STORE b" "power_ok (TRIACK_ON_OFF_PUISSANCE b)" using assms(3) by (simp_all add: triac_build_def)
  have st: "STORE b = False" using b(2) by simp
  obtain d1 where d1: "triac_data b data ?d0 = Some d1" and r1: "do {
      d \<leftarrow> (if PWM b then pwm_data [0..<length (BIT_PWM b)] data n d1 else Some d1);
      let d = (if SET_GPIO b then set_pin 13 True d else d);
      if RELAY b then relay_data b data d else Some d } = Some d'"
    using assms(1) b(1) unfolding mqttDataCb_def Let_def st if_False by (auto simp: bind_eq_Some_conv)
  have ok1: "dimmer_ok d1" using triac_data_ok [OF d1 _ b(3)] assms(2) by simp
  obtain d2 where "(if PWM b then pwm_data [0..<length (BIT_PWM b)] data n d1 else Some d1) = Some d2"
    and r2: "(let d = (if SET_GPIO b then set_pin 13 True d2 else d2)
      in if RELAY b then relay_data b data d else Some d) = Some d'"
    using r1 by (auto simp: bind_eq_Some_conv)
  then have "dimmer_ok d2" using ok1 pwm_data_ok by (auto split: if_splits)
  with r2 show ?thesis
    by (auto simp: relay_data_def bind_eq_Some_conv Let_def split: if_splits)
qed

lemma on_timers_change_ok: "on_timers (timer_change p f) d = Some d' \<Longrightarrow> dimmer_ok d \<Longrightarrow> dimmer_ok d'"
  using change_ok [of d p f] by auto

lemma zero_ok:
  assumes "ZeroCrossIRQ b d = Some d'" and "dimmer_ok d"
  shows "dimmer_ok d'"
proof -
  have "dimmer_ok (d\<lparr>temp_from_zero_cross := 0\<rparr>)" using assms(2) by (simp add: dimmer_ok_def)
  moreover have "dimmer_ok (d1\<lparr>timer_0V := t\<rparr>) = dimmer_ok d1" for d1 t by (simp add: dimmer_ok_def)
  ultimately show ?thesis using assms(1) on_timers_change_ok
    by (auto simp: ZeroCrossIRQ_def Let_def bind_eq_Some_conv split: if_splits)
qed

lemma timerPwm_ok:
  assumes "timerPwm b l f d = Some d'" and "dimmer_ok d"
  shows "dimmer_ok d'"
proof -
  have "\<exists>p d1. on_timers (timer_change p f) d1 = Some d' \<and> dimmer_ok d1"
    using assms by (auto simp: timerPwm_def set_pwm_on_def bind_eq_Some_conv split: if_splits) fastforce+
  then show ?thesis using on_timers_change_ok by blast
qed

lemma meter_ok: "timerMesureSampleAdc active reply d = Some d' \<Longrightarrow> dimmer_ok d \<Longrightarrow> dimmer_ok d'"
proof -
  have "dimmer_ok d" if "meter_sample val d1 = Some d" "dimmer_ok d1" for val d1 d
    using that by (auto simp: meter_sample_def Let_def bind_eq_Some_conv dimmer_ok_def split: if_splits)
  moreover have "dimmer_ok d1" if "meter_read reply d = Some (v, d1)" "dimmer_ok d" for v d1
    using that by (auto simp: meter_read_def bind_eq_Some_conv split: if_splits)
  moreover assume "timerMesureSampleAdc active reply d = Some d'" "dimmer_ok d"
  ultimately show ?thesis
    by (auto simp: timerMesureSampleAdc_def bind_eq_Some_conv split: if_splits)
qed

lemma slot_step_fn [simp]: "cb_fn (fst (slot_step s)) = cb_fn s"
  by (simp add: slot_step_def split: option.splits)

lemma counted_ok:
  "dimmer_ok d \<Longrightarrow> dimmer_ok (d\<lparr>timers := (timers d)\<lparr>tab_callback_time :=
      map (fst \<circ> slot_step) (tab_callback_time (timers d))\<rparr>\<rparr>)"
  by (simp add: dimmer_ok_def registered_def free_slot_def filter_map comp_def list_ex_iff)

lemma dimmer_step_ok: "dimmer_step b d d' \<Longrightarrow> triac_build b \<Longrightarrow> dimmer_ok d \<Longrightarrow> dimmer_ok d'"
  using timerZeroCross_ok [of d b]
  by (elim dimmer_stepE)
    (auto intro: data_ok zero_ok timerPwm_ok meter_ok counted_ok simp: triac_build_def timerEnableTriack_def)


text \<open>The triac plug: the zero-cross simulation and the meter are registered, one slot is free.\<close>

definition example_plug :: device where
  "example_plug = example_shutter\<lparr>puissance_triac := 0, timer_triack_on := False,
     timers := the (do {
       t \<leftarrow> timer_add_callback 20001 CB_timerZeroCross (timer_init 21 \<lparr>tab_callback_time =
         replicate 3 \<lparr>cb_period = 0, cb_cpt = 0, cb_fn = None\<rparr>, tm_us = 0, tm_ticks = 0\<rparr>);
       timer_add_callback 500 CB_timerMesureSampleAdc t })\<rparr>"

lemma example_plug_timers:
  "timers example_plug = \<lparr>tab_callback_time =
    [\<lparr>cb_period = 952, cb_cpt = 952, cb_fn = Some CB_timerZeroCross\<rparr>,
     \<lparr>cb_period = 23, cb_cpt = 23, cb_fn = Some CB_timerMesureSampleAdc\<rparr>,
     \<lparr>cb_period = 0, cb_cpt = 0, cb_fn = None\<rparr>], tm_us = 21, tm_ticks = 100\<rparr>"
  by code_simp


section \<open>Pulse width\<close>

lemma timer_change_registered:
  assumes "tm_us (timers d) \<noteq> 0" and "registered f (timers d) \<noteq> 0"
  shows "\<exists>t. on_timers (timer_change p f) d = Some (d\<lparr>timers := t\<rparr>) \<and> tm_us t = tm_us (timers d) \<and>
    registered f t \<noteq> 0 \<and> slot_period f t = Some (p div tm_us (timers d))"
  using timer_change_spec [OF assms(1), of p f f] assms(2) by (auto simp: on_timers_def)

lemma pwm_scale_bounds:
  assumes "unat p \<le> 98" and "PWM_SCALL b \<le> 1000"
  shows "unat (pwm_scale b p) = (if unat p > 90 \<or> unat p < 10 then 4 * unat (PWM_SCALL b) else unat (PWM_SCALL b))"
    and "x \<le> 98 \<Longrightarrow> x * unat (pwm_scale b p) < 4294967296"
proof -
  have s: "unat (PWM_SCALL b) \<le> 1000" using assms(2) by (simp add: word_le_nat_alt)
  then show S: "unat (pwm_scale b p) = (if unat p > 90 \<or> unat p < 10 then 4 * unat (PWM_SCALL b) else unat (PWM_SCALL b))"
    by (simp add: pwm_scale_def PWM_SCALL_SLOW_def word_less_nat_alt unat_word_ariths)
  then have "unat (pwm_scale b p) \<le> 4000" using s by simp
  then show "x * unat (pwm_scale b p) < 4294967296" if "x \<le> 98"
    using mult_le_mono [OF that, of "unat (pwm_scale b p)" 4000] by simp
qed

lemma pwm_time_long:
  assumes "2 \<le> (n :: nat)" and "n \<le> 98" and "x = n \<or> x = 100 - n"
  shows "8 * s \<le> x * (if n > 90 \<or> n < 10 then 4 * s else s)"
proof (cases "n > 90 \<or> n < 10")
  case True
  have "2 * (4 * s) \<le> x * (4 * s)" using assms by (intro mult_le_mono1) auto
  with True show ?thesis by simp
next
  case False
  then have "8 * s \<le> x * s" using assms by (intro mult_le_mono1) auto
  with False show ?thesis by simp
qed

lemma pwm_times:
  assumes "2 \<le> p" and "p \<le> 98" and "0 < us" and "us \<le> 8 * PWM_SCALL b" and "PWM_SCALL b \<le> 1000"
  shows "0 < (p * pwm_scale b p) div us \<and> 0 < ((100 - p) * pwm_scale b p) div us \<and>
    unat (p * pwm_scale b p) + unat ((100 - p) * pwm_scale b p) = 100 * unat (pwm_scale b p)"
proof -
  let ?S = "pwm_scale b p" and ?n = "unat p" and ?s = "unat (PWM_SCALL b)"
  have n: "2 \<le> ?n" "?n \<le> 98" using assms(1,2) by (simp_all add: word_le_nat_alt)
  note S = pwm_scale_bounds [OF n(2) assms(5)]
  have "?s \<le> 1000" using assms(5) by (simp add: word_le_nat_alt)
  then have "unat (8 * PWM_SCALL b) = 8 * ?s" by (simp add: unat_word_ariths)
  then have us: "unat us \<le> 8 * ?s" "0 < unat us" using assms(3,4) by (simp_all add: word_le_nat_alt word_less_nat_alt)
  have m: "unat (100 - p) = 100 - ?n" using n by (simp add: unat_sub word_le_nat_alt)
  have on: "unat (p * ?S) = ?n * unat ?S" using S(2) [OF n(2)] by (simp add: unat_word_ariths)
  have off: "unat ((100 - p) * ?S) = (100 - ?n) * unat ?S" using S(2) [of "100 - ?n"] n m by (simp add: unat_word_ariths)
  have "8 * ?s \<le> unat (p * ?S)" "8 * ?s \<le> unat ((100 - p) * ?S)"
    unfolding on off S(1) using pwm_time_long [OF n] by blast+
  then show ?thesis
    using us unfolding on off by (simp add: word_less_nat_alt unat_div div_greater_zero_iff on off add_mult_distrib [symmetric] n)
qed

text \<open>One run of the callback, which switches the output.\<close>

lemma timerPwm_switches:
  assumes "puissance_pwm d ! l = p" and "l < length (puissance_pwm d)" and "2 \<le> p" and "p \<le> 98"
    and "l < length (BIT_PWM b)" and "pwm_on d ! l = on" and "l < length (pwm_on d)"
    and "registered f (timers d) \<noteq> 0" and "tm_us (timers d) \<noteq> 0"
  shows "\<exists>t. timerPwm b l f d = Some ((set_pin (BIT_PWM b ! l) (\<not> on) d)\<lparr>pwm_on := (pwm_on d)[l := \<not> on], timers := t\<rparr>) \<and>
    tm_us t = tm_us (timers d) \<and> registered f t \<noteq> 0 \<and>
    slot_period f t = Some ((if on then 100 - p else p) * pwm_scale b p div tm_us (timers d))"
proof -
  let ?d = "set_pin (BIT_PWM b ! l) (\<not> on) (d\<lparr>pwm_on := (pwm_on d)[l := \<not> on]\<rparr>)"
  let ?time = "(if on then 100 - p else p) * pwm_scale b p"
  obtain t where t: "on_timers (timer_change ?time f) ?d = Some (?d\<lparr>timers := t\<rparr>)" "tm_us t = tm_us (timers d)"
    "registered f t \<noteq> 0" "slot_period f t = Some (?time div tm_us (timers d))"
    using timer_change_registered [of ?d f ?time] assms(8,9) by auto
  have "\<not> p < 2" "\<not> 98 < p" using assms(3,4) by simp_all
  then have "timerPwm b l f d = on_timers (timer_change ?time f) ?d"
    using assms(1,2,5-7) by (simp add: timerPwm_def load_Some set_pwm_on_def store_Some del: mult_eq_0_iff)
  then show ?thesis using t by (intro exI [of _ t]) (simp add: set_pin_def)
qed


definition example_strip :: device where
  "example_strip = example_shutter\<lparr>puissance_pwm := [50, 0],
     timers := \<lparr>tab_callback_time = [\<lparr>cb_period = 476, cb_cpt = 476, cb_fn = Some CB_timerPwm1\<rparr>],
       tm_us = 21, tm_ticks = 100\<rparr>\<rparr>"


section \<open>The mean power\<close>

text \<open>
  The samples of a measurement, one callback after the other, and what they add up to: each
  current times the voltage of its place in the period, which starts behind the place \<open>j\<close>.
\<close>

fun meter_samples :: "int list \<Rightarrow> device \<Rightarrow> device option" where
  "meter_samples [] d = Some d"
| "meter_samples (v # vs) d = do { d \<leftarrow> meter_sample v d; meter_samples vs d }"

definition next_place :: "nat \<Rightarrow> nat" where
  "next_place j = (if j + 1 \<ge> 40 then 0 else j + 1)"

fun energy :: "nat \<Rightarrow> int list \<Rightarrow> int" where
  "energy j [] = 0"
| "energy j (v # vs) = v * tab_sin ! next_place j + energy (next_place j) vs"

lemma tab_sin_bound: "j < 40 \<Longrightarrow> \<bar>tab_sin ! j\<bar> \<le> 325"
proof -
  have "\<forall>x \<in> set tab_sin. \<bar>x\<bar> \<le> 325" by (simp add: tab_sin_def)
  moreover have "length tab_sin = 40" by (simp add: tab_sin_def)
  ultimately show "j < 40 \<Longrightarrow> \<bar>tab_sin ! j\<bar> \<le> 325" by (metis nth_mem)
qed

lemma next_place_less [simp]: "next_place j < 40"
  by (simp add: next_place_def)

lemma abs_mult_le: "\<bar>a\<bar> \<le> x \<Longrightarrow> \<bar>b\<bar> \<le> y \<Longrightarrow> \<bar>a * b :: int\<bar> \<le> x * y"
  unfolding abs_mult by (rule mult_mono) linarith+

lemma of_nat_less_u32: "n < 4294967296 \<Longrightarrow> unat (of_nat n :: u32) = n"
  by (simp add: unat_of_nat)

lemma next_place_word:
  assumes "j < 40"
  shows "(if (of_nat j :: u32) + 1 \<ge> 40 then 0 else of_nat j + 1) = (of_nat (next_place j) :: u32)"
proof -
  have "(of_nat j :: u32) + 1 = of_nat (j + 1)" by simp
  moreover have "unat (of_nat (j + 1) :: u32) = j + 1" using assms by (intro of_nat_less_u32) simp
  then have "(40 :: u32) \<le> of_nat (j + 1) \<longleftrightarrow> 40 \<le> j + 1" unfolding word_le_nat_alt by simp
  ultimately show ?thesis
    by (cases "40 \<le> j + 1") (simp_all only: next_place_def if_True if_False semiring_1_class.of_nat_0)
qed

text \<open>A sample whose current the sensor can deliver.\<close>

lemma sample_step:
  assumes "temp_from_zero_cross d = of_nat j" and "j < 40" and "\<bar>v\<bar> \<le> 51200"
  shows "meter_sample v d = do {
    sum \<leftarrow> s32 (mesure_sum d + v * tab_sin ! next_place j);
    let d = d\<lparr>temp_from_zero_cross := of_nat (next_place j), num_mesure := num_mesure d + 1, mesure_sum := sum\<rparr>;
    if num_mesure d \<ge> 2000 then do {
      m \<leftarrow> div_s32 sum 2000;
      Some (d\<lparr>num_mesure := 0, mesure_sum := 0, moyen_power := m\<rparr>)
    } else Some d }"
proof -
  have "\<bar>v * tab_sin ! next_place j\<bar> \<le> 51200 * 325"
    using assms(3) tab_sin_bound [of "next_place j"] by (intro abs_mult_le) simp_all
  then have x: "s32 (v * tab_sin ! next_place j) = Some (v * tab_sin ! next_place j)"
    by (intro s32_Some) simp_all
  have "unat (of_nat (next_place j) :: u32) = next_place j"
    using next_place_less [of j] by (intro of_nat_less_u32) linarith
  moreover have "length tab_sin = 40" by (simp add: tab_sin_def)
  ultimately have l: "load tab_sin (unat (of_nat (next_place j) :: u32)) = Some (tab_sin ! next_place j)"
    using next_place_less [of j] by (simp add: load_def del: unsigned_of_nat)
  have u: "uint NB_MESURE_ADC_BEFOR_SEND = 2000" by (simp add: NB_MESURE_ADC_BEFOR_SEND_def)
  show ?thesis
    unfolding meter_sample_def Let_def assms(1) next_place_word [OF assms(2)] l u
    by (simp add: x NB_MESURE_ADC_BEFOR_SEND_def)
qed

lemma inner_sample:
  assumes "temp_from_zero_cross d = of_nat j" and "j < 40" and "\<bar>v\<bar> \<le> 51200"
    and "num_mesure d = of_nat n" and "n + 1 < 2000"
  shows "meter_sample v d = do {
    sum \<leftarrow> s32 (mesure_sum d + v * tab_sin ! next_place j);
    Some (d\<lparr>temp_from_zero_cross := of_nat (next_place j), num_mesure := of_nat (n + 1), mesure_sum := sum\<rparr>) }"
proof -
  have "unat (of_nat (n + 1) :: u32) = n + 1" using assms(5) by (intro of_nat_less_u32) simp
  then have "\<not> (2000 :: u32) \<le> of_nat (n + 1)" using assms(5) unfolding word_le_nat_alt by simp
  moreover have "(of_nat n :: u32) + 1 = of_nat (n + 1)" by simp
  ultimately show ?thesis
    unfolding sample_step [OF assms(1-3)] assms(4) Let_def by (simp del: of_nat_add of_nat_Suc)
qed

lemma place_less: "j < 40 \<Longrightarrow> (next_place ^^ n) j < 40"
  by (cases n) simp_all

text \<open>The samples before the last one of a measurement.\<close>

lemma inner_samples:
  assumes "temp_from_zero_cross d = of_nat j" and "j < 40" and "\<forall>v \<in> set vs. \<bar>v\<bar> \<le> 51200"
    and "num_mesure d = of_nat n" and "n + length vs < 2000"
  shows "meter_samples vs d =
    (if \<forall>k \<in> {1..length vs}. \<exists>x. s32 (mesure_sum d + energy j (take k vs)) = Some x
     then Some (d\<lparr>temp_from_zero_cross := of_nat ((next_place ^^ length vs) j),
       num_mesure := of_nat (n + length vs), mesure_sum := mesure_sum d + energy j vs\<rparr>)
     else None)"
  using assms
proof (induction vs arbitrary: d j n)
  case Nil
  have "d\<lparr>temp_from_zero_cross := temp_from_zero_cross d, num_mesure := num_mesure d, mesure_sum := mesure_sum d\<rparr> = d" by simp
  then show ?case using Nil by simp
next
  case (Cons v vs)
  let ?j = "next_place j" and ?s = "mesure_sum d + v * tab_sin ! next_place j"
  let ?d = "d\<lparr>temp_from_zero_cross := of_nat ?j, num_mesure := of_nat (n + 1), mesure_sum := ?s\<rparr>"
  have step: "meter_sample v d = do { sum \<leftarrow> s32 ?s;
      Some (d\<lparr>temp_from_zero_cross := of_nat ?j, num_mesure := of_nat (n + 1), mesure_sum := sum\<rparr>) }"
    using Cons.prems by (intro inner_sample) simp_all
  have "{1..length (v # vs)} = insert 1 (Suc ` {1..length vs})" by (auto simp: image_Suc_atLeastAtMost)
  then have ks: "(\<forall>k \<in> {1..length (v # vs)}. P k) \<longleftrightarrow> P 1 \<and> (\<forall>k \<in> {1..length vs}. P (k + 1))" for P
    by (simp only: ball_simps Suc_eq_plus1)
  show ?case
  proof (cases "s32 ?s")
    case None
    then show ?thesis using step by (subst ks) simp
  next
    case (Some x)
    then have "x = ?s" by (simp add: s32_def split: if_splits)
    with Some step have "meter_samples (v # vs) d = meter_samples vs ?d" by simp
    also have "\<dots> = (if \<forall>k \<in> {1..length vs}. \<exists>x. s32 (?s + energy ?j (take k vs)) = Some x
      then Some (?d\<lparr>temp_from_zero_cross := of_nat ((next_place ^^ length vs) ?j),
        num_mesure := of_nat (n + 1 + length vs), mesure_sum := ?s + energy ?j vs\<rparr>) else None)"
      using Cons.IH [of ?d ?j "n + 1"] Cons.prems by simp
    finally have run: "meter_samples (v # vs) d = \<dots>" .
    have e: "?s + energy ?j ws = mesure_sum d + energy j (v # ws)" for ws by simp
    have p: "(next_place ^^ length vs) ?j = (next_place ^^ length (v # vs)) j"
      unfolding list.size add_0_right add_Suc_right funpow_Suc_right comp_apply ..
    have one: "\<exists>x. s32 (mesure_sum d + energy j (take 1 (v # vs))) = Some x" using Some by simp
    have l: "n + 1 + length vs = n + length (v # vs)" by simp
    show ?thesis unfolding run e p l ks using one by simp
  qed
qed

lemma energy_append: "energy j (vs @ ws) = energy j vs + energy ((next_place ^^ length vs) j) ws"
  by (induction vs arbitrary: j) (simp_all add: funpow_swap1)

lemma meter_samples_append:
  "meter_samples (vs @ ws) d = do { d \<leftarrow> meter_samples vs d; meter_samples ws d }"
  by (induction vs arbitrary: d) (simp_all split: bind_splits)

lemma energy_bound: "\<forall>v \<in> set vs. \<bar>v\<bar> \<le> m \<Longrightarrow> \<bar>energy j vs\<bar> \<le> int (length vs) * (m * 325)"
proof (induction vs arbitrary: j)
  case (Cons v vs)
  have "\<bar>v * tab_sin ! next_place j\<bar> \<le> m * 325"
    using Cons.prems tab_sin_bound [of "next_place j"] by (intro abs_mult_le) simp_all
  moreover have "\<bar>energy (next_place j) vs\<bar> \<le> int (length vs) * (m * 325)"
    using Cons.prems by (intro Cons.IH) simp
  moreover have "int (length (v # vs)) * (m * 325) = m * 325 + int (length vs) * (m * 325)"
    by (simp add: distrib_right)
  ultimately show ?case by simp
qed simp

text \<open>
  C22: the power meter. From the start of a measurement, 2000 samples report the mean of the
  products of current and voltage (in milliwatts, rounded towards 0) and start the next
  measurement, provided that no partial sum leaves 32 bits; otherwise the sum overflows. The
  sums stay in range when no current exceeds 3300 mA.
\<close>

theorem power_meter:
  assumes "length vs = 2000" and "\<forall>v \<in> set vs. \<bar>v\<bar> \<le> 51200" and "num_mesure d = 0"
    and "mesure_sum d = 0" and "temp_from_zero_cross d = of_nat j" and "j < 40"
  shows "(if \<forall>k \<in> {1..2000}. s32 (energy j (take k vs)) \<noteq> None
      then \<exists>d'. meter_samples vs d = Some d' \<and> moyen_power d' = energy j vs sdiv 2000 \<and>
        num_mesure d' = 0 \<and> mesure_sum d' = 0
      else meter_samples vs d = None) \<and>
    ((\<forall>v \<in> set vs. \<bar>v\<bar> \<le> 3300) \<longrightarrow> meter_samples vs d \<noteq> None)"
proof -
  let ?ok = "\<forall>k \<in> {1..2000}. s32 (energy j (take k vs)) \<noteq> None"
  obtain ws v where vs: "vs = ws @ [v]" using assms(1) by (cases vs rule: rev_cases) auto
  then have ws: "length ws = 1999" using assms(1) by simp
  let ?j = "(next_place ^^ length ws) j"
  let ?d = "d\<lparr>temp_from_zero_cross := of_nat ?j, num_mesure := of_nat 1999, mesure_sum := energy j ws\<rparr>"
  have "{1..2000} = insert 2000 {1..length ws}" unfolding ws by auto
  then have ks: "?ok \<longleftrightarrow> s32 (energy j vs) \<noteq> None \<and> (\<forall>k \<in> {1..length ws}. s32 (energy j (take k ws)) \<noteq> None)"
    using assms(1) by (simp add: vs)
  have inner: "meter_samples ws d = (if \<forall>k \<in> {1..length ws}. s32 (energy j (take k ws)) \<noteq> None then Some ?d else None)"
    using inner_samples [of d j ws 0] assms ws by (simp add: vs)
  have j: "?j < 40" using assms(6) by (rule place_less)
  have last: "meter_sample v ?d = do { sum \<leftarrow> s32 (energy j vs); m \<leftarrow> div_s32 sum 2000;
      Some (?d\<lparr>temp_from_zero_cross := of_nat (next_place ?j), num_mesure := 0, mesure_sum := 0, moyen_power := m\<rparr>) }"
    using sample_step [of ?d ?j v] j assms(2) by (simp add: vs energy_append Let_def)
  have dv: "div_s32 x 2000 = Some (x sdiv 2000)" if "s32 x \<noteq> None" for x
    using that unfolding div_s32_def s32_def signed_divide_int_def by (auto simp: sgn_if split: if_splits)
  have run: "meter_samples vs d = do { d \<leftarrow> meter_samples ws d; meter_sample v d }"
    unfolding vs meter_samples_append by (simp split: bind_splits)
  have main: "if ?ok then \<exists>d'. meter_samples vs d = Some d' \<and> moyen_power d' = energy j vs sdiv 2000 \<and>
        num_mesure d' = 0 \<and> mesure_sum d' = 0 else meter_samples vs d = None"
  proof (cases ?ok)
    case True
    then obtain x where "s32 (energy j vs) = Some x" unfolding ks by auto
    moreover from this have "x = energy j vs" by (simp add: s32_def split: if_splits)
    ultimately show ?thesis using True inner last dv unfolding ks run by simp
  next
    case False
    then show ?thesis using inner last unfolding ks run by (auto split: if_splits)
  qed
  moreover have ?ok if small: "\<forall>v \<in> set vs. \<bar>v\<bar> \<le> 3300"
  proof
    fix k :: nat assume k: "k \<in> {1..2000}"
    have "\<bar>energy j (take k vs)\<bar> \<le> int (length (take k vs)) * (3300 * 325)"
      using small by (intro energy_bound) (meson in_set_takeD)
    also have "\<dots> \<le> 2000 * (3300 * 325)" using k assms(1) by simp
    finally show "s32 (energy j (take k vs)) \<noteq> None" by simp
  qed
  ultimately show ?thesis by (auto split: if_splits)
qed

lemma funpow_numeral: "(f ^^ numeral k) x = (f ^^ pred_numeral k) (f x)"
  by (simp add: numeral_eq_Suc funpow_swap1)

text \<open>A load of 16 amperes (22.4 at the peak) is more than the sum can hold.\<close>

definition example_period :: "int list" where
  "example_period = map (\<lambda>volt. 69 * volt) (rotate1 tab_sin)"

definition example_load :: "int list" where
  "example_load = concat (replicate 15 example_period) @ concat (replicate 35 example_period)"

lemma example_period:
  "length example_period = 40" "\<forall>v \<in> set example_period. \<bar>v\<bar> \<le> 51200"
  "energy 0 example_period = 145467318" "(next_place ^^ 40) 0 = 0"
  by (simp_all add: example_period_def tab_sin_def next_place_def funpow_numeral)

lemma energy_periods: "energy 0 (concat (replicate n example_period)) = int n * 145467318"
  by (induction n) (simp_all only: replicate_empty replicate_Suc concat.simps energy.simps energy_append
    example_period of_nat_Suc distrib_right, simp_all)

lemma power_meter_witness: "meter_samples example_load example_plug = None"
proof -
  have "length example_load = 2000 \<and> (\<forall>v \<in> set example_load. \<bar>v\<bar> \<le> 51200)"
    by (auto simp: example_load_def length_concat sum_list_replicate example_period)
  moreover have "num_mesure example_plug = 0" "mesure_sum example_plug = 0"
    "temp_from_zero_cross example_plug = of_nat 0"
    by (simp_all add: example_plug_def example_shutter_def)
  moreover have over: "s32 (energy 0 (take 600 example_load)) = None"
  proof -
    have "take 600 example_load = concat (replicate 15 example_period)"
      by (simp add: example_load_def length_concat sum_list_replicate example_period(1))
    then show ?thesis by (simp add: energy_periods s32_def)
  qed
  moreover have "\<not> (\<forall>k \<in> {1..2000}. s32 (energy 0 (take k example_load)) \<noteq> None)"
  proof
    assume "\<forall>k \<in> {1..2000}. s32 (energy 0 (take k example_load)) \<noteq> None"
    then have "s32 (energy 0 (take 600 example_load)) \<noteq> None" by (rule bspec) simp
    with over show False by simp
  qed
  ultimately show ?thesis using power_meter [of example_load example_plug 0] by (simp only: if_False) simp
qed

end
