(* ===== verification/I2c.thy ===== *)
theory I2c
  imports Esp_Prelude
begin

text \<open>
  The bit-banged I2C master of \<open>driver/i2c_master.c\<close>, which the switch builds use to read the
  PCF8885 touch controller.

  Both lines are open drain: a line is high while nobody pulls it down. The state keeps the last
  levels the master has set and all the levels it has set so far, oldest first; what the master
  reads from SDA depends on the other end of the bus, which is a function \<open>peer\<close> of those
  levels. Waiting does not change the state.
\<close>

section \<open>Model\<close>

record i2c =
  m_nLastSDA :: u8
  m_nLastSCL :: u8
  levels :: "(bool \<times> bool) list"

definition i2c_master_setDC :: "u8 \<Rightarrow> u8 \<Rightarrow> i2c \<Rightarrow> i2c" where
  "i2c_master_setDC sda scl s =
     (let sda = sda AND 1; scl = scl AND 1
      in s\<lparr>m_nLastSDA := sda, m_nLastSCL := scl, levels := levels s @ [(sda = 1, scl = 1)]\<rparr>)"

definition i2c_master_getDC :: "((bool \<times> bool) list \<Rightarrow> bool) \<Rightarrow> i2c \<Rightarrow> u8" where
  "i2c_master_getDC peer s = (if peer (levels s) then 1 else 0)"

definition i2c_master_start :: "i2c \<Rightarrow> i2c" where
  "i2c_master_start s =
     (let s = i2c_master_setDC 1 (m_nLastSCL s) s; s = i2c_master_setDC 1 1 s
      in i2c_master_setDC 0 1 s)"

definition i2c_master_stop :: "i2c \<Rightarrow> i2c" where
  "i2c_master_stop s =
     (let s = i2c_master_setDC 0 (m_nLastSCL s) s; s = i2c_master_setDC 0 1 s
      in i2c_master_setDC 1 1 s)"

definition i2c_master_init :: "i2c \<Rightarrow> i2c" where
  "i2c_master_init s =
     (let s = i2c_master_setDC 1 0 s; s = i2c_master_setDC 0 0 s; s = i2c_master_setDC 1 0 s;
          s = fold (\<lambda>i s. i2c_master_setDC 1 1 (i2c_master_setDC 1 0 s)) [0..<28] s
      in i2c_master_stop s)"

text \<open>The pin functions that \<open>i2c_master_gpio_init\<close> selects are not part of the state.\<close>

definition i2c_master_gpio_init :: "i2c \<Rightarrow> i2c" where
  "i2c_master_gpio_init s = i2c_master_init (s\<lparr>levels := levels s @ [(True, True)]\<rparr>)"

definition i2c_master_setAck :: "u8 \<Rightarrow> i2c \<Rightarrow> i2c" where
  "i2c_master_setAck level s =
     (let s = i2c_master_setDC (m_nLastSDA s) 0 s; s = i2c_master_setDC level 0 s;
          s = i2c_master_setDC level 1 s; s = i2c_master_setDC level 0 s
      in i2c_master_setDC 1 0 s)"

definition i2c_master_getAck :: "((bool \<times> bool) list \<Rightarrow> bool) \<Rightarrow> i2c \<Rightarrow> u8 \<times> i2c" where
  "i2c_master_getAck peer s =
     (let s = i2c_master_setDC (m_nLastSDA s) 0 s; s = i2c_master_setDC 1 0 s;
          s = i2c_master_setDC 1 1 s; retVal = i2c_master_getDC peer s
      in (retVal, i2c_master_setDC 1 0 s))"

definition i2c_master_checkAck :: "((bool \<times> bool) list \<Rightarrow> bool) \<Rightarrow> i2c \<Rightarrow> bool \<times> i2c" where
  "i2c_master_checkAck peer s = (let (k, s) = i2c_master_getAck peer s in (k = 0, s))"

definition i2c_master_send_ack :: "i2c \<Rightarrow> i2c" where
  "i2c_master_send_ack = i2c_master_setAck 0"

definition i2c_master_send_nack :: "i2c \<Rightarrow> i2c" where
  "i2c_master_send_nack = i2c_master_setAck 1"

text \<open>The loops of \<open>i2c_master_readByte\<close> and \<open>i2c_master_writeByte\<close> over their indices.\<close>

fun read_bits :: "((bool \<times> bool) list \<Rightarrow> bool) \<Rightarrow> nat list \<Rightarrow> u8 \<Rightarrow> i2c \<Rightarrow> u8 \<times> i2c" where
  "read_bits peer [] retVal s = (retVal, s)"
| "read_bits peer (i # is) retVal s =
     (let s = i2c_master_setDC 1 0 s; s = i2c_master_setDC 1 1 s; k = i2c_master_getDC peer s
      in read_bits peer is (retVal OR push_bit (7 - i) k) s)"

definition i2c_master_readByte :: "((bool \<times> bool) list \<Rightarrow> bool) \<Rightarrow> i2c \<Rightarrow> u8 \<times> i2c" where
  "i2c_master_readByte peer s =
     (let s = i2c_master_setDC (m_nLastSDA s) 0 s; (retVal, s) = read_bits peer [0..<8] 0 s
      in (retVal, i2c_master_setDC 1 0 s))"

fun write_bits :: "u8 \<Rightarrow> nat list \<Rightarrow> i2c \<Rightarrow> i2c" where
  "write_bits wrdata [] s = s"
| "write_bits wrdata (i # is) s =
     (let dat = drop_bit i wrdata; s = i2c_master_setDC dat 0 s; s = i2c_master_setDC dat 1 s
      in write_bits wrdata is (i2c_master_setDC dat 0 s))"

definition i2c_master_writeByte :: "u8 \<Rightarrow> i2c \<Rightarrow> i2c" where
  "i2c_master_writeByte wrdata s =
     write_bits wrdata (rev [0..<8]) (i2c_master_setDC (m_nLastSDA s) 0 s)"

text \<open>The part of \<open>send_PCF8885\<close> that reads the switches.\<close>

definition PCF8885_ADRESSE :: u8 where "PCF8885_ADRESSE = 0x40"
definition I2C_READ :: u8 where "I2C_READ = 1"

definition read_PCF8885 :: "((bool \<times> bool) list \<Rightarrow> bool) \<Rightarrow> i2c \<Rightarrow> u8 \<times> i2c" where
  "read_PCF8885 peer s =
     (let s = i2c_master_start s; s = i2c_master_writeByte (PCF8885_ADRESSE OR I2C_READ) s;
          (_, s) = i2c_master_getAck peer s; (stat_switch, s) = i2c_master_readByte peer s;
          s = i2c_master_send_nack s
      in (stat_switch, i2c_master_stop s))"

section \<open>What a device on the bus sees\<close>

text \<open>
  The bus protocol: SDA falling while the clock is high starts a transfer, SDA rising while it is
  high stops it, and SDA is sampled where the clock rises.
\<close>

datatype bus_event = Start | Stop | Bit bool

fun edge :: "bool \<times> bool \<Rightarrow> bool \<times> bool \<Rightarrow> bus_event list" where
  "edge (sda, scl) (sda', scl') =
     (if scl \<and> scl' then (if sda \<and> \<not> sda' then [Start] else if \<not> sda \<and> sda' then [Stop] else [])
      else if scl' then [Bit sda'] else [])"

fun bus_events :: "bool \<times> bool \<Rightarrow> (bool \<times> bool) list \<Rightarrow> bus_event list" where
  "bus_events p [] = []"
| "bus_events p (q # qs) = edge p q @ bus_events q qs"

lemma bus_events_append:
  "bus_events p (xs @ ys) = bus_events p xs @ bus_events (last (p # xs)) ys"
  by (induction xs arbitrary: p) simp_all

text \<open>An operation of the master appends levels; \<open>seen\<close> says what they mean on the bus.\<close>

definition line :: "i2c \<Rightarrow> bool \<times> bool" where
  "line s = (bit (m_nLastSDA s) 0, bit (m_nLastSCL s) 0)"

definition seen :: "i2c \<Rightarrow> i2c \<Rightarrow> bus_event list \<Rightarrow> bool" where
  "seen s s' es \<longleftrightarrow> (\<exists>xs. levels s' = levels s @ xs \<and> bus_events (line s) xs = es \<and> last (line s # xs) = line s')"

lemma seen_refl: "seen s s []"
  by (simp add: seen_def)

lemma seen_trans:
  assumes "seen s s' es" and "seen s' s'' fs" and "gs = es @ fs"
  shows "seen s s'' gs"
proof -
  obtain xs ys where "levels s' = levels s @ xs" "bus_events (line s) xs = es" "last (line s # xs) = line s'"
    "levels s'' = levels s' @ ys" "bus_events (line s') ys = fs" "last (line s' # ys) = line s''"
    using assms(1,2) unfolding seen_def by blast
  then show ?thesis
    unfolding seen_def assms(3) by (intro exI [of _ "xs @ ys"]) (simp add: bus_events_append last_append split: if_splits)
qed

lemma line_setDC [simp]: "line (i2c_master_setDC a b s) = (bit a 0, bit b 0)"
  by (simp add: line_def i2c_master_setDC_def Let_def bit_and_iff)

lemma and_one: "(x AND 1 = 1) = bit x 0" for x :: u8
  by (simp add: and_one_eq odd_iff_mod_2_eq_one bit_0)

lemma setDC_seen: "seen s (i2c_master_setDC a b s) (edge (line s) (bit a 0, bit b 0))"
proof -
  have "levels (i2c_master_setDC a b s) = levels s @ [line (i2c_master_setDC a b s)]"
    by (simp add: i2c_master_setDC_def line_def Let_def bit_and_iff and_one)
  then show ?thesis unfolding seen_def by (intro exI [of _ "[line (i2c_master_setDC a b s)]"]) simp
qed

text \<open>Steps of the master, with the lines they leave.\<close>

lemma bit_one: "bit (1 :: u8) 0" "\<not> bit (0 :: u8) 0"
  by simp_all

lemma low_seen: "snd (line s) = k \<Longrightarrow> seen s (i2c_master_setDC a 0 s) []"
  using setDC_seen [of s a 0] by (cases "line s") simp

lemma rise_seen: "\<not> snd (line s) \<Longrightarrow> seen s (i2c_master_setDC a 1 s) [Bit (bit a 0)]"
  using setDC_seen [of s a 1] by (cases "line s") simp

lemma clock_seen:
  assumes "\<not> snd (line s)"
  shows "seen s (i2c_master_setDC d 0 (i2c_master_setDC d 1 (i2c_master_setDC d 0 s))) [Bit (bit d 0)]"
proof -
  have "seen s (i2c_master_setDC d 1 (i2c_master_setDC d 0 s)) [Bit (bit d 0)]"
    by (rule seen_trans [OF low_seen [OF refl] rise_seen]) simp_all
  then show ?thesis by (rule seen_trans [OF _ low_seen [OF refl]]) simp
qed

lemma write_bits_seen:
  "\<not> snd (line s) \<Longrightarrow> seen s (write_bits w is s) (map (\<lambda>i. Bit (bit w i)) is) \<and> \<not> snd (line (write_bits w is s))"
proof (induction "is" arbitrary: s)
  case (Cons i "is")
  let ?d = "drop_bit i w"
  let ?s = "i2c_master_setDC ?d 0 (i2c_master_setDC ?d 1 (i2c_master_setDC ?d 0 s))"
  have IH: "seen ?s (write_bits w is ?s) (map (\<lambda>i. Bit (bit w i)) is)" "\<not> snd (line (write_bits w is ?s))"
    using Cons.IH [of ?s] by simp_all
  have "seen s (write_bits w is ?s) (map (\<lambda>i. Bit (bit w i)) (i # is))"
    by (rule seen_trans [OF clock_seen [OF Cons.prems] IH(1)]) (simp add: bit_drop_bit_eq)
  then show ?case using IH(2) by (simp add: Let_def)
qed (simp add: seen_refl)

lemma writeByte_seen:
  shows "seen s (i2c_master_writeByte w s) (map (\<lambda>i. Bit (bit w i)) (rev [0..<8]))"
    and "\<not> snd (line (i2c_master_writeByte w s))"
proof -
  let ?s = "i2c_master_setDC (m_nLastSDA s) 0 s"
  have "\<not> snd (line ?s)" by simp
  then have b: "seen ?s (write_bits w (rev [0..<8]) ?s) (map (\<lambda>i. Bit (bit w i)) (rev [0..<8]))"
    "\<not> snd (line (write_bits w (rev [0..<8]) ?s))" using write_bits_seen by blast+
  show "\<not> snd (line (i2c_master_writeByte w s))" using b(2) by (simp only: i2c_master_writeByte_def) simp
  show "seen s (i2c_master_writeByte w s) (map (\<lambda>i. Bit (bit w i)) (rev [0..<8]))"
    unfolding i2c_master_writeByte_def by (rule seen_trans [OF low_seen [OF refl] b(1)]) simp
qed

lemma start_seen:
  assumes "line s = (True, True)"
  shows "seen s (i2c_master_start s) [Start]" and "line (i2c_master_start s) = (False, True)"
proof -
  have l: "bit (m_nLastSCL s) 0" using assms by (simp add: line_def)
  have hold: "seen t (i2c_master_setDC 1 1 t) []" if "line t = (True, True)" for t
    using setDC_seen [of t 1 1] that by simp
  let ?s = "i2c_master_setDC 1 1 (i2c_master_setDC 1 (m_nLastSCL s) s)"
  have "seen s (i2c_master_setDC 1 (m_nLastSCL s) s) []" using setDC_seen [of s 1 "m_nLastSCL s"] assms l by simp
  then have "seen s ?s []" by (rule seen_trans [OF _ hold]) (simp_all add: l)
  moreover have "seen ?s (i2c_master_setDC 0 1 ?s) [Start]" using setDC_seen [of ?s 0 1] by simp
  ultimately have "seen s (i2c_master_setDC 0 1 ?s) [Start]" by (rule seen_trans) simp
  then show "seen s (i2c_master_start s) [Start]" by (simp add: i2c_master_start_def Let_def)
qed (simp add: i2c_master_start_def Let_def)

lemma stop_seen:
  assumes "line s = (True, False)"
  shows "seen s (i2c_master_stop s) [Bit False, Stop]" and "line (i2c_master_stop s) = (True, True)"
proof -
  let ?a = "i2c_master_setDC 0 (m_nLastSCL s) s"
  let ?b = "i2c_master_setDC 0 1 ?a"
  have l: "\<not> bit (m_nLastSCL s) 0" using assms by (simp add: line_def)
  have "seen s ?a []" using setDC_seen [of s 0 "m_nLastSCL s"] l by (cases "line s") simp
  moreover have "seen ?a ?b [Bit False]" using rise_seen [of ?a 0] l by simp
  ultimately have "seen s ?b [Bit False]" by (rule seen_trans) simp
  moreover have "seen ?b (i2c_master_setDC 1 1 ?b) [Stop]" using setDC_seen [of ?b 1 1] by simp
  ultimately have "seen s (i2c_master_setDC 1 1 ?b) [Bit False, Stop]" by (rule seen_trans) simp
  then show "seen s (i2c_master_stop s) [Bit False, Stop]" by (simp add: i2c_master_stop_def Let_def)
qed (simp add: i2c_master_stop_def Let_def)

lemma setAck_seen:
  shows "seen s (i2c_master_setAck a s) [Bit (bit a 0)]" and "line (i2c_master_setAck a s) = (True, False)"
proof -
  let ?s = "i2c_master_setDC (m_nLastSDA s) 0 s"
  let ?t = "i2c_master_setDC a 0 (i2c_master_setDC a 1 (i2c_master_setDC a 0 ?s))"
  have "seen s ?t [Bit (bit a 0)]" by (rule seen_trans [OF low_seen [OF refl] clock_seen]) simp_all
  then have "seen s (i2c_master_setDC 1 0 ?t) [Bit (bit a 0)]" by (rule seen_trans [OF _ low_seen [OF refl]]) simp
  then show "seen s (i2c_master_setAck a s) [Bit (bit a 0)]" by (simp add: i2c_master_setAck_def Let_def)
qed (simp add: i2c_master_setAck_def Let_def)

lemma getAck_seen:
  shows "seen s (snd (i2c_master_getAck peer s)) [Bit True]" and "line (snd (i2c_master_getAck peer s)) = (True, False)"
proof -
  let ?s = "i2c_master_setDC (m_nLastSDA s) 0 s"
  have "seen s (i2c_master_setDC 1 0 (i2c_master_setDC 1 1 (i2c_master_setDC 1 0 ?s))) [Bit (bit 1 0)]"
    by (rule seen_trans [OF low_seen [OF refl] clock_seen]) simp_all
  then show "seen s (snd (i2c_master_getAck peer s)) [Bit True]" by (simp add: i2c_master_getAck_def Let_def)
qed (simp add: i2c_master_getAck_def Let_def)

section \<open>Reading a byte\<close>

text \<open>
  The other end presents a byte: once it has seen the events \<open>pre\<close> and \<open>i + 1\<close> more clocks with
  SDA released, it holds SDA at the bit \<open>7 - i\<close>.
\<close>

definition presents :: "((bool \<times> bool) list \<Rightarrow> bool) \<Rightarrow> i2c \<Rightarrow> bus_event list \<Rightarrow> u8 \<Rightarrow> bool" where
  "presents peer s pre v \<longleftrightarrow> (\<forall>i < 8. \<forall>xs. bus_events (line s) xs = pre @ replicate (Suc i) (Bit True) \<longrightarrow>
     peer (levels s @ xs) = bit v (7 - i))"

lemma presentsD:
  assumes "presents peer s pre v" and "seen s s' (pre @ replicate (Suc i) (Bit True))" and "i < 8"
  shows "i2c_master_getDC peer s' = of_bool (bit v (7 - i))"
  using assms unfolding presents_def seen_def i2c_master_getDC_def by auto

lemma take_bit_top: "take_bit (Suc n) v = push_bit n (of_bool (bit v n)) OR take_bit n v" for v :: u8
  by (rule bit_eqI) (auto simp: bit_simps less_Suc_eq)

lemma read_bits_seen:
  assumes "presents peer s0 pre v" and "seen s0 s (pre @ replicate i (Bit True))" and "i \<le> 8"
  shows "\<exists>s'. read_bits peer [i..<8] r s = (r OR take_bit (8 - i) v, s') \<and> seen s0 s' (pre @ replicate 8 (Bit True))"
  using assms(2,3)
proof (induction "8 - i" arbitrary: i r s)
  case 0
  then show ?case by simp
next
  case (Suc n)
  then have i: "i < 8" "n = 7 - i" "[i..<8] = i # [Suc i..<8]" by (simp_all add: upt_conv_Cons)
  let ?s = "i2c_master_setDC 1 1 (i2c_master_setDC 1 0 s)"
  have "seen s ?s [Bit True]" by (rule seen_trans [OF low_seen [OF refl] rise_seen]) simp_all
  with Suc.prems(1) have seen: "seen s0 ?s (pre @ replicate (Suc i) (Bit True))"
    by (rule seen_trans) (simp add: replicate_append_same)
  note k = presentsD [OF assms(1) seen i(1)]
  let ?r = "r OR push_bit (7 - i) (of_bool (bit v (7 - i)))"
  have "read_bits peer [i..<8] r s = read_bits peer [Suc i..<8] ?r ?s"
    unfolding i(3) by (simp add: Let_def k)
  moreover have "?r OR take_bit (8 - Suc i) v = r OR take_bit (8 - i) v"
  proof -
    have e: "8 - i = Suc (7 - i)" "8 - Suc i = 7 - i" using i(1) by simp_all
    show ?thesis unfolding e take_bit_top by (simp only: or.assoc)
  qed
  ultimately show ?case using Suc.hyps(1) [of "Suc i" ?s ?r] Suc.hyps(2) seen i(1) by simp
qed

lemma readByte_seen:
  assumes "presents peer s0 pre v" and "seen s0 s pre"
  shows "\<exists>s'. i2c_master_readByte peer s = (v, s') \<and> seen s0 s' (pre @ replicate 8 (Bit True)) \<and> line s' = (True, False)"
proof -
  let ?s = "i2c_master_setDC (m_nLastSDA s) 0 s"
  have "seen s0 ?s (pre @ replicate 0 (Bit True))" by (rule seen_trans [OF assms(2) low_seen [OF refl]]) simp
  from read_bits_seen [OF assms(1) this, of 0] obtain s' where
    s': "read_bits peer [0..<8] 0 ?s = (take_bit 8 v, s')" "seen s0 s' (pre @ replicate 8 (Bit True))" by auto
  have "take_bit 8 v = v" by (rule bit_eqI) (auto simp: bit_simps)
  then have "i2c_master_readByte peer s = (v, i2c_master_setDC 1 0 s')"
    using s'(1) by (simp add: i2c_master_readByte_def)
  moreover have "seen s0 (i2c_master_setDC 1 0 s') (pre @ replicate 8 (Bit True))"
    by (rule seen_trans [OF s'(2) low_seen [OF refl]]) simp
  ultimately show ?thesis by simp
qed

lemma init_idle: "line (i2c_master_gpio_init s) = (True, True)"
  by (simp add: i2c_master_gpio_init_def i2c_master_init_def i2c_master_stop_def Let_def)

text \<open>The transfer up to the acknowledge: the address with the read bit, and the clock of the acknowledge.\<close>

definition read_request :: "bus_event list" where
  "read_request = Start # map Bit [False, True, False, False, False, False, False, True] @ [Bit True]"

lemma read_PCF8885_transfer:
  assumes "line s = (True, True)" and "presents peer s read_request v"
  shows "\<exists>s'. read_PCF8885 peer s = (v, s') \<and> line s' = (True, True) \<and>
    seen s s' (read_request @ replicate 9 (Bit True) @ [Bit False, Stop])"
proof -
  let ?a = "i2c_master_writeByte (PCF8885_ADRESSE OR I2C_READ) (i2c_master_start s)"
  let ?b = "snd (i2c_master_getAck peer ?a)"
  have bits: "map (\<lambda>i. Bit (bit (PCF8885_ADRESSE OR I2C_READ) i)) (rev [0..<8]) =
      map Bit [False, True, False, False, False, False, False, True]"
    unfolding PCF8885_ADRESSE_def I2C_READ_def by code_simp
  have "seen s ?a (Start # map Bit [False, True, False, False, False, False, False, True])"
    by (rule seen_trans [OF start_seen(1) [OF assms(1)] writeByte_seen(1)]) (simp only: bits append_Cons append_Nil)
  then have "seen s ?b read_request"
    by (rule seen_trans [OF _ getAck_seen(1)]) (simp add: read_request_def)
  from readByte_seen [OF assms(2) this] obtain c where c: "i2c_master_readByte peer ?b = (v, c)"
    "seen s c (read_request @ replicate 8 (Bit True))" by blast
  have "seen s (i2c_master_send_nack c) (read_request @ replicate 9 (Bit True))"
    unfolding i2c_master_send_nack_def by (rule seen_trans [OF c(2) setAck_seen(1)]) (simp add: numeral_eq_Suc)
  moreover have l: "line (i2c_master_send_nack c) = (True, False)"
    unfolding i2c_master_send_nack_def by (rule setAck_seen(2))
  ultimately have "seen s (i2c_master_stop (i2c_master_send_nack c)) (read_request @ replicate 9 (Bit True) @ [Bit False, Stop])"
    by (rule seen_trans [OF _ stop_seen(1)]) simp_all
  moreover have "read_PCF8885 peer s = (v, i2c_master_stop (i2c_master_send_nack c))"
    using c(1) by (cases "i2c_master_getAck peer ?a") (simp add: read_PCF8885_def Let_def)
  ultimately show ?thesis using stop_seen(2) [OF l] by blast
qed

lemma read_PCF8885_idle:
  assumes "line s = (True, True)" and "presents peer s read_request v"
  shows "\<exists>s'. read_PCF8885 peer s = (v, s') \<and> line s' = (True, True)"
  using read_PCF8885_transfer [OF assms] by blast

text \<open>
  C27: reading the switches. On an idle bus the master sends one well-formed transfer: a start, the
  address 0x41 with the most significant bit first, a clock for the acknowledge and eight clocks
  for the data with SDA released, a refused acknowledge and a stop, with SDA steady whenever the
  clock is high in between. If the controller presents a byte, the most significant bit first,
  the function returns this byte; it does not test the acknowledge. The bus is idle again.
\<close>

theorem switches_read:
  assumes "line s = (True, True)" and "presents peer s read_request v"
  shows "\<exists>s'. read_PCF8885 peer s = (v, s') \<and> line s' = (True, True) \<and>
    seen s s' (read_request @ replicate 9 (Bit True) @ [Bit False, Stop])"
  by (rule read_PCF8885_transfer [OF assms])

text \<open>A controller with the first and the third switch touched.\<close>

definition example_bus :: i2c where
  "example_bus = \<lparr>m_nLastSDA = 1, m_nLastSCL = 1, levels = []\<rparr>"

definition example_controller :: "(bool \<times> bool) list \<Rightarrow> bool" where
  "example_controller xs = bit (5 :: u8) (18 - length (bus_events (True, True) xs))"

lemma example_controller:
  "line example_bus = (True, True)" "presents example_controller example_bus read_request 5"
proof -
  show l: "line example_bus = (True, True)" by (simp add: line_def example_bus_def)
  show "presents example_controller example_bus read_request 5"
    unfolding presents_def l by (simp add: example_bus_def example_controller_def read_request_def)
qed

lemma switches_read_witness: "fst (read_PCF8885 example_controller example_bus) = 5"
  using switches_read [OF example_controller] by fastforce

end
