(* ===== verification/Bme280.thy ===== *)
theory Bme280
  imports Esp_Prelude "HOL-Library.Signed_Division"
begin

text \<open>
  The weather sensor: the BME280 driver \<open>user/bme280.c\<close> and its bus functions in
  \<open>user/bme280_user.c\<close>.

  The SPI transfer with the sensor selected is a parameter \<open>spi\<close>: it takes the bytes clocked out
  and returns the bytes clocked in, of the same number. Both bus functions return 0, and sums of
  such results are 0; a null \<open>p_bme280\<close> gives -127. The floating-point variants of the
  compensation formulas, which nothing calls, are not modelled.
\<close>

section \<open>State\<close>

record calibration =
  dig_T1 :: int
  dig_T2 :: int
  dig_T3 :: int
  dig_P1 :: int
  dig_P2 :: int
  dig_P3 :: int
  dig_P4 :: int
  dig_P5 :: int
  dig_P6 :: int
  dig_P7 :: int
  dig_P8 :: int
  dig_P9 :: int
  dig_H1 :: int
  dig_H2 :: int
  dig_H3 :: int
  dig_H4 :: int
  dig_H5 :: int
  dig_H6 :: int
  t_fine :: int

record bme280 =
  p_bme280 :: bool
  cal_param :: calibration
  chip_id :: u8
  oversamp_temperature :: u8
  oversamp_pressure :: u8
  oversamp_humidity :: u8
  ctrl_hum_reg :: u8
  ctrl_meas_reg :: u8
  config_reg :: u8

type_synonym 'c spi = "bytes \<Rightarrow> 'c \<Rightarrow> bytes \<times> 'c"
type_synonym 'c sensor = "bme280 \<times> 'c"

definition BME280_CHIP_ID_REG :: u8 where "BME280_CHIP_ID_REG = 0xD0"
definition BME280_RST_REG :: u8 where "BME280_RST_REG = 0xE0"
definition BME280_CTRL_HUMIDITY_REG :: u8 where "BME280_CTRL_HUMIDITY_REG = 0xF2"
definition BME280_CTRL_MEAS_REG :: u8 where "BME280_CTRL_MEAS_REG = 0xF4"
definition BME280_CONFIG_REG :: u8 where "BME280_CONFIG_REG = 0xF5"
definition BME280_PRESSURE_MSB_REG :: u8 where "BME280_PRESSURE_MSB_REG = 0xF7"
definition BME280_TEMPERATURE_MSB_REG :: u8 where "BME280_TEMPERATURE_MSB_REG = 0xFA"
definition BME280_HUMIDITY_MSB_REG :: u8 where "BME280_HUMIDITY_MSB_REG = 0xFD"
definition BME280_SOFT_RESET_CODE :: u8 where "BME280_SOFT_RESET_CODE = 0xB6"
definition E_BME280_NULL_PTR :: int where "E_BME280_NULL_PTR = - 127"
definition E_BME280_OUT_OF_RANGE :: int where "E_BME280_OUT_OF_RANGE = - 2"

section \<open>The bus\<close>

text \<open>
  Reading sends the address with its top bit set and as many zero bytes as are read, from an
  array of 64; writing sends pairs of an address without its top bit and a byte, from an array of
  128. The arrays are local, so more is undefined.
\<close>

definition BME280_SPI_bus_read :: "'c spi \<Rightarrow> u8 \<Rightarrow> nat \<Rightarrow> 'c \<Rightarrow> (bytes \<times> 'c) option" where
  "BME280_SPI_bus_read spi reg_addr cnt c =
     (if cnt + 1 > 64 then None
      else let (xs, c) = spi ((reg_addr OR 0x80) # replicate cnt 0) c in Some (take cnt (drop 1 xs), c))"

fun write_pairs :: "u8 \<Rightarrow> bytes \<Rightarrow> bytes" where
  "write_pairs reg_addr [] = []"
| "write_pairs reg_addr (x # xs) = (reg_addr AND 0x7F) # x # write_pairs (reg_addr + 1) xs"

definition BME280_SPI_bus_write :: "'c spi \<Rightarrow> u8 \<Rightarrow> bytes \<Rightarrow> 'c \<Rightarrow> 'c option" where
  "BME280_SPI_bus_write spi reg_addr xs c =
     (if 2 * length xs > 128 then None else Some (snd (spi (write_pairs reg_addr xs) c)))"

text \<open>A driver function: its part after the test of \<open>p_bme280\<close>.\<close>

definition with_sensor :: "('c sensor \<Rightarrow> (int \<times> 'c sensor) option) \<Rightarrow> 'c sensor \<Rightarrow> (int \<times> 'c sensor) option" where
  "with_sensor f s = (if p_bme280 (fst s) then f s else Some (E_BME280_NULL_PTR, s))"

definition bme280_write_register :: "'c spi \<Rightarrow> u8 \<Rightarrow> bytes \<Rightarrow> 'c sensor \<Rightarrow> (int \<times> 'c sensor) option" where
  "bme280_write_register spi addr xs = with_sensor (\<lambda>(b, c). do {
     c \<leftarrow> BME280_SPI_bus_write spi addr xs c;
     Some (0, b, c)
   })"

text \<open>Reading gives the bytes as well; without a sensor the caller's variable keeps \<open>old\<close>.\<close>

definition bme280_read_register :: "'c spi \<Rightarrow> u8 \<Rightarrow> nat \<Rightarrow> bytes \<Rightarrow> 'c sensor \<Rightarrow> (int \<times> bytes \<times> 'c sensor) option" where
  "bme280_read_register spi addr n old s =
     (if \<not> p_bme280 (fst s) then Some (E_BME280_NULL_PTR, old, s)
      else do {
        (xs, c) \<leftarrow> BME280_SPI_bus_read spi addr n (snd s);
        Some (0, xs, fst s, c)
      })"

section \<open>Settings\<close>

definition BME280_GET_BITSLICE :: "u8 \<Rightarrow> u8 \<Rightarrow> nat \<Rightarrow> u8" where
  "BME280_GET_BITSLICE regvar msk pos = drop_bit pos (regvar AND msk)"

definition BME280_SET_BITSLICE :: "u8 \<Rightarrow> u8 \<Rightarrow> nat \<Rightarrow> u8 \<Rightarrow> u8" where
  "BME280_SET_BITSLICE regvar msk pos val = (regvar AND NOT msk) OR (push_bit pos val AND msk)"

text \<open>The getters: a field of a register.\<close>

definition get_field :: "'c spi \<Rightarrow> u8 \<Rightarrow> u8 \<Rightarrow> nat \<Rightarrow> (u8 \<Rightarrow> bme280 \<Rightarrow> bme280) \<Rightarrow> u8 \<Rightarrow> 'c sensor \<Rightarrow> (int \<times> u8 \<times> 'c sensor) option" where
  "get_field spi reg msk pos keep old s =
     (if \<not> p_bme280 (fst s) then Some (E_BME280_NULL_PTR, old, s)
      else do {
        (xs, c) \<leftarrow> BME280_SPI_bus_read spi reg 1 (snd s);
        x \<leftarrow> load xs 0;
        let v = BME280_GET_BITSLICE x msk pos;
        Some (0, v, keep v (fst s), c)
      })"

definition bme280_get_power_mode where
  "bme280_get_power_mode spi = get_field spi BME280_CTRL_MEAS_REG 0x03 0 (\<lambda>v b. b)"

definition bme280_get_oversamp_temperature where
  "bme280_get_oversamp_temperature spi =
     get_field spi BME280_CTRL_MEAS_REG 0xE0 5 (\<lambda>v b. b\<lparr>oversamp_temperature := v\<rparr>)"

definition bme280_get_oversamp_pressure where
  "bme280_get_oversamp_pressure spi =
     get_field spi BME280_CTRL_MEAS_REG 0x1C 2 (\<lambda>v b. b\<lparr>oversamp_pressure := v\<rparr>)"

definition bme280_get_oversamp_humidity where
  "bme280_get_oversamp_humidity spi =
     get_field spi BME280_CTRL_HUMIDITY_REG 0x07 0 (\<lambda>v b. b\<lparr>oversamp_humidity := v\<rparr>)"

definition bme280_get_spi3 where
  "bme280_get_spi3 spi = get_field spi BME280_CONFIG_REG 0x01 0 (\<lambda>v b. b)"

definition bme280_get_filter where
  "bme280_get_filter spi = get_field spi BME280_CONFIG_REG 0x1C 2 (\<lambda>v b. b)"

definition bme280_get_standby_durn where
  "bme280_get_standby_durn spi = get_field spi BME280_CONFIG_REG 0xE0 5 (\<lambda>v b. b)"

definition bme280_set_soft_rst :: "'c spi \<Rightarrow> 'c sensor \<Rightarrow> (int \<times> 'c sensor) option" where
  "bme280_set_soft_rst spi = with_sensor (\<lambda>(b, c). do {
     c \<leftarrow> BME280_SPI_bus_write spi BME280_RST_REG [BME280_SOFT_RESET_CODE] c;
     Some (0, b, c)
   })"

text \<open>
  The setters. A sensor that is not asleep is reset and gets all three registers; one that sleeps
  gets what \<open>asleep\<close> writes.
\<close>

definition apply_settings ::
    "'c spi \<Rightarrow> u8 \<Rightarrow> u8 \<Rightarrow> u8 \<Rightarrow> ('c sensor \<Rightarrow> (int \<times> 'c sensor) option) \<Rightarrow> 'c sensor \<Rightarrow> 'c sensor option" where
  "apply_settings spi config hum meas asleep s = do {
     (r, mode, s) \<leftarrow> bme280_get_power_mode spi 0 s;
     if mode \<noteq> 0 then do {
       (r, s) \<leftarrow> bme280_set_soft_rst spi s;
       (r, s) \<leftarrow> bme280_write_register spi BME280_CONFIG_REG [config] s;
       (r, s) \<leftarrow> bme280_write_register spi BME280_CTRL_HUMIDITY_REG [hum] s;
       (r, s) \<leftarrow> bme280_write_register spi BME280_CTRL_MEAS_REG [meas] s;
       Some s
     } else do { (r, s) \<leftarrow> asleep s; Some s }
   }"

definition reload_settings :: "'c spi \<Rightarrow> 'c sensor \<Rightarrow> 'c sensor option" where
  "reload_settings spi s = do {
     (r, m, b, c) \<leftarrow> bme280_read_register spi BME280_CTRL_MEAS_REG 1 [0] s;
     m \<leftarrow> load m 0;
     (r, h, b, c) \<leftarrow> bme280_read_register spi BME280_CTRL_HUMIDITY_REG 1 [0] (b\<lparr>ctrl_meas_reg := m\<rparr>, c);
     h \<leftarrow> load h 0;
     (r, f, b, c) \<leftarrow> bme280_read_register spi BME280_CONFIG_REG 1 [0] (b\<lparr>ctrl_hum_reg := h\<rparr>, c);
     f \<leftarrow> load f 0;
     Some (b\<lparr>config_reg := f\<rparr>, c)
   }"

definition bme280_set_oversamp_temperature :: "'c spi \<Rightarrow> u8 \<Rightarrow> 'c sensor \<Rightarrow> (int \<times> 'c sensor) option" where
  "bme280_set_oversamp_temperature spi v = with_sensor (\<lambda>(b, c). do {
     let m = BME280_SET_BITSLICE (ctrl_meas_reg b) 0xE0 5 v;
     (b, c) \<leftarrow> apply_settings spi (config_reg b) (ctrl_hum_reg b) m
       (bme280_write_register spi BME280_CTRL_MEAS_REG [m]) (b, c);
     s \<leftarrow> reload_settings spi (b\<lparr>oversamp_temperature := v\<rparr>, c);
     Some (0, s)
   })"

definition bme280_set_oversamp_pressure :: "'c spi \<Rightarrow> u8 \<Rightarrow> 'c sensor \<Rightarrow> (int \<times> 'c sensor) option" where
  "bme280_set_oversamp_pressure spi v = with_sensor (\<lambda>(b, c). do {
     let m = BME280_SET_BITSLICE (ctrl_meas_reg b) 0x1C 2 v;
     (b, c) \<leftarrow> apply_settings spi (config_reg b) (ctrl_hum_reg b) m
       (bme280_write_register spi BME280_CTRL_MEAS_REG [m]) (b, c);
     s \<leftarrow> reload_settings spi (b\<lparr>oversamp_pressure := v\<rparr>, c);
     Some (0, s)
   })"

text \<open>The humidity setting takes effect with the next write of the measurement register.\<close>

definition bme280_set_oversamp_humidity :: "'c spi \<Rightarrow> u8 \<Rightarrow> 'c sensor \<Rightarrow> (int \<times> 'c sensor) option" where
  "bme280_set_oversamp_humidity spi v = with_sensor (\<lambda>(b, c). do {
     let h = BME280_SET_BITSLICE (ctrl_hum_reg b) 0x07 0 v;
     (b, c) \<leftarrow> apply_settings spi (config_reg b) h (ctrl_meas_reg b)
       (\<lambda>s. do {
          (r, s) \<leftarrow> bme280_write_register spi BME280_CTRL_HUMIDITY_REG [h] s;
          bme280_write_register spi BME280_CTRL_MEAS_REG [ctrl_meas_reg b] s
        }) (b, c);
     s \<leftarrow> reload_settings spi (b\<lparr>oversamp_humidity := v\<rparr>, c);
     Some (0, s)
   })"

definition bme280_set_power_mode :: "'c spi \<Rightarrow> u8 \<Rightarrow> 'c sensor \<Rightarrow> (int \<times> 'c sensor) option" where
  "bme280_set_power_mode spi v = with_sensor (\<lambda>(b, c).
     if v \<le> 3 then do {
       let m = BME280_SET_BITSLICE (ctrl_meas_reg b) 0x03 0 v;
       s \<leftarrow> apply_settings spi (config_reg b) (ctrl_hum_reg b) m
         (bme280_write_register spi BME280_CTRL_MEAS_REG [m]) (b, c);
       s \<leftarrow> reload_settings spi s;
       Some (0, s)
     } else Some (E_BME280_OUT_OF_RANGE, b, c))"

text \<open>The setters of a field of the configuration register.\<close>

definition set_config :: "'c spi \<Rightarrow> u8 \<Rightarrow> nat \<Rightarrow> u8 \<Rightarrow> 'c sensor \<Rightarrow> (int \<times> 'c sensor) option" where
  "set_config spi msk pos v = with_sensor (\<lambda>(b, c). do {
     let f = BME280_SET_BITSLICE (config_reg b) msk pos v;
     s \<leftarrow> apply_settings spi f (ctrl_hum_reg b) (ctrl_meas_reg b)
       (bme280_write_register spi BME280_CONFIG_REG [f]) (b, c);
     s \<leftarrow> reload_settings spi s;
     Some (0, s)
   })"

definition bme280_set_spi3 where
  "bme280_set_spi3 spi = set_config spi 0x01 0"

definition bme280_set_filter where
  "bme280_set_filter spi = set_config spi 0x1C 2"

definition bme280_set_standby_durn where
  "bme280_set_standby_durn spi = set_config spi 0xE0 5"

section \<open>Calibration\<close>

text \<open>
  The factory's parameters: 26 bytes from 0x88 on and 7 from 0xE1 on. Sixteen bit values are
  little endian; \<open>dig_H4\<close> and \<open>dig_H5\<close> share a byte.
\<close>

definition calib_u16 :: "bytes \<Rightarrow> nat \<Rightarrow> int option" where
  "calib_u16 a i = do { lsb \<leftarrow> load a i; msb \<leftarrow> load a (i + 1); Some (push_bit 8 (uint msb) OR uint lsb) }"

definition calib_s16 :: "bytes \<Rightarrow> nat \<Rightarrow> int option" where
  "calib_s16 a i = do { lsb \<leftarrow> load a i; msb \<leftarrow> load a (i + 1); Some (to_s16 (push_bit 8 (sint msb) OR uint lsb)) }"

definition first_calib :: "bytes \<Rightarrow> calibration \<Rightarrow> calibration option" where
  "first_calib a cal = do {
     t1 \<leftarrow> calib_u16 a 0; t2 \<leftarrow> calib_s16 a 2; t3 \<leftarrow> calib_s16 a 4;
     p1 \<leftarrow> calib_u16 a 6; p2 \<leftarrow> calib_s16 a 8; p3 \<leftarrow> calib_s16 a 10; p4 \<leftarrow> calib_s16 a 12;
     p5 \<leftarrow> calib_s16 a 14; p6 \<leftarrow> calib_s16 a 16; p7 \<leftarrow> calib_s16 a 18; p8 \<leftarrow> calib_s16 a 20;
     p9 \<leftarrow> calib_s16 a 22; h1 \<leftarrow> load a 25;
     Some (cal\<lparr>dig_T1 := t1, dig_T2 := t2, dig_T3 := t3, dig_P1 := p1, dig_P2 := p2, dig_P3 := p3,
       dig_P4 := p4, dig_P5 := p5, dig_P6 := p6, dig_P7 := p7, dig_P8 := p8, dig_P9 := p9,
       dig_H1 := uint h1\<rparr>)
   }"

definition second_calib :: "bytes \<Rightarrow> calibration \<Rightarrow> calibration option" where
  "second_calib a cal = do {
     h2 \<leftarrow> calib_s16 a 0; h3 \<leftarrow> load a 2; h4m \<leftarrow> load a 3; h4l \<leftarrow> load a 4; h5m \<leftarrow> load a 5; h6 \<leftarrow> load a 6;
     Some (cal\<lparr>dig_H2 := h2, dig_H3 := uint h3,
       dig_H4 := to_s16 (push_bit 4 (sint h4m) OR uint (0x0F AND h4l)),
       dig_H5 := to_s16 (push_bit 4 (sint h5m) OR uint (drop_bit 4 h4l)), dig_H6 := sint h6\<rparr>)
   }"

definition bme280_get_calib_param :: "'c spi \<Rightarrow> 'c sensor \<Rightarrow> (int \<times> 'c sensor) option" where
  "bme280_get_calib_param spi = with_sensor (\<lambda>(b, c). do {
     (a, c) \<leftarrow> BME280_SPI_bus_read spi 0x88 26 c;
     cal \<leftarrow> first_calib a (cal_param b);
     (a, c) \<leftarrow> BME280_SPI_bus_read spi 0xE1 7 c;
     cal \<leftarrow> second_calib a cal;
     Some (0, b\<lparr>cal_param := cal\<rparr>, c)
   })"

definition bme280_init :: "'c spi \<Rightarrow> 'c sensor \<Rightarrow> (int \<times> 'c sensor) option" where
  "bme280_init spi = (\<lambda>(b, c). do {
     (xs, c) \<leftarrow> BME280_SPI_bus_read spi BME280_CHIP_ID_REG 1 c;
     x \<leftarrow> load xs 0;
     bme280_get_calib_param spi (b\<lparr>p_bme280 := True, chip_id := x\<rparr>, c)
   })"

definition bme280_init_user :: "'c spi \<Rightarrow> 'c sensor \<Rightarrow> 'c sensor option" where
  "bme280_init_user spi s = do {
     (r, s) \<leftarrow> bme280_init spi s;
     (r, s) \<leftarrow> bme280_set_power_mode spi 3 s;
     (r, s) \<leftarrow> bme280_set_oversamp_humidity spi 1 s;
     (r, s) \<leftarrow> bme280_set_oversamp_pressure spi 1 s;
     (r, s) \<leftarrow> bme280_set_oversamp_temperature spi 1 s;
     (r, s) \<leftarrow> bme280_set_standby_durn spi 0 s;
     (r, s) \<leftarrow> bme280_set_power_mode spi 1 s;
     Some s
   }"

section \<open>Raw values\<close>

text \<open>Twenty bits, the lowest four in the top half of the third byte, and sixteen bits.\<close>

definition raw20 :: "bytes \<Rightarrow> nat \<Rightarrow> int option" where
  "raw20 a i = do {
     msb \<leftarrow> load a i; lsb \<leftarrow> load a (i + 1); xlsb \<leftarrow> load a (i + 2);
     Some (sint (push_bit 12 (ucast msb :: u32) OR push_bit 4 (ucast lsb) OR drop_bit 4 (ucast xlsb)))
   }"

definition raw16 :: "bytes \<Rightarrow> nat \<Rightarrow> int option" where
  "raw16 a i = do {
     msb \<leftarrow> load a i; lsb \<leftarrow> load a (i + 1);
     Some (sint (push_bit 8 (ucast msb :: u32) OR ucast lsb))
   }"

text \<open>The readers of a raw value; \<open>old\<close> as above.\<close>

definition read_raw :: "'c spi \<Rightarrow> u8 \<Rightarrow> nat \<Rightarrow> (bytes \<Rightarrow> 'a option) \<Rightarrow> 'a \<Rightarrow> 'c sensor \<Rightarrow> (int \<times> 'a \<times> 'c sensor) option" where
  "read_raw spi reg n f old s =
     (if \<not> p_bme280 (fst s) then Some (E_BME280_NULL_PTR, old, s)
      else do {
        (a, c) \<leftarrow> BME280_SPI_bus_read spi reg n (snd s);
        v \<leftarrow> f a;
        Some (0, v, fst s, c)
      })"

definition bme280_read_uncomp_temperature where
  "bme280_read_uncomp_temperature spi = read_raw spi BME280_TEMPERATURE_MSB_REG 3 (\<lambda>a. raw20 a 0)"

definition bme280_read_uncomp_pressure where
  "bme280_read_uncomp_pressure spi = read_raw spi BME280_PRESSURE_MSB_REG 3 (\<lambda>a. raw20 a 0)"

definition bme280_read_uncomp_humidity where
  "bme280_read_uncomp_humidity spi = read_raw spi BME280_HUMIDITY_MSB_REG 2 (\<lambda>a. raw16 a 0)"

text \<open>Pressure, temperature and humidity in one transfer.\<close>

definition frame_values :: "bytes \<Rightarrow> (int \<times> int \<times> int) option" where
  "frame_values a = do { p \<leftarrow> raw20 a 0; t \<leftarrow> raw20 a 3; h \<leftarrow> raw16 a 6; Some (p, t, h) }"

definition bme280_read_uncomp_pressure_temperature_humidity where
  "bme280_read_uncomp_pressure_temperature_humidity spi = read_raw spi BME280_PRESSURE_MSB_REG 8 frame_values"

section \<open>Compensation\<close>

text \<open>Signed 32-bit arithmetic, whose overflow is undefined.\<close>

definition add_s32 :: "int \<Rightarrow> int \<Rightarrow> int option" where "add_s32 x y = s32 (x + y)"
definition sub_s32 :: "int \<Rightarrow> int \<Rightarrow> int option" where "sub_s32 x y = s32 (x - y)"
definition mul_s32 :: "int \<Rightarrow> int \<Rightarrow> int option" where "mul_s32 x y = s32 (x * y)"
definition shl_s32 :: "int \<Rightarrow> nat \<Rightarrow> int option" where "shl_s32 x n = s32 (push_bit n x)"

definition bme280_compensate_temperature_int32 :: "calibration \<Rightarrow> int \<Rightarrow> (int \<times> calibration) option" where
  "bme280_compensate_temperature_int32 cal v = do {
     a \<leftarrow> shl_s32 (dig_T1 cal) 1;
     a \<leftarrow> sub_s32 (drop_bit 3 v) a;
     a \<leftarrow> mul_s32 a (dig_T2 cal);
     let x1 = drop_bit 11 a;
     d \<leftarrow> sub_s32 (drop_bit 4 v) (dig_T1 cal);
     a \<leftarrow> mul_s32 d d;
     a \<leftarrow> mul_s32 (drop_bit 12 a) (dig_T3 cal);
     let x2 = drop_bit 14 a;
     t \<leftarrow> add_s32 x1 x2;
     a \<leftarrow> mul_s32 t 5;
     a \<leftarrow> add_s32 a 128;
     Some (drop_bit 8 a, cal\<lparr>t_fine := t\<rparr>)
   }"

definition bme280_compensate_temperature_int32_sixteen_bit_output :: "calibration \<Rightarrow> int \<Rightarrow> (int \<times> calibration) option" where
  "bme280_compensate_temperature_int32_sixteen_bit_output cal v = do {
     (t, cal) \<leftarrow> bme280_compensate_temperature_int32 cal v;
     a \<leftarrow> sub_s32 (t_fine cal) 122880;
     a \<leftarrow> mul_s32 a 25;
     a \<leftarrow> add_s32 a 128;
     Some (to_s16 (drop_bit 8 a), cal)
   }"

text \<open>
  The pressure. \<open>pressure_terms\<close> are \<open>v_x1_u32\<close> and \<open>v_x2_u32\<close> before the division, whose
  operands are unsigned; \<open>pressure_correct\<close> is what follows it.
\<close>

definition pressure_terms :: "calibration \<Rightarrow> (int \<times> int) option" where
  "pressure_terms cal = do {
     x1 \<leftarrow> sub_s32 (drop_bit 1 (t_fine cal)) 64000;
     q \<leftarrow> mul_s32 (drop_bit 2 x1) (drop_bit 2 x1);
     x2 \<leftarrow> mul_s32 (drop_bit 11 q) (dig_P6 cal);
     a \<leftarrow> mul_s32 x1 (dig_P5 cal);
     a \<leftarrow> shl_s32 a 1;
     x2 \<leftarrow> add_s32 x2 a;
     a \<leftarrow> shl_s32 (dig_P4 cal) 16;
     x2 \<leftarrow> add_s32 (drop_bit 2 x2) a;
     a \<leftarrow> mul_s32 (dig_P3 cal) (drop_bit 13 q);
     e \<leftarrow> mul_s32 (dig_P2 cal) x1;
     a \<leftarrow> add_s32 (drop_bit 3 a) (drop_bit 1 e);
     a \<leftarrow> add_s32 32768 (drop_bit 18 a);
     a \<leftarrow> mul_s32 a (dig_P1 cal);
     Some (drop_bit 15 a, x2)
   }"

definition pressure_correct :: "calibration \<Rightarrow> u32 \<Rightarrow> u32 option" where
  "pressure_correct cal p = do {
     x1 \<leftarrow> mul_s32 (dig_P9 cal) (sint (drop_bit 13 (drop_bit 3 p * drop_bit 3 p)));
     x2 \<leftarrow> mul_s32 (sint (drop_bit 2 p)) (dig_P8 cal);
     a \<leftarrow> add_s32 (drop_bit 12 x1) (drop_bit 13 x2);
     a \<leftarrow> add_s32 a (dig_P7 cal);
     a \<leftarrow> add_s32 (sint p) (drop_bit 4 a);
     Some (word_of_int a)
   }"

definition bme280_compensate_pressure_int32 :: "calibration \<Rightarrow> int \<Rightarrow> u32 option" where
  "bme280_compensate_pressure_int32 cal v = do {
     (x1, x2) \<leftarrow> pressure_terms cal;
     a \<leftarrow> sub_s32 1048576 v;
     let p = (word_of_int a - word_of_int (drop_bit 12 x2)) * 3125;
     if x1 = 0 then Some 0
     else if p < 0x80000000 then pressure_correct cal (push_bit 1 p div word_of_int x1)
     else pressure_correct cal (p div word_of_int x1 * 2)
   }"

definition bme280_compensate_humidity_int32 :: "calibration \<Rightarrow> int \<Rightarrow> u32 option" where
  "bme280_compensate_humidity_int32 cal v = do {
     x \<leftarrow> sub_s32 (t_fine cal) 76800;
     a \<leftarrow> shl_s32 v 14;
     h4 \<leftarrow> shl_s32 (dig_H4 cal) 20;
     a \<leftarrow> sub_s32 a h4;
     h5 \<leftarrow> mul_s32 (dig_H5 cal) x;
     a \<leftarrow> sub_s32 a h5;
     a \<leftarrow> add_s32 a 16384;
     b \<leftarrow> mul_s32 x (dig_H6 cal);
     e \<leftarrow> mul_s32 x (dig_H3 cal);
     e \<leftarrow> add_s32 (drop_bit 11 e) 32768;
     b \<leftarrow> mul_s32 (drop_bit 10 b) e;
     b \<leftarrow> add_s32 (drop_bit 10 b) 2097152;
     b \<leftarrow> mul_s32 b (dig_H2 cal);
     b \<leftarrow> add_s32 b 8192;
     x \<leftarrow> mul_s32 (drop_bit 15 a) (drop_bit 14 b);
     q \<leftarrow> mul_s32 (drop_bit 15 x) (drop_bit 15 x);
     q \<leftarrow> mul_s32 (drop_bit 7 q) (dig_H1 cal);
     x \<leftarrow> sub_s32 x (drop_bit 4 q);
     let x = (if x < 0 then 0 else x);
     let x = (if x > 419430400 then 419430400 else x);
     Some (word_of_int (drop_bit 12 x))
   }"

definition bme280_compensate_humidity_int32_sixteen_bit_output :: "calibration \<Rightarrow> int \<Rightarrow> u16 option" where
  "bme280_compensate_humidity_int32_sixteen_bit_output cal v = do {
     h \<leftarrow> bme280_compensate_humidity_int32 cal v;
     Some (ucast (drop_bit 1 h))
   }"

text \<open>A measurement; \<open>old\<close> are the caller's variables.\<close>

definition bme280_read_pressure_temperature_humidity ::
    "'c spi \<Rightarrow> u32 \<times> int \<times> u32 \<Rightarrow> 'c sensor \<Rightarrow> (int \<times> (u32 \<times> int \<times> u32) \<times> 'c sensor) option" where
  "bme280_read_pressure_temperature_humidity spi old s =
     (if \<not> p_bme280 (fst s) then Some (E_BME280_NULL_PTR, old, s)
      else do {
        (r, (p, t, h), b, c) \<leftarrow> bme280_read_uncomp_pressure_temperature_humidity spi (0, 0, 0) s;
        (temperature, cal) \<leftarrow> bme280_compensate_temperature_int32 (cal_param b) t;
        pressure \<leftarrow> bme280_compensate_pressure_int32 cal p;
        humidity \<leftarrow> bme280_compensate_humidity_int32 cal h;
        Some (r, (pressure, temperature, humidity), b\<lparr>cal_param := cal\<rparr>, c)
      })"

text \<open>\<open>bme280_compute_wait_time\<close>: \<open>1 << n\<close> of an \<open>int\<close>; the result is a byte.\<close>

definition shl_one :: "u8 \<Rightarrow> int option" where
  "shl_one n = shl_s32 1 (unat n)"

definition bme280_compute_wait_time :: "bme280 \<Rightarrow> u8 option" where
  "bme280_compute_wait_time b = do {
     t \<leftarrow> shl_one (oversamp_temperature b);
     p \<leftarrow> shl_one (oversamp_pressure b);
     h \<leftarrow> shl_one (oversamp_humidity b);
     a \<leftarrow> add_s32 (drop_bit 1 t) (drop_bit 1 p);
     a \<leftarrow> add_s32 a (drop_bit 1 h);
     a \<leftarrow> mul_s32 37 a;
     a \<leftarrow> add_s32 20 a;
     a \<leftarrow> add_s32 a (if oversamp_pressure b \<noteq> 0 then 10 else 0);
     a \<leftarrow> add_s32 a (if oversamp_humidity b \<noteq> 0 then 10 else 0);
     a \<leftarrow> add_s32 a 15;
     Some (word_of_int (a div 16))
   }"

text \<open>
  A forced measurement: a sensor that sleeps gets the humidity setting and the mode, one that does
  not is reset and gets all three registers.
\<close>

definition bme280_get_forced_uncomp_pressure_temperature_humidity ::
    "'c spi \<Rightarrow> int \<times> int \<times> int \<Rightarrow> 'c sensor \<Rightarrow> (int \<times> (int \<times> int \<times> int) \<times> 'c sensor) option" where
  "bme280_get_forced_uncomp_pressure_temperature_humidity spi old s =
     (if \<not> p_bme280 (fst s) then Some (E_BME280_NULL_PTR, old, s)
      else do {
        let mode = BME280_SET_BITSLICE (ctrl_meas_reg (fst s)) 3 0 1;
        let hum = ctrl_hum_reg (fst s);
        s \<leftarrow> apply_settings spi (config_reg (fst s)) hum mode
          (\<lambda>s. do { (r, s) \<leftarrow> bme280_write_register spi BME280_CTRL_HUMIDITY_REG [hum] s;
             bme280_write_register spi BME280_CTRL_MEAS_REG [mode] s }) s;
        waittime \<leftarrow> bme280_compute_wait_time (fst s);
        (r, v, s) \<leftarrow> bme280_read_uncomp_pressure_temperature_humidity spi old s;
        (r, h, b, c) \<leftarrow> bme280_read_register spi BME280_CTRL_HUMIDITY_REG 1 [0] s;
        h \<leftarrow> load h 0;
        (r, f, b, c) \<leftarrow> bme280_read_register spi BME280_CONFIG_REG 1 [0] (b\<lparr>ctrl_hum_reg := h\<rparr>, c);
        f \<leftarrow> load f 0;
        (r, m, b, c) \<leftarrow> bme280_read_register spi BME280_CTRL_MEAS_REG 1 [0] (b\<lparr>config_reg := f\<rparr>, c);
        m \<leftarrow> load m 0;
        Some (0, v, b\<lparr>ctrl_meas_reg := m\<rparr>, c)
      })"

text \<open>The pressure in 64 bits, in units of 1/256 pascal.\<close>

definition s64 :: "int \<Rightarrow> int option" where
  "s64 x = (if - (2 ^ 63) \<le> x \<and> x < 2 ^ 63 then Some x else None)"

definition add_s64 :: "int \<Rightarrow> int \<Rightarrow> int option" where "add_s64 x y = s64 (x + y)"
definition sub_s64 :: "int \<Rightarrow> int \<Rightarrow> int option" where "sub_s64 x y = s64 (x - y)"
definition mul_s64 :: "int \<Rightarrow> int \<Rightarrow> int option" where "mul_s64 x y = s64 (x * y)"
definition shl_s64 :: "int \<Rightarrow> nat \<Rightarrow> int option" where "shl_s64 x n = s64 (push_bit n x)"

definition pressure_terms64 :: "calibration \<Rightarrow> (int \<times> int) option" where
  "pressure_terms64 cal = do {
     x1 \<leftarrow> sub_s64 (t_fine cal) 128000;
     q \<leftarrow> mul_s64 x1 x1;
     x2 \<leftarrow> mul_s64 q (dig_P6 cal);
     a \<leftarrow> mul_s64 x1 (dig_P5 cal);
     a \<leftarrow> shl_s64 a 17;
     x2 \<leftarrow> add_s64 x2 a;
     a \<leftarrow> shl_s64 (dig_P4 cal) 35;
     x2 \<leftarrow> add_s64 x2 a;
     a \<leftarrow> mul_s64 q (dig_P3 cal);
     e \<leftarrow> mul_s64 x1 (dig_P2 cal);
     e \<leftarrow> shl_s64 e 12;
     x1 \<leftarrow> add_s64 (drop_bit 8 a) e;
     x1 \<leftarrow> add_s64 (2 ^ 47) x1;
     x1 \<leftarrow> mul_s64 x1 (dig_P1 cal);
     Some (drop_bit 33 x1, x2)
   }"

definition bme280_compensate_pressure_int64 :: "calibration \<Rightarrow> int \<Rightarrow> u32 option" where
  "bme280_compensate_pressure_int64 cal v = do {
     (x1, x2) \<leftarrow> pressure_terms64 cal;
     pressure \<leftarrow> sub_s32 1048576 v;
     if x1 = 0 then Some 0 else do {
       a \<leftarrow> shl_s64 pressure 31;
       a \<leftarrow> sub_s64 a x2;
       a \<leftarrow> mul_s64 a 3125;
       pressure \<leftarrow> s64 (a sdiv x1);
       a \<leftarrow> mul_s64 (dig_P9 cal) (drop_bit 13 pressure);
       a \<leftarrow> mul_s64 a (drop_bit 13 pressure);
       let x1 = drop_bit 25 a;
       a \<leftarrow> mul_s64 (dig_P8 cal) pressure;
       let x2 = drop_bit 19 a;
       a \<leftarrow> add_s64 pressure x1;
       a \<leftarrow> add_s64 a x2;
       b \<leftarrow> shl_s64 (dig_P7 cal) 4;
       pressure \<leftarrow> add_s64 (drop_bit 8 a) b;
       Some (word_of_int pressure)
     }
   }"

definition bme280_compensate_pressure_int64_twentyfour_bit_output :: "calibration \<Rightarrow> int \<Rightarrow> u32 option" where
  "bme280_compensate_pressure_int64_twentyfour_bit_output cal v = do {
     p \<leftarrow> bme280_compensate_pressure_int64 cal v;
     Some (drop_bit 1 p)
   }"

section \<open>The sensor's registers\<close>

text \<open>
  The sensor itself is not part of the sources. Its documented behaviour on the bus: a read
  returns consecutive registers and changes none; a write of one of the three setting registers
  stores the byte; writing the reset code to the reset register clears the three.
\<close>

definition setting_regs :: "u8 set" where
  "setting_regs = {BME280_CTRL_HUMIDITY_REG, BME280_CTRL_MEAS_REG, BME280_CONFIG_REG}"

definition sensor_laws :: "'c spi \<Rightarrow> ('c \<Rightarrow> u8 \<Rightarrow> u8) \<Rightarrow> bool" where
  "sensor_laws spi regs \<longleftrightarrow>
     (\<forall>r n c. \<exists>x c'. spi ((r OR 0x80) # replicate n 0) c =
        (x # map (\<lambda>i. regs c ((r OR 0x80) + of_nat i)) [0..<n], c') \<and> regs c' = regs c) \<and>
     (\<forall>r v c. r \<in> setting_regs \<longrightarrow> regs (snd (spi [r AND 0x7F, v] c)) = (regs c)(r := v)) \<and>
     (\<forall>c. regs (snd (spi [BME280_RST_REG AND 0x7F, BME280_SOFT_RESET_CODE] c)) =
        (\<lambda>r. if r \<in> setting_regs then 0 else regs c r))"

lemmas reg_defs = BME280_CHIP_ID_REG_def BME280_RST_REG_def BME280_CTRL_HUMIDITY_REG_def
  BME280_CTRL_MEAS_REG_def BME280_CONFIG_REG_def BME280_PRESSURE_MSB_REG_def setting_regs_def

lemma bus_read:
  assumes "sensor_laws spi regs" and "r OR 0x80 = r" and "n < 64"
  shows "\<exists>c'. BME280_SPI_bus_read spi r n c = Some (map (\<lambda>i. regs c (r + of_nat i)) [0..<n], c') \<and> regs c' = regs c"
proof -
  obtain x c' where "spi ((r OR 0x80) # replicate n 0) c = (x # map (\<lambda>i. regs c ((r OR 0x80) + of_nat i)) [0..<n], c')"
    "regs c' = regs c" using assms(1) unfolding sensor_laws_def by blast
  then show ?thesis using assms(2,3) by (simp add: BME280_SPI_bus_read_def)
qed

lemma setting_high: "r \<in> setting_regs \<Longrightarrow> r OR 0x80 = r"
  by (auto simp: reg_defs)

lemma read_setting:
  assumes "sensor_laws spi regs" and "r \<in> setting_regs"
  shows "\<exists>c'. BME280_SPI_bus_read spi r 1 c = Some ([regs c r], c') \<and> regs c' = regs c"
  using bus_read [OF assms(1) setting_high [OF assms(2)], of 1 c] by simp

lemma write_setting:
  assumes "sensor_laws spi regs" and "r \<in> setting_regs"
  shows "\<exists>c'. BME280_SPI_bus_write spi r [v] c = Some c' \<and> regs c' = (regs c)(r := v)"
  using assms unfolding sensor_laws_def by (simp add: BME280_SPI_bus_write_def)

lemma soft_reset:
  assumes "sensor_laws spi regs"
  shows "\<exists>c'. BME280_SPI_bus_write spi BME280_RST_REG [BME280_SOFT_RESET_CODE] c = Some c' \<and>
    regs c' = (\<lambda>r. if r \<in> setting_regs then 0 else regs c r)"
  using assms unfolding sensor_laws_def by (simp add: BME280_SPI_bus_write_def)

lemma setting_mem [simp]:
  "BME280_CTRL_HUMIDITY_REG \<in> setting_regs" "BME280_CTRL_MEAS_REG \<in> setting_regs" "BME280_CONFIG_REG \<in> setting_regs"
  by (simp_all add: setting_regs_def)

lemma setting_distinct [simp]:
  "BME280_CTRL_HUMIDITY_REG \<noteq> BME280_CTRL_MEAS_REG" "BME280_CTRL_HUMIDITY_REG \<noteq> BME280_CONFIG_REG"
  "BME280_CTRL_MEAS_REG \<noteq> BME280_CONFIG_REG" "BME280_CTRL_MEAS_REG \<noteq> BME280_CTRL_HUMIDITY_REG"
  "BME280_CONFIG_REG \<noteq> BME280_CTRL_HUMIDITY_REG" "BME280_CONFIG_REG \<noteq> BME280_CTRL_MEAS_REG"
  by (simp_all add: reg_defs)

lemma write_register:
  assumes "sensor_laws spi regs" and "r \<in> setting_regs" and "p_bme280 b"
  shows "\<exists>c'. bme280_write_register spi r [v] (b, c) = Some (0, b, c') \<and> regs c' = (regs c)(r := v)"
  using write_setting [OF assms(1,2), of v c] assms(3) by (auto simp: bme280_write_register_def with_sensor_def)

text \<open>The three setting registers as the driver remembers them.\<close>

definition remembers :: "('c \<Rightarrow> u8 \<Rightarrow> u8) \<Rightarrow> 'c sensor \<Rightarrow> bool" where
  "remembers regs s \<longleftrightarrow> p_bme280 (fst s) \<and> ctrl_meas_reg (fst s) = regs (snd s) BME280_CTRL_MEAS_REG \<and>
     ctrl_hum_reg (fst s) = regs (snd s) BME280_CTRL_HUMIDITY_REG \<and>
     config_reg (fst s) = regs (snd s) BME280_CONFIG_REG"

lemma reload_settings_ok:
  assumes "sensor_laws spi regs" and "p_bme280 b"
  shows "\<exists>b' c'. reload_settings spi (b, c) = Some (b', c') \<and> remembers regs (b', c') \<and> regs c' = regs c \<and>
    b' = b\<lparr>ctrl_meas_reg := ctrl_meas_reg b', ctrl_hum_reg := ctrl_hum_reg b', config_reg := config_reg b'\<rparr>"
proof -
  note rd = read_setting [OF assms(1)]
  obtain c1 where c1: "BME280_SPI_bus_read spi BME280_CTRL_MEAS_REG 1 c = Some ([regs c BME280_CTRL_MEAS_REG], c1)"
    "regs c1 = regs c" using rd by (metis setting_mem(2))
  obtain c2 where c2: "BME280_SPI_bus_read spi BME280_CTRL_HUMIDITY_REG 1 c1 = Some ([regs c BME280_CTRL_HUMIDITY_REG], c2)"
    "regs c2 = regs c" using rd c1(2) by (metis setting_mem(1))
  obtain c3 where c3: "BME280_SPI_bus_read spi BME280_CONFIG_REG 1 c2 = Some ([regs c BME280_CONFIG_REG], c3)"
    "regs c3 = regs c" using rd c2(2) by (metis setting_mem(3))
  show ?thesis
    using c1 c2 c3 assms(2) by (simp add: reload_settings_def bme280_read_register_def load_def remembers_def)
qed

lemma power_mode:
  assumes "sensor_laws spi regs" and "p_bme280 b"
  shows "\<exists>c'. bme280_get_power_mode spi old (b, c) = Some (0, regs c BME280_CTRL_MEAS_REG AND 3, b, c') \<and> regs c' = regs c"
  using read_setting [OF assms(1) setting_mem(2), of c] assms(2)
  by (auto simp: bme280_get_power_mode_def get_field_def load_def BME280_GET_BITSLICE_def)

text \<open>Writing all three, after the reset of a sensor that is awake.\<close>

lemma apply_settings_awake:
  assumes "sensor_laws spi regs" and "p_bme280 b" and "regs c BME280_CTRL_MEAS_REG AND 3 \<noteq> 0"
  shows "\<exists>c'. apply_settings spi config hum meas asleep (b, c) = Some (b, c') \<and>
    regs c' = (regs c)(BME280_CONFIG_REG := config, BME280_CTRL_HUMIDITY_REG := hum, BME280_CTRL_MEAS_REG := meas)"
proof -
  obtain c0 where c0: "bme280_get_power_mode spi 0 (b, c) = Some (0, regs c BME280_CTRL_MEAS_REG AND 3, b, c0)"
    "regs c0 = regs c" using power_mode [OF assms(1,2)] by blast
  obtain c1 where c1: "bme280_set_soft_rst spi (b, c0) = Some (0, b, c1)"
    "regs c1 = (\<lambda>r. if r \<in> setting_regs then 0 else regs c r)"
    using soft_reset [OF assms(1), of c0, unfolded c0(2)] assms(2) by (auto simp: bme280_set_soft_rst_def with_sensor_def)
  note w = write_register [OF assms(1) _ assms(2)]
  obtain c2 where c2: "bme280_write_register spi BME280_CONFIG_REG [config] (b, c1) = Some (0, b, c2)"
    "regs c2 = (regs c1)(BME280_CONFIG_REG := config)" using w setting_mem(3) by blast
  obtain c3 where c3: "bme280_write_register spi BME280_CTRL_HUMIDITY_REG [hum] (b, c2) = Some (0, b, c3)"
    "regs c3 = (regs c2)(BME280_CTRL_HUMIDITY_REG := hum)" using w setting_mem(1) by blast
  obtain c4 where c4: "bme280_write_register spi BME280_CTRL_MEAS_REG [meas] (b, c3) = Some (0, b, c4)"
    "regs c4 = (regs c3)(BME280_CTRL_MEAS_REG := meas)" using w setting_mem(2) by blast
  have "regs c4 = (regs c)(BME280_CONFIG_REG := config, BME280_CTRL_HUMIDITY_REG := hum, BME280_CTRL_MEAS_REG := meas)"
    unfolding c4(2) c3(2) c2(2) c1(2) by (auto simp: setting_regs_def)
  then show ?thesis using assms(3) c0(1) c1(1) c2(1) c3(1) c4(1) by (simp add: apply_settings_def)
qed

lemma apply_settings_asleep:
  assumes "sensor_laws spi regs" and "p_bme280 b" and "regs c BME280_CTRL_MEAS_REG AND 3 = 0"
    and "\<And>c1. regs c1 = regs c \<Longrightarrow> \<exists>c'. asleep (b, c1) = Some (0, b, c') \<and> regs c' = f"
  shows "\<exists>c'. apply_settings spi config hum meas asleep (b, c) = Some (b, c') \<and> regs c' = f"
proof -
  obtain c1 where c1: "bme280_get_power_mode spi 0 (b, c) = Some (0, regs c BME280_CTRL_MEAS_REG AND 3, b, c1)"
    "regs c1 = regs c" using power_mode [OF assms(1,2)] by blast
  obtain c2 where "asleep (b, c1) = Some (0, b, c2)" "regs c2 = f" using assms(4) [OF c1(2)] by blast
  then show ?thesis using assms(3) c1(1) by (simp add: apply_settings_def)
qed

text \<open>
  A setter whose values are the remembered ones but for one field changes only the field's
  register, in both cases.
\<close>

lemma apply_settings_one:
  assumes "sensor_laws spi regs" and "remembers regs (b, c)"
    and "(regs c)(BME280_CONFIG_REG := config, BME280_CTRL_HUMIDITY_REG := hum, BME280_CTRL_MEAS_REG := meas) = f"
    and "\<And>c1. regs c1 = regs c \<Longrightarrow> \<exists>c'. asleep (b, c1) = Some (0, b, c') \<and> regs c' = f"
  shows "\<exists>c'. apply_settings spi config hum meas asleep (b, c) = Some (b, c') \<and> regs c' = f"
proof -
  have p: "p_bme280 b" using assms(2) by (simp add: remembers_def)
  show ?thesis
  proof (cases "regs c BME280_CTRL_MEAS_REG AND 3 = 0")
    case True
    show ?thesis
      by (rule apply_settings_asleep [where regs = regs and asleep = asleep and f = f, OF assms(1) p True assms(4)])
  next
    case False
    show ?thesis using apply_settings_awake [OF assms(1) p False] assms(3) by blast
  qed
qed

lemma remembers_sensor: "remembers regs (b, c) \<Longrightarrow> p_bme280 b"
  by (simp add: remembers_def)

lemma remembers_writes:
  assumes "remembers regs (b, c)"
  shows "(regs c)(BME280_CONFIG_REG := config_reg b, BME280_CTRL_HUMIDITY_REG := ctrl_hum_reg b, BME280_CTRL_MEAS_REG := m) =
      (regs c)(BME280_CTRL_MEAS_REG := m)"
    and "(regs c)(BME280_CONFIG_REG := config_reg b, BME280_CTRL_HUMIDITY_REG := h, BME280_CTRL_MEAS_REG := ctrl_meas_reg b) =
      (regs c)(BME280_CTRL_HUMIDITY_REG := h)"
    and "(regs c)(BME280_CONFIG_REG := f, BME280_CTRL_HUMIDITY_REG := ctrl_hum_reg b, BME280_CTRL_MEAS_REG := ctrl_meas_reg b) =
      (regs c)(BME280_CONFIG_REG := f)"
  using assms by (auto simp: remembers_def)

text \<open>What a setter does: the register changes, the driver remembers it, nothing else happens.\<close>

definition sets :: "('c \<Rightarrow> u8 \<Rightarrow> u8) \<Rightarrow> ('c sensor \<Rightarrow> (int \<times> 'c sensor) option) \<Rightarrow> 'c sensor \<Rightarrow> u8 \<Rightarrow> u8 \<Rightarrow> bool" where
  "sets regs f s r v \<longleftrightarrow> (\<exists>s'. f s = Some (0, s') \<and> remembers regs s' \<and> regs (snd s') = (regs (snd s))(r := v) \<and>
     cal_param (fst s') = cal_param (fst s) \<and> chip_id (fst s') = chip_id (fst s))"

lemma setsI:
  assumes laws: "sensor_laws spi regs" and "p_bme280 b" and "p_bme280 (keep b)"
    and "\<exists>c'. apply_settings spi config hum meas asleep (b, c) = Some (b, c') \<and> regs c' = (regs c)(r := v)"
    and "f (b, c) = do { (b, c) \<leftarrow> apply_settings spi config hum meas asleep (b, c);
      s \<leftarrow> reload_settings spi (keep b, c); Some (0, s) }"
    and "cal_param (keep b) = cal_param b" "chip_id (keep b) = chip_id b"
  shows "sets regs f (b, c) r v"
proof -
  obtain c1 where c1: "apply_settings spi config hum meas asleep (b, c) = Some (b, c1)" "regs c1 = (regs c)(r := v)"
    using assms(4) by blast
  obtain b' c' where c': "reload_settings spi (keep b, c1) = Some (b', c')" "remembers regs (b', c')" "regs c' = regs c1"
    "b' = (keep b)\<lparr>ctrl_meas_reg := ctrl_meas_reg b', ctrl_hum_reg := ctrl_hum_reg b', config_reg := config_reg b'\<rparr>"
    using reload_settings_ok [OF laws assms(3)] by blast
  have "cal_param b' = cal_param b" "chip_id b' = chip_id b" using assms(6,7) by (subst c'(4); simp)+
  then show ?thesis using c1 c'(1-3) assms(5) by (auto simp: sets_def)
qed

lemma write_meas:
  assumes "sensor_laws spi regs" and "remembers regs (b, c)"
  shows "\<exists>c'. apply_settings spi (config_reg b) (ctrl_hum_reg b) m
      (bme280_write_register spi BME280_CTRL_MEAS_REG [m]) (b, c) = Some (b, c') \<and>
    regs c' = (regs c)(BME280_CTRL_MEAS_REG := m)"
  by (rule apply_settings_one [OF assms remembers_writes(1) [OF assms(2)]])
    (metis write_register [OF assms(1) setting_mem(2) remembers_sensor [OF assms(2)]])

lemma write_config:
  assumes "sensor_laws spi regs" and "remembers regs (b, c)"
  shows "\<exists>c'. apply_settings spi f (ctrl_hum_reg b) (ctrl_meas_reg b)
      (bme280_write_register spi BME280_CONFIG_REG [f]) (b, c) = Some (b, c') \<and>
    regs c' = (regs c)(BME280_CONFIG_REG := f)"
  by (rule apply_settings_one [OF assms remembers_writes(3) [OF assms(2)]])
    (metis write_register [OF assms(1) setting_mem(3) remembers_sensor [OF assms(2)]])

lemma write_hum:
  assumes "sensor_laws spi regs" and "remembers regs (b, c)"
  shows "\<exists>c'. apply_settings spi (config_reg b) h (ctrl_meas_reg b)
      (\<lambda>s. do { (r, s) \<leftarrow> bme280_write_register spi BME280_CTRL_HUMIDITY_REG [h] s;
         bme280_write_register spi BME280_CTRL_MEAS_REG [ctrl_meas_reg b] s }) (b, c) = Some (b, c') \<and>
    regs c' = (regs c)(BME280_CTRL_HUMIDITY_REG := h)"
proof (rule apply_settings_one [OF assms remembers_writes(2) [OF assms(2)]])
  fix c1 assume eq: "regs c1 = regs c"
  note w = write_register [OF assms(1) _ remembers_sensor [OF assms(2)]]
  obtain c2 where c2: "bme280_write_register spi BME280_CTRL_HUMIDITY_REG [h] (b, c1) = Some (0, b, c2)"
    "regs c2 = (regs c1)(BME280_CTRL_HUMIDITY_REG := h)" using w setting_mem(1) by blast
  obtain c3 where c3: "bme280_write_register spi BME280_CTRL_MEAS_REG [ctrl_meas_reg b] (b, c2) = Some (0, b, c3)"
    "regs c3 = (regs c2)(BME280_CTRL_MEAS_REG := ctrl_meas_reg b)" using w setting_mem(2) by blast
  have "regs c3 = (regs c)(BME280_CTRL_HUMIDITY_REG := h)"
    using assms(2) unfolding c3(2) c2(2) eq by (auto simp: remembers_def)
  then show "\<exists>c'. (do { (r, s) \<leftarrow> bme280_write_register spi BME280_CTRL_HUMIDITY_REG [h] (b, c1);
      bme280_write_register spi BME280_CTRL_MEAS_REG [ctrl_meas_reg b] s }) = Some (0, b, c') \<and>
    regs c' = (regs c)(BME280_CTRL_HUMIDITY_REG := h)"
    using c2(1) c3(1) by simp
qed

lemma field_masks:
  "(- 225 :: u8) = 0x1F" "(- 29 :: u8) = 0xE3" "(- 8 :: u8) = 0xF8" "(- 4 :: u8) = 0xFC" "(- 2 :: u8) = 0xFE"
  by simp_all

text \<open>
  With a sensor whose registers the driver remembers, every setter changes exactly its bits of
  its register, whether the sensor is asleep or has to be reset first.
\<close>

lemma setters_change_one_field:
  assumes "sensor_laws spi regs" and "remembers regs (b, c)"
    and "meas = regs c BME280_CTRL_MEAS_REG" and "hum = regs c BME280_CTRL_HUMIDITY_REG"
    and "config = regs c BME280_CONFIG_REG"
  shows "sets regs (bme280_set_oversamp_temperature spi v) (b, c) BME280_CTRL_MEAS_REG ((meas AND 0x1F) OR (push_bit 5 v AND 0xE0))"
    and "sets regs (bme280_set_oversamp_pressure spi v) (b, c) BME280_CTRL_MEAS_REG ((meas AND 0xE3) OR (push_bit 2 v AND 0x1C))"
    and "sets regs (bme280_set_oversamp_humidity spi v) (b, c) BME280_CTRL_HUMIDITY_REG ((hum AND 0xF8) OR (v AND 0x07))"
    and "v \<le> 3 \<Longrightarrow> sets regs (bme280_set_power_mode spi v) (b, c) BME280_CTRL_MEAS_REG ((meas AND 0xFC) OR (v AND 0x03))"
    and "3 < v \<Longrightarrow> bme280_set_power_mode spi v (b, c) = Some (E_BME280_OUT_OF_RANGE, b, c)"
    and "sets regs (bme280_set_filter spi v) (b, c) BME280_CONFIG_REG ((config AND 0xE3) OR (push_bit 2 v AND 0x1C))"
    and "sets regs (bme280_set_standby_durn spi v) (b, c) BME280_CONFIG_REG ((config AND 0x1F) OR (push_bit 5 v AND 0xE0))"
    and "sets regs (bme280_set_spi3 spi v) (b, c) BME280_CONFIG_REG ((config AND 0xFE) OR (v AND 0x01))"
proof -
  have p: "p_bme280 b" using remembers_sensor [OF assms(2)] .
  have r: "ctrl_meas_reg b = meas" "ctrl_hum_reg b = hum" "config_reg b = config"
    using assms(2) by (simp_all add: remembers_def assms(3-5))
  note meas = setsI [OF assms(1) p _ write_meas [OF assms(1,2)]]
    and hum = setsI [OF assms(1) p _ write_hum [OF assms(1,2)]]
    and config = setsI [OF assms(1) p _ write_config [OF assms(1,2)]]
  show "sets regs (bme280_set_oversamp_temperature spi v) (b, c) BME280_CTRL_MEAS_REG ((meas AND 0x1F) OR (push_bit 5 v AND 0xE0))"
    by (rule meas [where keep = "\<lambda>b. b\<lparr>oversamp_temperature := v\<rparr>"];
      simp add: bme280_set_oversamp_temperature_def with_sensor_def p BME280_SET_BITSLICE_def r field_masks Let_def)
  show "sets regs (bme280_set_oversamp_pressure spi v) (b, c) BME280_CTRL_MEAS_REG ((meas AND 0xE3) OR (push_bit 2 v AND 0x1C))"
    by (rule meas [where keep = "\<lambda>b. b\<lparr>oversamp_pressure := v\<rparr>"];
      simp add: bme280_set_oversamp_pressure_def with_sensor_def p BME280_SET_BITSLICE_def r field_masks Let_def)
  show "sets regs (bme280_set_oversamp_humidity spi v) (b, c) BME280_CTRL_HUMIDITY_REG ((hum AND 0xF8) OR (v AND 0x07))"
    by (rule hum [where keep = "\<lambda>b. b\<lparr>oversamp_humidity := v\<rparr>"];
      simp add: bme280_set_oversamp_humidity_def with_sensor_def p BME280_SET_BITSLICE_def r field_masks Let_def)
  show "sets regs (bme280_set_power_mode spi v) (b, c) BME280_CTRL_MEAS_REG ((meas AND 0xFC) OR (v AND 0x03))" if "v \<le> 3"
    by (rule meas [where keep = "\<lambda>b. b"];
      simp add: bme280_set_power_mode_def with_sensor_def p BME280_SET_BITSLICE_def r field_masks Let_def that split_def)
  show "bme280_set_power_mode spi v (b, c) = Some (E_BME280_OUT_OF_RANGE, b, c)" if "3 < v"
  proof -
    have "\<not> v \<le> 3" using that by simp
    then show ?thesis by (simp add: bme280_set_power_mode_def with_sensor_def p)
  qed
  show "sets regs (bme280_set_filter spi v) (b, c) BME280_CONFIG_REG ((config AND 0xE3) OR (push_bit 2 v AND 0x1C))"
    by (rule config [where keep = "\<lambda>b. b"];
      simp add: bme280_set_filter_def set_config_def with_sensor_def p BME280_SET_BITSLICE_def r field_masks Let_def split_def)
  show "sets regs (bme280_set_standby_durn spi v) (b, c) BME280_CONFIG_REG ((config AND 0x1F) OR (push_bit 5 v AND 0xE0))"
    by (rule config [where keep = "\<lambda>b. b"];
      simp add: bme280_set_standby_durn_def set_config_def with_sensor_def p BME280_SET_BITSLICE_def r field_masks Let_def split_def)
  show "sets regs (bme280_set_spi3 spi v) (b, c) BME280_CONFIG_REG ((config AND 0xFE) OR (v AND 0x01))"
    by (rule config [where keep = "\<lambda>b. b"];
      simp add: bme280_set_spi3_def set_config_def with_sensor_def p BME280_SET_BITSLICE_def r field_masks Let_def split_def)
qed

section \<open>The factory's parameters\<close>

text \<open>How the data sheet lays the parameters out in the registers.\<close>

definition le16 :: "int \<Rightarrow> bytes" where
  "le16 v = [word_of_int v, word_of_int (drop_bit 8 v)]"

definition first_image :: "u8 \<Rightarrow> calibration \<Rightarrow> bytes" where
  "first_image x cal = le16 (dig_T1 cal) @ le16 (dig_T2 cal) @ le16 (dig_T3 cal) @ le16 (dig_P1 cal) @
     le16 (dig_P2 cal) @ le16 (dig_P3 cal) @ le16 (dig_P4 cal) @ le16 (dig_P5 cal) @ le16 (dig_P6 cal) @
     le16 (dig_P7 cal) @ le16 (dig_P8 cal) @ le16 (dig_P9 cal) @ [x, word_of_int (dig_H1 cal)]"

definition second_image :: "calibration \<Rightarrow> bytes" where
  "second_image cal = le16 (dig_H2 cal) @ [word_of_int (dig_H3 cal), word_of_int (drop_bit 4 (dig_H4 cal)),
     word_of_int (take_bit 4 (dig_H4 cal) OR push_bit 4 (take_bit 4 (dig_H5 cal))),
     word_of_int (drop_bit 4 (dig_H5 cal)), word_of_int (dig_H6 cal)]"

definition within :: "int \<Rightarrow> int \<Rightarrow> bool" where
  "within n v \<longleftrightarrow> - n \<le> v \<and> v < n"

definition in_ranges :: "calibration \<Rightarrow> bool" where
  "in_ranges cal \<longleftrightarrow> dig_T1 cal \<in> {0..65535} \<and> dig_P1 cal \<in> {0..65535} \<and> dig_H1 cal \<in> {0..255} \<and> dig_H3 cal \<in> {0..255} \<and>
     within 32768 (dig_T2 cal) \<and> within 32768 (dig_T3 cal) \<and> within 32768 (dig_P2 cal) \<and> within 32768 (dig_P3 cal) \<and>
     within 32768 (dig_P4 cal) \<and> within 32768 (dig_P5 cal) \<and> within 32768 (dig_P6 cal) \<and> within 32768 (dig_P7 cal) \<and>
     within 32768 (dig_P8 cal) \<and> within 32768 (dig_P9 cal) \<and> within 32768 (dig_H2 cal) \<and>
     within 2048 (dig_H4 cal) \<and> within 2048 (dig_H5 cal) \<and> within 128 (dig_H6 cal)"

lemma sint_byte: "within 128 v \<Longrightarrow> sint (word_of_int v :: u8) = v"
  by (simp add: sint_sbintrunc' within_def signed_take_bit_int_eq_self)

lemma or_bits_ident: "push_bit n (drop_bit n v) OR take_bit n v = v" for v :: int
  by (rule bit_eqI) (auto simp: bit_simps)

lemma u16_le16:
  assumes "v \<in> {0..65535}"
  shows "push_bit 8 (uint (word_of_int (drop_bit 8 v) :: u8)) OR uint (word_of_int v :: u8) = v"
proof -
  have "take_bit 8 (drop_bit 8 v) = drop_bit 8 v"
    using assms by (intro take_bit_int_eq_self) (auto simp: drop_bit_eq_div)
  then show ?thesis by (simp add: uint_word_of_int_eq or_bits_ident)
qed

lemma s16_le16:
  assumes "within 32768 v"
  shows "to_s16 (push_bit 8 (sint (word_of_int (drop_bit 8 v) :: u8)) OR uint (word_of_int v :: u8)) = v"
proof -
  have "within 128 (drop_bit 8 v)" using assms by (auto simp: within_def drop_bit_eq_div)
  then show ?thesis
    using assms by (simp add: sint_byte uint_word_of_int_eq or_bits_ident within_def to_s16_id)
qed

lemma first_calib_image:
  assumes "in_ranges cal"
  shows "first_calib (first_image x cal) old = Some (cal\<lparr>dig_H2 := dig_H2 old, dig_H3 := dig_H3 old,
    dig_H4 := dig_H4 old, dig_H5 := dig_H5 old, dig_H6 := dig_H6 old, t_fine := t_fine old\<rparr>)"
proof -
  have "uint (word_of_int (dig_H1 cal) :: u8) = dig_H1 cal"
    using assms by (simp add: in_ranges_def uint_word_of_int_eq take_bit_int_eq_self)
  then show ?thesis
    using assms by (simp add: first_calib_def first_image_def le16_def calib_u16_def calib_s16_def load_def
      in_ranges_def s16_le16 u16_le16)
qed

text \<open>The shared byte of the two 12-bit values.\<close>

lemma shared_byte:
  fixes x y :: int
  defines "w \<equiv> word_of_int (take_bit 4 x OR push_bit 4 (take_bit 4 y)) :: u8"
  shows "uint (0x0F AND w) = take_bit 4 x" and "uint (drop_bit 4 w) = take_bit 4 y"
proof -
  have m: "(0x0F :: u8) = mask 4" by (simp add: mask_eq_exp_minus_1)
  show "uint (0x0F AND w) = take_bit 4 x"
    unfolding m w_def by (rule bit_eqI) (auto simp: bit_simps bit_uint_iff)
  show "uint (drop_bit 4 w) = take_bit 4 y"
    unfolding w_def by (rule bit_eqI) (auto simp: bit_simps bit_uint_iff)
qed

lemma s12_parts:
  assumes "within 2048 v"
  shows "to_s16 (push_bit 4 (sint (word_of_int (drop_bit 4 v) :: u8)) OR take_bit 4 v) = v"
proof -
  have "within 128 (drop_bit 4 v)" using assms by (auto simp: within_def drop_bit_eq_div)
  then show ?thesis using assms by (simp add: sint_byte or_bits_ident within_def to_s16_id)
qed

lemma second_calib_image:
  assumes "in_ranges cal"
  shows "second_calib (second_image cal) old = Some (old\<lparr>dig_H2 := dig_H2 cal, dig_H3 := dig_H3 cal,
    dig_H4 := dig_H4 cal, dig_H5 := dig_H5 cal, dig_H6 := dig_H6 cal\<rparr>)"
proof -
  have h3: "uint (word_of_int (dig_H3 cal) :: u8) = dig_H3 cal"
    using assms by (simp add: in_ranges_def uint_word_of_int_eq take_bit_int_eq_self)
  have h45: "to_s16 (push_bit 4 (sint (word_of_int (drop_bit 4 (dig_H4 cal)) :: u8)) OR take_bit 4 (dig_H4 cal)) = dig_H4 cal"
    "to_s16 (push_bit 4 (sint (word_of_int (drop_bit 4 (dig_H5 cal)) :: u8)) OR take_bit 4 (dig_H5 cal)) = dig_H5 cal"
    using assms by (auto simp: in_ranges_def intro: s12_parts)
  show ?thesis
    unfolding second_calib_def second_image_def le16_def calib_s16_def
    using assms by (simp add: load_def h3 in_ranges_def s16_le16 sint_byte h45 shared_byte del: of_int_or_eq)
qed

text \<open>What a register file holds for a sensor with the parameters \<open>cal\<close>.\<close>

definition calibrated :: "(u8 \<Rightarrow> u8) \<Rightarrow> calibration \<Rightarrow> bool" where
  "calibrated f cal \<longleftrightarrow> in_ranges cal \<and> (\<exists>x. map (\<lambda>i. f (0x88 + of_nat i)) [0..<26] = first_image x cal) \<and>
     map (\<lambda>i. f (0xE1 + of_nat i)) [0..<7] = second_image cal"

lemma init_ok:
  assumes "sensor_laws spi regs" and "calibrated (regs c) cal"
  shows "\<exists>c'. bme280_init spi (b, c) = Some (0, b\<lparr>p_bme280 := True, chip_id := regs c BME280_CHIP_ID_REG,
      cal_param := cal\<lparr>t_fine := t_fine (cal_param b)\<rparr>\<rparr>, c') \<and> regs c' = regs c"
proof -
  have cal: "in_ranges cal" using assms(2) by (simp add: calibrated_def)
  obtain x where x: "map (\<lambda>i. regs c (0x88 + of_nat i)) [0..<26] = first_image x cal"
    "map (\<lambda>i. regs c (0xE1 + of_nat i)) [0..<7] = second_image cal" using assms(2) by (auto simp: calibrated_def)
  note rd = bus_read [OF assms(1)]
  have h: "BME280_CHIP_ID_REG OR 0x80 = BME280_CHIP_ID_REG" "(0x88 :: u8) OR 0x80 = 0x88" "(0xE1 :: u8) OR 0x80 = 0xE1"
    by (simp_all add: reg_defs)
  obtain c1 where c1: "BME280_SPI_bus_read spi BME280_CHIP_ID_REG 1 c = Some ([regs c BME280_CHIP_ID_REG], c1)"
    "regs c1 = regs c" using rd [OF h(1), of 1 c] by auto
  obtain c2 where c2: "BME280_SPI_bus_read spi 0x88 26 c1 = Some (first_image x cal, c2)" "regs c2 = regs c"
    using rd [OF h(2), of 26 c1] unfolding c1(2) x(1) by auto
  obtain c3 where c3: "BME280_SPI_bus_read spi 0xE1 7 c2 = Some (second_image cal, c3)" "regs c3 = regs c"
    using rd [OF h(3), of 7 c2] unfolding c2(2) x(2) by auto
  show ?thesis
    using c1(1) c2(1) c3 by (simp add: bme280_init_def bme280_get_calib_param_def with_sensor_def load_def
      first_calib_image [OF cal] second_calib_image [OF cal])
qed

text \<open>The first setter after reset, when the driver remembers zeros.\<close>

lemma first_power_mode:
  assumes "sensor_laws spi regs" and "p_bme280 b" and "ctrl_meas_reg b = 0" and "v \<le> 3"
  shows "\<exists>b' c'. bme280_set_power_mode spi v (b, c) = Some (0, b', c') \<and> remembers regs (b', c') \<and>
    regs c' BME280_CTRL_MEAS_REG = v AND 3 \<and> cal_param b' = cal_param b \<and> chip_id b' = chip_id b"
proof -
  let ?m = "BME280_SET_BITSLICE (ctrl_meas_reg b) 3 0 v"
  have m: "?m = v AND 3" by (simp add: BME280_SET_BITSLICE_def assms(3))
  have "\<exists>c1. apply_settings spi (config_reg b) (ctrl_hum_reg b) ?m
      (bme280_write_register spi BME280_CTRL_MEAS_REG [?m]) (b, c) = Some (b, c1) \<and> regs c1 BME280_CTRL_MEAS_REG = ?m"
  proof (cases "regs c BME280_CTRL_MEAS_REG AND 3 = 0")
    case True
    show ?thesis
      using apply_settings_asleep [where regs = regs and f = "(regs c)(BME280_CTRL_MEAS_REG := ?m)", OF assms(1,2) True]
        write_register [OF assms(1) setting_mem(2) assms(2)] by fastforce
  next
    case False
    show ?thesis using apply_settings_awake [OF assms(1,2) False] by fastforce
  qed
  then obtain c1 where c1: "apply_settings spi (config_reg b) (ctrl_hum_reg b) ?m
      (bme280_write_register spi BME280_CTRL_MEAS_REG [?m]) (b, c) = Some (b, c1)" "regs c1 BME280_CTRL_MEAS_REG = ?m"
    by blast
  obtain b' c' where c': "reload_settings spi (b, c1) = Some (b', c')" "remembers regs (b', c')" "regs c' = regs c1"
    "b' = b\<lparr>ctrl_meas_reg := ctrl_meas_reg b', ctrl_hum_reg := ctrl_hum_reg b', config_reg := config_reg b'\<rparr>"
    using reload_settings_ok [OF assms(1,2)] by blast
  have "cal_param b' = cal_param b" "chip_id b' = chip_id b" by (subst c'(4); simp)+
  moreover have "bme280_set_power_mode spi v (b, c) = Some (0, b', c')"
    using assms(2,4) c1(1) c'(1) by (simp add: bme280_set_power_mode_def with_sensor_def Let_def)
  ultimately show ?thesis using c'(2,3) c1(2) m by auto
qed

lemma bme280_init_user_spec:
  assumes "sensor_laws spi regs" and "calibrated (regs c) cal" and "ctrl_meas_reg b = 0"
  shows "\<exists>b' c'. bme280_init_user spi (b, c) = Some (b', c') \<and> remembers regs (b', c') \<and>
    cal_param b' = cal\<lparr>t_fine := t_fine (cal_param b)\<rparr> \<and> chip_id b' = regs c BME280_CHIP_ID_REG \<and>
    regs c' BME280_CTRL_MEAS_REG = 0x25 \<and> regs c' BME280_CTRL_HUMIDITY_REG AND 0x07 = 1 \<and>
    regs c' BME280_CONFIG_REG AND 0xE0 = 0"
proof -
  let ?b = "b\<lparr>p_bme280 := True, chip_id := regs c BME280_CHIP_ID_REG, cal_param := cal\<lparr>t_fine := t_fine (cal_param b)\<rparr>\<rparr>"
  obtain c0 where c0: "bme280_init spi (b, c) = Some (0, ?b, c0)" using init_ok [OF assms(1,2)] by blast
  have "p_bme280 ?b" "ctrl_meas_reg ?b = 0" using assms(3) by simp_all
  from first_power_mode [OF assms(1) this, of 3 c0] obtain b1 c1 where
    s1: "bme280_set_power_mode spi 3 (?b, c0) = Some (0, b1, c1)" "remembers regs (b1, c1)"
    "regs c1 BME280_CTRL_MEAS_REG = 3" "cal_param b1 = cal_param ?b" "chip_id b1 = chip_id ?b" by auto
  note set = setters_change_one_field [OF assms(1) _ refl refl refl, unfolded sets_def split_paired_Ex fst_conv snd_conv]
  obtain b2 c2 where s2: "bme280_set_oversamp_humidity spi 1 (b1, c1) = Some (0, b2, c2)" "remembers regs (b2, c2)"
    "regs c2 = (regs c1)(BME280_CTRL_HUMIDITY_REG := (regs c1 BME280_CTRL_HUMIDITY_REG AND 0xF8) OR (1 AND 7))"
    "cal_param b2 = cal_param b1" "chip_id b2 = chip_id b1" using set(3) [OF s1(2), of 1] by blast
  obtain b3 c3 where s3: "bme280_set_oversamp_pressure spi 1 (b2, c2) = Some (0, b3, c3)" "remembers regs (b3, c3)"
    "regs c3 = (regs c2)(BME280_CTRL_MEAS_REG := (regs c2 BME280_CTRL_MEAS_REG AND 0xE3) OR (push_bit 2 1 AND 0x1C))"
    "cal_param b3 = cal_param b2" "chip_id b3 = chip_id b2" using set(2) [OF s2(2), of 1] by blast
  obtain b4 c4 where s4: "bme280_set_oversamp_temperature spi 1 (b3, c3) = Some (0, b4, c4)" "remembers regs (b4, c4)"
    "regs c4 = (regs c3)(BME280_CTRL_MEAS_REG := (regs c3 BME280_CTRL_MEAS_REG AND 0x1F) OR (push_bit 5 1 AND 0xE0))"
    "cal_param b4 = cal_param b3" "chip_id b4 = chip_id b3" using set(1) [OF s3(2), of 1] by blast
  obtain b5 c5 where s5: "bme280_set_standby_durn spi 0 (b4, c4) = Some (0, b5, c5)" "remembers regs (b5, c5)"
    "regs c5 = (regs c4)(BME280_CONFIG_REG := (regs c4 BME280_CONFIG_REG AND 0x1F) OR (push_bit 5 0 AND 0xE0))"
    "cal_param b5 = cal_param b4" "chip_id b5 = chip_id b4" using set(7) [OF s4(2), of 0] by blast
  obtain b6 c6 where s6: "bme280_set_power_mode spi 1 (b5, c5) = Some (0, b6, c6)" "remembers regs (b6, c6)"
    "regs c6 = (regs c5)(BME280_CTRL_MEAS_REG := (regs c5 BME280_CTRL_MEAS_REG AND 0xFC) OR (1 AND 3))"
    "cal_param b6 = cal_param b5" "chip_id b6 = chip_id b5" using set(4) [OF s5(2), of 1] by auto
  have "bme280_init_user spi (b, c) = Some (b6, c6)"
    using c0 s1(1) s2(1) s3(1) s4(1) s5(1) s6(1) by (simp add: bme280_init_user_def)
  moreover have "regs c6 BME280_CTRL_MEAS_REG = 0x25" unfolding s6(3) s5(3) s4(3) s3(3) s2(3) using s1(3) by simp
  moreover have "regs c6 BME280_CTRL_HUMIDITY_REG AND 0x07 = 1"
    unfolding s6(3) s5(3) s4(3) s3(3) s2(3) by (simp add: bit.conj_disj_distrib2 and.assoc)
  moreover have "regs c6 BME280_CONFIG_REG AND 0xE0 = 0"
    unfolding s6(3) s5(3) by (simp add: and.assoc)
  ultimately show ?thesis using s6(2,4,5) s5(4,5) s4(4,5) s3(4,5) s2(4,5) s1(4,5) by simp
qed


text \<open>A register file that behaves as documented, awake and with a filter set.\<close>

definition register_file :: "(u8 \<Rightarrow> u8) spi" where
  "register_file xs f = (case xs of
       [] \<Rightarrow> ([], f)
     | r # ys \<Rightarrow>
         (if bit r 7 then (0 # map (\<lambda>i. f (r + of_nat i)) [0..<length ys], f)
          else if r = 0x60 \<and> ys = [0xB6] then ([0, 0], \<lambda>x. if x \<in> setting_regs then 0 else f x)
          else (0 # ys, f(r OR 0x80 := hd ys))))"

lemma register_file_laws: "sensor_laws register_file (\<lambda>f. f)"
proof -
  have b: "bit (r OR 0x80) 7" for r :: u8
  proof -
    have "bit (0x80 :: u8) 7" by simp
    then show ?thesis by (simp add: bit_or_iff)
  qed
  have w: "\<not> bit (r AND 0x7F) 7" "(r AND 0x7F) OR 0x80 = r" "r AND 0x7F \<noteq> 0x60" if "r \<in> setting_regs" for r :: u8
    using that by (auto simp: reg_defs)
  show ?thesis
    unfolding sensor_laws_def by (auto simp: register_file_def b w reg_defs BME280_SOFT_RESET_CODE_def)
qed

definition example_registers :: "u8 \<Rightarrow> u8" where
  "example_registers r = (if r = 0xD0 then 0x60 else if r = 0xF4 then 3 else if r = 0xF5 then 0xEC else 0)"

definition zero_calibration :: calibration where
  "zero_calibration = \<lparr>dig_T1 = 0, dig_T2 = 0, dig_T3 = 0, dig_P1 = 0, dig_P2 = 0, dig_P3 = 0, dig_P4 = 0,
     dig_P5 = 0, dig_P6 = 0, dig_P7 = 0, dig_P8 = 0, dig_P9 = 0, dig_H1 = 0, dig_H2 = 0, dig_H3 = 0,
     dig_H4 = 0, dig_H5 = 0, dig_H6 = 0, t_fine = 0\<rparr>"

definition bme280_reset :: bme280 where
  "bme280_reset = \<lparr>p_bme280 = False, cal_param = zero_calibration, chip_id = 0, oversamp_temperature = 0,
     oversamp_pressure = 0, oversamp_humidity = 0, ctrl_hum_reg = 0, ctrl_meas_reg = 0, config_reg = 0\<rparr>"

lemma example_calibrated: "calibrated example_registers zero_calibration"
proof -
  have "map (\<lambda>i. example_registers (0x88 + of_nat i)) [0..<26] = first_image 0 zero_calibration"
    "map (\<lambda>i. example_registers (0xE1 + of_nat i)) [0..<7] = second_image zero_calibration" by code_simp+
  then show ?thesis unfolding calibrated_def by (auto simp: in_ranges_def zero_calibration_def within_def)
qed


section \<open>Measurements\<close>

text \<open>The humidity is at most 100 percent, in units of 1/1024 percent.\<close>

lemma humidity_bounded:
  assumes "bme280_compensate_humidity_int32 cal v = Some h"
  shows "unat h \<le> 102400"
proof -
  let ?y = "\<lambda>x :: int. if (if x < 0 then 0 else x) > 419430400 then 419430400 else (if x < 0 then 0 else x)"
  obtain x where h: "h = word_of_int (drop_bit 12 (?y x))"
    using assms unfolding bme280_compensate_humidity_int32_def Let_def by (auto simp: bind_eq_Some_conv)
  have "0 \<le> drop_bit 12 (?y x) \<and> drop_bit 12 (?y x) \<le> 102400" by (auto simp: drop_bit_eq_div)
  then show ?thesis unfolding h by (simp add: unsigned_of_int take_bit_int_eq_self nat_le_iff)
qed

text \<open>The example of the data sheet: 25.08 degrees, and 100653 pascal in 64 bits or 100656 in 32 bits.\<close>

definition data_sheet_calibration :: calibration where
  "data_sheet_calibration = zero_calibration\<lparr>dig_T1 := 27504, dig_T2 := 26435, dig_T3 := -1000,
     dig_P1 := 36477, dig_P2 := -10685, dig_P3 := 3024, dig_P4 := 2855, dig_P5 := 140, dig_P6 := -7,
     dig_P7 := 15500, dig_P8 := -14600, dig_P9 := 6000\<rparr>"

lemma data_sheet_example:
  "bme280_compensate_temperature_int32 data_sheet_calibration 519888 =
    Some (2508, data_sheet_calibration\<lparr>t_fine := 128422\<rparr>)"
  "bme280_compensate_pressure_int32 (data_sheet_calibration\<lparr>t_fine := 128422\<rparr>) 415148 = Some 100656"
  "bme280_compensate_pressure_int64 (data_sheet_calibration\<lparr>t_fine := 128422\<rparr>) 415148 = Some 25767233"
  by code_simp+

end
