(* ===== verification/Battery.thy ===== *)
theory Battery
  imports Dimmer I2c Bme280
begin

text \<open>
  The battery builds of \<open>user/user_main.c\<close>: the touch switches behind the PCF8885, the weather
  measurements, the way to deep sleep, and the GPIO interrupt that they share with the actuators.
\<close>

section \<open>Switches\<close>

definition MASQUE_SWITCH :: u8 where "MASQUE_SWITCH = 0x0F"

text \<open>\<open>name\<close>: an underscore and the number of the switch, from 1.\<close>

definition switch_name :: "nat \<Rightarrow> bytes" where
  "switch_name l = [of_char (CHR ''_''), of_char (CHR ''1'') + of_nat l]"

definition switch_report :: "nat \<Rightarrow> bool \<Rightarrow> report" where
  "switch_report l on = \<lparr>rp_topic = chars ''/sensors/switch/'', rp_type = SWITCH,
     rp_val = (if on then 1 else 0) * 100, rp_retain = 0, rp_name = Some (switch_name l)\<rparr>"

definition battery_report :: "bytes option \<Rightarrow> device \<Rightarrow> report" where
  "battery_report name d = \<lparr>rp_topic = chars ''/sensors/batterys/'', rp_type = BATTERY, rp_val = ubat d,
     rp_retain = 1, rp_name = name\<rparr>"

fun send_switches :: "build \<Rightarrow> u8 \<Rightarrow> nat list \<Rightarrow> device \<Rightarrow> device" where
  "send_switches b stat_switch [] d = d"
| "send_switches b stat_switch (l # ls) d =
     (let d = (if (drop_bit l stat_switch AND 1) \<noteq> (drop_bit l (old_stat_switch d) AND 1) then
           let d = send_report (switch_report l (drop_bit l stat_switch AND 1 = 1)) d
           in if ON_BATTERY b then send_report (battery_report (Some (switch_name l)) d) d else d
         else d)
      in send_switches b stat_switch ls d)"

type_synonym bus_peer = "(bool \<times> bool) list \<Rightarrow> bool"

definition send_PCF8885 :: "build \<Rightarrow> bus_peer \<Rightarrow> i2c \<Rightarrow> device \<Rightarrow> u8 \<times> i2c \<times> device" where
  "send_PCF8885 b peer bus d =
     (let (stat_switch, bus) = read_PCF8885 peer bus;
          stat_switch = stat_switch AND MASQUE_SWITCH;
          d = send_switches b stat_switch [0..<8] d
      in (stat_switch, bus, d\<lparr>old_stat_switch := stat_switch\<rparr>))"

text \<open>Releasing the interrupt pin lets the controller's interrupt reset the chip; the pin's direction is not part of the state.\<close>

definition pcf8885func :: "build \<Rightarrow> bus_peer \<Rightarrow> i2c \<Rightarrow> device \<Rightarrow> i2c \<times> device" where
  "pcf8885func b peer bus d =
     (let (ret_switch, bus, d) = send_PCF8885 b peer bus d
      in (bus, if SWITCH_ONLY b \<and> ret_switch = 0
               then d\<lparr>timer_mesure := Some (Call_DisconnectMQTT, 200)\<rparr> else d))"

section \<open>Weather\<close>

text \<open>
  The humidity of the soil from the two bytes of the ADC, in the builds with an ADS786x: a value
  stored to a \<open>signed short\<close> loses its upper bits. The chip select is pin 5.
\<close>

definition soil_humidity :: "u8 \<Rightarrow> u8 \<Rightarrow> int" where
  "soil_humidity tab0 tab1 =
     (let val_adc = to_s16 (push_bit 8 (uint tab0) OR uint tab1);
          val_adc = to_s16 (3200 - val_adc);
          val_adc = val_adc sdiv 2;
          val_adc = (if val_adc < 0 then 0 else val_adc);
          val_adc = (if val_adc > 1000 then 1000 else val_adc)
      in val_adc * 10)"

definition send_soil :: "u8 \<times> u8 \<Rightarrow> device \<Rightarrow> device" where
  "send_soil tab d =
     (let d = set_pin 5 False d;
          d = send_report \<lparr>rp_topic = chars ''/sensors/humiditys/'', rp_type = HUMIDITY,
            rp_val = soil_humidity (fst tab) (snd tab), rp_retain = 1, rp_name = Some (chars ''_sol'')\<rparr> d
      in set_pin 5 True d)"

definition send_weather :: "u32 \<times> int \<times> u32 \<Rightarrow> device \<Rightarrow> device" where
  "send_weather r d =
     (let (pressure, temperature, humidity) = r;
          rep = (\<lambda>t ty v. \<lparr>rp_topic = chars t, rp_type = ty, rp_val = v, rp_retain = 1, rp_name = None\<rparr>);
          d = send_report (rep ''/sensors/temperatures/'' TEMPERATURE temperature) d;
          d = send_report (rep ''/sensors/humiditys/'' HUMIDITY (sint humidity sdiv 10)) d;
          d = send_report (rep ''/sensors/pressures/'' PRESSURE (sint pressure)) d
      in send_report (battery_report None d) d)"

text \<open>\<open>old\<close> are the uninitialised locals; \<open>tab\<close> is what the ADC sends.\<close>

definition timer_mesure_handler ::
    "build \<Rightarrow> 'c spi \<Rightarrow> u32 \<times> int \<times> u32 \<Rightarrow> u8 \<times> u8 \<Rightarrow> 'c sensor \<Rightarrow> device \<Rightarrow> ('c sensor \<times> device) option" where
  "timer_mesure_handler b spi old tab s d = do {
     let d = (if ADS786x b then send_soil tab d else d);
     (_, r, s) \<leftarrow> bme280_read_pressure_temperature_humidity spi old s;
     (_, s) \<leftarrow> bme280_set_power_mode spi 0 s;
     Some (s, send_weather r d)
   }"

section \<open>Sleep\<close>

definition system_deep_sleep :: "u32 \<Rightarrow> device \<Rightarrow> device" where
  "system_deep_sleep us d = d\<lparr>deep_sleep := Some us\<rparr>"

definition go_sleep :: "device \<Rightarrow> device" where
  "go_sleep d = system_deep_sleep (echelle d * 1000 * 1000) d"

section \<open>The interrupt\<close>

text \<open>
  \<open>IRQ\<close> reads the interrupt status until it is zero. A reading comes with the inputs of the
  shutter's sensor at that time; \<open>None\<close> as well when the readings given do not end with zero.
\<close>

fun IRQ :: "build \<Rightarrow> bus_peer \<Rightarrow> (u32 \<times> bool \<times> bool) list \<Rightarrow> i2c \<Rightarrow> device \<Rightarrow> (i2c \<times> device) option" where
  "IRQ b peer [] bus d = None"
| "IRQ b peer ((gpio_status, hall, dir) # qs) bus d = do {
     d \<leftarrow> (if TRIACK b \<and> bit gpio_status RECEIVEGPIO_ZERO_CROSS then ZeroCrossIRQ b d else Some d);
     d \<leftarrow> (if STORE b \<and> bit gpio_status RECEIVEGPIO_STORE then storeIRQ b hall dir d else Some d);
     let (bus, d) = (if PCF8885 b \<and> bit gpio_status RECEIVEGPIO_IRQ_PCF8885 then pcf8885func b peer bus d else (bus, d));
     if gpio_status \<noteq> 0 then IRQ b peer qs bus d else Some (bus, d)
   }"

section \<open>What the switches report\<close>

lemma and_one_bit: "drop_bit l x AND 1 = of_bool (bit x l)" for x :: u8
  by (rule bit_eqI) (auto simp: bit_simps)

lemma and_one_diff: "(drop_bit l x AND 1 \<noteq> drop_bit l y AND 1) = (bit x l \<noteq> bit y l)" for x y :: u8
  by (simp add: and_one_bit)

lemma battery_report_reports [simp]: "battery_report n (d\<lparr>reports := rs\<rparr>) = battery_report n d"
  by (simp add: battery_report_def)

text \<open>The reports of the switches among \<open>ls\<close> that have changed.\<close>

definition change_reports :: "build \<Rightarrow> u8 \<Rightarrow> device \<Rightarrow> nat list \<Rightarrow> report list" where
  "change_reports b v d ls = concat (map (\<lambda>l. switch_report l (bit v l) #
     (if ON_BATTERY b then [battery_report (Some (switch_name l)) d] else []))
     (filter (\<lambda>l. bit v l \<noteq> bit (old_stat_switch d) l) ls))"

lemma send_switches_reports:
  "send_switches b v ls d = d\<lparr>reports := reports d @ change_reports b v d ls\<rparr>"
proof (induction ls arbitrary: d)
  case Nil
  show ?case by (simp add: change_reports_def)
next
  case (Cons l ls)
  have same: "change_reports b v (d\<lparr>reports := rs\<rparr>) ls = change_reports b v d ls" for rs
    by (simp add: change_reports_def cong: if_cong)
  show ?case
    by (simp add: and_one_diff and_one_bit send_report_def Cons.IH same Let_def)
      (simp add: change_reports_def)
qed

lemma masked_bit: "bit (v AND MASQUE_SWITCH) l \<longleftrightarrow> l < 4 \<and> bit v l"
proof -
  have m: "MASQUE_SWITCH = mask 4" by (simp add: MASQUE_SWITCH_def mask_eq_exp_minus_1)
  show ?thesis unfolding m by (auto simp: bit_simps)
qed

lemma send_PCF8885_reports:
  assumes "read_PCF8885 peer bus = (v, bus')" and "old_stat_switch d AND MASQUE_SWITCH = old_stat_switch d"
  shows "send_PCF8885 b peer bus d = (v AND MASQUE_SWITCH, bus',
    d\<lparr>reports := reports d @ change_reports b v d [0..<4], old_stat_switch := v AND MASQUE_SWITCH\<rparr>)"
proof -
  have o: "bit (old_stat_switch d) l \<Longrightarrow> l < 4" for l using masked_bit [of "old_stat_switch d" l] assms(2) by simp
  have "filter (\<lambda>l. bit (v AND MASQUE_SWITCH) l \<noteq> bit (old_stat_switch d) l) [0..<8] =
      filter (\<lambda>l. bit v l \<noteq> bit (old_stat_switch d) l) [0..<4] @
      filter (\<lambda>l. bit (v AND MASQUE_SWITCH) l \<noteq> bit (old_stat_switch d) l) [4..<8]"
    unfolding upt_add_eq_append [of 0 4 4, simplified] filter_append by (auto simp: masked_bit intro: filter_cong)
  moreover have "filter (\<lambda>l. bit (v AND MASQUE_SWITCH) l \<noteq> bit (old_stat_switch d) l) [4..<8] = []"
    using o by (fastforce simp: filter_empty_conv masked_bit)
  moreover have "switch_report l (bit (v AND MASQUE_SWITCH) l) = switch_report l (bit v l)" if "l < 4" for l
    using that by (simp add: masked_bit)
  ultimately have "change_reports b (v AND MASQUE_SWITCH) d [0..<8] = change_reports b v d [0..<4]"
    unfolding change_reports_def by (auto intro!: arg_cong [of _ _ concat] map_cong)
  with assms(1) show ?thesis by (simp add: send_PCF8885_def send_switches_reports Let_def)
qed

text \<open>
  C16: from the touched switches to the reports. On an idle bus with a controller that presents
  its byte, reading the switches reports exactly those of the four whose level differs from the
  last reading, in their order, with the name \<open>_1\<close> to \<open>_4\<close> and the value 100 or 0, in the battery
  builds each followed by the battery's voltage under the same name; nothing else of the device
  changes, and the next reading compares with these levels.
\<close>

theorem switch_reports:
  assumes "line bus = (True, True)" and "presents peer bus read_request v"
    and "old_stat_switch d AND MASQUE_SWITCH = old_stat_switch d"
  shows "\<exists>bus'. send_PCF8885 b peer bus d = (v AND MASQUE_SWITCH, bus',
      d\<lparr>reports := reports d @ concat (map (\<lambda>l. switch_report l (bit v l) #
          (if ON_BATTERY b then [battery_report (Some (switch_name l)) d] else []))
          (filter (\<lambda>l. bit v l \<noteq> bit (old_stat_switch d) l) [0..<4])),
        old_stat_switch := v AND MASQUE_SWITCH\<rparr>) \<and> line bus' = (True, True)"
proof -
  obtain bus' where "read_PCF8885 peer bus = (v, bus')" "line bus' = (True, True)"
    using read_PCF8885_idle [OF assms(1,2)] by blast
  with send_PCF8885_reports [OF this(1) assms(3)] show ?thesis by (simp add: change_reports_def)
qed

text \<open>A device on which the second switch was on.\<close>

lemma switch_reports_witness:
  "reports (snd (snd (send_PCF8885 build_SWITCH_PCF8885 example_controller example_bus
      (example_shutter\<lparr>old_stat_switch := 3, ubat := 3000\<rparr>)))) =
    [switch_report 1 False, battery_report (Some (switch_name 1)) (example_shutter\<lparr>ubat := 3000\<rparr>),
     switch_report 2 True, battery_report (Some (switch_name 2)) (example_shutter\<lparr>ubat := 3000\<rparr>)]"
proof -
  let ?d = "example_shutter\<lparr>old_stat_switch := 3, ubat := 3000\<rparr>"
  have f: "filter (\<lambda>l. bit (5 :: u8) l \<noteq> bit (old_stat_switch ?d) l) [0..<4] = [1, 2]"
  proof -
    have "old_stat_switch ?d = 3" by simp
    moreover have "filter (\<lambda>l. bit (5 :: u8) l \<noteq> bit (3 :: u8) l) [0..<4] = [1, 2]" by code_simp
    ultimately show ?thesis by simp
  qed
  have o: "old_stat_switch ?d AND MASQUE_SWITCH = old_stat_switch ?d" by (simp add: MASQUE_SWITCH_def)
  show ?thesis
    using switch_reports [OF example_controller(1) example_controller(2) o, of build_SWITCH_PCF8885, unfolded f]
    by (auto simp: build_SWITCH_PCF8885_def example_shutter_def battery_report_def)
qed

section \<open>Bounds\<close>

text \<open>The soil's humidity in hundredths of a percent, for a converter of 12 bits and in general.\<close>

lemma soil_humidity_bounds: "0 \<le> soil_humidity x y" "soil_humidity x y \<le> 10000"
  by (simp_all add: soil_humidity_def Let_def)

lemma go_sleep_time:
  assumes "uint (echelle d) \<le> 4294"
  shows "\<exists>t. deep_sleep (go_sleep d) = Some t \<and> uint t = 1000000 * uint (echelle d)"
proof -
  have "uint (echelle d * 1000 * 1000) = 1000000 * uint (echelle d)"
    using assms uint_mult_lem [of "echelle d" 1000000] by (simp add: mult.assoc)
  then show ?thesis by (simp add: go_sleep_def system_deep_sleep_def)
qed

end
