(* ===== verification/Ringbuf.thy ===== *)
theory Ringbuf
  imports Esp_Prelude
begin

text \<open>
  The byte ring buffer of \<open>mqtt/ringbuf.c\<close>.

  \<open>ringbuf\<close> is the C struct: \<open>rb_mem\<close> is the block \<open>p_o\<close> points to, \<open>p_r\<close> and
  \<open>p_w\<close> are the offsets of the read and write pointers in it. The operations return the
  C status (0 or -1) together with the new struct. The interface \<open>byte_fifo\<close> is what the
  framing layer relies on; it is interpreted here on the three operations.
\<close>

section \<open>State and operations\<close>

record ringbuf =
  rb_mem :: bytes
  p_r :: nat
  p_w :: nat
  fill_cnt :: int
  rb_size :: int

text \<open>\<open>None\<close> for the arguments \<open>r\<close> and \<open>buf\<close> is the null pointer.\<close>

definition RINGBUF_Init ::
    "ringbuf option \<Rightarrow> bytes option \<Rightarrow> int \<Rightarrow> int \<times> ringbuf option" where
  "RINGBUF_Init r buf sz =
     (case (r, buf) of
        (Some r0, Some m) \<Rightarrow>
          if sz < 2 then (-1, r)
          else (0, Some (r0\<lparr>rb_mem := m, p_r := 0, p_w := 0, fill_cnt := 0, rb_size := sz\<rparr>))
      | _ \<Rightarrow> (-1, r))"

definition RINGBUF_Put :: "ringbuf \<Rightarrow> u8 \<Rightarrow> (int \<times> ringbuf) option" where
  "RINGBUF_Put r c =
     (if fill_cnt r \<ge> rb_size r then Some (-1, r)
      else do {
        let r = r\<lparr>fill_cnt := fill_cnt r + 1\<rparr>;
        m \<leftarrow> store (rb_mem r) (p_w r) c;
        let r = r\<lparr>rb_mem := m, p_w := p_w r + 1\<rparr>;
        let r = (if int (p_w r) \<ge> rb_size r then r\<lparr>p_w := 0\<rparr> else r);
        Some (0, r)
      })"

text \<open>The byte read is an out parameter: \<open>c0\<close> is its old value, kept on failure.\<close>

definition RINGBUF_Get :: "ringbuf \<Rightarrow> u8 \<Rightarrow> (int \<times> u8 \<times> ringbuf) option" where
  "RINGBUF_Get r c0 =
     (if fill_cnt r \<le> 0 then Some (-1, c0, r)
      else do {
        let r = r\<lparr>fill_cnt := fill_cnt r - 1\<rparr>;
        c \<leftarrow> load (rb_mem r) (p_r r);
        let r = r\<lparr>p_r := p_r r + 1\<rparr>;
        let r = (if int (p_r r) \<ge> rb_size r then r\<lparr>p_r := 0\<rparr> else r);
        Some (0, c, r)
      })"

section \<open>Abstraction and invariant\<close>

text \<open>The stored bytes, oldest first, and what every operation keeps of the struct.\<close>

definition rb_list :: "ringbuf \<Rightarrow> bytes" where
  "rb_list r = map (\<lambda>k. rb_mem r ! ((p_r r + k) mod length (rb_mem r))) [0..<nat (fill_cnt r)]"

definition rb_inv :: "ringbuf \<Rightarrow> bool" where
  "rb_inv r \<longleftrightarrow>
     2 \<le> rb_size r \<and> rb_size r = int (length (rb_mem r)) \<and>
     0 \<le> fill_cnt r \<and> fill_cnt r \<le> rb_size r \<and>
     p_r r < length (rb_mem r) \<and>
     p_w r = (p_r r + nat (fill_cnt r)) mod length (rb_mem r)"

text \<open>
  Sequences of operations: what a client observes of the code (the status and the out
  parameter of each call), and of a plain list of at most \<open>cap\<close> bytes.
\<close>

text \<open>Putting a list of bytes until one does not fit.\<close>

fun put_all :: "('q \<Rightarrow> u8 \<Rightarrow> (int \<times> 'q) option) \<Rightarrow> 'q \<Rightarrow> bytes \<Rightarrow> (int \<times> 'q) option" where
  "put_all put q [] = Some (0, q)"
| "put_all put q (b # bs) = do {
     (s, q') \<leftarrow> put q b;
     if s = -1 then Some (-1, q') else put_all put q' bs
   }"

datatype fifo_op = PutOp u8 | GetOp u8

fun fifo_run ::
    "('q \<Rightarrow> u8 \<Rightarrow> (int \<times> 'q) option) \<Rightarrow> ('q \<Rightarrow> u8 \<Rightarrow> (int \<times> u8 \<times> 'q) option) \<Rightarrow>
     'q \<Rightarrow> fifo_op list \<Rightarrow> ((int \<times> u8) list \<times> 'q) option" where
  "fifo_run put get q [] = Some ([], q)"
| "fifo_run put get q (PutOp c # ops) = do {
     (s, q') \<leftarrow> put q c;
     (out, q'') \<leftarrow> fifo_run put get q' ops;
     Some ((s, c) # out, q'')
   }"
| "fifo_run put get q (GetOp c0 # ops) = do {
     (s, c, q') \<leftarrow> get q c0;
     (out, q'') \<leftarrow> fifo_run put get q' ops;
     Some ((s, c) # out, q'')
   }"

fun list_run :: "nat \<Rightarrow> bytes \<Rightarrow> fifo_op list \<Rightarrow> (int \<times> u8) list \<times> bytes" where
  "list_run cap xs [] = ([], xs)"
| "list_run cap xs (PutOp c # ops) =
     (let (out, ys) = list_run cap (if length xs < cap then xs @ [c] else xs) ops
      in ((if length xs < cap then 0 else -1, c) # out, ys))"
| "list_run cap xs (GetOp c0 # ops) =
     (case xs of
        [] \<Rightarrow> (let (out, ys) = list_run cap [] ops in ((-1, c0) # out, ys))
      | x # xs' \<Rightarrow> (let (out, ys) = list_run cap xs' ops in ((0, x) # out, ys)))"

section \<open>The interface of a byte FIFO\<close>

text \<open>
  What a client of the ring buffer may rely on: a put either stores the byte at the back or
  reports a full buffer and changes nothing, a get takes the byte at the front or reports an
  empty buffer, and neither ever touches memory it does not own.
\<close>

locale byte_fifo =
  fixes put :: "'q \<Rightarrow> u8 \<Rightarrow> (int \<times> 'q) option"
    and get :: "'q \<Rightarrow> u8 \<Rightarrow> (int \<times> u8 \<times> 'q) option"
    and content :: "'q \<Rightarrow> bytes"
    and capacity :: "'q \<Rightarrow> nat"
    and invar :: "'q \<Rightarrow> bool"
  assumes put_ok: "\<lbrakk>invar q; length (content q) < capacity q\<rbrakk> \<Longrightarrow>
        \<exists>q'. put q c = Some (0, q') \<and> invar q' \<and> content q' = content q @ [c] \<and>
             capacity q' = capacity q"
    and put_full: "\<lbrakk>invar q; capacity q \<le> length (content q)\<rbrakk> \<Longrightarrow> put q c = Some (-1, q)"
    and get_ok: "\<lbrakk>invar q; content q = c # cs\<rbrakk> \<Longrightarrow>
        \<exists>q'. get q c0 = Some (0, c, q') \<and> invar q' \<and> content q' = cs \<and>
             capacity q' = capacity q"
    and get_empty: "\<lbrakk>invar q; content q = []\<rbrakk> \<Longrightarrow> get q c0 = Some (-1, c0, q)"
    and content_bound: "invar q \<Longrightarrow> length (content q) \<le> capacity q"
begin

lemma put_total: "invar q \<Longrightarrow> \<exists>s q'. put q c = Some (s, q') \<and> invar q' \<and> capacity q' = capacity q"
  using put_ok [of q c] put_full [of q c] by (cases "length (content q) < capacity q") auto

lemma put_all_spec:
  "invar q \<Longrightarrow> \<exists>s q'. put_all put q bs = Some (s, q') \<and> invar q' \<and> capacity q' = capacity q \<and>
     (s = 0 \<longleftrightarrow> length (content q) + length bs \<le> capacity q) \<and> (s = 0 \<or> s = -1) \<and>
     content q' = take (capacity q) (content q @ bs)"
proof (induction bs arbitrary: q)
  case Nil
  then show ?case using content_bound [OF Nil] by simp
next
  case (Cons b bs)
  show ?case
  proof (cases "length (content q) < capacity q")
    case True
    with put_ok [OF Cons.prems, of b] obtain q1 where q1: "put q b = Some (0, q1)" "invar q1"
      "content q1 = content q @ [b]" "capacity q1 = capacity q" by auto
    from Cons.IH [OF q1(2)] q1 show ?thesis by auto
  next
    case False
    with put_full [OF Cons.prems, of b] content_bound [OF Cons.prems] Cons.prems
    show ?thesis by auto
  qed
qed

text \<open>Any client sees a bounded list.\<close>

lemma run_refines:
  "invar q \<Longrightarrow> \<exists>q'. fifo_run put get q ops = Some (fst (list_run (capacity q) (content q) ops), q') \<and>
     invar q' \<and> content q' = snd (list_run (capacity q) (content q) ops)"
proof (induction ops arbitrary: q)
  case Nil
  then show ?case by simp
next
  case (Cons op ops)
  show ?case
  proof (cases op)
    case (PutOp c)
    show ?thesis
    proof (cases "length (content q) < capacity q")
      case True
      with put_ok [OF Cons.prems, of c] obtain q1 where q1: "put q c = Some (0, q1)" "invar q1"
        "content q1 = content q @ [c]" "capacity q1 = capacity q" by auto
      from Cons.IH [OF q1(2)] q1 True PutOp show ?thesis
        by (auto simp: case_prod_beta Let_def)
    next
      case False
      with put_full [OF Cons.prems, of c] Cons.IH [OF Cons.prems] PutOp show ?thesis
        by (auto simp: case_prod_beta Let_def)
    qed
  next
    case (GetOp c0)
    show ?thesis
    proof (cases "content q")
      case Nil
      with get_empty [OF Cons.prems, of c0] Cons.IH [OF Cons.prems] GetOp show ?thesis
        by (auto simp: case_prod_beta Let_def)
    next
      case (Cons x xs)
      with get_ok [OF Cons.prems Cons, of c0] obtain q1 where q1: "get q c0 = Some (0, x, q1)"
        "invar q1" "content q1 = xs" "capacity q1 = capacity q" by auto
      from Cons.IH [OF q1(2)] q1 Cons GetOp show ?thesis
        by (auto simp: case_prod_beta Let_def)
    qed
  qed
qed

end

section \<open>Lemmas\<close>

lemma length_rb_list [simp]: "length (rb_list r) = nat (fill_cnt r)"
  by (simp add: rb_list_def)

lemma rb_list_Nil_iff [simp]: "rb_list r = [] \<longleftrightarrow> fill_cnt r \<le> 0"
  by (simp add: rb_list_def)

text \<open>The wrap-around test of the code is the successor modulo the size.\<close>

lemma wrap_succ:
  "i < n \<Longrightarrow> (if n \<le> Suc i then 0 else Suc i) = Suc i mod n"
  by (auto simp: le_Suc_eq not_less_eq_eq)

lemma write_slot_free:
  assumes "k < f" and "f < n" and "p < n"
  shows "(p + k) mod n \<noteq> (p + f) mod (n::nat)"
proof
  assume "(p + k) mod n = (p + f) mod n"
  then have "(p + k) mod n = (p + k + (f - k)) mod n" using assms by simp
  then have "n dvd f - k" using assms
    by (metis add.commute add_diff_cancel_right' mod_eq_dvd_iff_nat le_add1)
  with assms show False by (auto dest: dvd_imp_le)
qed

lemma RINGBUF_Put_full: "rb_size r \<le> fill_cnt r \<Longrightarrow> RINGBUF_Put r c = Some (-1, r)"
  by (simp add: RINGBUF_Put_def)

lemma RINGBUF_Get_empty: "fill_cnt r \<le> 0 \<Longrightarrow> RINGBUF_Get r c0 = Some (-1, c0, r)"
  by (simp add: RINGBUF_Get_def)

text \<open>The two successful paths, with the pointer updates in closed form.\<close>

lemma RINGBUF_Put_step:
  assumes inv: "rb_inv r" and free: "fill_cnt r < rb_size r"
  shows "RINGBUF_Put r c = Some (0, r\<lparr>rb_mem := (rb_mem r)[p_w r := c],
    p_w := Suc (p_w r) mod length (rb_mem r), fill_cnt := fill_cnt r + 1\<rparr>)"
proof -
  let ?n = "length (rb_mem r)"
  from inv have w: "p_w r < ?n" and n: "rb_size r = int ?n"
    by (auto simp: rb_inv_def intro!: mod_less_divisor)
  then have "(?n \<le> Suc (p_w r)) = (rb_size r \<le> int (Suc (p_w r)))" by linarith
  with w n free wrap_succ [OF w] show ?thesis
    by (auto simp: RINGBUF_Put_def mem_simps Let_def)
qed

lemma RINGBUF_Get_step:
  assumes inv: "rb_inv r" and some: "0 < fill_cnt r"
  shows "RINGBUF_Get r c0 = Some (0, rb_mem r ! p_r r,
    r\<lparr>p_r := Suc (p_r r) mod length (rb_mem r), fill_cnt := fill_cnt r - 1\<rparr>)"
proof -
  let ?n = "length (rb_mem r)"
  from inv have w: "p_r r < ?n" and n: "rb_size r = int ?n" by (auto simp: rb_inv_def)
  then have "(?n \<le> Suc (p_r r)) = (rb_size r \<le> int (Suc (p_r r)))" by linarith
  with w n some wrap_succ [OF w] show ?thesis
    by (auto simp: RINGBUF_Get_def mem_simps Let_def)
qed

lemma RINGBUF_Put_ok:
  assumes inv: "rb_inv r" and free: "fill_cnt r < rb_size r"
  shows "\<exists>r'. RINGBUF_Put r c = Some (0, r') \<and> rb_inv r' \<and> rb_list r' = rb_list r @ [c] \<and>
    rb_size r' = rb_size r \<and> p_r r' = p_r r"
proof -
  let ?n = "length (rb_mem r)" and ?f = "nat (fill_cnt r)"
  let ?r = "r\<lparr>rb_mem := (rb_mem r)[p_w r := c], p_w := Suc (p_w r) mod ?n,
    fill_cnt := fill_cnt r + 1\<rparr>"
  from inv free have f: "?f < ?n" "0 \<le> fill_cnt r" "p_r r < ?n" and n: "0 < ?n"
    and w: "p_w r = (p_r r + ?f) mod ?n" by (auto simp: rb_inv_def)
  have f1: "nat (fill_cnt r + 1) = Suc ?f" using f by simp
  have "rb_inv ?r"
    using inv free f1 by (auto simp: rb_inv_def mod_Suc_eq)
  moreover have "rb_list ?r = rb_list r @ [c]"
  proof -
    have "(rb_mem r)[p_w r := c] ! ((p_r r + k) mod ?n) = rb_mem r ! ((p_r r + k) mod ?n)"
      if "k < ?f" for k
      using write_slot_free [OF that f(1) f(3)] w by simp
    then show ?thesis using n w by (auto simp: rb_list_def f1)
  qed
  ultimately show ?thesis using RINGBUF_Put_step [OF inv free, of c] by simp
qed

lemma RINGBUF_Get_ok:
  assumes inv: "rb_inv r" and some: "0 < fill_cnt r"
  shows "\<exists>r'. RINGBUF_Get r c0 = Some (0, hd (rb_list r), r') \<and> rb_inv r' \<and>
    rb_list r' = tl (rb_list r) \<and> rb_size r' = rb_size r \<and> fill_cnt r' = fill_cnt r - 1"
proof -
  let ?n = "length (rb_mem r)"
  let ?r = "r\<lparr>p_r := Suc (p_r r) mod ?n, fill_cnt := fill_cnt r - 1\<rparr>"
  from some obtain f where f: "nat (fill_cnt r) = Suc f" "nat (fill_cnt r - 1) = f"
    by (cases "nat (fill_cnt r)") auto
  from inv have n: "0 < ?n" "p_r r < ?n" by (auto simp: rb_inv_def)
  have shift: "(Suc (p_r r) mod ?n + k) mod ?n = (p_r r + Suc k) mod ?n" for k
    by (simp add: mod_simps)
  have "rb_inv ?r"
    using inv some f n shift [of f] by (auto simp: rb_inv_def)
  moreover have "rb_list ?r = tl (rb_list r)"
    by (rule nth_equalityI) (auto simp: rb_list_def f shift nth_tl simp del: upt_Suc)
  moreover have "hd (rb_list r) = rb_mem r ! p_r r"
    using n by (simp add: rb_list_def f hd_map del: upt_Suc)
  ultimately show ?thesis using RINGBUF_Get_step [OF inv some, of c0] by simp
qed

lemma RINGBUF_Get_decreases:
  "RINGBUF_Get r c0 = Some (0, c, r') \<Longrightarrow> 0 < fill_cnt r \<and> fill_cnt r' = fill_cnt r - 1"
  by (auto simp: RINGBUF_Get_def Let_def bind_eq_Some_conv split: if_splits)

text \<open>A put moves no other pointer than the write pointer.\<close>

lemma RINGBUF_Put_p_r:
  "RINGBUF_Put r c = Some (s, r') \<Longrightarrow> p_r r' = p_r r \<and> rb_size r' = rb_size r"
  by (auto simp: RINGBUF_Put_def Let_def bind_eq_Some_conv split: if_splits)

lemma RINGBUF_put_all_p_r:
  "put_all RINGBUF_Put r bs = Some (s, r') \<Longrightarrow> p_r r' = p_r r \<and> rb_size r' = rb_size r"
proof (induction bs arbitrary: r)
  case Nil
  then show ?case by simp
next
  case (Cons b bs)
  from Cons.prems obtain s1 r1 where put: "RINGBUF_Put r b = Some (s1, r1)"
    and rest: "(if s1 = -1 then Some (-1, r1) else put_all RINGBUF_Put r1 bs) = Some (s, r')"
    by (auto simp: bind_eq_Some_conv)
  from rest show ?case
    using RINGBUF_Put_p_r [OF put] Cons.IH [of r1] by (cases "s1 = -1") auto
qed

lemma RINGBUF_Init_ok:
  assumes "RINGBUF_Init (Some r0) (Some m) sz = (0, Some r)" and "sz = int (length m)"
  shows "rb_inv r \<and> rb_list r = [] \<and> rb_size r = sz \<and> p_r r = 0"
  using assms by (auto simp: RINGBUF_Init_def rb_inv_def rb_list_def split: if_splits)

interpretation rb: byte_fifo RINGBUF_Put RINGBUF_Get rb_list "\<lambda>r. nat (rb_size r)" rb_inv
proof unfold_locales
  fix q c assume "rb_inv q" "length (rb_list q) < nat (rb_size q)"
  with RINGBUF_Put_ok [of q c] show
    "\<exists>q'. RINGBUF_Put q c = Some (0, q') \<and> rb_inv q' \<and> rb_list q' = rb_list q @ [c] \<and>
       nat (rb_size q') = nat (rb_size q)" by auto
next
  fix q c assume "rb_inv q" "nat (rb_size q) \<le> length (rb_list q)"
  then show "RINGBUF_Put q c = Some (-1, q)" by (auto simp: rb_inv_def intro: RINGBUF_Put_full)
next
  fix q c cs c0 assume inv: "rb_inv q" and q: "rb_list q = c # cs"
  then have "0 < fill_cnt q" by (metis list.distinct(1) not_le rb_list_Nil_iff)
  with RINGBUF_Get_ok [OF inv, of c0] q show
    "\<exists>q'. RINGBUF_Get q c0 = Some (0, c, q') \<and> rb_inv q' \<and> rb_list q' = cs \<and>
       nat (rb_size q') = nat (rb_size q)" by auto
next
  fix q c0 assume "rb_inv q" "rb_list q = []"
  then show "RINGBUF_Get q c0 = Some (-1, c0, q)" by (simp add: RINGBUF_Get_empty)
next
  fix q assume "rb_inv q"
  then show "length (rb_list q) \<le> nat (rb_size q)" by (auto simp: rb_inv_def)
qed

section \<open>Properties\<close>

text \<open>
  C7: Any sequence of puts and gets on a ring buffer initialised over a block of \<open>n \<ge> 2\<close>
  bytes returns, call by call, the statuses and bytes of a list that holds at most \<open>n\<close> bytes,
  however often the pointers wrap around, and no access leaves the block.
\<close>

theorem ringbuf_refines_bounded_list:
  assumes "2 \<le> length m"
  shows "\<exists>r r'. RINGBUF_Init (Some r0) (Some m) (int (length m)) = (0, Some r) \<and>
    fifo_run RINGBUF_Put RINGBUF_Get r ops = Some (fst (list_run (length m) [] ops), r') \<and>
    rb_list r' = snd (list_run (length m) [] ops)"
proof -
  obtain r where r: "RINGBUF_Init (Some r0) (Some m) (int (length m)) = (0, Some r)"
    using assms by (auto simp: RINGBUF_Init_def)
  from RINGBUF_Init_ok [OF r] have "rb_inv r" "rb_list r = []" "rb_size r = int (length m)"
    by auto
  with r rb.run_refines [of r ops] show ?thesis by auto
qed

lemma ringbuf_refines_bounded_list_witness:
  "2 \<le> length [0, 0 :: u8] \<and>
   (\<exists>r r'. RINGBUF_Init (Some \<lparr>rb_mem = [], p_r = 5, p_w = 7, fill_cnt = 9, rb_size = 0\<rparr>)
       (Some [0, 0]) 2 = (0, Some r) \<and>
     fifo_run RINGBUF_Put RINGBUF_Get r [PutOp 1, PutOp 2, PutOp 3, GetOp 9, PutOp 4] =
       Some ([(0, 1), (0, 2), (-1, 3), (0, 1), (0, 4)], r') \<and> rb_list r' = [2, 4])"
  using ringbuf_refines_bounded_list
    [of "[0, 0]" "\<lparr>rb_mem = [], p_r = 5, p_w = 7, fill_cnt = 9, rb_size = 0\<rparr>"
      "[PutOp 1, PutOp 2, PutOp 3, GetOp 9, PutOp 4]"] by simp

end
