(* ===== verification/Proto.thy ===== *)
theory Proto
  imports Ringbuf
begin

unbundle bit_operations_syntax

text \<open>
  The framing layer of \<open>mqtt/proto.c\<close>: a packet travels between the bytes 0x7E and 0x7F,
  and the bytes 0x7D, 0x7E and 0x7F inside it are sent as 0x7D followed by the byte with bit
  5 flipped. \<open>proto_parser\<close> is the C struct \<open>PROTO_PARSER\<close>; \<open>cb_calls\<close> counts the calls of
  its completion callback (any code, called without arguments).
\<close>

section \<open>State and operations\<close>

record proto_parser =
  pbuf :: bytes
  bufSize :: nat
  dataLen :: nat
  isEsc :: u8
  isBegin :: u8
  callback :: bool
  cb_calls :: nat

text \<open>\<open>isBegin\<close> is not written: it keeps whatever the struct held before.\<close>

definition PROTO_Init :: "proto_parser \<Rightarrow> bool \<Rightarrow> bytes \<Rightarrow> nat \<Rightarrow> int \<times> proto_parser" where
  "PROTO_Init p cb buf bufsz =
     (0, p\<lparr>pbuf := buf, bufSize := bufsz, dataLen := 0, callback := cb, isEsc := 0\<rparr>)"

definition PROTO_ParseByte :: "proto_parser \<Rightarrow> u8 \<Rightarrow> (int \<times> proto_parser) option" where
  "PROTO_ParseByte p v =
     (if v = 0x7D then Some (-1, p\<lparr>isEsc := 1\<rparr>)
      else if v = 0x7E then Some (-1, p\<lparr>dataLen := 0, isEsc := 0, isBegin := 1\<rparr>)
      else if v = 0x7F then
        (let p = (if callback p then p\<lparr>cb_calls := cb_calls p + 1\<rparr> else p)
         in Some (0, p\<lparr>isBegin := 0\<rparr>))
      else if isBegin p = 0 then Some (-1, p)
      else
        (let (v, p) = (if isEsc p \<noteq> 0 then (v XOR 0x20, p\<lparr>isEsc := 0\<rparr>) else (v, p))
         in if dataLen p < bufSize p then do {
              m \<leftarrow> store (pbuf p) (dataLen p) v;
              Some (-1, p\<lparr>pbuf := m, dataLen := dataLen p + 1\<rparr>)
            } else Some (-1, p)))"

text \<open>\<open>PROTO_Parse(parser, buf + off, len)\<close>.\<close>

fun PROTO_Parse :: "proto_parser \<Rightarrow> bytes \<Rightarrow> nat \<Rightarrow> nat \<Rightarrow> (int \<times> proto_parser) option" where
  "PROTO_Parse p buf off 0 = Some (0, p)"
| "PROTO_Parse p buf off (Suc len) = do {
     b \<leftarrow> load buf off;
     (s, p') \<leftarrow> PROTO_ParseByte p b;
     PROTO_Parse p' buf (off + 1) len
   }"

text \<open>The loop of \<open>PROTO_ParseRb\<close>: the flag says that a frame end was read.\<close>

function PROTO_ParseRb_loop ::
    "ringbuf \<Rightarrow> u8 \<Rightarrow> proto_parser \<Rightarrow> (bool \<times> proto_parser \<times> ringbuf) option" where
  "PROTO_ParseRb_loop rb c p =
     (case RINGBUF_Get rb c of
        None \<Rightarrow> None
      | Some (s, c', rb') \<Rightarrow>
          if s = 0 then
            (case PROTO_ParseByte p c' of
               None \<Rightarrow> None
             | Some (t, p') \<Rightarrow>
                 if t = 0 then Some (True, p', rb') else PROTO_ParseRb_loop rb' c' p')
          else Some (False, p, rb'))"
  by pat_completeness auto
termination
proof (relation "measure (\<lambda>(rb, c, p). nat (fill_cnt rb))")
  show "wf (measure (\<lambda>(rb :: ringbuf, c :: u8, p :: proto_parser). nat (fill_cnt rb)))" by simp
qed (auto dest: RINGBUF_Get_decreases)

declare PROTO_ParseRb_loop.simps [simp del]

text \<open>
  \<open>c0\<close> and \<open>proto0\<close> are the uninitialised locals \<open>c\<close> and \<open>proto\<close>, \<open>len0\<close> the old value of
  the out parameter \<open>len\<close>. The result is the status, the output buffer, \<open>len\<close> and the ring.
\<close>

definition PROTO_ParseRb ::
    "ringbuf \<Rightarrow> u8 \<Rightarrow> proto_parser \<Rightarrow> bytes \<Rightarrow> nat \<Rightarrow> nat \<Rightarrow> (int \<times> bytes \<times> nat \<times> ringbuf) option" where
  "PROTO_ParseRb rb c0 proto0 bufOut len0 maxBufLen = do {
     let (s, p) = PROTO_Init proto0 False bufOut maxBufLen;
     (found, p', rb') \<leftarrow> PROTO_ParseRb_loop rb c0 p;
     Some (if found then (0, pbuf p', dataLen p', rb') else (-1, pbuf p', len0, rb'))
   }"

definition special :: "u8 \<Rightarrow> bool" where
  "special b \<longleftrightarrow> b = 0x7D \<or> b = 0x7E \<or> b = 0x7F"

text \<open>
  The body of \<open>PROTO_Add\<close> after the begin marker: \<open>boff\<close> and \<open>poff\<close> are the advancing
  pointers, \<open>left\<close> is \<open>bufSize\<close>, \<open>i\<close> the count that is returned.
\<close>

fun PROTO_Add_loop ::
    "bytes \<Rightarrow> nat \<Rightarrow> bytes \<Rightarrow> nat \<Rightarrow> int \<Rightarrow> nat \<Rightarrow> nat \<Rightarrow> (int \<times> bytes) option" where
  "PROTO_Add_loop buf boff packet poff left 0 i =
     (if left < 1 then Some (-1, buf)
      else do { buf \<leftarrow> store buf boff 0x7F; Some (to_s16 (int i), buf) })"
| "PROTO_Add_loop buf boff packet poff left (Suc len) i = do {
     b \<leftarrow> load packet poff;
     if special b then
       if left < 2 then Some (-1, buf)
       else do {
         buf \<leftarrow> store buf boff 0x7D;
         buf \<leftarrow> store buf (boff + 1) (b XOR 0x20);
         PROTO_Add_loop buf (boff + 2) packet (poff + 1) (left - 2) len (i + 2)
       }
     else
       if left < 1 then Some (-1, buf)
       else do {
         buf \<leftarrow> store buf boff b;
         PROTO_Add_loop buf (boff + 1) packet (poff + 1) (left - 1) len (i + 1)
       }
   }"

text \<open>The packet's length is read from its own first two bytes, little endian.\<close>

definition PROTO_Add :: "bytes \<Rightarrow> bytes \<Rightarrow> int \<Rightarrow> (int \<times> bytes) option" where
  "PROTO_Add buf packet bufsz = do {
     l \<leftarrow> load packet 0;
     h \<leftarrow> load packet 1;
     let len = be16 h l;
     if bufsz < 1 then Some (-1, buf)
     else do {
       buf \<leftarrow> store buf 0 0x7E;
       PROTO_Add_loop buf 1 packet 0 (bufsz - 1) len 2
     }
   }"

fun PROTO_AddRb_loop ::
    "ringbuf \<Rightarrow> bytes \<Rightarrow> nat \<Rightarrow> nat \<Rightarrow> nat \<Rightarrow> (int \<times> ringbuf) option" where
  "PROTO_AddRb_loop rb packet off 0 i = do {
     (s, rb) \<leftarrow> RINGBUF_Put rb 0x7F;
     if s = -1 then Some (-1, rb) else Some (to_s16 (int i), rb)
   }"
| "PROTO_AddRb_loop rb packet off (Suc len) i = do {
     b \<leftarrow> load packet off;
     if special b then do {
       (s, rb) \<leftarrow> RINGBUF_Put rb 0x7D;
       if s = -1 then Some (-1, rb)
       else do {
         (s, rb) \<leftarrow> RINGBUF_Put rb (b XOR 0x20);
         if s = -1 then Some (-1, rb) else PROTO_AddRb_loop rb packet (off + 1) len (i + 2)
       }
     } else do {
       (s, rb) \<leftarrow> RINGBUF_Put rb b;
       if s = -1 then Some (-1, rb) else PROTO_AddRb_loop rb packet (off + 1) len (i + 1)
     }
   }"

text \<open>
  \<open>len\<close> is an \<open>I16\<close> that the loop decrements until it is zero, so it runs as often as the
  16-bit pattern of \<open>len\<close>, read unsigned.
\<close>

definition PROTO_AddRb :: "ringbuf \<Rightarrow> bytes \<Rightarrow> int \<Rightarrow> (int \<times> ringbuf) option" where
  "PROTO_AddRb rb packet len = do {
     (s, rb) \<leftarrow> RINGBUF_Put rb 0x7E;
     if s = -1 then Some (-1, rb) else PROTO_AddRb_loop rb packet 0 (to_u16 len) 2
   }"

section \<open>The wire format\<close>

definition esc :: "u8 \<Rightarrow> bytes" where
  "esc b = (if special b then [0x7D, b XOR 0x20] else [b])"

definition escs :: "bytes \<Rightarrow> bytes" where
  "escs bs = concat (map esc bs)"

definition frame :: "bytes \<Rightarrow> bytes" where
  "frame bs = 0x7E # escs bs @ [0x7F]"

text \<open>The parser on a list of bytes, up to the first frame end; the rest is not read.\<close>

fun feed :: "proto_parser \<Rightarrow> bytes \<Rightarrow> (bool \<times> proto_parser \<times> bytes) option" where
  "feed p [] = Some (False, p, [])"
| "feed p (b # bs) = do {
     (t, p') \<leftarrow> PROTO_ParseByte p b;
     if t = 0 then Some (True, p', bs) else feed p' bs
   }"

section \<open>Lemmas\<close>

subsection \<open>Escaping\<close>

lemma xor_20_twice [simp]: "(b XOR 0x20) XOR 0x20 = (b :: u8)"
  by (simp add: xor.assoc)

lemma special_xor [simp]: "special b \<Longrightarrow> \<not> special (b XOR 0x20)"
  by (auto simp: special_def)

lemma not_special_iff: "\<not> special b \<longleftrightarrow> b \<noteq> 0x7D \<and> b \<noteq> 0x7E \<and> b \<noteq> 0x7F"
  by (simp add: special_def)

lemma escs_simps [simp]:
  "escs [] = []" "escs (b # bs) = esc b @ escs bs" "escs (xs @ ys) = escs xs @ escs ys"
  by (simp_all add: escs_def)

lemma esc_no_marker: "0x7E \<notin> set (esc b)" "0x7F \<notin> set (esc b)"
  by (auto simp: esc_def special_def)

lemma escs_no_marker: "0x7E \<notin> set (escs bs) \<and> 0x7F \<notin> set (escs bs)"
  by (induction bs) (auto simp: esc_no_marker)

lemma escs_length: "length bs \<le> length (escs bs) \<and> length (escs bs) \<le> 2 * length bs"
  by (induction bs) (auto simp: esc_def)

lemma length_frame: "length (frame bs) = length (escs bs) + 2"
  by (simp add: frame_def)

subsection \<open>The parser\<close>

text \<open>What the parser needs for its stores to stay inside the output buffer.\<close>

definition parser_ok :: "proto_parser \<Rightarrow> bool" where
  "parser_ok p \<longleftrightarrow> dataLen p \<le> bufSize p \<and> bufSize p \<le> length (pbuf p)"

text \<open>A frame has begun and \<open>xs\<close> has been received in it, cut to the buffer's size.\<close>

definition receiving :: "proto_parser \<Rightarrow> bytes \<Rightarrow> bool" where
  "receiving p xs \<longleftrightarrow>
     parser_ok p \<and> isBegin p \<noteq> 0 \<and> isEsc p = 0 \<and>
     dataLen p = min (bufSize p) (length xs) \<and> take (dataLen p) (pbuf p) = take (bufSize p) xs"

definition same_buffer :: "proto_parser \<Rightarrow> proto_parser \<Rightarrow> bool" where
  "same_buffer p p' \<longleftrightarrow> bufSize p' = bufSize p \<and> length (pbuf p') = length (pbuf p)"

lemma same_buffer_refl [simp]: "same_buffer p p"
  by (simp add: same_buffer_def)

lemma same_buffer_trans: "same_buffer p q \<Longrightarrow> same_buffer q r \<Longrightarrow> same_buffer p r"
  by (simp add: same_buffer_def)

lemma ParseByte_total:
  assumes "parser_ok p"
  shows "\<exists>t p'. PROTO_ParseByte p v = Some (t, p') \<and> parser_ok p' \<and> same_buffer p p' \<and>
    (t = 0 \<longleftrightarrow> v = 0x7F)"
  using assms
  by (auto simp: PROTO_ParseByte_def parser_ok_def same_buffer_def Let_def mem_simps)

lemma ParseByte_begin:
  "parser_ok p \<Longrightarrow> \<exists>p'. PROTO_ParseByte p 0x7E = Some (-1, p') \<and> receiving p' [] \<and> same_buffer p p'"
  by (simp add: PROTO_ParseByte_def receiving_def parser_ok_def same_buffer_def)

lemma ParseByte_end:
  "receiving p xs \<Longrightarrow> \<exists>p'. PROTO_ParseByte p 0x7F = Some (0, p') \<and>
     pbuf p' = pbuf p \<and> dataLen p' = dataLen p \<and> isBegin p' = 0"
  by (simp add: PROTO_ParseByte_def receiving_def Let_def)

text \<open>Storing one received byte, dropped when the buffer is full.\<close>

lemma receiving_push:
  assumes "receiving p xs" and "dataLen p < bufSize p"
  shows "receiving (p\<lparr>pbuf := (pbuf p)[dataLen p := v], dataLen := dataLen p + 1\<rparr>) (xs @ [v])"
  using assms
  by (auto simp: receiving_def parser_ok_def min_def take_Suc_conv_app_nth split: if_splits)

lemma receiving_drop:
  assumes "receiving p xs" and "\<not> dataLen p < bufSize p"
  shows "receiving p (xs @ [v])"
  using assms by (auto simp: receiving_def parser_ok_def min_def split: if_splits)

lemma ParseByte_data:
  assumes r: "receiving (p\<lparr>isEsc := 0\<rparr>) xs" and v: "\<not> special v"
  shows "\<exists>p'. PROTO_ParseByte p v = Some (-1, p') \<and> same_buffer p p' \<and>
    receiving p' (xs @ [if isEsc p \<noteq> 0 then v XOR 0x20 else v])"
proof -
  let ?p = "p\<lparr>isEsc := 0\<rparr>" and ?v = "if isEsc p \<noteq> 0 then v XOR 0x20 else v"
  have esc: "(if isEsc p \<noteq> 0 then (v XOR 0x20, ?p) else (v, p)) = (?v, ?p)" by simp
  from r have "isBegin p \<noteq> 0" "bufSize p \<le> length (pbuf p)"
    by (auto simp: receiving_def parser_ok_def)
  with v have step: "PROTO_ParseByte p v =
      (if dataLen p < bufSize p
       then Some (-1, ?p\<lparr>pbuf := (pbuf p)[dataLen p := ?v], dataLen := dataLen p + 1\<rparr>)
       else Some (-1, ?p))"
    by (simp add: PROTO_ParseByte_def not_special_iff esc mem_simps)
  show ?thesis
  proof (cases "dataLen p < bufSize p")
    case True
    with step receiving_push [OF r, of ?v] show ?thesis by (simp add: same_buffer_def)
  next
    case False
    with step receiving_drop [OF r, of ?v] show ?thesis by (simp add: same_buffer_def)
  qed
qed

lemma feed_esc:
  assumes r: "receiving p xs"
  shows "\<exists>p'. feed p (esc b @ rest) = feed p' rest \<and> receiving p' (xs @ [b]) \<and> same_buffer p p'"
proof (cases "special b")
  case True
  let ?p = "p\<lparr>isEsc := 1\<rparr>"
  have "receiving (?p\<lparr>isEsc := 0\<rparr>) xs" using r by (auto simp: receiving_def parser_ok_def)
  from ParseByte_data [OF this special_xor [OF True]] obtain p' where
    "PROTO_ParseByte ?p (b XOR 0x20) = Some (-1, p')" "same_buffer ?p p'" "receiving p' (xs @ [b])"
    by auto
  with True show ?thesis
    by (auto simp: esc_def PROTO_ParseByte_def [of p "0x7D"] same_buffer_def)
next
  case False
  have "receiving (p\<lparr>isEsc := 0\<rparr>) xs" "isEsc p = 0"
    using r by (auto simp: receiving_def parser_ok_def)
  with ParseByte_data [OF this(1) False] False show ?thesis by (auto simp: esc_def)
qed

lemma feed_escs:
  "receiving p xs \<Longrightarrow>
   \<exists>p'. feed p (escs bs @ rest) = feed p' rest \<and> receiving p' (xs @ bs) \<and> same_buffer p p'"
proof (induction bs arbitrary: p xs)
  case Nil
  then show ?case by auto
next
  case (Cons b bs)
  from feed_esc [OF Cons.prems, of b "escs bs @ rest"] obtain p1 where p1:
    "feed p (esc b @ escs bs @ rest) = feed p1 (escs bs @ rest)"
    "receiving p1 (xs @ [b])" "same_buffer p p1" by auto
  from Cons.IH [OF p1(2)] p1 show ?case by (auto dest: same_buffer_trans)
qed

text \<open>A whole frame is received; what follows it is left alone.\<close>

lemma feed_frame:
  assumes "parser_ok p"
  shows "\<exists>p'. feed p (frame bs @ rest) = Some (True, p', rest) \<and>
    dataLen p' = min (bufSize p) (length bs) \<and>
    take (dataLen p') (pbuf p') = take (bufSize p) bs \<and> length (pbuf p') = length (pbuf p)"
proof -
  from ParseByte_begin [OF assms] obtain p1 where p1:
    "PROTO_ParseByte p 0x7E = Some (-1, p1)" "receiving p1 []" "same_buffer p p1" by auto
  from feed_escs [OF p1(2), of bs "0x7F # rest"] obtain p2 where p2:
    "feed p1 (escs bs @ 0x7F # rest) = feed p2 (0x7F # rest)" "receiving p2 bs" "same_buffer p1 p2"
    by auto
  from ParseByte_end [OF p2(2)] obtain p3 where p3: "PROTO_ParseByte p2 0x7F = Some (0, p3)"
    "pbuf p3 = pbuf p2" "dataLen p3 = dataLen p2" by auto
  have "feed p (frame bs @ rest) = Some (True, p3, rest)"
    using p1(1) p2(1) p3(1) by (simp add: frame_def)
  then show ?thesis
    using p1(3) p2(2,3) p3(2,3) by (auto simp: receiving_def same_buffer_def)
qed

text \<open>Bytes that hold no frame end only move the parser between safe states.\<close>

lemma feed_junk:
  "parser_ok p \<Longrightarrow> 0x7F \<notin> set junk \<Longrightarrow>
   \<exists>p'. feed p (junk @ rest) = feed p' rest \<and> parser_ok p' \<and> same_buffer p p'"
proof (induction junk arbitrary: p)
  case Nil
  then show ?case by auto
next
  case (Cons b junk)
  from ParseByte_total [OF Cons.prems(1), of b] Cons.prems(2) obtain t p1 where
    p1: "PROTO_ParseByte p b = Some (t, p1)" "t \<noteq> 0" "parser_ok p1" "same_buffer p p1" by auto
  with Cons.IH [OF p1(3)] Cons.prems(2) show ?case by (auto dest: same_buffer_trans)
qed

lemma feed_total:
  "parser_ok p \<Longrightarrow> \<exists>fnd p' rest. feed p bs = Some (fnd, p', rest) \<and> length (pbuf p') = length (pbuf p) \<and>
     dataLen p' \<le> bufSize p \<and> (0x7F \<notin> set bs \<longrightarrow> \<not> fnd \<and> rest = [])"
proof (induction bs arbitrary: p)
  case Nil
  then show ?case by (auto simp: parser_ok_def)
next
  case (Cons b bs)
  from ParseByte_total [OF Cons.prems, of b] obtain t p1 where
    p1: "PROTO_ParseByte p b = Some (t, p1)" "parser_ok p1" "same_buffer p p1" "t = 0 \<longleftrightarrow> b = 0x7F"
    by auto
  with Cons.IH [OF p1(2)] show ?case by (auto simp: parser_ok_def same_buffer_def)
qed

subsection \<open>Reading from the ring buffer\<close>

lemma ParseRb_loop_feed:
  "rb_inv rb \<Longrightarrow> feed p (rb_list rb) = Some (fnd, p', rest) \<Longrightarrow>
   \<exists>rb'. PROTO_ParseRb_loop rb c p = Some (fnd, p', rb') \<and> rb_inv rb' \<and> rb_list rb' = rest \<and>
     rb_size rb' = rb_size rb"
proof (induction "rb_list rb" arbitrary: rb p c)
  case Nil
  then have "RINGBUF_Get rb c = Some (-1, c, rb)" by (intro rb.get_empty) simp_all
  with Nil show ?case
    by (auto simp: PROTO_ParseRb_loop.simps [of rb c] simp del: rb_list_Nil_iff)
next
  case (Cons b bs)
  from rb.get_ok [OF Cons.prems(1) Cons.hyps(2) [symmetric], of c] Cons.prems(1)
  obtain rb1 where rb1: "RINGBUF_Get rb c = Some (0, b, rb1)" "rb_inv rb1" "rb_list rb1 = bs"
    "nat (rb_size rb1) = nat (rb_size rb)" by auto
  have size: "rb_size rb1 = rb_size rb"
    using rb1(2,4) Cons.prems(1) by (simp add: rb_inv_def)
  from Cons.prems(2) Cons.hyps(2) [symmetric] obtain t p1 where
    p1: "PROTO_ParseByte p b = Some (t, p1)"
      "(if t = 0 then Some (True, p1, bs) else feed p1 bs) = Some (fnd, p', rest)"
    by (auto simp: bind_eq_Some_conv)
  show ?case
    using Cons.hyps(1) [of rb1 p1 b] rb1 p1 size
    by (auto simp: PROTO_ParseRb_loop.simps [of rb c p] split: if_splits)
qed

text \<open>One message at the front of the ring, after bytes that end no frame.\<close>

lemma PROTO_ParseRb_frame:
  assumes inv: "rb_inv rb" and buf: "maxlen \<le> length buf"
    and ring: "rb_list rb = junk @ frame bs @ rest" and junk: "0x7F \<notin> set junk"
  shows "\<exists>buf' rb'. PROTO_ParseRb rb c0 p0 buf len0 maxlen = Some (0, buf', min maxlen (length bs), rb') \<and>
    take (min maxlen (length bs)) buf' = take maxlen bs \<and> length buf' = length buf \<and>
    rb_inv rb' \<and> rb_list rb' = rest \<and> rb_size rb' = rb_size rb"
proof -
  let ?p = "snd (PROTO_Init p0 False buf maxlen)"
  have ok: "parser_ok ?p" and sz: "bufSize ?p = maxlen" "length (pbuf ?p) = length buf"
    using buf by (auto simp: PROTO_Init_def parser_ok_def)
  from feed_junk [OF ok junk, of "frame bs @ rest"] obtain p1 where
    p1: "feed ?p (rb_list rb) = feed p1 (frame bs @ rest)" "parser_ok p1" "same_buffer ?p p1"
    using ring by auto
  from feed_frame [OF p1(2), of bs rest] p1 sz obtain p2 where
    p2: "feed ?p (rb_list rb) = Some (True, p2, rest)" "dataLen p2 = min maxlen (length bs)"
      "take (dataLen p2) (pbuf p2) = take maxlen bs" "length (pbuf p2) = length buf"
    by (auto simp: same_buffer_def)
  from ParseRb_loop_feed [OF inv p2(1), of c0] p2 show ?thesis
    by (auto simp: PROTO_ParseRb_def PROTO_Init_def)
qed

lemma PROTO_ParseRb_total:
  assumes inv: "rb_inv rb" and buf: "maxlen \<le> length buf"
  shows "\<exists>s buf' l rb'. PROTO_ParseRb rb c0 p0 buf len0 maxlen = Some (s, buf', l, rb') \<and>
    (s = 0 \<or> s = -1) \<and> (s = 0 \<longrightarrow> l \<le> maxlen) \<and> (s = -1 \<longrightarrow> l = len0) \<and> length buf' = length buf \<and>
    rb_inv rb' \<and> rb_size rb' = rb_size rb \<and>
    (0x7F \<notin> set (rb_list rb) \<longrightarrow> s = -1 \<and> rb_list rb' = [])"
proof -
  let ?p = "snd (PROTO_Init p0 False buf maxlen)"
  have ok: "parser_ok ?p" and sz: "bufSize ?p = maxlen" "length (pbuf ?p) = length buf"
    using buf by (auto simp: PROTO_Init_def parser_ok_def)
  from feed_total [OF ok, of "rb_list rb"] sz obtain fnd p' rest where
    f: "feed ?p (rb_list rb) = Some (fnd, p', rest)" "length (pbuf p') = length buf"
      "dataLen p' \<le> maxlen" "0x7F \<notin> set (rb_list rb) \<longrightarrow> \<not> fnd \<and> rest = []" by auto
  from ParseRb_loop_feed [OF inv f(1), of c0] f show ?thesis
    by (cases fnd) (auto simp: PROTO_ParseRb_def PROTO_Init_def)
qed

subsection \<open>Writing frames\<close>

lemma put_all_append:
  "put_all put q (xs @ ys) = do {
     (s, q') \<leftarrow> put_all put q xs;
     if s = -1 then Some (-1, q') else put_all put q' ys
   }"
proof (induction xs arbitrary: q)
  case Nil
  then show ?case by simp
next
  case (Cons x xs)
  then show ?case by (cases "put q x") (auto split: prod.splits)
qed

text \<open>Writing a frame is putting its bytes one by one; only the count returned differs.\<close>

lemma AddRb_loop_put_all:
  "off + len \<le> length packet \<Longrightarrow>
   PROTO_AddRb_loop rb packet off len i = do {
     (s, rb') \<leftarrow> put_all RINGBUF_Put rb (escs (take len (drop off packet)) @ [0x7F]);
     Some (if s = -1 then -1 else to_s16 (int (i + length (escs (take len (drop off packet))))), rb')
   }"
proof (induction len arbitrary: rb off i)
  case 0
  then show ?case by (cases "RINGBUF_Put rb 0x7F") auto
next
  case (Suc len)
  let ?b = "packet ! off"
  let ?t = "take len (drop (Suc off) packet)"
  have IH: "PROTO_AddRb_loop r packet (Suc off) len j = do {
     (s, rb') \<leftarrow> put_all RINGBUF_Put r (escs ?t @ [0x7F]);
     Some (if s = -1 then -1 else to_s16 (int (j + length (escs ?t))), rb')
   }" for r j using Suc.IH [of "Suc off" r j] Suc.prems by simp
  have off: "load packet off = Some ?b" using Suc.prems by (simp add: mem_simps)
  have seg: "take (Suc len) (drop off packet) = ?b # ?t"
    using take_drop_Suc [OF Suc.prems] by simp
  show ?case
  proof (cases "special ?b")
    case True
    show ?thesis
    proof (cases "RINGBUF_Put rb 0x7D")
      case (Some x)
      obtain s1 r1 where x: "x = (s1, r1)" by (cases x)
      with True Some show ?thesis
        by (cases "s1 = -1"; cases "RINGBUF_Put r1 (?b XOR 0x20)")
          (auto simp: IH off seg esc_def cong: if_cong)
    qed (simp add: off seg esc_def True)
  next
    case False
    then show ?thesis
      by (cases "RINGBUF_Put rb ?b") (auto simp: IH off seg esc_def cong: if_cong)
  qed
qed

lemma PROTO_AddRb_put_all:
  assumes "to_u16 len \<le> length packet"
  shows "PROTO_AddRb rb packet len = do {
     (s, rb') \<leftarrow> put_all RINGBUF_Put rb (frame (take (to_u16 len) packet));
     Some (if s = -1 then -1 else to_s16 (int (length (frame (take (to_u16 len) packet)))), rb')
   }"
proof -
  have "PROTO_AddRb_loop r packet 0 (to_u16 len) 2 = do {
     (s, rb') \<leftarrow> put_all RINGBUF_Put r (escs (take (to_u16 len) packet) @ [0x7F]);
     Some (if s = -1 then -1 else to_s16 (int (length (frame (take (to_u16 len) packet)))), rb')
   }" for r
    using AddRb_loop_put_all [of 0 "to_u16 len" packet r 2] assms
    by (simp add: length_frame add.commute cong: if_cong)
  then show ?thesis
    by (cases "RINGBUF_Put rb 0x7E") (auto simp: PROTO_AddRb_def frame_def)
qed

text \<open>The outcome on a ring buffer: all of the frame, or what fits of it and \<open>-1\<close>.\<close>

lemma PROTO_AddRb_spec:
  assumes inv: "rb_inv rb" and len: "to_u16 len \<le> length packet"
  shows "\<exists>s rb'. PROTO_AddRb rb packet len = Some (s, rb') \<and> rb_inv rb' \<and>
    rb_size rb' = rb_size rb \<and> p_r rb' = p_r rb \<and>
    rb_list rb' = take (nat (rb_size rb)) (rb_list rb @ frame (take (to_u16 len) packet)) \<and>
    s = (if length (rb_list rb) + length (frame (take (to_u16 len) packet)) \<le> nat (rb_size rb)
         then to_s16 (int (length (frame (take (to_u16 len) packet)))) else -1)"
proof -
  let ?f = "frame (take (to_u16 len) packet)"
  from rb.put_all_spec [OF inv, of ?f] obtain s rb' where
    p: "put_all RINGBUF_Put rb ?f = Some (s, rb')" "rb_inv rb'"
      "s = 0 \<longleftrightarrow> length (rb_list rb) + length ?f \<le> nat (rb_size rb)" "s = 0 \<or> s = -1"
      "rb_list rb' = take (nat (rb_size rb)) (rb_list rb @ ?f)" by auto
  from RINGBUF_put_all_p_r [OF p(1)] p show ?thesis
    by (auto simp: PROTO_AddRb_put_all [OF len])
qed

lemma take_prefix:
  assumes "take (n + k) xs = take n ys @ zs" and "n \<le> length ys"
  shows "take n xs = take n ys"
proof -
  have "take n (take (n + k) xs) = take n (take n ys @ zs)" using assms(1) by simp
  with assms(2) show ?thesis by simp
qed

text \<open>
  What the loop of \<open>PROTO_Add\<close> leaves in the buffer: a success has written the escaped
  packet and the end marker behind what was there.
\<close>

definition added :: "bytes \<Rightarrow> nat \<Rightarrow> bytes \<Rightarrow> int \<Rightarrow> nat \<Rightarrow> (int \<times> bytes) option \<Rightarrow> bool" where
  "added buf boff seg left i res \<longleftrightarrow>
     (\<exists>buf'. res = Some (if int (length (escs seg)) + 1 \<le> left
                          then to_s16 (int (i + length (escs seg))) else -1, buf') \<and>
       length buf' = length buf \<and> take boff buf' = take boff buf \<and>
       (int (length (escs seg)) + 1 \<le> left \<longrightarrow>
        take (boff + length (escs seg) + 1) buf' = take boff buf @ escs seg @ [0x7F]))"

text \<open>One packet byte: \<open>e\<close> is its escape, written at \<open>boff\<close>.\<close>

lemma added_step:
  assumes a: "added buf1 (boff + length e) seg (left - int (length e)) (i + length e) res"
    and e: "escs (b # seg) = e @ escs seg" "take (boff + length e) buf1 = take boff buf @ e"
    and len: "length buf1 = length buf" "boff \<le> length buf"
  shows "added buf boff (b # seg) left i res"
proof -
  from a obtain buf' where r: "res = Some (if int (length (escs seg)) + 1 \<le> left - int (length e)
      then to_s16 (int (i + length e + length (escs seg))) else -1, buf')"
    and l: "length buf' = length buf1" and p: "take (boff + length e) buf' = take boff buf @ e"
    and w: "int (length (escs seg)) + 1 \<le> left - int (length e) \<longrightarrow>
      take (boff + length e + length (escs seg) + 1) buf' = take boff buf @ e @ escs seg @ [0x7F]"
    unfolding added_def e(2) by auto
  have "take boff buf' = take boff buf" using p len(2) by (rule take_prefix)
  moreover have fits: "(int (length (escs seg)) + 1 \<le> left - int (length e)) =
      (int (length (escs (b # seg))) + 1 \<le> left)" by (simp only: e(1)) auto
  moreover have "boff + length (escs (b # seg)) + 1 = boff + length e + length (escs seg) + 1"
    "i + length (escs (b # seg)) = i + length e + length (escs seg)" by (simp_all only: e(1)) auto
  ultimately show ?thesis
    unfolding added_def using r l w len(1) e(1) by (intro exI [of _ buf']) (simp only: fits, auto)
qed

lemma Add_loop_spec:
  assumes "off + len \<le> length packet" and "boff + nat left \<le> length buf" "0 \<le> left"
  shows "added buf boff (take len (drop off packet)) left i
    (PROTO_Add_loop buf boff packet off left len i)"
  using assms
proof (induction len arbitrary: buf boff off left i)
  case 0
  then show ?case by (auto simp: added_def mem_simps take_Suc_conv_app_nth)
next
  case (Suc len)
  let ?b = "packet ! off" and ?t = "take len (drop (Suc off) packet)"
  have off: "load packet off = Some ?b" using Suc.prems by (simp add: mem_simps)
  have seg: "take (Suc len) (drop off packet) = ?b # ?t"
    using take_drop_Suc [OF Suc.prems(1)] by simp
  show ?case
  proof (cases "int (length (esc ?b)) \<le> left")
    case False
    then have "PROTO_Add_loop buf boff packet off left (Suc len) i = Some (-1, buf)"
      by (auto simp: off esc_def split: if_splits)
    with False show ?thesis unfolding seg by (auto simp: added_def)
  next
    case room: True
    let ?buf = "if special ?b then buf[boff := 0x7D, boff + 1 := ?b XOR 0x20] else buf[boff := ?b]"
    have "take (boff + length (esc ?b)) ?buf = take boff buf @ esc ?b"
      using room Suc.prems by (auto simp: esc_def take_Suc_conv_app_nth split: if_splits)
    moreover have "PROTO_Add_loop buf boff packet off left (Suc len) i =
        PROTO_Add_loop ?buf (boff + length (esc ?b)) packet (Suc off)
          (left - int (length (esc ?b))) len (i + length (esc ?b))"
      using room Suc.prems by (auto simp: off esc_def mem_simps split: if_splits)
    moreover have "added ?buf (boff + length (esc ?b)) ?t (left - int (length (esc ?b)))
        (i + length (esc ?b)) (PROTO_Add_loop ?buf (boff + length (esc ?b)) packet (Suc off)
          (left - int (length (esc ?b))) len (i + length (esc ?b)))"
      using room Suc.prems by (intro Suc.IH) auto
    ultimately show ?thesis
      unfolding seg using Suc.prems by (intro added_step [of ?buf boff "esc ?b"]) auto
  qed
qed

lemma PROTO_Add_fits:
  assumes packet: "2 \<le> length packet" "be16 (packet ! 1) (packet ! 0) \<le> length packet"
    and buf: "bufsz \<le> int (length buf)"
    and fits: "int (length (frame (take (be16 (packet ! 1) (packet ! 0)) packet))) \<le> bufsz"
  shows "\<exists>buf'. PROTO_Add buf packet bufsz =
      Some (to_s16 (int (length (frame (take (be16 (packet ! 1) (packet ! 0)) packet)))), buf') \<and>
    length buf' = length buf \<and>
    take (length (frame (take (be16 (packet ! 1) (packet ! 0)) packet))) buf' =
      frame (take (be16 (packet ! 1) (packet ! 0)) packet)"
proof -
  let ?n = "be16 (packet ! 1) (packet ! 0)"
  let ?s = "take ?n packet"
  from fits buf have b: "1 \<le> bufsz" "0 < length buf" by (auto simp: length_frame)
  have "added (buf[0 := 0x7E]) 1 ?s (bufsz - 1) 2
      (PROTO_Add_loop (buf[0 := 0x7E]) 1 packet 0 (bufsz - 1) ?n 2)"
    using Add_loop_spec [of 0 ?n packet 1 "bufsz - 1" "buf[0 := 0x7E]" 2] packet buf b by simp
  moreover have "PROTO_Add buf packet bufsz =
      PROTO_Add_loop (buf[0 := 0x7E]) 1 packet 0 (bufsz - 1) ?n 2"
    using packet(1) b by (cases packet; cases "tl packet") (auto simp: PROTO_Add_def load_def mem_simps)
  moreover have "take 1 (buf[0 := 0x7E]) = [0x7E]" using b by (cases buf) auto
  ultimately show ?thesis
    using fits by (auto simp: added_def frame_def)
qed

text \<open>\<open>PROTO_Parse\<close> over a buffer that holds one frame is the list parser.\<close>

lemma PROTO_Parse_feed:
  "off + length bs \<le> length buf \<Longrightarrow> take (length bs) (drop off buf) = bs \<Longrightarrow>
   feed p bs = Some (True, p', []) \<Longrightarrow> PROTO_Parse p buf off (length bs) = Some (0, p')"
proof (induction bs arbitrary: p off)
  case Nil
  then show ?case by simp
next
  case (Cons b bs)
  have seg: "b # bs = buf ! off # take (length bs) (drop (Suc off) buf)"
    using Cons.prems take_drop_Suc [of off "length bs" buf] by simp
  from Cons.prems(3) obtain t p1 where p1: "PROTO_ParseByte p b = Some (t, p1)"
    "(if t = 0 then Some (True, p1, bs) else feed p1 bs) = Some (True, p', [])"
    by (auto simp: bind_eq_Some_conv)
  with seg Cons.prems(1) Cons.IH [of "Suc off" p1] show ?case
    by (auto simp: mem_simps split: if_splits)
qed

section \<open>Properties\<close>

text \<open>
  C9: A packet written to the ring with \<open>PROTO_AddRb\<close> is read back by \<open>PROTO_ParseRb\<close>: same
  bytes, same length, and nothing of the frame is left in the ring. Bytes that were already
  pending are skipped, as long as they end no frame; it does not matter what the
  uninitialised parser struct of \<open>PROTO_ParseRb\<close> held.
\<close>

theorem proto_ring_roundtrip:
  assumes "rb_inv rb" and "0x7F \<notin> set (rb_list rb)" and "length packet < 65536"
    and "length (rb_list rb) + length (frame packet) \<le> nat (rb_size rb)"
    and "length packet \<le> maxlen" and "maxlen \<le> length buf"
  shows "\<exists>rb1 buf' rb2.
    PROTO_AddRb rb packet (int (length packet)) = Some (to_s16 (int (length (frame packet))), rb1) \<and>
    PROTO_ParseRb rb1 c0 proto0 buf len0 maxlen = Some (0, buf', length packet, rb2) \<and>
    take (length packet) buf' = packet \<and> rb_list rb2 = []"
proof -
  from PROTO_AddRb_spec [OF assms(1), of "int (length packet)" packet] assms(3,4) obtain rb1 where
    rb1: "PROTO_AddRb rb packet (int (length packet)) = Some (to_s16 (int (length (frame packet))), rb1)"
      "rb_inv rb1" "rb_list rb1 = rb_list rb @ frame packet @ []" by auto
  from PROTO_ParseRb_frame [OF rb1(2) assms(6) rb1(3) assms(2), of c0 proto0 len0] assms(5)
  obtain buf' rb2 where rb2: "PROTO_ParseRb rb1 c0 proto0 buf len0 maxlen =
      Some (0, buf', length packet, rb2)" "take (length packet) buf' = packet" "rb_list rb2 = []"
    by (auto simp: min_absorb2)
  from rb1(1) rb2 show ?thesis by blast
qed

lemma proto_ring_roundtrip_witness:
  "\<exists>rb1 buf' rb2.
    PROTO_AddRb \<lparr>rb_mem = [9, 9, 9, 9, 9, 9], p_r = 4, p_w = 5, fill_cnt = 1, rb_size = 6\<rparr>
      [0x7E, 5] 2 = Some (5, rb1) \<and>
    PROTO_ParseRb rb1 0 \<lparr>pbuf = [], bufSize = 0, dataLen = 3, isEsc = 7, isBegin = 1,
      callback = True, cb_calls = 0\<rparr> [0, 0, 0] 77 3 = Some (0, buf', 2, rb2) \<and>
    take 2 buf' = [0x7E, 5] \<and> rb_list rb2 = []"
proof -
  have f: "length (frame [0x7E, 5]) = 5" by (simp add: frame_def esc_def special_def)
  have l: "length [0x7E, 5 :: u8] = 2" by simp
  show ?thesis
    using proto_ring_roundtrip
      [of "\<lparr>rb_mem = [9, 9, 9, 9, 9, 9], p_r = 4, p_w = 5, fill_cnt = 1, rb_size = 6\<rparr>"
        "[0x7E, 5]" 3 "[0, 0, 0]" 0
        "\<lparr>pbuf = [], bufSize = 0, dataLen = 3, isEsc = 7, isBegin = 1,
          callback = True, cb_calls = 0\<rparr>" 77]
    unfolding f l by (simp add: rb_inv_def rb_list_def)
qed

text \<open>
  The buffer variants agree: a packet whose first two bytes hold its length, little
  endian, is encoded by \<open>PROTO_Add\<close> into a buffer with room for the frame, and \<open>PROTO_Parse\<close>
  over the encoded bytes leaves exactly the packet in the parser's buffer.
\<close>

theorem proto_buffer_roundtrip:
  assumes "2 \<le> length packet" and "be16 (packet ! 1) (packet ! 0) = length packet"
    and "int (length (frame packet)) \<le> bufsz" and "bufsz \<le> 32767" "bufsz \<le> int (length buf)"
    and "length packet \<le> maxlen" and "maxlen \<le> length out"
  shows "\<exists>n buf' p. PROTO_Add buf packet bufsz = Some (int n, buf') \<and>
    PROTO_Parse (snd (PROTO_Init proto0 cb out maxlen)) buf' 0 n = Some (0, p) \<and>
    dataLen p = length packet \<and> take (dataLen p) (pbuf p) = packet"
proof -
  let ?n = "length (frame packet)" and ?p = "snd (PROTO_Init proto0 cb out maxlen)"
  from PROTO_Add_fits [OF assms(1)] assms obtain buf' where
    add: "PROTO_Add buf packet bufsz = Some (to_s16 (int ?n), buf')" "length buf' = length buf"
      "take ?n buf' = frame packet" by auto
  have "parser_ok ?p" "bufSize ?p = maxlen" using assms(7) by (auto simp: PROTO_Init_def parser_ok_def)
  with feed_frame [of ?p packet "[]"] assms(6) obtain p where
    p: "feed ?p (frame packet) = Some (True, p, [])" "dataLen p = length packet"
      "take (dataLen p) (pbuf p) = packet" by (auto simp: min_absorb2)
  have "PROTO_Parse ?p buf' 0 ?n = Some (0, p)"
    using PROTO_Parse_feed [of 0 "frame packet" buf' ?p p] add p(1) assms(3,5) by simp
  with add(1) p assms(3,4) show ?thesis by (intro exI [of _ ?n] exI [of _ buf'] exI [of _ p]) simp
qed

lemma proto_buffer_roundtrip_witness:
  "\<exists>n buf' p. PROTO_Add (replicate 8 0) [3, 0, 0x7D] 8 = Some (int n, buf') \<and>
    PROTO_Parse (snd (PROTO_Init \<lparr>pbuf = [], bufSize = 0, dataLen = 3, isEsc = 7, isBegin = 1,
      callback = True, cb_calls = 0\<rparr> False [1, 1, 1, 1] 4)) buf' 0 n = Some (0, p) \<and>
    dataLen p = 3 \<and> take (dataLen p) (pbuf p) = [3, 0, 0x7D]"
proof -
  have f: "length (frame [3, 0, 0x7D]) = 6" by (simp add: frame_def esc_def special_def)
  have l: "length [3, 0, 0x7D :: u8] = 3" by simp
  show ?thesis
    using proto_buffer_roundtrip [of "[3, 0, 0x7D]" 8 "replicate 8 0" 4 "[1, 1, 1, 1]"
    "\<lparr>pbuf = [], bufSize = 0, dataLen = 3, isEsc = 7, isBegin = 1,
      callback = True, cb_calls = 0\<rparr>" False]
    unfolding f l by (simp add: be16_def)
qed



end
