(* ===== verification/Msg_Queue.thy ===== *)
theory Msg_Queue
  imports Proto
begin

text \<open>
  The message queue of \<open>mqtt/queue.c\<close>: whole MQTT packets, framed by \<open>Proto\<close>, in the ring
  buffer of \<open>Ringbuf\<close>. \<open>msg_queue\<close> is the C struct \<open>QUEUE\<close>; its \<open>buf\<close> field is the block
  the ring buffer owns, so only whether it is null is kept here.
\<close>

section \<open>State and operations\<close>

record msg_queue =
  q_buf :: bool
  q_rb :: ringbuf

text \<open>\<open>blk\<close> is what \<open>os_zalloc(bufferSize)\<close> returned.\<close>

definition QUEUE_Init :: "msg_queue \<Rightarrow> bytes option \<Rightarrow> int \<Rightarrow> msg_queue" where
  "QUEUE_Init q blk bufferSize =
     (let q = q\<lparr>q_buf := blk \<noteq> None\<rparr>
      in case RINGBUF_Init (Some (q_rb q)) blk bufferSize of
           (_, Some r) \<Rightarrow> q\<lparr>q_rb := r\<rparr>
         | (_, None) \<Rightarrow> q)"

text \<open>
  The three globals \<open>last_rb_p_r\<close>, \<open>last_rb_p_w\<close> and \<open>last_fill_cnt\<close> hold the saved state
  within one call only. \<open>len\<close> is a \<open>uint16_t\<close>, converted to the \<open>I16\<close> of \<open>PROTO_AddRb\<close>.
\<close>

definition QUEUE_Puts :: "msg_queue \<Rightarrow> bytes \<Rightarrow> nat \<Rightarrow> (int \<times> msg_queue) option" where
  "QUEUE_Puts q buffer len = do {
     let last_rb_p_r = p_r (q_rb q);
     let last_rb_p_w = p_w (q_rb q);
     let last_fill_cnt = fill_cnt (q_rb q);
     (ret, rb) \<leftarrow> PROTO_AddRb (q_rb q) buffer (to_s16 (int len));
     let q = q\<lparr>q_rb := rb\<rparr>;
     let q = (if ret = -1
              then q\<lparr>q_rb := (q_rb q)\<lparr>p_r := last_rb_p_r, p_w := last_rb_p_w,
                                     fill_cnt := last_fill_cnt\<rparr>\<rparr>
              else q);
     Some (ret, q)
   }"

definition QUEUE_Gets ::
    "msg_queue \<Rightarrow> u8 \<Rightarrow> proto_parser \<Rightarrow> bytes \<Rightarrow> nat \<Rightarrow> nat \<Rightarrow>
     (int \<times> bytes \<times> nat \<times> msg_queue) option" where
  "QUEUE_Gets q c0 proto0 buffer len0 maxLen = do {
     (s, buffer, len, rb) \<leftarrow> PROTO_ParseRb (q_rb q) c0 proto0 buffer len0 maxLen;
     Some (s, buffer, len, q\<lparr>q_rb := rb\<rparr>)
   }"

definition QUEUE_IsEmpty :: "msg_queue \<Rightarrow> bool" where
  "QUEUE_IsEmpty q \<longleftrightarrow> fill_cnt (q_rb q) \<le> 0"

section \<open>Abstraction\<close>

definition frames :: "bytes list \<Rightarrow> bytes" where
  "frames ms = concat (map frame ms)"

text \<open>
  \<open>queue_holds q ms\<close>: the queue is well formed and holds exactly the messages \<open>ms\<close>, oldest
  first. The bound on the size keeps the count that \<open>PROTO_AddRb\<close> returns apart from \<open>-1\<close>.
\<close>

definition queue_holds :: "msg_queue \<Rightarrow> bytes list \<Rightarrow> bool" where
  "queue_holds q ms \<longleftrightarrow> rb_inv (q_rb q) \<and> rb_size (q_rb q) < 65535 \<and> rb_list (q_rb q) = frames ms"

definition queue_size :: "msg_queue \<Rightarrow> nat" where
  "queue_size q = nat (rb_size (q_rb q))"

section \<open>The interface of a bounded queue of messages\<close>

text \<open>Operations on a queue as a client sees them, and on a list of messages.\<close>

datatype msg_op = PutsOp bytes | GetsOp

datatype msg_out = Queued | Rejected | Got bytes | Nothing

fun msg_run ::
    "('q \<Rightarrow> bytes \<Rightarrow> nat \<Rightarrow> (int \<times> 'q) option) \<Rightarrow>
     ('q \<Rightarrow> bytes \<Rightarrow> nat \<Rightarrow> (int \<times> bytes \<times> nat \<times> 'q) option) \<Rightarrow>
     bytes \<Rightarrow> 'q \<Rightarrow> msg_op list \<Rightarrow> (msg_out list \<times> 'q) option" where
  "msg_run puts gets buf q [] = Some ([], q)"
| "msg_run puts gets buf q (PutsOp m # ops) = do {
     (s, q) \<leftarrow> puts q m (length m);
     (out, q) \<leftarrow> msg_run puts gets buf q ops;
     Some ((if s = -1 then Rejected else Queued) # out, q)
   }"
| "msg_run puts gets buf q (GetsOp # ops) = do {
     (s, buf', len, q) \<leftarrow> gets q buf (length buf);
     (out, q) \<leftarrow> msg_run puts gets buf q ops;
     Some ((if s = 0 then Got (take len buf') else Nothing) # out, q)
   }"

fun msg_spec :: "nat \<Rightarrow> bytes list \<Rightarrow> msg_op list \<Rightarrow> msg_out list \<times> bytes list" where
  "msg_spec cap ms [] = ([], ms)"
| "msg_spec cap ms (PutsOp m # ops) =
     (let fits = length (frames ms) + length (frame m) \<le> cap;
          (out, ms') = msg_spec cap (if fits then ms @ [m] else ms) ops
      in ((if fits then Queued else Rejected) # out, ms'))"
| "msg_spec cap ms (GetsOp # ops) =
     (case ms of
        [] \<Rightarrow> (let (out, ms') = msg_spec cap [] ops in (Nothing # out, ms'))
      | m # ms' \<Rightarrow> (let (out, ms'') = msg_spec cap ms' ops in (Got m # out, ms'')))"

text \<open>
  \<open>holds q ms\<close> is the abstraction relation. A put is all or nothing; a get returns the oldest
  message whole when the buffer is long enough.
\<close>

locale message_queue =
  fixes puts :: "'q \<Rightarrow> bytes \<Rightarrow> nat \<Rightarrow> (int \<times> 'q) option"
    and gets :: "'q \<Rightarrow> bytes \<Rightarrow> nat \<Rightarrow> (int \<times> bytes \<times> nat \<times> 'q) option"
    and holds :: "'q \<Rightarrow> bytes list \<Rightarrow> bool"
    and cap :: "'q \<Rightarrow> nat"
  assumes puts_fits: "\<lbrakk>holds q ms; n \<le> length m; n < 65536; m' = take n m;
        length (frames ms) + length (frame m') \<le> cap q\<rbrakk> \<Longrightarrow>
        \<exists>s q'. puts q m n = Some (s, q') \<and> s \<noteq> -1 \<and> holds q' (ms @ [m']) \<and> cap q' = cap q"
    and puts_rejects: "\<lbrakk>holds q ms; n \<le> length m; n < 65536; m' = take n m;
        cap q < length (frames ms) + length (frame m')\<rbrakk> \<Longrightarrow>
        \<exists>q'. puts q m n = Some (-1, q') \<and> holds q' ms \<and> cap q' = cap q"
    and gets_next: "\<lbrakk>holds q (m # ms); n \<le> length buf\<rbrakk> \<Longrightarrow>
        \<exists>buf' q'. gets q buf n = Some (0, buf', min n (length m), q') \<and>
          take (min n (length m)) buf' = take n m \<and> length buf' = length buf \<and>
          holds q' ms \<and> cap q' = cap q"
    and gets_none: "\<lbrakk>holds q []; n \<le> length buf\<rbrakk> \<Longrightarrow>
        \<exists>buf' len q'. gets q buf n = Some (-1, buf', len, q') \<and> length buf' = length buf \<and>
          holds q' [] \<and> cap q' = cap q"
begin

lemma run_refines:
  assumes "holds q ms" and "\<forall>m \<in> set ms. length m \<le> length buf"
    and "\<forall>m. PutsOp m \<in> set ops \<longrightarrow> length m \<le> length buf" and "length buf < 65536"
  shows "\<exists>q'. msg_run puts gets buf q ops = Some (fst (msg_spec (cap q) ms ops), q') \<and>
    holds q' (snd (msg_spec (cap q) ms ops))"
  using assms
proof (induction ops arbitrary: q ms)
  case Nil
  then show ?case by simp
next
  case (Cons op ops)
  show ?case
  proof (cases op)
    case (PutsOp m)
    with Cons.prems have m: "length m < 65536" "length m \<le> length buf" by auto
    show ?thesis
    proof (cases "length (frames ms) + length (frame m) \<le> cap q")
      case True
      with puts_fits [of q ms "length m" m m] m Cons.prems(1) obtain s q1 where
        q1: "puts q m (length m) = Some (s, q1)" "s \<noteq> -1" "holds q1 (ms @ [m])" "cap q1 = cap q"
        by auto
      from Cons.IH [OF q1(3)] Cons.prems m q1 PutsOp True show ?thesis
        by (auto simp: case_prod_beta Let_def)
    next
      case False
      with puts_rejects [of q ms "length m" m m] m Cons.prems(1) obtain q1 where
        q1: "puts q m (length m) = Some (-1, q1)" "holds q1 ms" "cap q1 = cap q" by auto
      from Cons.IH [OF q1(2)] Cons.prems m q1 PutsOp False show ?thesis
        by (auto simp: case_prod_beta Let_def)
    qed
  next
    case GetsOp
    show ?thesis
    proof (cases ms)
      case Nil
      with gets_none [of q "length buf" buf] Cons.prems(1) obtain buf' len q1 where
        q1: "gets q buf (length buf) = Some (-1, buf', len, q1)" "holds q1 []" "cap q1 = cap q"
        by auto
      from Cons.IH [OF q1(2)] Cons.prems q1 GetsOp Nil show ?thesis
        by (auto simp: case_prod_beta Let_def)
    next
      case ms: (Cons m ms')
      with gets_next [of q m ms' "length buf" buf] Cons.prems(1,2) obtain buf' q1 where
        q1: "gets q buf (length buf) = Some (0, buf', length m, q1)" "take (length m) buf' = m"
          "holds q1 ms'" "cap q1 = cap q" by (auto simp: min_absorb2)
      from Cons.IH [OF q1(3)] Cons.prems q1 GetsOp ms show ?thesis
        by (auto simp: case_prod_beta Let_def)
    qed
  qed
qed

end

section \<open>Lemmas\<close>

lemma frames_simps [simp]:
  "frames [] = []" "frames (m # ms) = frame m @ frames ms" "frames (xs @ ys) = frames xs @ frames ys"
  by (simp_all add: frames_def)

lemma frame_not_Nil [simp]: "frame m \<noteq> []"
  by (simp add: frame_def)

lemma frames_Nil_iff [simp]: "frames ms = [] \<longleftrightarrow> ms = []"
  by (cases ms) auto

lemma holds_used: "queue_holds q ms \<Longrightarrow> nat (fill_cnt (q_rb q)) = length (frames ms)"
  using length_rb_list [of "q_rb q"] unfolding queue_holds_def by metis

lemma holds_used_int: "queue_holds q ms \<Longrightarrow> fill_cnt (q_rb q) = int (length (frames ms))"
proof -
  assume q: "queue_holds q ms"
  then have "0 \<le> fill_cnt (q_rb q)" by (simp add: queue_holds_def rb_inv_def)
  with holds_used [OF q] show ?thesis by linarith
qed

lemma holds_bound: "queue_holds q ms \<Longrightarrow> length (frames ms) \<le> queue_size q"
  using rb.content_bound [of "q_rb q"] by (simp add: queue_holds_def queue_size_def)

lemma QUEUE_IsEmpty_holds: "queue_holds q ms \<Longrightarrow> QUEUE_IsEmpty q \<longleftrightarrow> ms = []"
  using holds_used_int [of q ms] by (simp add: QUEUE_IsEmpty_def)

lemma QUEUE_Init_holds:
  "2 \<le> length m \<Longrightarrow> length m < 65535 \<Longrightarrow> queue_holds (QUEUE_Init q (Some m) (int (length m))) [] \<and>
     queue_size (QUEUE_Init q (Some m) (int (length m))) = length m"
  by (auto simp: QUEUE_Init_def RINGBUF_Init_def queue_holds_def queue_size_def rb_inv_def rb_list_def)

text \<open>
  Restoring the write pointer and the count gives back the old contents, although the slots
  behind them have been overwritten.
\<close>

lemma rollback_list:
  assumes inv: "rb_inv r" and inv': "rb_inv r'" and same: "p_r r' = p_r r" "rb_size r' = rb_size r"
    and grown: "rb_list r' = rb_list r @ xs"
  shows "rb_inv (r'\<lparr>p_r := p_r r, p_w := p_w r, fill_cnt := fill_cnt r\<rparr>) \<and>
    rb_list (r'\<lparr>p_r := p_r r, p_w := p_w r, fill_cnt := fill_cnt r\<rparr>) = rb_list r"
proof -
  let ?old = "r'\<lparr>p_r := p_r r, p_w := p_w r, fill_cnt := fill_cnt r\<rparr>"
  have len: "length (rb_mem r') = length (rb_mem r)"
    using inv inv' same by (simp add: rb_inv_def)
  have "length (rb_list r') = length (rb_list r) + length xs" using grown by simp
  then have fill: "nat (fill_cnt r) \<le> nat (fill_cnt r')" by simp
  have "rb_list ?old = take (nat (fill_cnt r)) (rb_list r')"
    using fill same by (simp add: rb_list_def take_map min_absorb1)
  also have "\<dots> = rb_list r" using grown by simp
  finally show ?thesis using inv inv' same len by (simp add: rb_inv_def)
qed

text \<open>A put that fits, and one that does not: the second leaves the messages as they were.\<close>

lemma QUEUE_Puts_fits:
  assumes q: "queue_holds q ms" and n: "n \<le> length m" "n < 65536"
    and fits: "length (frames ms) + length (frame (take n m)) \<le> queue_size q"
  shows "\<exists>s q'. QUEUE_Puts q m n = Some (s, q') \<and> s \<noteq> -1 \<and> queue_holds q' (ms @ [take n m]) \<and>
    queue_size q' = queue_size q \<and> q_buf q' = q_buf q"
proof -
  let ?f = "frame (take n m)"
  from q have inv: "rb_inv (q_rb q)" and size: "rb_size (q_rb q) < 65535"
    and l: "rb_list (q_rb q) = frames ms" by (auto simp: queue_holds_def)
  from PROTO_AddRb_spec [OF inv, of "to_s16 (int n)" m] n fits l obtain rb' where
    rb': "PROTO_AddRb (q_rb q) m (to_s16 (int n)) = Some (to_s16 (int (length ?f)), rb')"
      "rb_inv rb'" "rb_size rb' = rb_size (q_rb q)" "rb_list rb' = frames ms @ ?f"
    by (auto simp: queue_size_def length_rb_list [symmetric] simp del: length_rb_list)
  from fits size have "to_s16 (int (length ?f)) \<noteq> -1"
    by (intro to_s16_not_m1) (auto simp: queue_size_def)
  with rb' size show ?thesis
    by (auto simp: QUEUE_Puts_def queue_holds_def queue_size_def Let_def)
qed

lemma QUEUE_Puts_rejects:
  assumes q: "queue_holds q ms" and n: "n \<le> length m" "n < 65536"
    and full: "queue_size q < length (frames ms) + length (frame (take n m))"
  shows "\<exists>q'. QUEUE_Puts q m n = Some (-1, q') \<and> queue_holds q' ms \<and>
    queue_size q' = queue_size q \<and> q_buf q' = q_buf q"
proof -
  let ?f = "frame (take n m)" and ?c = "queue_size q"
  from q have inv: "rb_inv (q_rb q)" and l: "rb_list (q_rb q) = frames ms"
    by (auto simp: queue_holds_def)
  have used: "length (frames ms) \<le> ?c" using q by (rule holds_bound)
  from PROTO_AddRb_spec [OF inv, of "to_s16 (int n)" m] n full l obtain rb' where
    rb': "PROTO_AddRb (q_rb q) m (to_s16 (int n)) = Some (-1, rb')" "rb_inv rb'"
      "rb_size rb' = rb_size (q_rb q)" "p_r rb' = p_r (q_rb q)"
      "rb_list rb' = rb_list (q_rb q) @ take (?c - length (frames ms)) ?f"
    using used
    by (auto simp: queue_size_def length_rb_list [symmetric] simp del: length_rb_list)
  from rollback_list [OF inv rb'(2) rb'(4) rb'(3) rb'(5)] rb' q show ?thesis
    by (auto simp: QUEUE_Puts_def queue_holds_def queue_size_def Let_def)
qed

lemma QUEUE_Gets_next:
  assumes q: "queue_holds q (m # ms)" and n: "n \<le> length buf"
  shows "\<exists>buf' q'. QUEUE_Gets q c0 p0 buf len0 n = Some (0, buf', min n (length m), q') \<and>
    take (min n (length m)) buf' = take n m \<and> length buf' = length buf \<and>
    queue_holds q' ms \<and> queue_size q' = queue_size q \<and> q_buf q' = q_buf q"
proof -
  from q have inv: "rb_inv (q_rb q)" and l: "rb_list (q_rb q) = [] @ frame m @ frames ms"
    by (auto simp: queue_holds_def)
  from PROTO_ParseRb_frame [OF inv n l, of c0 p0 len0] q show ?thesis
    by (auto simp: QUEUE_Gets_def queue_holds_def queue_size_def)
qed

lemma QUEUE_Gets_none:
  assumes q: "queue_holds q []" and n: "n \<le> length buf"
  shows "\<exists>buf' q'. QUEUE_Gets q c0 p0 buf len0 n = Some (-1, buf', len0, q') \<and>
    length buf' = length buf \<and> queue_holds q' [] \<and> queue_size q' = queue_size q \<and> q_buf q' = q_buf q"
proof -
  from q have inv: "rb_inv (q_rb q)" and l: "rb_list (q_rb q) = []"
    by (auto simp: queue_holds_def simp del: rb_list_Nil_iff)
  from PROTO_ParseRb_total [OF inv n, of c0 p0 len0] q l show ?thesis
    by (auto simp: QUEUE_Gets_def queue_holds_def queue_size_def simp del: rb_list_Nil_iff)
qed

interpretation mq: message_queue QUEUE_Puts "\<lambda>q buf n. QUEUE_Gets q c0 p0 buf len0 n"
  queue_holds queue_size
proof unfold_locales
  fix q ms n m m'
  assume "queue_holds q ms" "n \<le> length m" "n < 65536" "m' = take n m"
    "length (frames ms) + length (frame m') \<le> queue_size q"
  with QUEUE_Puts_fits [of q ms n m] show "\<exists>s q'. QUEUE_Puts q m n = Some (s, q') \<and> s \<noteq> -1 \<and>
      queue_holds q' (ms @ [m']) \<and> queue_size q' = queue_size q" by auto
next
  fix q ms n m m'
  assume "queue_holds q ms" "n \<le> length m" "n < 65536" "m' = take n m"
    "queue_size q < length (frames ms) + length (frame m')"
  with QUEUE_Puts_rejects [of q ms n m] show "\<exists>q'. QUEUE_Puts q m n = Some (-1, q') \<and>
      queue_holds q' ms \<and> queue_size q' = queue_size q" by auto
next
  fix q m ms n buf assume "queue_holds q (m # ms)" "n \<le> length (buf :: bytes)"
  from QUEUE_Gets_next [OF this, of c0 p0 len0] show
    "\<exists>buf' q'. QUEUE_Gets q c0 p0 buf len0 n = Some (0, buf', min n (length m), q') \<and>
       take (min n (length m)) buf' = take n m \<and> length buf' = length buf \<and>
       queue_holds q' ms \<and> queue_size q' = queue_size q" by auto
next
  fix q n buf assume "queue_holds q []" "n \<le> length (buf :: bytes)"
  from QUEUE_Gets_none [OF this, of c0 p0 len0] show
    "\<exists>buf' len q'. QUEUE_Gets q c0 p0 buf len0 n = Some (-1, buf', len, q') \<and>
       length buf' = length buf \<and> queue_holds q' [] \<and> queue_size q' = queue_size q" by blast
qed

section \<open>Properties\<close>

text \<open>
  \<open>QUEUE_Puts\<close> is all or nothing. If the frame does not fit, the call returns -1 and the
  queue holds the messages it held before, whatever part of the frame had already been written
  over free slots; otherwise the message is queued behind them.
\<close>

theorem queue_puts_atomic:
  assumes "queue_holds q ms" and "n \<le> length m" and "n < 65536"
  shows "\<exists>s q'. QUEUE_Puts q m n = Some (s, q') \<and>
    (if length (frames ms) + length (frame (take n m)) \<le> queue_size q
     then s \<noteq> -1 \<and> queue_holds q' (ms @ [take n m]) else s = -1 \<and> queue_holds q' ms)"
  using QUEUE_Puts_fits [OF assms] QUEUE_Puts_rejects [OF assms]
  by (cases "length (frames ms) + length (frame (take n m)) \<le> queue_size q") auto

lemma queue_puts_atomic_witness:
  "\<exists>s q'. QUEUE_Puts (QUEUE_Init \<lparr>q_buf = False, q_rb = \<lparr>rb_mem = [], p_r = 0, p_w = 0,
      fill_cnt = 0, rb_size = 0\<rparr>\<rparr> (Some [0, 0, 0]) 3) [7, 8] 2 = Some (s, q') \<and>
    s = -1 \<and> queue_holds q' []"
proof -
  let ?q = "QUEUE_Init \<lparr>q_buf = False, q_rb = \<lparr>rb_mem = [], p_r = 0, p_w = 0,
      fill_cnt = 0, rb_size = 0\<rparr>\<rparr> (Some [0, 0, 0]) 3"
  have q: "queue_holds ?q []" "queue_size ?q = 3"
    by (simp_all add: QUEUE_Init_def RINGBUF_Init_def queue_holds_def queue_size_def rb_inv_def rb_list_def)
  have "length (frame (take 2 [7, 8])) = 4" by (simp add: frame_def esc_def special_def)
  then show ?thesis using queue_puts_atomic [OF q(1), of 2 "[7, 8]"] q(2) by simp
qed

text \<open>
  C6: The queue refines a list of messages: on a freshly initialised queue, any sequence of
  puts and gets answers, call by call, like a first-in first-out list of whole messages whose
  framed size is bounded by the ring buffer. Framing, escaping, wrap-around and rollback are
  invisible to the client.
\<close>

theorem queue_refines_message_list:
  assumes "2 \<le> length blk" and "length blk < 65535" and "length buf < 65536"
    and "\<forall>m. PutsOp m \<in> set ops \<longrightarrow> length m \<le> length buf"
  shows "\<exists>q'. msg_run QUEUE_Puts (\<lambda>q buf n. QUEUE_Gets q c0 p0 buf len0 n) buf
      (QUEUE_Init q0 (Some blk) (int (length blk))) ops =
    Some (fst (msg_spec (length blk) [] ops), q') \<and>
    queue_holds q' (snd (msg_spec (length blk) [] ops))"
  using QUEUE_Init_holds [OF assms(1,2), of q0]
    mq.run_refines [of "QUEUE_Init q0 (Some blk) (int (length blk))" "[]" buf ops c0 p0 len0]
    assms(3,4) by auto

lemma queue_refines_message_list_witness:
  "\<exists>q'. msg_run QUEUE_Puts (\<lambda>q buf n. QUEUE_Gets q 0
        \<lparr>pbuf = [], bufSize = 0, dataLen = 0, isEsc = 1, isBegin = 1, callback = False, cb_calls = 0\<rparr>
        buf 0 n) [0, 0, 0]
      (QUEUE_Init \<lparr>q_buf = False, q_rb = \<lparr>rb_mem = [], p_r = 0, p_w = 0, fill_cnt = 0, rb_size = 0\<rparr>\<rparr>
        (Some (replicate 7 0)) 7)
      [PutsOp [1], PutsOp [0x7E], PutsOp [2], GetsOp, PutsOp [3], GetsOp] =
    Some ([Queued, Queued, Rejected, Got [1], Queued, Got [0x7E]], q') \<and> queue_holds q' [[3]]"
proof -
  have l: "length (replicate 7 (0 :: u8)) = 7" by simp
  note run = queue_refines_message_list [of "replicate 7 0" "[0, 0, 0]"
      "[PutsOp [1], PutsOp [0x7E], PutsOp [2], GetsOp, PutsOp [3], GetsOp]" 0
      "\<lparr>pbuf = [], bufSize = 0, dataLen = 0, isEsc = 1, isBegin = 1, callback = False, cb_calls = 0\<rparr>" 0
      "\<lparr>q_buf = False, q_rb = \<lparr>rb_mem = [], p_r = 0, p_w = 0, fill_cnt = 0, rb_size = 0\<rparr>\<rparr>",
      unfolded l]
  show ?thesis using run by (simp add: frame_def frames_def esc_def special_def)
qed

end
