(* ===== verification/Net_Utils.thy ===== *)
theory Net_Utils
  imports Esp_Prelude
begin

unbundle bit_operations_syntax

text \<open>
  The address and number parsers of \<open>mqtt/utils.c\<close>. A string is the list of bytes from the
  pointer to the end of its object; a loop that reaches the end of the list has read past the
  object and is \<open>None\<close>.
\<close>

section \<open>Operations\<close>

text \<open>\<open>chr\<close> is an ASCII code; \<open>int8_t\<close> characters are compared through \<open>sint\<close>.\<close>

abbreviation (input) dot :: u8 where "dot \<equiv> 46"
abbreviation (input) digit0 :: u8 where "digit0 \<equiv> 48"

text \<open>
  The loop of \<open>UTILS_IsIPV4\<close>: \<open>segs\<close>, \<open>chcnt\<close> and \<open>accum\<close> are \<open>uint8_t\<close>, and the
  assignment inside the range test has the type of \<open>accum\<close>.
\<close>

fun UTILS_IsIPV4_loop :: "bytes \<Rightarrow> u8 \<Rightarrow> u8 \<Rightarrow> u8 \<Rightarrow> u8 option" where
  "UTILS_IsIPV4_loop [] segs chcnt accum = None"
| "UTILS_IsIPV4_loop (c # str) segs chcnt accum =
     (if c = 0 then
        (if segs \<noteq> 3 then Some 0 else if chcnt = 0 then Some 0 else Some 1)
      else if c = dot then
        (if chcnt = 0 then Some 0
         else if segs + 1 = 4 then Some 0
         else UTILS_IsIPV4_loop str (segs + 1) 0 0)
      else if sint c < 48 \<or> sint c > 57 then Some 0
      else
        (let accum = accum * 10 + c - digit0
         in if unat accum > 255 then Some 0
            else UTILS_IsIPV4_loop str segs (chcnt + 1) accum))"

definition UTILS_IsIPV4 :: "bytes option \<Rightarrow> u8 option" where
  "UTILS_IsIPV4 str = (case str of None \<Rightarrow> Some 0 | Some s \<Rightarrow> UTILS_IsIPV4_loop s 0 0 0)"

text \<open>
  The inner loop of \<open>UTILS_StrToIP\<close> for byte \<open>i\<close>: \<open>Some None\<close> is \<open>return 0\<close>, otherwise the
  number and the string behind its terminator. Accumulating past the range of \<open>int\<close> is
  undefined.
\<close>

fun UTILS_StrToIP_digits :: "nat \<Rightarrow> bytes \<Rightarrow> int \<Rightarrow> (int \<times> bytes) option option" where
  "UTILS_StrToIP_digits i [] n = None"
| "UTILS_StrToIP_digits i (c # start) n =
     (if 48 \<le> unat c \<and> unat c \<le> 57 then
        (let n = n * 10 + int (unat c - 48)
         in if n > 2147483647 then None else UTILS_StrToIP_digits i start n)
      else if i < 3 \<and> c = dot \<or> i = 3 then Some (Some (n, start))
      else Some None)"

text \<open>The outer loop with \<open>k\<close> bytes to go; \<open>ip\<close> is the memory of the out parameter.\<close>

fun UTILS_StrToIP_loop :: "nat \<Rightarrow> bytes \<Rightarrow> bytes \<Rightarrow> (u8 \<times> bytes) option" where
  "UTILS_StrToIP_loop 0 start ip = Some (1, ip)"
| "UTILS_StrToIP_loop (Suc k) start ip =
     (case UTILS_StrToIP_digits (3 - k) start 0 of
        None \<Rightarrow> None
      | Some None \<Rightarrow> Some (0, ip)
      | Some (Some (n, rest)) \<Rightarrow>
          if n \<ge> 256 then Some (0, ip)
          else do {
            ip \<leftarrow> store ip (3 - k) (word_of_int n);
            UTILS_StrToIP_loop k rest ip
          })"

definition UTILS_StrToIP :: "bytes \<Rightarrow> bytes \<Rightarrow> (u8 \<times> bytes) option" where
  "UTILS_StrToIP str ip = UTILS_StrToIP_loop 4 str ip"

fun UTILS_Atoh_loop :: "bytes \<Rightarrow> u32 \<Rightarrow> u32 option" where
  "UTILS_Atoh_loop [] v = None"
| "UTILS_Atoh_loop (c # s) v =
     (if c = 0 then Some v
      else if 48 \<le> sint c \<and> sint c \<le> 57 then
        UTILS_Atoh_loop s (push_bit 4 v OR word_of_int (sint c - 48))
      else if 65 \<le> sint c \<and> sint c \<le> 70 then
        UTILS_Atoh_loop s (push_bit 4 v OR word_of_int (sint c - 65 + 10))
      else if 97 \<le> sint c \<and> sint c \<le> 102 then
        UTILS_Atoh_loop s (push_bit 4 v OR word_of_int (sint c - 97 + 10))
      else Some v)"

definition UTILS_Atoh :: "bytes \<Rightarrow> u32 option" where
  "UTILS_Atoh s = UTILS_Atoh_loop s 0"

section \<open>Specifications\<close>

text \<open>Decimal digits of a byte and the dotted form of an address.\<close>

definition dec_digit :: "nat \<Rightarrow> u8" where
  "dec_digit d = of_nat (48 + d)"

definition dec_byte :: "nat \<Rightarrow> bytes" where
  "dec_byte n =
     (if n < 10 then [dec_digit n]
      else if n < 100 then [dec_digit (n div 10), dec_digit (n mod 10)]
      else [dec_digit (n div 100), dec_digit (n div 10 mod 10), dec_digit (n mod 10)])"

definition dotted :: "u8 \<Rightarrow> u8 \<Rightarrow> u8 \<Rightarrow> u8 \<Rightarrow> bytes" where
  "dotted a b c d = dec_byte (unat a) @ dot # dec_byte (unat b) @ dot # dec_byte (unat c) @
     dot # dec_byte (unat d)"

definition is_digit :: "u8 \<Rightarrow> bool" where
  "is_digit c \<longleftrightarrow> 48 \<le> unat c \<and> unat c \<le> 57"

text \<open>The value of a decimal numeral, and of a hexadecimal digit.\<close>

definition dec_value :: "bytes \<Rightarrow> int" where
  "dec_value ds = foldl (\<lambda>n c. n * 10 + int (unat c - 48)) 0 ds"

definition hex_value :: "u8 \<Rightarrow> nat option" where
  "hex_value c =
     (let x = unat c in
      if 48 \<le> x \<and> x \<le> 57 then Some (x - 48)
      else if 65 \<le> x \<and> x \<le> 70 then Some (x - 55)
      else if 97 \<le> x \<and> x \<le> 102 then Some (x - 87) else None)"

section \<open>Lemmas\<close>

lemma unat_dec_digit [simp]: "d < 10 \<Longrightarrow> unat (dec_digit d) = 48 + d"
  unfolding dec_digit_def unat_of_nat by simp

text \<open>Characters below 128 read the same signed and unsigned, the others are negative.\<close>

lemma sint_unat_small: "unat (c :: u8) < 128 \<Longrightarrow> sint c = int (unat c)"
proof -
  assume "unat c < 128"
  moreover have "uint c = int (unat c)" by simp
  ultimately have "uint c < 128" and "- 128 \<le> uint c" by linarith+
  then show ?thesis using signed_take_bit_int_eq_self [of 7 "uint c"] by (simp add: sint_uint)
qed

lemma sint_neg_large: "128 \<le> unat (c :: u8) \<Longrightarrow> sint c < 0"
proof -
  assume "128 \<le> unat c"
  moreover have "uint c = int (unat c)" by simp
  ultimately have "128 \<le> uint c" by linarith
  moreover have "uint c < 256" using uint_lt2p [of c] by simp
  moreover have "(uint c + 128) mod 256 = (uint c - 128) mod 256"
    using mod_add_self2 [of "uint c - 128" 256] by (simp add: add.commute)
  ultimately have "signed_take_bit 7 (uint c) = uint c - 256"
    by (simp add: signed_take_bit_eq_take_bit_shift take_bit_eq_mod)
  then show ?thesis using \<open>uint c < 256\<close> by (simp add: sint_uint)
qed

lemma sint_range_iff:
  assumes "0 \<le> l" and "h < 128"
  shows "(l \<le> sint (c :: u8) \<and> sint c \<le> h) = (l \<le> int (unat c) \<and> int (unat c) \<le> h)"
  using sint_unat_small [of c] sint_neg_large [of c] assms
  by (cases "unat c < 128") (auto simp del: of_nat_unat)

lemma signed_digit_iff: "(sint c < 48 \<or> sint c > 57) = (\<not> is_digit (c :: u8))"
proof -
  have "(sint c < 48 \<or> sint c > 57) = (\<not> (48 \<le> sint c \<and> sint c \<le> 57))" by auto
  also have "\<dots> = (\<not> (48 \<le> int (unat c) \<and> int (unat c) \<le> 57))"
    using sint_range_iff [of 48 57 c] by (simp del: of_nat_unat)
  also have "\<dots> = (\<not> is_digit c)" unfolding is_digit_def by linarith
  finally show ?thesis .
qed

lemma is_digit_dec_digit [simp]: "d < 10 \<Longrightarrow> is_digit (dec_digit d)"
  by (simp add: is_digit_def)

lemma dec_byte_digits: "n < 256 \<Longrightarrow> \<forall>c \<in> set (dec_byte n). is_digit c"
  by (auto simp: dec_byte_def)

lemma dec_byte_nonempty: "dec_byte n \<noteq> [] \<and> length (dec_byte n) \<le> 3"
  by (simp add: dec_byte_def)

lemma dec_value_dec_byte: "n < 256 \<Longrightarrow> dec_value (dec_byte n) = int n"
proof -
  assume n: "n < 256"
  have d2: "int (n div 10) * 10 + int (n mod 10) = int n"
    using div_mult_mod_eq [of n 10] by linarith
  have d3: "int (n div 100) * 10 + int (n div 10 mod 10) = int (n div 10)"
    using div_mult_mod_eq [of "n div 10" 10] by (simp add: div_mult2_eq [symmetric])
  have u: "unat (dec_digit k) - 48 = k" if "k < 10" for k using that by simp
  consider "n < 10" | "10 \<le> n" "n < 100" | "100 \<le> n" by linarith
  then show ?thesis
  proof cases
    case 1
    then show ?thesis by (simp add: dec_value_def dec_byte_def)
  next
    case 2
    then have "n div 10 < 10" by linarith
    with 2 show ?thesis
      unfolding dec_value_def dec_byte_def using d2 by (simp add: u del: unat_dec_digit)
  next
    case 3
    have "n div 100 < 10" using n by linarith
    then have "dec_value (dec_byte n) =
        (int (n div 100) * 10 + int (n div 10 mod 10)) * 10 + int (n mod 10)"
      using 3 by (simp add: dec_value_def dec_byte_def u del: unat_dec_digit)
    then show ?thesis using d2 d3 by simp
  qed
qed

lemma dec_value_snoc: "dec_value (ds @ [c]) = dec_value ds * 10 + int (unat c - 48)"
  by (simp add: dec_value_def)

subsection \<open>Parsing an address\<close>

lemma digit_not_terminator: "is_digit c \<Longrightarrow> c \<noteq> 0 \<and> c \<noteq> dot"
  by (auto simp: is_digit_def)

text \<open>Reading a numeral of value at most \<open>2\<^sup>31 - 1\<close> before a character that ends it.\<close>

lemma foldl_digits_mono:
  "0 \<le> n \<Longrightarrow> n \<le> foldl (\<lambda>n c. n * 10 + int (unat (c :: u8) - 48)) n ds"
proof (induction ds arbitrary: n)
  case (Cons d ds)
  then have "n \<le> n * 10 + int (unat d - 48)" by linarith
  also have "\<dots> \<le> foldl (\<lambda>n c. n * 10 + int (unat c - 48)) (n * 10 + int (unat d - 48)) ds"
    using Cons.prems by (intro Cons.IH) simp
  finally show ?case by simp
qed simp

lemma StrToIP_digits_numeral:
  assumes "\<forall>c \<in> set ds. is_digit c" and "0 \<le> n"
    and "foldl (\<lambda>n c. n * 10 + int (unat c - 48)) n ds \<le> 2147483647"
    and "\<not> is_digit t" and "i < 3 \<and> t = dot \<or> i = 3"
  shows "UTILS_StrToIP_digits i (ds @ t # rest) n =
    Some (Some (foldl (\<lambda>n c. n * 10 + int (unat c - 48)) n ds, rest))"
  using assms
proof (induction ds arbitrary: n)
  case Nil
  then show ?case by (auto simp: is_digit_def)
next
  case (Cons d ds)
  let ?n = "n * 10 + int (unat d - 48)"
  have d: "48 \<le> unat d" "unat d \<le> 57" using Cons.prems(1) by (auto simp: is_digit_def)
  have n: "0 \<le> ?n" using Cons.prems(2) by simp
  have "?n \<le> 2147483647" using foldl_digits_mono [OF n, of ds] Cons.prems(3) by simp
  then show ?case using Cons.IH [OF _ n] Cons.prems d by (simp add: Let_def)
qed

lemma StrToIP_step:
  assumes "\<forall>c \<in> set ds. is_digit c" and "dec_value ds \<le> 2147483647"
    and "\<not> is_digit t" and "3 - k < 3 \<and> t = dot \<or> 3 - k = 3" and "3 - k < length ip"
  shows "UTILS_StrToIP_loop (Suc k) (ds @ t # rest) ip =
    (if dec_value ds \<ge> 256 then Some (0, ip)
     else UTILS_StrToIP_loop k rest (ip[3 - k := word_of_int (dec_value ds)]))"
  using StrToIP_digits_numeral [of ds 0 t "3 - k" rest] assms
  by (simp add: dec_value_def mem_simps)

subsection \<open>The syntax check\<close>

lemma IsIPV4_digits:
  assumes "\<forall>c \<in> set ds. is_digit c"
  shows "\<exists>a'. UTILS_IsIPV4_loop (ds @ rest) segs chcnt a =
    UTILS_IsIPV4_loop rest segs (chcnt + of_nat (length ds)) a'"
  using assms
proof (induction ds arbitrary: chcnt a)
  case Nil
  show ?case by (rule exI [of _ a]) simp
next
  case (Cons d ds)
  from Cons.prems have d: "\<not> (sint d < 48 \<or> sint d > 57)" "d \<noteq> 0" "d \<noteq> dot"
    by (simp_all only: signed_digit_iff) (auto dest: digit_not_terminator)
  have "\<not> unat (a * 10 + d - digit0) > 255"
    using unat_u8_less [of "a * 10 + d - digit0"] by linarith
  with d have "UTILS_IsIPV4_loop ((d # ds) @ rest) segs chcnt a =
      UTILS_IsIPV4_loop (ds @ rest) segs (chcnt + 1) (a * 10 + d - digit0)"
    by (simp add: Let_def)
  with Cons.IH [of "chcnt + 1"] Cons.prems show ?case by (simp add: ac_simps)
qed

text \<open>A non-empty group of fewer than 256 digits, followed by a dot, starts the next segment.\<close>

lemma count_nonzero: "ds \<noteq> [] \<Longrightarrow> length ds < 256 \<Longrightarrow> (of_nat (length ds) :: u8) \<noteq> 0"
  unfolding word_of_nat_eq_0_iff by (auto dest: dvd_imp_le)

lemma IsIPV4_group:
  assumes "\<forall>c \<in> set ds. is_digit c" and "ds \<noteq> []" and "length ds < 256" and "segs + 1 \<noteq> 4"
  shows "UTILS_IsIPV4_loop (ds @ dot # rest) segs 0 a = UTILS_IsIPV4_loop rest (segs + 1) 0 0"
proof -
  obtain a' where "UTILS_IsIPV4_loop (ds @ dot # rest) segs 0 a =
      UTILS_IsIPV4_loop (dot # rest) segs (of_nat (length ds)) a'"
    using IsIPV4_digits [OF assms(1), of "dot # rest" segs 0 a] by auto
  with count_nonzero [OF assms(2,3)] assms(4) show ?thesis by simp
qed

lemma IsIPV4_last_group:
  assumes "\<forall>c \<in> set ds. is_digit c" and "ds \<noteq> []" and "length ds < 256"
  shows "UTILS_IsIPV4_loop (ds @ 0 # rest) 3 0 a = Some 1"
proof -
  obtain a' where "UTILS_IsIPV4_loop (ds @ 0 # rest) 3 0 a =
      UTILS_IsIPV4_loop (0 # rest) 3 (of_nat (length ds)) a'"
    using IsIPV4_digits [OF assms(1), of "0 # rest" 3 0 a] by auto
  with count_nonzero [OF assms(2,3)] show ?thesis by simp
qed

text \<open>What the two parsers make of four numerals joined by dots.\<close>

definition numerals4 :: "bytes \<Rightarrow> bytes \<Rightarrow> bytes \<Rightarrow> bytes \<Rightarrow> bytes" where
  "numerals4 a b c d = a @ dot # b @ dot # c @ dot # d"

lemma IsIPV4_numerals4:
  assumes "\<forall>ds \<in> {a, b, c, d}. ds \<noteq> [] \<and> length ds < 256 \<and> (\<forall>x \<in> set ds. is_digit x)"
  shows "UTILS_IsIPV4 (Some (numerals4 a b c d @ 0 # rest)) = Some 1"
  using assms unfolding UTILS_IsIPV4_def numerals4_def
  by (simp add: IsIPV4_group IsIPV4_last_group)

lemma not_digit_ends [simp]: "\<not> is_digit dot" "\<not> is_digit 0"
  by (simp_all add: is_digit_def)

lemma StrToIP_numerals4:
  assumes "\<forall>ds \<in> {a, b, c, d}. (\<forall>x \<in> set ds. is_digit x) \<and> dec_value ds < 256"
    and "length ip = 4"
  shows "UTILS_StrToIP (numerals4 a b c d @ 0 # rest) ip =
    Some (1, map (\<lambda>ds. word_of_int (dec_value ds)) [a, b, c, d])"
proof -
  obtain w x y z where ip: "ip = [w, x, y, z]"
    using assms(2) by (auto simp: numeral_eq_Suc length_Suc_conv)
  have step: "UTILS_StrToIP_loop (Suc k) (ds @ t # rest) m =
      UTILS_StrToIP_loop k rest (m[3 - k := word_of_int (dec_value ds)])"
    if "ds \<in> {a, b, c, d}" "length m = 4" "t = dot \<and> 0 < k \<or> k = 0 \<and> \<not> is_digit t"
    for ds k t rest m
    using StrToIP_step [of ds t k m rest] that assms(1) by auto
  have "UTILS_StrToIP (numerals4 a b c d @ 0 # rest) ip =
      UTILS_StrToIP_loop (Suc 3) (a @ dot # b @ dot # c @ dot # d @ 0 # rest) ip"
    unfolding UTILS_StrToIP_def numerals4_def by simp
  also have "\<dots> = UTILS_StrToIP_loop (Suc 2) (b @ dot # c @ dot # d @ 0 # rest)
      [word_of_int (dec_value a), x, y, z]"
    by (subst step) (simp_all add: ip eval_nat_numeral)
  also have "\<dots> = UTILS_StrToIP_loop (Suc 1) (c @ dot # d @ 0 # rest)
      [word_of_int (dec_value a), word_of_int (dec_value b), y, z]"
    by (subst step) (simp_all add: eval_nat_numeral)
  also have "\<dots> = UTILS_StrToIP_loop (Suc 0) (d @ 0 # rest)
      [word_of_int (dec_value a), word_of_int (dec_value b), word_of_int (dec_value c), z]"
    by (subst step) (simp_all add: eval_nat_numeral)
  also have "\<dots> = Some (1, map (\<lambda>ds. word_of_int (dec_value ds)) [a, b, c, d])"
    by (subst step) (simp_all add: eval_nat_numeral)
  finally show ?thesis .
qed

text \<open>The first numeral above 255 makes \<open>UTILS_StrToIP\<close> return 0.\<close>

lemma StrToIP_loop_rejects:
  assumes "length gs = k" and "\<forall>ds \<in> set gs. (\<forall>x \<in> set ds. is_digit x) \<and> dec_value ds < 2147483648"
    and "\<exists>ds \<in> set gs. dec_value ds \<ge> 256" and "length ip = 4" and "k \<le> 4"
  shows "\<exists>ip'. UTILS_StrToIP_loop k (concat (map (\<lambda>ds. ds @ [dot]) (butlast gs)) @ last gs @ 0 # rest) ip
    = Some (0, ip')"
  using assms
proof (induction gs arbitrary: k ip)
  case (Cons ds gs)
  then obtain k' where k: "k = Suc k'" "length gs = k'" by auto
  have ds: "\<forall>x \<in> set ds. is_digit x" "dec_value ds \<le> 2147483647" using Cons.prems(2) by auto
  show ?case
  proof (cases "gs = []")
    case True
    then show ?thesis
      using StrToIP_step [OF ds, of 0 0 ip rest] Cons.prems k by auto
  next
    case False
    with k have k': "3 - k' < 3" by auto
    let ?tl = "concat (map (\<lambda>ds. ds @ [dot]) (butlast gs)) @ last gs @ 0 # rest"
    have "UTILS_StrToIP_loop k (ds @ dot # ?tl) ip = (if dec_value ds \<ge> 256 then Some (0, ip)
        else UTILS_StrToIP_loop k' ?tl (ip[3 - k' := word_of_int (dec_value ds)]))"
      unfolding k(1) using StrToIP_step [OF ds, of dot k' ip ?tl] k' Cons.prems(4) by simp
    with Cons.IH [OF k(2), of "ip[3 - k' := word_of_int (dec_value ds)]"] Cons.prems k False
    show ?thesis by auto
  qed
qed simp

lemma StrToIP_numerals4_rejects:
  assumes "\<forall>ds \<in> {a, b, c, d}. (\<forall>x \<in> set ds. is_digit x) \<and> dec_value ds < 2147483648"
    and "\<exists>ds \<in> {a, b, c, d}. dec_value ds \<ge> 256" and "length ip = 4"
  shows "map_option fst (UTILS_StrToIP (numerals4 a b c d @ 0 # rest) ip) = Some 0"
  using StrToIP_loop_rejects [of "[a, b, c, d]" 4 ip rest] assms
  by (auto simp: UTILS_StrToIP_def numerals4_def)

subsection \<open>Hexadecimal\<close>

lemma hex_value_less: "hex_value c = Some v \<Longrightarrow> v < 16"
  by (auto simp: hex_value_def Let_def split: if_splits)

lemma or_hex_digit: "v < 16 \<Longrightarrow> push_bit 4 (x :: u32) OR of_nat v = x * 16 + of_nat v"
proof -
  assume v: "v < 16"
  have "push_bit 4 x AND of_nat v = 0"
  proof (rule bit_eqI)
    fix n
    have "\<not> bit v n" if "4 \<le> n"
      using v that power_increasing [of 4 n "2 :: nat"] by (simp add: bit_iff_odd)
    then show "bit (push_bit 4 x AND of_nat v) n = bit (0 :: u32) n"
      by (auto simp: bit_and_iff bit_push_bit_iff bit_of_nat_iff)
  qed
  then have "push_bit 4 x OR of_nat v = push_bit 4 x + of_nat v"
    by (rule disjunctive_add_eq_or [symmetric])
  then show ?thesis by (simp add: push_bit_eq_mult)
qed

lemma Atoh_digit:
  assumes "hex_value c = Some v"
  shows "UTILS_Atoh_loop (c # s) x = UTILS_Atoh_loop s (x * 16 + of_nat v)"
proof -
  have small: "unat c < 128" "c \<noteq> 0" and "sint c = int (unat c)"
    using assms sint_unat_small [of c] by (auto simp: hex_value_def Let_def split: if_splits)
  then show ?thesis
    using assms or_hex_digit [OF hex_value_less [OF assms], of x]
    by (auto simp: hex_value_def Let_def of_nat_diff simp del: of_nat_unat split: if_splits)
qed

text \<open>The value of a hexadecimal numeral, most significant digit first.\<close>

definition hex_numeral :: "nat list \<Rightarrow> nat" where
  "hex_numeral vs = foldl (\<lambda>x v. x * 16 + v) 0 vs"

lemma Atoh_digits:
  assumes "map hex_value ds = map Some vs" and "hex_value t = None"
  shows "UTILS_Atoh_loop (ds @ t # rest) (of_nat x) =
    Some (of_nat (foldl (\<lambda>x v. x * 16 + v) x vs))"
  using assms(1)
proof (induction ds arbitrary: x vs)
  case Nil
  have "\<not> (48 \<le> unat t \<and> unat t \<le> 57)" "\<not> (65 \<le> unat t \<and> unat t \<le> 70)"
      "\<not> (97 \<le> unat t \<and> unat t \<le> 102)"
    using assms(2) by (simp_all add: hex_value_def Let_def split: if_splits)
  then have "\<not> (48 \<le> sint t \<and> sint t \<le> 57)" "\<not> (65 \<le> sint t \<and> sint t \<le> 70)"
      "\<not> (97 \<le> sint t \<and> sint t \<le> 102)"
    using sint_range_iff [of 48 57 t] sint_range_iff [of 65 70 t] sint_range_iff [of 97 102 t]
    by (simp_all del: of_nat_unat)
  then have "UTILS_Atoh_loop (t # rest) (of_nat x) = Some (of_nat x)"
    by (simp only: UTILS_Atoh_loop.simps if_False split: if_split) simp
  with Nil show ?case by simp
next
  case (Cons d ds)
  then obtain v vs' where v: "vs = v # vs'" "hex_value d = Some v" "map hex_value ds = map Some vs'"
    by auto
  have "(of_nat x * 16 + of_nat v :: u32) = of_nat (x * 16 + v)" by simp
  with Cons.IH [OF v(3), of "x * 16 + v"] v show ?case
    by (simp add: Atoh_digit del: of_nat_add of_nat_mult UTILS_Atoh_loop.simps)
qed

section \<open>Properties\<close>

text \<open>
  \<open>UTILS_StrToIP\<close> reads back every address: for all four octets, parsing the dotted
  decimal text of the address (however the object continues behind the terminator) returns 1
  and leaves exactly the four octets in the out parameter; and \<open>UTILS_IsIPV4\<close> accepts that text.
\<close>

theorem address_roundtrip:
  assumes "length ip = 4"
  shows "UTILS_StrToIP (dotted a b c d @ 0 # rest) ip = Some (1, [a, b, c, d]) \<and>
    UTILS_IsIPV4 (Some (dotted a b c d @ 0 # rest)) = Some 1"
proof -
  have dot: "dotted a b c d = numerals4 (dec_byte (unat a)) (dec_byte (unat b))
      (dec_byte (unat c)) (dec_byte (unat d))"
    by (simp add: dotted_def numerals4_def)
  have digs: "\<forall>x \<in> set (dec_byte (unat o')). is_digit x" for o' :: u8
    by (rule dec_byte_digits) (rule unat_u8_less)
  have val: "dec_value (dec_byte (unat o')) = uint o'" for o' :: u8
    using dec_value_dec_byte [OF unat_u8_less] by simp
  have lt: "uint o' < 256" for o' :: u8 using uint_lt2p [of o'] by simp
  have len: "dec_byte n \<noteq> []" "length (dec_byte n) < 256" for n
    using dec_byte_nonempty [of n] by linarith+
  have "UTILS_StrToIP (dotted a b c d @ 0 # rest) ip = Some (1, [a, b, c, d])"
    unfolding dot by (subst StrToIP_numerals4) (use digs val lt assms in \<open>force | simp\<close>)+
  moreover have "UTILS_IsIPV4 (Some (dotted a b c d @ 0 # rest)) = Some 1"
    unfolding dot by (rule IsIPV4_numerals4) (intro ballI, use digs len in \<open>auto 0 0\<close>)
  ultimately show ?thesis ..
qed

lemma address_roundtrip_witness:
  "UTILS_StrToIP (dotted 192 168 0 1 @ 0 # [7]) [0, 0, 0, 0] = Some (1, [192, 168, 0, 1]) \<and>
   UTILS_IsIPV4 (Some (dotted 192 168 0 1 @ 0 # [7])) = Some 1"
  by (rule address_roundtrip) simp

text \<open>
  the two parsers disagree on octets above 255. Four non-empty groups of decimal digits
  joined by dots (each shorter than 256 digits) are accepted by \<open>UTILS_IsIPV4\<close> whatever their
  values, because its range test compares an \<open>uint8_t\<close> with 255, while \<open>UTILS_StrToIP\<close>
  returns 1 exactly when every group is at most 255 (for groups that fit an \<open>int\<close>).
\<close>

theorem address_range_check:
  assumes "\<forall>ds \<in> {a, b, c, d}. ds \<noteq> [] \<and> length ds < 256 \<and>
      (\<forall>x \<in> set ds. is_digit x) \<and> dec_value ds < 2147483648"
    and "length ip = 4"
  shows "UTILS_IsIPV4 (Some (numerals4 a b c d @ 0 # rest)) = Some 1 \<and>
    map_option fst (UTILS_StrToIP (numerals4 a b c d @ 0 # rest) ip) =
      Some (if \<forall>ds \<in> {a, b, c, d}. dec_value ds < 256 then 1 else 0)"
proof (cases "\<forall>ds \<in> {a, b, c, d}. dec_value ds < 256")
  case True
  with assms StrToIP_numerals4 [of a b c d ip rest] IsIPV4_numerals4 [of a b c d rest]
  show ?thesis by simp
next
  case False
  then have "\<exists>ds \<in> {a, b, c, d}. dec_value ds \<ge> 256" by (meson not_less)
  with assms have "map_option fst (UTILS_StrToIP (numerals4 a b c d @ 0 # rest) ip) = Some 0"
    by (intro StrToIP_numerals4_rejects) blast+
  with False assms IsIPV4_numerals4 [of a b c d rest] show ?thesis by (simp del: map_option_eq_Some)
qed

text \<open>The text \<open>999.0.0.1\<close>.\<close>

lemma address_range_check_witness:
  "UTILS_IsIPV4 (Some (numerals4 [57, 57, 57] [48] [48] [49] @ [0])) = Some 1 \<and>
   map_option fst (UTILS_StrToIP (numerals4 [57, 57, 57] [48] [48] [49] @ [0]) [0, 0, 0, 0]) = Some 0"
  using address_range_check [of "[57, 57, 57]" "[48]" "[48]" "[49]" "[0, 0, 0, 0]" "[]"]
  by (simp add: is_digit_def dec_value_def)

text \<open>
  \<open>UTILS_Atoh\<close> computes the value of the longest prefix of hexadecimal digits (either
  case), modulo \<open>2\<^sup>3\<^sup>2\<close>, and reads nothing behind the first character that is no digit.
\<close>

theorem atoh_value:
  assumes "map hex_value ds = map Some vs" and "hex_value t = None"
  shows "map_option unat (UTILS_Atoh (ds @ t # rest)) = Some (hex_numeral vs mod 2 ^ 32)"
  using Atoh_digits [OF assms, of rest 0]
  by (simp add: UTILS_Atoh_def hex_numeral_def unat_of_nat)

text \<open>The text \<open>1fA\<close>.\<close>

lemma atoh_value_witness:
  "map_option unat (UTILS_Atoh ([49, 102, 65] @ 0 # [])) = Some 506"
  using atoh_value [of "[49, 102, 65]" "[1, 15, 10]" 0 "[]"]
  by (simp add: hex_value_def hex_numeral_def)

end
