(* ===== verification/Mqtt_Msg.thy ===== *)
theory Mqtt_Msg
  imports Esp_Prelude
begin

unbundle bit_operations_syntax

text \<open>
  Building and decoding MQTT packets: \<open>mqtt/mqtt_msg.c\<close> and \<open>mqtt/include/mqtt_msg.h\<close>.

  A connection owns the output buffer and the one message under construction. The builders
  reserve three bytes for the fixed header, append the variable header and the payload, and
  \<open>fini_message\<close> writes the fixed header in front of them, starting the message at offset 0
  or 1. The decoders read a received packet from its first byte.

  A \<open>char *\<close> argument is \<open>bytes option\<close>, \<open>None\<close> being \<open>NULL\<close>; the list runs from the pointer to
  the end of its object. An offset into the output buffer stands for the pointer
  \<open>message.data\<close>. All builders return \<open>&connection->message\<close>, which is the updated
  connection here.
\<close>

section \<open>Data\<close>

datatype mqtt_message_type =
    MQTT_MSG_TYPE_CONNECT | MQTT_MSG_TYPE_CONNACK | MQTT_MSG_TYPE_PUBLISH | MQTT_MSG_TYPE_PUBACK
  | MQTT_MSG_TYPE_PUBREC | MQTT_MSG_TYPE_PUBREL | MQTT_MSG_TYPE_PUBCOMP | MQTT_MSG_TYPE_SUBSCRIBE
  | MQTT_MSG_TYPE_SUBACK | MQTT_MSG_TYPE_UNSUBSCRIBE | MQTT_MSG_TYPE_UNSUBACK
  | MQTT_MSG_TYPE_PINGREQ | MQTT_MSG_TYPE_PINGRESP | MQTT_MSG_TYPE_DISCONNECT

fun type_code :: "mqtt_message_type \<Rightarrow> nat" where
  "type_code MQTT_MSG_TYPE_CONNECT = 1"
| "type_code MQTT_MSG_TYPE_CONNACK = 2"
| "type_code MQTT_MSG_TYPE_PUBLISH = 3"
| "type_code MQTT_MSG_TYPE_PUBACK = 4"
| "type_code MQTT_MSG_TYPE_PUBREC = 5"
| "type_code MQTT_MSG_TYPE_PUBREL = 6"
| "type_code MQTT_MSG_TYPE_PUBCOMP = 7"
| "type_code MQTT_MSG_TYPE_SUBSCRIBE = 8"
| "type_code MQTT_MSG_TYPE_SUBACK = 9"
| "type_code MQTT_MSG_TYPE_UNSUBSCRIBE = 10"
| "type_code MQTT_MSG_TYPE_UNSUBACK = 11"
| "type_code MQTT_MSG_TYPE_PINGREQ = 12"
| "type_code MQTT_MSG_TYPE_PINGRESP = 13"
| "type_code MQTT_MSG_TYPE_DISCONNECT = 14"

text \<open>
  \<open>mqtt_connection_t\<close>; \<open>msg_data\<close> and \<open>msg_length\<close> are the members of its \<open>message\<close>.
  Both lengths are \<open>uint16_t\<close>.
\<close>

record mqtt_connection =
  msg_data :: "nat option"
  msg_length :: nat
  message_id :: u16
  buffer :: bytes
  buffer_length :: nat

record mqtt_connect_info =
  client_id :: "bytes option"
  username :: "bytes option"
  password :: "bytes option"
  will_topic :: "bytes option"
  will_message :: "bytes option"
  keepalive :: u32
  will_qos :: int
  will_retain :: int
  clean_session :: int

text \<open>The two protocol versions the build selects between.\<close>

datatype protocol_name = PROTOCOL_NAMEv31 | PROTOCOL_NAMEv311

section \<open>Building\<close>

definition MQTT_MAX_FIXED_HEADER_SIZE :: nat where
  "MQTT_MAX_FIXED_HEADER_SIZE = 3"

text \<open>\<open>connection->buffer[connection->message.length++] = x\<close>\<close>

definition put_byte :: "mqtt_connection \<Rightarrow> u8 \<Rightarrow> mqtt_connection option" where
  "put_byte c x = do {
     b \<leftarrow> store (buffer c) (msg_length c) x;
     Some (c\<lparr>buffer := b, msg_length := (msg_length c + 1) mod 65536\<rparr>)
   }"

text \<open>\<open>memcpy(connection->buffer + connection->message.length, src, n)\<close> and the length update.\<close>

definition put_block :: "mqtt_connection \<Rightarrow> bytes \<Rightarrow> nat \<Rightarrow> mqtt_connection option" where
  "put_block c src n = do {
     xs \<leftarrow> load_block src 0 n;
     b \<leftarrow> store_block (buffer c) (msg_length c) xs;
     Some (c\<lparr>buffer := b, msg_length := (msg_length c + n) mod 65536\<rparr>)
   }"

definition append_string :: "mqtt_connection \<Rightarrow> bytes \<Rightarrow> nat \<Rightarrow> (int \<times> mqtt_connection) option" where
  "append_string c str len =
     (if msg_length c + len + 2 > buffer_length c then Some (-1, c)
      else do {
        c \<leftarrow> put_byte c (of_nat (len div 256));
        c \<leftarrow> put_byte c (of_nat (len mod 256));
        c \<leftarrow> put_block c str len;
        Some (int len + 2, c)
      })"

text \<open>The loop of \<open>append_message_id\<close>; it skips the identifier 0 when the counter wraps.\<close>

function next_message_id :: "u16 \<Rightarrow> u16 \<Rightarrow> u16 \<times> u16" where
  "next_message_id mid cnt =
     (if mid = 0 then next_message_id (cnt + 1) (cnt + 1) else (mid, cnt))"
  by auto
termination
  by (relation "measure (\<lambda>(mid, cnt). if mid \<noteq> 0 then 0 else if cnt + 1 = 0 then 2 else 1 :: nat)")
    (auto split: if_splits)

declare next_message_id.simps [simp del]

definition append_message_id :: "mqtt_connection \<Rightarrow> u16 \<Rightarrow> (u16 \<times> mqtt_connection) option" where
  "append_message_id c mid =
     (let (mid, cnt) = next_message_id mid (message_id c); c = c\<lparr>message_id := cnt\<rparr>
      in if msg_length c + 2 > buffer_length c then Some (0, c)
         else do {
           c \<leftarrow> put_byte c (hi8 (unat mid));
           c \<leftarrow> put_byte c (lo8 (unat mid));
           Some (mid, c)
         })"

definition init_message :: "mqtt_connection \<Rightarrow> mqtt_connection" where
  "init_message c = c\<lparr>msg_length := MQTT_MAX_FIXED_HEADER_SIZE\<rparr>"

definition fail_message :: "mqtt_connection \<Rightarrow> mqtt_connection" where
  "fail_message c = c\<lparr>msg_data := Some 0, msg_length := 0\<rparr>"

text \<open>The first byte of a packet, and \<open>fini_message\<close>.\<close>

definition header_byte :: "int \<Rightarrow> int \<Rightarrow> int \<Rightarrow> int \<Rightarrow> u8" where
  "header_byte type dup qos retain = word_of_int
     (push_bit 4 (type AND 15) OR push_bit 3 (dup AND 1) OR push_bit 1 (qos AND 3) OR (retain AND 1))"

definition fini_message ::
    "mqtt_connection \<Rightarrow> mqtt_message_type \<Rightarrow> int \<Rightarrow> int \<Rightarrow> int \<Rightarrow> mqtt_connection option" where
  "fini_message c type dup qos retain =
     (let remaining_length = int (msg_length c) - int MQTT_MAX_FIXED_HEADER_SIZE;
          h = header_byte (int (type_code type)) dup qos retain
      in if remaining_length > 127 then do {
           b \<leftarrow> store (buffer c) 0 h;
           b \<leftarrow> store b 1 (word_of_int (128 OR (remaining_length mod 128)));
           b \<leftarrow> store b 2 (word_of_int (remaining_length div 128));
           Some (c\<lparr>buffer := b, msg_length := to_u16 (remaining_length + 3), msg_data := Some 0\<rparr>)
         } else do {
           b \<leftarrow> store (buffer c) 1 h;
           b \<leftarrow> store b 2 (word_of_int remaining_length);
           Some (c\<lparr>buffer := b, msg_length := to_u16 (remaining_length + 2), msg_data := Some 1\<rparr>)
         })"

definition mqtt_msg_init :: "bytes \<Rightarrow> nat \<Rightarrow> mqtt_connection" where
  "mqtt_msg_init buf len =
     \<lparr>msg_data = None, msg_length = 0, message_id = 0, buffer = buf, buffer_length = len\<rparr>"

text \<open>The variable header of \<open>CONNECT\<close>, and where its flags byte is.\<close>

fun connect_header :: "protocol_name \<Rightarrow> u32 \<Rightarrow> u8 \<Rightarrow> bytes" where
  "connect_header PROTOCOL_NAMEv31 ka flags =
     [0, 6, 0x4D, 0x51, 0x49, 0x73, 0x64, 0x70, 3, flags, hi8 (unat ka), lo8 (unat ka)]"
| "connect_header PROTOCOL_NAMEv311 ka flags =
     [0, 4, 0x4D, 0x51, 0x54, 0x54, 4, flags, hi8 (unat ka), lo8 (unat ka)]"

fun connect_flags_at :: "protocol_name \<Rightarrow> nat" where
  "connect_flags_at PROTOCOL_NAMEv31 = MQTT_MAX_FIXED_HEADER_SIZE + 9"
| "connect_flags_at PROTOCOL_NAMEv311 = MQTT_MAX_FIXED_HEADER_SIZE + 7"

text \<open>\<open>variable_header->flags |= m\<close>\<close>

definition or_flags :: "protocol_name \<Rightarrow> mqtt_connection \<Rightarrow> u8 \<Rightarrow> mqtt_connection option" where
  "or_flags p c m = do {
     f \<leftarrow> load (buffer c) (connect_flags_at p);
     b \<leftarrow> store (buffer c) (connect_flags_at p) (f OR m);
     Some (c\<lparr>buffer := b\<rparr>)
   }"

text \<open>\<open>s != NULL && s[0] != '\0'\<close>\<close>

definition nonempty_string :: "bytes option \<Rightarrow> bool option" where
  "nonempty_string s = (case s of None \<Rightarrow> Some False
     | Some s \<Rightarrow> do { x \<leftarrow> load s 0; Some (x \<noteq> 0) })"

text \<open>\<open>append_string(connection, s, strlen(s)) < 0\<close>: whether it failed, and the connection.\<close>

definition append_cstring :: "mqtt_connection \<Rightarrow> bytes option \<Rightarrow> (bool \<times> mqtt_connection) option" where
  "append_cstring c s = do {
     s \<leftarrow> s;
     n \<leftarrow> strlen s;
     (r, c) \<leftarrow> append_string c s n;
     Some (r < 0, c)
   }"

text \<open>
  The stages of \<open>mqtt_msg_connect\<close>. Each yields whether the function left through
  \<open>fail_message\<close>, and the connection.
\<close>

definition connect_client_id ::
    "protocol_name \<Rightarrow> mqtt_connect_info \<Rightarrow> mqtt_connection \<Rightarrow> (bool \<times> mqtt_connection) option" where
  "connect_client_id p info c =
     (case client_id info of
        None \<Rightarrow> Some (True, c)
      | Some s \<Rightarrow> do {
          x \<leftarrow> load s 0;
          if x = 0 then
            (case p of
               PROTOCOL_NAMEv311 \<Rightarrow> do { (r, c) \<leftarrow> append_string c s 2; Some (False, c) }
             | PROTOCOL_NAMEv31 \<Rightarrow> Some (True, c))
          else append_cstring c (Some s)
        })"

definition connect_will ::
    "protocol_name \<Rightarrow> mqtt_connect_info \<Rightarrow> mqtt_connection \<Rightarrow> (bool \<times> mqtt_connection) option" where
  "connect_will p info c = do {
     w \<leftarrow> nonempty_string (will_topic info);
     if \<not> w then Some (False, c) else do {
       (failed, c) \<leftarrow> append_cstring c (will_topic info);
       if failed then Some (True, c) else do {
         (failed, c) \<leftarrow> append_cstring c (will_message info);
         if failed then Some (True, c) else do {
           c \<leftarrow> or_flags p c 4;
           c \<leftarrow> (if will_retain info \<noteq> 0 then or_flags p c 32 else Some c);
           c \<leftarrow> or_flags p c (word_of_int (push_bit 3 (will_qos info AND 3)));
           Some (False, c)
         }
       }
     }
   }"

definition connect_credential ::
    "protocol_name \<Rightarrow> bytes option \<Rightarrow> u8 \<Rightarrow> mqtt_connection \<Rightarrow> (bool \<times> mqtt_connection) option" where
  "connect_credential p s flag c = do {
     ne \<leftarrow> nonempty_string s;
     if \<not> ne then Some (False, c) else do {
       (failed, c) \<leftarrow> append_cstring c s;
       if failed then Some (True, c) else do { c \<leftarrow> or_flags p c flag; Some (False, c) }
     }
   }"

text \<open>Running a stage after the previous one, unless that one failed.\<close>

definition and_then ::
    "(bool \<times> mqtt_connection) option \<Rightarrow> (mqtt_connection \<Rightarrow> (bool \<times> mqtt_connection) option)
      \<Rightarrow> (bool \<times> mqtt_connection) option" where
  "and_then m f = do { (failed, c) \<leftarrow> m; if failed then Some (True, c) else f c }"

definition mqtt_msg_connect ::
    "protocol_name \<Rightarrow> mqtt_connection \<Rightarrow> mqtt_connect_info \<Rightarrow> mqtt_connection option" where
  "mqtt_msg_connect p c info =
     (let c = init_message c; header = connect_header p (keepalive info)
         (if clean_session info \<noteq> 0 then 2 else 0)
      in if msg_length c + length header > buffer_length c then Some (fail_message c)
         else do {
           c \<leftarrow> put_block c header (length header);
           (failed, c) \<leftarrow>
             and_then (and_then (and_then (connect_client_id p info c) (connect_will p info))
               (connect_credential p (username info) 128))
               (connect_credential p (password info) 64);
           if failed then Some (fail_message c)
           else fini_message c MQTT_MSG_TYPE_CONNECT 0 0 0
         })"

text \<open>
  \<open>mqtt_msg_publish\<close>. The last component of the result is \<open>*message_id\<close>; copying a negative
  number of bytes is undefined.
\<close>

definition mqtt_msg_publish ::
    "mqtt_connection \<Rightarrow> bytes option \<Rightarrow> bytes \<Rightarrow> int \<Rightarrow> int \<Rightarrow> int \<Rightarrow> u16
      \<Rightarrow> (mqtt_connection \<times> u16) option" where
  "mqtt_msg_publish c topic data data_length qos retain mid = do {
     let c = init_message c;
     ok \<leftarrow> nonempty_string topic;
     if \<not> ok then Some (fail_message c, mid) else do {
       (failed, c) \<leftarrow> append_cstring c topic;
       if failed then Some (fail_message c, mid) else do {
         (mid, c) \<leftarrow> (if qos > 0 then append_message_id c 0 else Some (0, c));
         if qos > 0 \<and> mid = 0 then Some (fail_message c, mid)
         else if int (msg_length c) + data_length > int (buffer_length c)
         then Some (fail_message c, mid)
         else if data_length < 0 then None
         else do {
           c \<leftarrow> put_block c data (nat data_length);
           c \<leftarrow> fini_message c MQTT_MSG_TYPE_PUBLISH 0 qos retain;
           Some (c, mid)
         }
       }
     }
   }"

text \<open>The four acknowledgements share their shape.\<close>

definition mqtt_msg_ack ::
    "mqtt_connection \<Rightarrow> u16 \<Rightarrow> mqtt_message_type \<Rightarrow> int \<Rightarrow> mqtt_connection option" where
  "mqtt_msg_ack c mid type qos = do {
     let c = init_message c;
     (r, c) \<leftarrow> append_message_id c mid;
     if r = 0 then Some (fail_message c) else fini_message c type 0 qos 0
   }"

definition mqtt_msg_puback :: "mqtt_connection \<Rightarrow> u16 \<Rightarrow> mqtt_connection option" where
  "mqtt_msg_puback c mid = mqtt_msg_ack c mid MQTT_MSG_TYPE_PUBACK 0"

definition mqtt_msg_pubrec :: "mqtt_connection \<Rightarrow> u16 \<Rightarrow> mqtt_connection option" where
  "mqtt_msg_pubrec c mid = mqtt_msg_ack c mid MQTT_MSG_TYPE_PUBREC 0"

definition mqtt_msg_pubrel :: "mqtt_connection \<Rightarrow> u16 \<Rightarrow> mqtt_connection option" where
  "mqtt_msg_pubrel c mid = mqtt_msg_ack c mid MQTT_MSG_TYPE_PUBREL 1"

definition mqtt_msg_pubcomp :: "mqtt_connection \<Rightarrow> u16 \<Rightarrow> mqtt_connection option" where
  "mqtt_msg_pubcomp c mid = mqtt_msg_ack c mid MQTT_MSG_TYPE_PUBCOMP 0"

definition mqtt_msg_subscribe ::
    "mqtt_connection \<Rightarrow> bytes option \<Rightarrow> int \<Rightarrow> u16 \<Rightarrow> (mqtt_connection \<times> u16) option" where
  "mqtt_msg_subscribe c topic qos mid = do {
     let c = init_message c;
     ok \<leftarrow> nonempty_string topic;
     if \<not> ok then Some (fail_message c, mid) else do {
       (mid, c) \<leftarrow> append_message_id c 0;
       if mid = 0 then Some (fail_message c, mid) else do {
         (failed, c) \<leftarrow> append_cstring c topic;
         if failed \<or> msg_length c + 1 > buffer_length c then Some (fail_message c, mid) else do {
           c \<leftarrow> put_byte c (word_of_int qos);
           c \<leftarrow> fini_message c MQTT_MSG_TYPE_SUBSCRIBE 0 1 0;
           Some (c, mid)
         }
       }
     }
   }"

definition mqtt_msg_unsubscribe ::
    "mqtt_connection \<Rightarrow> bytes option \<Rightarrow> u16 \<Rightarrow> (mqtt_connection \<times> u16) option" where
  "mqtt_msg_unsubscribe c topic mid = do {
     let c = init_message c;
     ok \<leftarrow> nonempty_string topic;
     if \<not> ok then Some (fail_message c, mid) else do {
       (mid, c) \<leftarrow> append_message_id c 0;
       if mid = 0 then Some (fail_message c, mid) else do {
         (failed, c) \<leftarrow> append_cstring c topic;
         if failed then Some (fail_message c, mid) else do {
           c \<leftarrow> fini_message c MQTT_MSG_TYPE_UNSUBSCRIBE 0 1 0;
           Some (c, mid)
         }
       }
     }
   }"

definition mqtt_msg_pingreq :: "mqtt_connection \<Rightarrow> mqtt_connection option" where
  "mqtt_msg_pingreq c = fini_message (init_message c) MQTT_MSG_TYPE_PINGREQ 0 0 0"

definition mqtt_msg_pingresp :: "mqtt_connection \<Rightarrow> mqtt_connection option" where
  "mqtt_msg_pingresp c = fini_message (init_message c) MQTT_MSG_TYPE_PINGRESP 0 0 0"

definition mqtt_msg_disconnect :: "mqtt_connection \<Rightarrow> mqtt_connection option" where
  "mqtt_msg_disconnect c = fini_message (init_message c) MQTT_MSG_TYPE_DISCONNECT 0 0 0"

section \<open>Decoding\<close>

definition mqtt_get_type :: "bytes \<Rightarrow> nat option" where
  "mqtt_get_type b = do { x \<leftarrow> load b 0; Some (unat (drop_bit 4 (x AND 0xF0))) }"

definition mqtt_get_connect_return_code :: "bytes \<Rightarrow> nat option" where
  "mqtt_get_connect_return_code b = do { x \<leftarrow> load b 3; Some (unat x) }"

definition mqtt_get_dup :: "bytes \<Rightarrow> nat option" where
  "mqtt_get_dup b = do { x \<leftarrow> load b 0; Some (unat (drop_bit 3 (x AND 0x08))) }"

definition mqtt_get_qos :: "bytes \<Rightarrow> nat option" where
  "mqtt_get_qos b = do { x \<leftarrow> load b 0; Some (unat (drop_bit 1 (x AND 0x06))) }"

definition mqtt_get_retain :: "bytes \<Rightarrow> nat option" where
  "mqtt_get_retain b = do { x \<leftarrow> load b 0; Some (unat (x AND 0x01)) }"

text \<open>\<open>int\<close> arithmetic: a shift by 32 or more and a sum out of range are undefined.\<close>

definition shl32 :: "int \<Rightarrow> nat \<Rightarrow> int option" where
  "shl32 x n = (if n < 32 then Some (to_s32 (push_bit n x)) else None)"

definition add32 :: "int \<Rightarrow> int \<Rightarrow> int option" where
  "add32 x y = (if -2147483648 \<le> x + y \<and> x + y < 2147483648 then Some (x + y) else None)"

text \<open>The loop over the remaining-length field that the decoders share.\<close>

function remaining_loop :: "bytes \<Rightarrow> nat \<Rightarrow> nat \<Rightarrow> int \<Rightarrow> (int \<times> nat) option" where
  "remaining_loop b len i totlen =
     (if i < len then do {
        x \<leftarrow> load b i;
        d \<leftarrow> shl32 (uint (x AND 0x7F)) (7 * (i - 1));
        totlen \<leftarrow> add32 totlen d;
        if x AND 0x80 = 0 then Some (totlen, i + 1) else remaining_loop b len (i + 1) totlen
      } else Some (totlen, i))"
  by auto
termination
  by (relation "measure (\<lambda>(b, len, i, totlen). len - i)") auto

declare remaining_loop.simps [simp del]

definition mqtt_get_total_length :: "bytes \<Rightarrow> nat \<Rightarrow> int option" where
  "mqtt_get_total_length b len = do {
     (totlen, i) \<leftarrow> remaining_loop b len 1 0;
     add32 totlen (int i)
   }"

text \<open>The result is the offset of the topic (\<open>None\<close> for \<open>NULL\<close>) and \<open>*length\<close>.\<close>

definition mqtt_get_publish_topic :: "bytes \<Rightarrow> nat \<Rightarrow> (nat option \<times> nat) option" where
  "mqtt_get_publish_topic b len = do {
     (totlen, i) \<leftarrow> remaining_loop b len 1 0;
     totlen \<leftarrow> add32 totlen (int i);
     if i + 2 \<ge> len then Some (None, len) else do {
       h \<leftarrow> load b i;
       l \<leftarrow> load b (i + 1);
       let topiclen = be16 h l;
       let i = i + 2;
       if i + topiclen > len then Some (None, len)
       else Some (Some i, topiclen)
     }
   }"

definition mqtt_get_publish_data :: "bytes \<Rightarrow> nat \<Rightarrow> (nat option \<times> nat) option" where
  "mqtt_get_publish_data b blength = do {
     (totlen, i) \<leftarrow> remaining_loop b blength 1 0;
     totlen \<leftarrow> add32 totlen (int i);
     if i + 2 \<ge> blength then Some (None, 0) else do {
       h \<leftarrow> load b i;
       l \<leftarrow> load b (i + 1);
       let topiclen = be16 h l;
       let i = i + 2;
       if i + topiclen \<ge> blength then Some (None, 0) else do {
         let i = i + topiclen;
         qos \<leftarrow> mqtt_get_qos b;
         if qos > 0 \<and> i + 2 \<ge> blength then Some (None, 0) else do {
           let i = (if qos > 0 then i + 2 else i);
           if totlen < int i then Some (None, 0)
           else if totlen \<le> int blength then Some (Some i, to_u16 (totlen - int i))
           else Some (Some i, to_u16 (int blength - int i))
         }
       }
     }
   }"

text \<open>The loop of \<open>mqtt_get_id\<close>, which only looks for the end of the field.\<close>

function skip_remaining :: "bytes \<Rightarrow> nat \<Rightarrow> nat \<Rightarrow> nat option" where
  "skip_remaining b len i =
     (if i < len then do {
        x \<leftarrow> load b i;
        if x AND 0x80 = 0 then Some (i + 1) else skip_remaining b len (i + 1)
      } else Some i)"
  by auto
termination
  by (relation "measure (\<lambda>(b, len, i). len - i)") auto

declare skip_remaining.simps [simp del]

definition mqtt_get_id :: "bytes \<Rightarrow> nat \<Rightarrow> nat option" where
  "mqtt_get_id b len =
     (if len < 1 then Some 0 else do {
        t \<leftarrow> mqtt_get_type b;
        if t = type_code MQTT_MSG_TYPE_PUBLISH then do {
          i \<leftarrow> skip_remaining b len 1;
          if i + 2 \<ge> len then Some 0 else do {
            h \<leftarrow> load b i;
            l \<leftarrow> load b (i + 1);
            let topiclen = be16 h l;
            let i = i + 2;
            if i + topiclen \<ge> len then Some 0 else do {
              let i = i + topiclen;
              qos \<leftarrow> mqtt_get_qos b;
              if qos > 0 then
                (if i + 2 \<ge> len then Some 0 else do {
                   h \<leftarrow> load b i;
                   l \<leftarrow> load b (i + 1);
                   Some (be16 h l)
                 })
              else Some 0
            }
          }
        }
        else if t \<in> set (map type_code [MQTT_MSG_TYPE_PUBACK, MQTT_MSG_TYPE_PUBREC,
            MQTT_MSG_TYPE_PUBREL, MQTT_MSG_TYPE_PUBCOMP, MQTT_MSG_TYPE_SUBACK,
            MQTT_MSG_TYPE_UNSUBACK, MQTT_MSG_TYPE_SUBSCRIBE]) then
          (if len \<ge> 4 then do {
             x \<leftarrow> load b 1;
             if x AND 0x80 = 0 then do {
               h \<leftarrow> load b 2;
               l \<leftarrow> load b 3;
               Some (be16 h l)
             } else Some 0
           } else Some 0)
        else Some 0
      })"

section \<open>Specification\<close>

text \<open>
  A message under construction has its body behind the three reserved bytes; a finished one
  is the block of the output buffer that \<open>message\<close> points to.
\<close>

definition conn_ok :: "mqtt_connection \<Rightarrow> bool" where
  "conn_ok c \<longleftrightarrow> length (buffer c) = buffer_length c \<and> 3 \<le> buffer_length c \<and> buffer_length c < 65536"

definition open_msg :: "mqtt_connection \<Rightarrow> bool" where
  "open_msg c \<longleftrightarrow> conn_ok c \<and> 3 \<le> msg_length c \<and> msg_length c \<le> buffer_length c"

definition body :: "mqtt_connection \<Rightarrow> bytes" where
  "body c = take (msg_length c - 3) (drop 3 (buffer c))"

definition message_out :: "mqtt_connection \<Rightarrow> bytes option" where
  "message_out c = do { d \<leftarrow> msg_data c; load_block (buffer c) d (msg_length c) }"

text \<open>The remaining-length field and the packet around a body, as MQTT specifies them.\<close>

fun varint :: "nat \<Rightarrow> bytes" where
  "varint n = (if n < 128 then [of_nat n] else of_nat (128 + n mod 128) # varint (n div 128))"

declare varint.simps [simp del]

definition packet :: "mqtt_message_type \<Rightarrow> int \<Rightarrow> int \<Rightarrow> int \<Rightarrow> bytes \<Rightarrow> bytes" where
  "packet type dup qos retain xs =
     header_byte (int (type_code type)) dup qos retain # varint (length xs) @ xs"

text \<open>A length-prefixed string.\<close>

definition mqtt_str :: "bytes \<Rightarrow> bytes" where
  "mqtt_str s = hi8 (length s) # lo8 (length s) # s"

definition mqtt_id :: "u16 \<Rightarrow> bytes" where
  "mqtt_id mid = [hi8 (unat mid), lo8 (unat mid)]"

text \<open>\<open>c'\<close> is \<open>c\<close> with \<open>xs\<close> appended to the message.\<close>

definition grown :: "mqtt_connection \<Rightarrow> bytes \<Rightarrow> mqtt_connection \<Rightarrow> bool" where
  "grown c xs c' \<longleftrightarrow> open_msg c' \<and> body c' = body c @ xs \<and>
     msg_length c' = msg_length c + length xs \<and>
     buffer_length c' = buffer_length c \<and> message_id c' = message_id c"

section \<open>Lemmas on building\<close>

lemma open_msg_length_body [simp]: "open_msg c \<Longrightarrow> length (body c) = msg_length c - 3"
  by (auto simp: open_msg_def body_def conn_ok_def)

lemma open_msgD:
  "open_msg c \<Longrightarrow> conn_ok c"
  "open_msg c \<Longrightarrow> 3 \<le> msg_length c"
  "open_msg c \<Longrightarrow> msg_length c \<le> buffer_length c"
  "open_msg c \<Longrightarrow> length (buffer c) = buffer_length c"
  "open_msg c \<Longrightarrow> buffer_length c < 65536"
  by (auto simp: open_msg_def conn_ok_def)

lemma init_message_open [simp]: "conn_ok c \<Longrightarrow> open_msg (init_message c)"
  by (simp add: open_msg_def conn_ok_def init_message_def MQTT_MAX_FIXED_HEADER_SIZE_def)

lemma init_message_simps [simp]:
  "body (init_message c) = []" "msg_length (init_message c) = 3"
  "buffer_length (init_message c) = buffer_length c" "message_id (init_message c) = message_id c"
  "buffer (init_message c) = buffer c"
  by (simp_all add: body_def init_message_def MQTT_MAX_FIXED_HEADER_SIZE_def)

lemma fail_message_simps [simp]:
  "msg_length (fail_message c) = 0" "buffer_length (fail_message c) = buffer_length c"
  "conn_ok (fail_message c) = conn_ok c" "message_out (fail_message c) = Some []"
  "message_id (fail_message c) = message_id c"
  by (simp_all add: fail_message_def conn_ok_def message_out_def load_block_def)

lemma init_message_conn_ok [simp]: "conn_ok (init_message c) = conn_ok c"
  by (simp add: conn_ok_def init_message_def)

lemma set_message_id_simps [simp]:
  "open_msg (c\<lparr>message_id := k\<rparr>) = open_msg c" "body (c\<lparr>message_id := k\<rparr>) = body c"
  "conn_ok (c\<lparr>message_id := k\<rparr>) = conn_ok c"
  by (simp_all add: open_msg_def conn_ok_def body_def)

lemma grown_trans: "grown a xs b \<Longrightarrow> grown b ys c \<Longrightarrow> grown a (xs @ ys) c"
  by (auto simp: grown_def)

lemma put_block_grown:
  assumes "open_msg c" and "n \<le> length src" and "msg_length c + n \<le> buffer_length c"
  shows "\<exists>c'. put_block c src n = Some c' \<and> grown c (take n src) c'"
proof -
  note c = open_msgD [OF assms(1)]
  let ?b = "take (msg_length c) (buffer c) @ take n src @ drop (msg_length c + n) (buffer c)"
  let ?c = "c\<lparr>buffer := ?b, msg_length := msg_length c + n\<rparr>"
  have "put_block c src n = Some ?c"
    using assms c by (simp add: put_block_def mem_simps min_absorb2)
  moreover have "body ?c = body c @ take n src"
  proof -
    have "drop 3 ?b = take (msg_length c - 3) (drop 3 (buffer c)) @ take n src @
        drop (msg_length c + n) (buffer c)"
      using c assms by (simp add: drop_take)
    moreover have "msg_length ?c - 3 = (msg_length c - 3) + n" using c by simp
    ultimately show ?thesis using c assms by (simp add: body_def min_absorb2)
  qed
  moreover have "open_msg ?c"
    using assms c by (simp add: open_msg_def conn_ok_def min_absorb2)
  ultimately show ?thesis using assms(2) by (simp add: grown_def min_absorb2)
qed

lemma put_byte_is_block: "put_byte c x = put_block c [x] 1"
  by (cases "msg_length c < length (buffer c)")
    (simp_all add: put_byte_def put_block_def mem_simps store_block_def upd_conv_take_nth_drop)

lemma put_byte_grown:
  assumes "open_msg c" and "msg_length c < buffer_length c"
  shows "\<exists>c'. put_byte c x = Some c' \<and> grown c [x] c'"
  using put_block_grown [of c 1 "[x]"] assms by (simp add: put_byte_is_block)

lemma grown_room:
  "grown c xs c' \<Longrightarrow> open_msg c' \<and> msg_length c' = msg_length c + length xs \<and>
    buffer_length c' = buffer_length c"
  by (simp add: grown_def)

lemma append_string_grown:
  assumes "open_msg c" and "n \<le> length str" and "msg_length c + n + 2 \<le> buffer_length c"
  shows "\<exists>c'. append_string c str n = Some (int n + 2, c') \<and>
    grown c (hi8 n # lo8 n # take n str) c'"
proof -
  note room = assms(3) open_msgD [OF assms(1)]
  obtain c1 where c1: "put_byte c (hi8 n) = Some c1" "grown c [hi8 n] c1"
    using put_byte_grown [OF assms(1), of "hi8 n"] room by auto
  with room obtain c2 where c2: "put_byte c1 (lo8 n) = Some c2" "grown c1 [lo8 n] c2"
    using put_byte_grown [of c1 "lo8 n"] grown_room [OF c1(2)] by auto
  with c1 room obtain c3 where c3: "put_block c2 str n = Some c3" "grown c2 (take n str) c3"
    using put_block_grown [of c2 n str] grown_room [OF c1(2)] grown_room [OF c2(2)] assms(2)
    by (auto simp del: One_nat_def)
  have "grown c (hi8 n # lo8 n # take n str) c3"
    using grown_trans [OF grown_trans [OF c1(2) c2(2)] c3(2)] by simp
  moreover have "append_string c str n = Some (int n + 2, c3)"
    using c1(1) c2(1) c3(1) room by (simp add: append_string_def hi8_def lo8_def)
  ultimately show ?thesis by blast
qed

lemma strlen_Some: "0 \<in> set s \<Longrightarrow> strlen s = Some (length (cstr s))"
  by (simp add: strlen_def cstr_def)

lemma take_cstr: "take (length (cstr s)) s = cstr s" "length (cstr s) \<le> length s"
  unfolding cstr_def by (rule takeWhile_eq_take [symmetric]) (rule length_takeWhile_le)

lemma append_cstring_fits:
  assumes "open_msg c" and "0 \<in> set s" and "msg_length c + length (mqtt_str (cstr s)) \<le> buffer_length c"
  shows "\<exists>c'. append_cstring c (Some s) = Some (False, c') \<and> grown c (mqtt_str (cstr s)) c'"
proof -
  have "msg_length c + length (cstr s) + 2 \<le> buffer_length c"
    using assms(3) by (simp add: mqtt_str_def)
  from append_string_grown [OF assms(1) take_cstr(2) this] obtain c' where
    "append_string c s (length (cstr s)) = Some (int (length (cstr s)) + 2, c')"
    "grown c (mqtt_str (cstr s)) c'"
    by (auto simp: take_cstr mqtt_str_def)
  then show ?thesis using assms(2) by (auto simp: append_cstring_def strlen_Some)
qed

lemma append_cstring_rejects:
  assumes "0 \<in> set s" and "msg_length c + length (mqtt_str (cstr s)) > buffer_length c"
  shows "append_cstring c (Some s) = Some (True, c)"
  using assms by (simp add: append_cstring_def strlen_Some append_string_def mqtt_str_def)

subsection \<open>Message identifiers\<close>

lemma next_message_id_given [simp]: "mid \<noteq> 0 \<Longrightarrow> next_message_id mid cnt = (mid, cnt)"
  by (subst next_message_id.simps) simp

text \<open>A fresh identifier is the successor of the last one, skipping 0.\<close>

definition fresh_id :: "u16 \<Rightarrow> u16" where
  "fresh_id cnt = (if cnt + 1 = 0 then 1 else cnt + 1)"

lemma next_message_id_fresh [simp]: "next_message_id 0 cnt = (fresh_id cnt, fresh_id cnt)"
proof (cases "cnt + 1 = 0")
  case True
  then show ?thesis
    by (subst next_message_id.simps, subst next_message_id.simps) (simp add: fresh_id_def)
next
  case False
  then show ?thesis by (subst next_message_id.simps) (simp add: fresh_id_def)
qed

lemma fresh_id_nonzero [simp]: "fresh_id cnt \<noteq> 0"
  by (simp add: fresh_id_def)

lemma append_message_id_fits:
  assumes "open_msg c" and "msg_length c + 2 \<le> buffer_length c"
    and "next_message_id mid (message_id c) = (m, cnt)"
  shows "\<exists>c'. append_message_id c mid = Some (m, c') \<and>
    grown (c\<lparr>message_id := cnt\<rparr>) (mqtt_id m) c'"
proof -
  let ?c = "c\<lparr>message_id := cnt\<rparr>"
  have o: "open_msg ?c" using assms(1) by simp
  obtain c1 where c1: "put_byte ?c (hi8 (unat m)) = Some c1" "grown ?c [hi8 (unat m)] c1"
    using put_byte_grown [OF o, of "hi8 (unat m)"] assms by auto
  then obtain c2 where c2: "put_byte c1 (lo8 (unat m)) = Some c2" "grown c1 [lo8 (unat m)] c2"
    using put_byte_grown [of c1 "lo8 (unat m)"] grown_room [OF c1(2)] assms by auto
  have "append_message_id c mid = Some (m, c2)"
    using c1(1) c2(1) assms by (simp add: append_message_id_def)
  moreover have "grown ?c (mqtt_id m) c2"
    using grown_trans [OF c1(2) c2(2)] by (simp add: mqtt_id_def)
  ultimately show ?thesis by blast
qed

lemma append_message_id_full:
  assumes "msg_length c + 2 > buffer_length c"
  shows "append_message_id c mid =
    Some (0, c\<lparr>message_id := snd (next_message_id mid (message_id c))\<rparr>)"
  using assms by (simp add: append_message_id_def split_beta)

subsection \<open>The fixed header\<close>

lemma varint_small: "n < 128 \<Longrightarrow> varint n = [of_nat n]"
  by (subst varint.simps) simp

lemma varint_large: "128 \<le> n \<Longrightarrow> varint n = of_nat (128 + n mod 128) # varint (n div 128)"
  by (subst varint.simps) simp

lemma or_128: "x < 128 \<Longrightarrow> 128 OR int x = 128 + int x"
  using or_shifted [of "int x" 7 1] by (simp add: push_bit_eq_mult)

lemma body_update_header:
  "i < 3 \<Longrightarrow> take n (drop 3 ((buffer c)[i := x])) = take n (drop 3 (buffer c))"
  by simp

text \<open>
  The packet that \<open>fini_message\<close> leaves, for a body that the two bytes of the
  remaining-length field can describe.
\<close>

lemma fini_message_packet:
  assumes "open_msg c" and "length (body c) < 16384"
  shows "\<exists>c'. fini_message c type dup qos retain = Some c' \<and> conn_ok c' \<and>
    message_out c' = Some (packet type dup qos retain (body c)) \<and>
    buffer_length c' = buffer_length c \<and> message_id c' = message_id c"
proof -
  note c = open_msgD [OF assms(1)]
  define n where "n = length (body c)"
  have n: "msg_length c = n + 3"
    using assms(1) c by (simp add: n_def)
  have len: "3 \<le> length (buffer c)" using c by simp
  then obtain x y z bs where bs: "buffer c = x # y # z # bs"
    by (metis Suc_le_length_iff numeral_3_eq_3)
  have bdy: "body c = take n bs" "n \<le> length bs" "length bs + 3 = buffer_length c"
    using c by (simp_all add: body_def bs n)
  let ?h = "header_byte (int (type_code type)) dup qos retain"
  show ?thesis
  proof (cases "n < 128")
    case True
    then have "fini_message c type dup qos retain =
        Some (c\<lparr>buffer := x # ?h # of_nat n # bs, msg_length := n + 2, msg_data := Some 1\<rparr>)"
      unfolding fini_message_def MQTT_MAX_FIXED_HEADER_SIZE_def Let_def
      by (simp add: n mem_simps bs nat_int_add numeral_2_eq_2)
    with True bdy c show ?thesis
      by (simp add: conn_ok_def message_out_def packet_def varint_small load_block_Some bs)
  next
    case False
    have lt: "n < 16384" using assms(2) by (simp add: n_def)
    then have m: "n div 128 < 128" by linarith
    have "128 OR int n mod 128 = int (128 + n mod 128)"
      using or_128 [of "n mod 128"] by (simp add: zmod_int)
    then have w: "word_of_int (128 OR int n mod 128) = (of_nat (128 + n mod 128) :: u8)"
        "word_of_int (int n div 128) = (of_nat (n div 128) :: u8)" "to_u16 (int n + 3) = n + 3"
      using lt by (simp_all add: zdiv_int [of n 128, simplified, symmetric] nat_add_distrib)
    have r: "int (msg_length c) - int 3 = int n" "int n > 127" using n False by simp_all
    have "fini_message c type dup qos retain =
        Some (c\<lparr>buffer := ?h # of_nat (128 + n mod 128) # of_nat (n div 128) # bs,
          msg_length := n + 3, msg_data := Some 0\<rparr>)"
      unfolding fini_message_def MQTT_MAX_FIXED_HEADER_SIZE_def Let_def r(1) w
      using r(2) by (simp add: mem_simps bs numeral_2_eq_2 del: of_nat_add)
    with False bdy c m(1) show ?thesis
      by (simp add: conn_ok_def message_out_def packet_def varint_large varint_small load_block_Some bs numeral_3_eq_3)
  qed
qed

lemma fini_message_safe:
  assumes "open_msg c"
  shows "\<exists>c'. fini_message c type dup qos retain = Some c' \<and> conn_ok c' \<and>
    message_out c' \<noteq> None \<and> buffer_length c' = buffer_length c"
proof -
  note c = open_msgD [OF assms(1)]
  have n: "0 \<le> int (msg_length c) - 3" "int (msg_length c) - 3 + 3 = int (msg_length c)"
    "int (msg_length c) - 3 + 2 = int (msg_length c - 1)" using c by simp_all
  show ?thesis
    using c n(1)
    unfolding fini_message_def MQTT_MAX_FIXED_HEADER_SIZE_def Let_def
    by (simp add: mem_simps n(2,3) conn_ok_def message_out_def)
qed

subsection \<open>What the builders yield\<close>

text \<open>
  \<open>built c p c'\<close>: the builder left the packet \<open>p\<close> in the connection; \<open>fits c xs\<close>: a body
  \<open>xs\<close> has room behind the fixed header.
\<close>

definition built :: "mqtt_connection \<Rightarrow> bytes \<Rightarrow> mqtt_connection \<Rightarrow> bool" where
  "built c p c' \<longleftrightarrow> conn_ok c' \<and> message_out c' = Some p \<and> buffer_length c' = buffer_length c"

definition fits :: "mqtt_connection \<Rightarrow> bytes \<Rightarrow> bool" where
  "fits c xs \<longleftrightarrow> 3 + length xs \<le> buffer_length c"

text \<open>Output buffers that the two length bytes can describe.\<close>

definition small_buffer :: "mqtt_connection \<Rightarrow> bool" where
  "small_buffer c \<longleftrightarrow> buffer_length c \<le> 16386"

lemma built_fail [simp]: "conn_ok c \<Longrightarrow> built c [] (fail_message c)"
  by (simp add: built_def)

lemma fini_message_built:
  assumes "open_msg c" and "small_buffer c"
  obtains c' where "fini_message c type dup qos retain = Some c'"
    "built c (packet type dup qos retain (body c)) c'" "message_id c' = message_id c"
proof -
  have "length (body c) < 16384"
    using assms open_msgD [OF assms(1)] by (simp add: small_buffer_def)
  from fini_message_packet [OF assms(1) this, of type dup qos retain] that show ?thesis
    by (auto simp: built_def)
qed

text \<open>Growing a message by a block keeps everything the next step needs.\<close>

lemma grownD:
  assumes "grown c xs c'"
  shows "open_msg c'" "body c' = body c @ xs" "msg_length c' = msg_length c + length xs"
    "buffer_length c' = buffer_length c" "message_id c' = message_id c" "conn_ok c'"
    "small_buffer c' = small_buffer c" "built c' p d = built c p d" "fits c' ys = fits c ys"
  using assms open_msgD(1) [of c'] by (simp_all add: grown_def small_buffer_def built_def fits_def)

lemma nonempty_string_terminated:
  "0 \<in> set t \<Longrightarrow> nonempty_string (Some t) = Some (cstr t \<noteq> [])"
  by (cases t) (auto simp: nonempty_string_def cstr_def mem_simps)

lemma built_message_id [simp]: "built (c\<lparr>message_id := k\<rparr>) p d = built c p d"
  by (simp add: built_def)

lemma set_message_id_open [simp]:
  "small_buffer (c\<lparr>message_id := k\<rparr>) = small_buffer c"
  "fits (c\<lparr>message_id := k\<rparr>) xs = fits c xs"
  by (simp_all add: small_buffer_def fits_def)

lemma built_init [simp]: "built (init_message c) p d = built c p d"
  "small_buffer (init_message c) = small_buffer c" "fits (init_message c) xs = fits c xs"
  by (simp_all add: built_def small_buffer_def fits_def)

lemma mqtt_str_length [simp]: "length (mqtt_str s) = length s + 2"
  by (simp add: mqtt_str_def)

lemma mqtt_id_length [simp]: "length (mqtt_id m) = 2"
  by (simp add: mqtt_id_def)

text \<open>Whether a body exceeds the buffer, seen from a message that already holds part of it.\<close>

lemma open_fits:
  "open_msg c \<Longrightarrow> (msg_length c + n \<le> buffer_length c) = (3 + (length (body c) + n) \<le> buffer_length c)"
  using open_msgD [of c] by simp

text \<open>The three stages the builders are made of: a string, an identifier, the fixed header.\<close>

lemma append_cstring_stage:
  assumes "open_msg c" and "0 \<in> set s"
  obtains c' where
    "append_cstring c (Some s) = Some (\<not> fits c (body c @ mqtt_str (cstr s)), c')"
    "open_msg c'" "buffer_length c' = buffer_length c" "message_id c' = message_id c"
    "fits c (body c @ mqtt_str (cstr s)) \<Longrightarrow> body c' = body c @ mqtt_str (cstr s)"
proof (cases "fits c (body c @ mqtt_str (cstr s))")
  case True
  then have "msg_length c + length (mqtt_str (cstr s)) \<le> buffer_length c"
    using open_fits [OF assms(1), of "length (mqtt_str (cstr s))"] by (simp only: fits_def length_append)
  from append_cstring_fits [OF assms this] True that show ?thesis by (auto simp: grown_def)
next
  case False
  then have "msg_length c + length (mqtt_str (cstr s)) > buffer_length c"
    using open_fits [OF assms(1), of "length (mqtt_str (cstr s))"]
    unfolding fits_def length_append by linarith
  from append_cstring_rejects [OF assms(2) this] False assms that show ?thesis by auto
qed

definition used_id :: "mqtt_connection \<Rightarrow> u16 \<Rightarrow> u16" where
  "used_id c mid = (if mid = 0 then fresh_id (message_id c) else mid)"

lemma used_id_nonzero [simp]: "used_id c mid \<noteq> 0"
  by (simp add: used_id_def)

lemma append_message_id_stage:
  assumes "open_msg c"
  obtains c' where
    "append_message_id c mid = Some (if fits c (body c @ mqtt_id (used_id c mid)) then used_id c mid else 0, c')"
    "open_msg c'" "buffer_length c' = buffer_length c"
    "fits c (body c @ mqtt_id (used_id c mid)) \<Longrightarrow> body c' = body c @ mqtt_id (used_id c mid)"
proof -
  obtain cnt where n: "next_message_id mid (message_id c) = (used_id c mid, cnt)"
    by (cases "mid = 0") (auto simp: used_id_def)
  have fit: "fits c (body c @ mqtt_id (used_id c mid)) = (msg_length c + 2 \<le> buffer_length c)"
    using open_fits [OF assms(1), of 2] by (simp only: fits_def length_append mqtt_id_length)
  show ?thesis
  proof (cases "msg_length c + 2 \<le> buffer_length c")
    case True
    from append_message_id_fits [OF assms True n] fit True that show ?thesis
      by (auto simp: grown_def)
  next
    case False
    then have "append_message_id c mid = Some (0, c\<lparr>message_id := cnt\<rparr>)"
      using append_message_id_full [of c mid] n by simp
    with that [of "c\<lparr>message_id := cnt\<rparr>"] fit False assms show ?thesis by simp
  qed
qed

text \<open>The result of a builder on a body: the packet, or the empty message when it has no room.\<close>

definition yields ::
    "mqtt_connection \<Rightarrow> mqtt_message_type \<Rightarrow> int \<Rightarrow> int \<Rightarrow> bytes \<Rightarrow> mqtt_connection \<Rightarrow> bool" where
  "yields c type qos retain xs c' \<longleftrightarrow>
     built c (if fits c xs then packet type 0 qos retain xs else []) c'"

lemma yields_fail:
  "\<not> fits c xs \<Longrightarrow> conn_ok d \<Longrightarrow> buffer_length d = buffer_length c \<Longrightarrow>
    yields c type qos retain xs (fail_message d)"
  by (simp add: yields_def built_def)

lemma fits_append: "fits c (xs @ ys) \<Longrightarrow> fits c xs"
  by (simp add: fits_def)

lemma fini_message_yields:
  assumes "open_msg c'" and "small_buffer c" and "buffer_length c' = buffer_length c" and "body c' = xs"
  obtains d where "fini_message c' type 0 qos retain = Some d" "yields c type qos retain xs d"
proof -
  have "fits c xs" using open_fits [OF assms(1), of 0] open_msgD(3) [OF assms(1)] assms
    by (simp add: fits_def)
  moreover have "small_buffer c'" using assms by (simp add: small_buffer_def)
  ultimately show ?thesis
    using fini_message_built [OF assms(1), of type 0 qos retain] that assms
    by (auto simp: yields_def built_def)
qed

subsection \<open>The builders\<close>

text \<open>\<open>mqtt_msg_publish\<close>: the identifier it uses and the body of its packet.\<close>

definition publish_id :: "mqtt_connection \<Rightarrow> int \<Rightarrow> u16" where
  "publish_id c qos = (if qos > 0 then fresh_id (message_id c) else 0)"

definition publish_body :: "bytes \<Rightarrow> int \<Rightarrow> u16 \<Rightarrow> bytes \<Rightarrow> bytes" where
  "publish_body topic qos mid data =
     mqtt_str topic @ (if qos > 0 then mqtt_id mid else []) @ data"

lemma publish_id_stage:
  assumes "open_msg c"
  obtains c' where
    "(if qos > 0 then append_message_id c 0 else Some (0, c)) =
       Some (if qos > 0 \<and> \<not> fits c (body c @ mqtt_id (publish_id c qos)) then 0 else publish_id c qos, c')"
    "open_msg c'" "buffer_length c' = buffer_length c"
    "(qos > 0 \<longrightarrow> fits c (body c @ mqtt_id (publish_id c qos))) \<Longrightarrow>
       body c' = body c @ (if qos > 0 then mqtt_id (publish_id c qos) else [])"
proof (cases "qos > 0")
  case True
  then have id: "used_id c 0 = publish_id c qos" by (simp add: used_id_def publish_id_def)
  obtain c' where "append_message_id c 0 =
      Some (if fits c (body c @ mqtt_id (publish_id c qos)) then publish_id c qos else 0, c')"
    "open_msg c'" "buffer_length c' = buffer_length c"
    "fits c (body c @ mqtt_id (publish_id c qos)) \<Longrightarrow> body c' = body c @ mqtt_id (publish_id c qos)"
    using append_message_id_stage [OF assms, of 0] unfolding id by metis
  with True that [of c'] show ?thesis by simp
next
  case False
  with that [of c] assms show ?thesis by (simp add: publish_id_def)
qed

lemma publish_payload:
  assumes "open_msg c'" and "small_buffer c" and "buffer_length c' = buffer_length c"
  obtains d where
    "(if int (msg_length c') + int (length data) > int (buffer_length c')
      then Some (fail_message c', mid)
      else do { c \<leftarrow> put_block c' data (length data);
                c \<leftarrow> fini_message c MQTT_MSG_TYPE_PUBLISH 0 qos retain;
                Some (c, mid) }) = Some (d, mid)"
    "yields c MQTT_MSG_TYPE_PUBLISH qos retain (body c' @ data) d"
proof (cases "msg_length c' + length data \<le> buffer_length c'")
  case True
  then obtain c3 where c3: "put_block c' data (length data) = Some c3" "grown c' data c3"
    using put_block_grown [OF assms(1), of "length data" data] by auto
  note g3 = grownD [OF c3(2)]
  obtain d where "fini_message c3 MQTT_MSG_TYPE_PUBLISH 0 qos retain = Some d"
    "yields c MQTT_MSG_TYPE_PUBLISH qos retain (body c' @ data) d"
    using fini_message_yields [of c3 c "body c' @ data"] g3 assms by metis
  with that [of d] True c3(1) show ?thesis by simp
next
  case False
  then have "\<not> fits c (body c' @ data)"
    using open_fits [OF assms(1), of "length data"] assms(3) by (simp add: fits_def)
  with that [of "fail_message c'"] False yields_fail open_msgD(1) [OF assms(1)] assms(3)
  show ?thesis by auto
qed

lemma publish_spec:
  assumes c: "conn_ok c" "small_buffer c" and t: "0 \<in> set t" "cstr t \<noteq> []"
  shows "\<exists>c' mid. mqtt_msg_publish c (Some t) data (int (length data)) qos retain m = Some (c', mid) \<and>
    yields c MQTT_MSG_TYPE_PUBLISH qos retain
      (publish_body (cstr t) qos (publish_id c qos) data) c' \<and>
    (fits c (publish_body (cstr t) qos (publish_id c qos) data) \<longrightarrow> mid = publish_id c qos)"
    (is "\<exists>c' mid. ?run = _ \<and> yields c ?T qos retain ?xs c' \<and> _")
proof -
  note pub = mqtt_msg_publish_def Let_def nonempty_string_terminated [OF t(1)]
  let ?c0 = "init_message c" and ?s = "mqtt_str (cstr t)" and ?id = "publish_id c qos"
  have o0: "open_msg ?c0" using c by simp
  obtain c1 where c1: "append_cstring ?c0 (Some t) = Some (\<not> fits c ?s, c1)" "open_msg c1"
    "buffer_length c1 = buffer_length c" "message_id c1 = message_id c" "fits c ?s \<Longrightarrow> body c1 = ?s"
    using append_cstring_stage [OF o0 t(1)] by auto
  have id: "publish_id c1 qos = ?id" using c1(4) by (simp add: publish_id_def)
  have fit: "fits c1 ys = fits c ys" for ys using c1(3) by (simp add: fits_def)
  obtain c2 where c2: "(if qos > 0 then append_message_id c1 0 else Some (0, c1)) =
       Some (if qos > 0 \<and> \<not> fits c (body c1 @ mqtt_id ?id) then 0 else ?id, c2)"
    "open_msg c2" "buffer_length c2 = buffer_length c"
    "(qos > 0 \<longrightarrow> fits c (body c1 @ mqtt_id ?id)) \<Longrightarrow>
       body c2 = body c1 @ (if qos > 0 then mqtt_id ?id else [])"
    using publish_id_stage [OF c1(2), of qos] c1(3) unfolding id fit by metis
  consider "\<not> fits c ?s" | "fits c ?s" "qos > 0" "\<not> fits c (?s @ mqtt_id ?id)"
    | "fits c ?s" "qos > 0 \<longrightarrow> fits c (?s @ mqtt_id ?id)" by blast
  then show ?thesis
  proof cases
    case 1
    then have "?run = Some (fail_message c1, m)" using t(2) c1(1) by (simp add: pub)
    moreover have "\<not> fits c ?xs" using 1 fits_append unfolding publish_body_def by blast
    ultimately show ?thesis using yields_fail c1(3) open_msgD(1) [OF c1(2)] by blast
  next
    case 2
    then have "?run = Some (fail_message c2, 0)" using t(2) c1(1,5) c2(1) by (simp add: pub)
    moreover have "\<not> fits c ?xs"
      using 2(2,3) fits_append [of c "?s @ mqtt_id ?id" data] by (auto simp: publish_body_def)
    ultimately show ?thesis using yields_fail c2(3) open_msgD(1) [OF c2(2)] by blast
  next
    case 3
    then have b: "body c2 @ data = ?xs" using c1(5) c2(4) by (simp add: publish_body_def)
    have nz: "(qos > 0 \<and> ?id = 0) = False" by (simp add: publish_id_def)
    have a: "append_cstring ?c0 (Some t) = Some (False, c1)" using c1(1) 3(1) by simp
    have i: "(if qos > 0 then append_message_id c1 0 else Some (0, c1)) = Some (?id, c2)"
    proof -
      have "\<not> (qos > 0 \<and> \<not> fits c (body c1 @ mqtt_id ?id))"
        unfolding c1(5) [OF 3(1)] using 3(2) by blast
      from c2(1) [unfolded if_not_P [OF this]] show ?thesis .
    qed
    have run: "?run = (if int (msg_length c2) + int (length data) > int (buffer_length c2)
      then Some (fail_message c2, ?id)
      else do { c \<leftarrow> put_block c2 data (length data);
                c \<leftarrow> fini_message c MQTT_MSG_TYPE_PUBLISH 0 qos retain;
                Some (c, ?id) })"
      by (simp add: pub a i nz t(2))
    obtain d where d: "?run = Some (d, ?id)" "yields c ?T qos retain ?xs d"
      using publish_payload [OF c2(2) c(2) c2(3), of data ?id qos retain] unfolding run b by metis
    then show ?thesis by blast
  qed
qed

lemma ack_spec:
  assumes c: "conn_ok c" "small_buffer c"
  shows "\<exists>c'. mqtt_msg_ack c mid type qos = Some c' \<and>
    yields c type qos 0 (mqtt_id (used_id c mid)) c'"
proof -
  let ?c0 = "init_message c" and ?id = "used_id c mid"
  have o0: "open_msg ?c0" and id: "used_id ?c0 mid = ?id" using c by (simp_all add: used_id_def)
  obtain c1 where c1: "append_message_id ?c0 mid = Some (if fits c (mqtt_id ?id) then ?id else 0, c1)"
    "open_msg c1" "buffer_length c1 = buffer_length c" "fits c (mqtt_id ?id) \<Longrightarrow> body c1 = mqtt_id ?id"
    using append_message_id_stage [OF o0, of mid] unfolding id by auto
  show ?thesis
  proof (cases "fits c (mqtt_id ?id)")
    case True
    obtain d where "fini_message c1 type 0 qos 0 = Some d" "yields c type qos 0 (mqtt_id ?id) d"
      using fini_message_yields [OF c1(2) c(2) c1(3) c1(4) [OF True], of type qos 0] by metis
    with True c1(1) show ?thesis by (simp add: mqtt_msg_ack_def)
  next
    case False
    then have "mqtt_msg_ack c mid type qos = Some (fail_message c1)"
      using c1(1) by (simp add: mqtt_msg_ack_def)
    with yields_fail [OF False open_msgD(1) [OF c1(2)] c1(3)] show ?thesis by blast
  qed
qed

lemma ping_spec:
  assumes "conn_ok c" and "small_buffer c"
  shows "\<exists>c'. fini_message (init_message c) type 0 0 0 = Some c' \<and> yields c type 0 0 [] c'"
  using fini_message_yields [of "init_message c" c "[]" type 0 0] assms by auto

text \<open>Both subscription requests start with a fresh identifier and the topic.\<close>

lemma topic_stage:
  assumes c: "conn_ok c" and t: "0 \<in> set t"
  obtains c1 c2 where
    "append_message_id (init_message c) 0 =
       Some (if fits c (mqtt_id (used_id c 0)) then used_id c 0 else 0, c1)"
    "open_msg c1" "buffer_length c1 = buffer_length c"
    "fits c (mqtt_id (used_id c 0)) \<longrightarrow> append_cstring c1 (Some t) =
       Some (\<not> fits c (mqtt_id (used_id c 0) @ mqtt_str (cstr t)), c2)"
    "open_msg c2" "buffer_length c2 = buffer_length c"
    "fits c (mqtt_id (used_id c 0) @ mqtt_str (cstr t)) \<longrightarrow>
       body c2 = mqtt_id (used_id c 0) @ mqtt_str (cstr t)"
proof -
  let ?c0 = "init_message c" and ?id = "used_id c 0"
  have o0: "open_msg ?c0" and id: "used_id ?c0 0 = ?id" using c by (simp_all add: used_id_def)
  obtain c1 where c1: "append_message_id ?c0 0 = Some (if fits c (mqtt_id ?id) then ?id else 0, c1)"
    "open_msg c1" "buffer_length c1 = buffer_length c" "fits c (mqtt_id ?id) \<Longrightarrow> body c1 = mqtt_id ?id"
    using append_message_id_stage [OF o0, of 0] unfolding id by auto
  have fit: "fits c1 ys = fits c ys" for ys using c1(3) by (simp add: fits_def)
  obtain c2 where c2: "append_cstring c1 (Some t) = Some (\<not> fits c (body c1 @ mqtt_str (cstr t)), c2)"
    "open_msg c2" "buffer_length c2 = buffer_length c1"
    "fits c (body c1 @ mqtt_str (cstr t)) \<Longrightarrow> body c2 = body c1 @ mqtt_str (cstr t)"
    using append_cstring_stage [OF c1(2) t] unfolding fit by metis
  from c2 c1(4) fits_append [of c "mqtt_id ?id" "mqtt_str (cstr t)"]
  show ?thesis by (intro that [OF c1(1-3), of c2]) (simp_all add: c1(3))
qed

lemma subscribe_spec:
  assumes c: "conn_ok c" "small_buffer c" and t: "0 \<in> set t" "cstr t \<noteq> []"
  shows "\<exists>c' mid. mqtt_msg_subscribe c (Some t) qos m = Some (c', mid) \<and>
    yields c MQTT_MSG_TYPE_SUBSCRIBE 1 0
      (mqtt_id (used_id c 0) @ mqtt_str (cstr t) @ [word_of_int qos]) c'"
    (is "\<exists>c' mid. ?run = _ \<and> yields c ?T 1 0 ?xs c'")
proof -
  note sub = mqtt_msg_subscribe_def Let_def nonempty_string_terminated [OF t(1)]
  let ?id = "mqtt_id (used_id c 0)" and ?s = "mqtt_str (cstr t)"
  obtain c1 c2 where 1: "append_message_id (init_message c) 0 =
      Some (if fits c ?id then used_id c 0 else 0, c1)" "open_msg c1" "buffer_length c1 = buffer_length c"
    and 2: "fits c ?id \<longrightarrow> append_cstring c1 (Some t) = Some (\<not> fits c (?id @ ?s), c2)"
      "open_msg c2" "buffer_length c2 = buffer_length c" "fits c (?id @ ?s) \<longrightarrow> body c2 = ?id @ ?s"
    using topic_stage [OF c(1) t(1)] by metis
  note ok = open_msgD(1) [OF 1(2)] open_msgD(1) [OF 2(2)]
  consider "\<not> fits c ?id" | "fits c ?id" "\<not> fits c (?id @ ?s)"
    | "fits c (?id @ ?s)" "fits c ?id" using fits_append by blast
  then show ?thesis
  proof cases
    case c1: 1
    then have "?run = Some (fail_message c1, 0)" using t(2) 1(1) by (simp add: sub)
    moreover have "\<not> fits c ?xs" using c1 fits_append by blast
    ultimately show ?thesis using yields_fail ok(1) 1(3) by blast
  next
    case c2: 2
    then have "?run = Some (fail_message c2, used_id c 0)"
      using t(2) 1(1) 2(1) by (simp add: sub)
    moreover have "\<not> fits c ?xs" using c2 fits_append [of c "?id @ ?s"] by auto
    ultimately show ?thesis using yields_fail ok(2) 2(3) by blast
  next
    case 3
    have fit: "fits c ?xs = (msg_length c2 + 1 \<le> buffer_length c2)"
      using open_fits [OF 2(2), of 1] unfolding 2(4) [rule_format, OF 3(1)] 2(3) by (simp add: fits_def)
    have run: "?run = (if msg_length c2 + 1 > buffer_length c2 then Some (fail_message c2, used_id c 0)
      else do { d \<leftarrow> put_byte c2 (word_of_int qos);
                d \<leftarrow> fini_message d MQTT_MSG_TYPE_SUBSCRIBE 0 1 0; Some (d, used_id c 0) })"
      using t(2) 3 1(1) 2(1) by (simp add: sub)
    show ?thesis
    proof (cases "fits c ?xs")
      case True
      then obtain c3 where c3: "put_byte c2 (word_of_int qos) = Some c3" "grown c2 [word_of_int qos] c3"
        using put_byte_grown [OF 2(2)] fit by auto
      note g = grownD [OF c3(2)]
      have "body c3 = ?xs" using g(2) 2(4) [rule_format, OF 3(1)] by simp
      with fini_message_yields [OF g(1) c(2), of ?xs ?T 1 0] g(4) 2(3)
      obtain d where "fini_message c3 ?T 0 1 0 = Some d" "yields c ?T 1 0 ?xs d" by metis
      with run c3(1) True fit show ?thesis by simp
    next
      case False
      with run fit yields_fail [OF False ok(2) 2(3)] show ?thesis by auto
    qed
  qed
qed

lemma unsubscribe_spec:
  assumes c: "conn_ok c" "small_buffer c" and t: "0 \<in> set t" "cstr t \<noteq> []"
  shows "\<exists>c' mid. mqtt_msg_unsubscribe c (Some t) m = Some (c', mid) \<and>
    yields c MQTT_MSG_TYPE_UNSUBSCRIBE 1 0 (mqtt_id (used_id c 0) @ mqtt_str (cstr t)) c'"
    (is "\<exists>c' mid. ?run = _ \<and> yields c ?T 1 0 ?xs c'")
proof -
  note sub = mqtt_msg_unsubscribe_def Let_def nonempty_string_terminated [OF t(1)]
  let ?id = "mqtt_id (used_id c 0)" and ?s = "mqtt_str (cstr t)"
  obtain c1 c2 where 1: "append_message_id (init_message c) 0 =
      Some (if fits c ?id then used_id c 0 else 0, c1)" "open_msg c1" "buffer_length c1 = buffer_length c"
    and 2: "fits c ?id \<longrightarrow> append_cstring c1 (Some t) = Some (\<not> fits c (?id @ ?s), c2)"
      "open_msg c2" "buffer_length c2 = buffer_length c" "fits c (?id @ ?s) \<longrightarrow> body c2 = ?id @ ?s"
    using topic_stage [OF c(1) t(1)] by metis
  note ok = open_msgD(1) [OF 1(2)] open_msgD(1) [OF 2(2)]
  consider "\<not> fits c ?id" | "fits c ?id" "\<not> fits c (?id @ ?s)"
    | "fits c (?id @ ?s)" "fits c ?id" using fits_append by blast
  then show ?thesis
  proof cases
    case c1: 1
    then have "?run = Some (fail_message c1, 0)" using t(2) 1(1) by (simp add: sub)
    moreover have "\<not> fits c ?xs" using c1 fits_append by blast
    ultimately show ?thesis using yields_fail ok(1) 1(3) by blast
  next
    case c2: 2
    then have "?run = Some (fail_message c2, used_id c 0)" using t(2) 1(1) 2(1) by (simp add: sub)
    with yields_fail [OF c2(2) ok(2) 2(3)] show ?thesis by blast
  next
    case 3
    obtain d where "fini_message c2 ?T 0 1 0 = Some d" "yields c ?T 1 0 ?xs d"
      using fini_message_yields [OF 2(2) c(2) 2(3) 2(4) [rule_format, OF 3(1)], of ?T 1 0] by metis
    with t(2) 3 1(1) 2(1) show ?thesis by (simp add: sub)
  qed
qed

subsection \<open>CONNECT\<close>

text \<open>
  The connect packet, from MQTT: the variable header with all flags set, then the strings
  the flags announce. A string that is \<open>NULL\<close> or empty is absent.
\<close>

definition opt_str :: "bytes option \<Rightarrow> bytes" where
  "opt_str s = (case s of None \<Rightarrow> [] | Some s \<Rightarrow> cstr s)"

definition str_ok :: "bytes option \<Rightarrow> bool" where
  "str_ok s \<longleftrightarrow> (case s of None \<Rightarrow> True | Some s \<Rightarrow> 0 \<in> set s)"

definition will_flags :: "mqtt_connect_info \<Rightarrow> u8" where
  "will_flags info = 4 OR (if will_retain info \<noteq> 0 then 32 else 0) OR
     word_of_int (push_bit 3 (will_qos info AND 3))"

definition connect_flags :: "mqtt_connect_info \<Rightarrow> u8" where
  "connect_flags info =
     (if clean_session info \<noteq> 0 then 2 else 0) OR
     (if opt_str (will_topic info) \<noteq> [] then will_flags info else 0) OR
     (if opt_str (username info) \<noteq> [] then 128 else 0) OR
     (if opt_str (password info) \<noteq> [] then 64 else 0)"

definition opt_field :: "bytes option \<Rightarrow> bytes" where
  "opt_field s = (if opt_str s \<noteq> [] then mqtt_str (opt_str s) else [])"

definition will_fields :: "mqtt_connect_info \<Rightarrow> bytes" where
  "will_fields info = (if opt_str (will_topic info) \<noteq> []
     then mqtt_str (opt_str (will_topic info)) @ mqtt_str (opt_str (will_message info)) else [])"

definition connect_body :: "protocol_name \<Rightarrow> mqtt_connect_info \<Rightarrow> bytes" where
  "connect_body p info = connect_header p (keepalive info) (connect_flags info) @
     mqtt_str (opt_str (client_id info)) @ will_fields info @
     opt_field (username info) @ opt_field (password info)"

text \<open>What \<open>mqtt_msg_connect\<close> requires of its argument.\<close>

definition info_ok :: "mqtt_connect_info \<Rightarrow> bool" where
  "info_ok info \<longleftrightarrow> str_ok (client_id info) \<and> str_ok (will_topic info) \<and>
     str_ok (will_message info) \<and> str_ok (username info) \<and> str_ok (password info) \<and>
     (opt_str (will_topic info) \<noteq> [] \<longrightarrow> will_message info \<noteq> None)"

text \<open>Setting flag bits in place, and what a stage of the function does.\<close>

definition or_at :: "nat \<Rightarrow> u8 \<Rightarrow> bytes \<Rightarrow> bytes" where
  "or_at k m b = b[k := b ! k OR m]"

lemma or_at_simps [simp]:
  "length (or_at k m b) = length b"
  "or_at k 0 b = b"
  "k < length b \<Longrightarrow> or_at k m (or_at k n b) = or_at k (n OR m) b"
  "k < length b \<Longrightarrow> or_at k m (b @ xs) = or_at k m b @ xs"
  by (simp_all add: or_at_def nth_append list_update_append or.assoc)

definition flags_pos :: "protocol_name \<Rightarrow> nat" where
  "flags_pos p = connect_flags_at p - 3"

lemma connect_flags_at_pos: "connect_flags_at p = flags_pos p + 3"
  by (cases p) (simp_all add: flags_pos_def MQTT_MAX_FIXED_HEADER_SIZE_def)

lemma or_at_header: "or_at (flags_pos p) m (connect_header p ka f) = connect_header p ka (f OR m)"
  by (cases p) (simp_all add: or_at_def flags_pos_def MQTT_MAX_FIXED_HEADER_SIZE_def numeral_eq_Suc)

lemma flags_pos_header: "flags_pos p < length (connect_header p ka f)"
  by (cases p) (simp_all add: flags_pos_def MQTT_MAX_FIXED_HEADER_SIZE_def)

definition stage ::
    "protocol_name \<Rightarrow> mqtt_connection \<Rightarrow> u8 \<Rightarrow> bytes \<Rightarrow> (bool \<times> mqtt_connection) option \<Rightarrow> bool" where
  "stage p c m xs r \<longleftrightarrow> (\<exists>c'. r = Some (\<not> fits c (body c @ xs), c') \<and> open_msg c' \<and>
     buffer_length c' = buffer_length c \<and>
     (fits c (body c @ xs) \<longrightarrow> body c' = or_at (flags_pos p) m (body c) @ xs))"

definition at_flags :: "protocol_name \<Rightarrow> mqtt_connection \<Rightarrow> bool" where
  "at_flags p c \<longleftrightarrow> open_msg c \<and> flags_pos p < length (body c)"

lemma open_fits_body: "open_msg c \<Longrightarrow> fits c (body c)"
  using open_fits [of c 0] open_msgD(3) [of c] by (simp add: fits_def)

lemma stage_nothing: "open_msg c \<Longrightarrow> stage p c 0 [] (Some (False, c))"
  using open_fits_body [of c] by (simp add: stage_def)

lemma stage_string:
  assumes "at_flags p c" and "str_ok s" and "s \<noteq> None"
  shows "stage p c 0 (mqtt_str (opt_str s)) (append_cstring c s)"
proof -
  obtain t where t: "s = Some t" "0 \<in> set t" using assms by (auto simp: str_ok_def)
  have "open_msg c" using assms by (simp add: at_flags_def)
  from append_cstring_stage [OF this t(2)] obtain c' where
    "append_cstring c (Some t) = Some (\<not> fits c (body c @ mqtt_str (cstr t)), c')"
    "open_msg c'" "buffer_length c' = buffer_length c"
    "fits c (body c @ mqtt_str (cstr t)) \<longrightarrow> body c' = body c @ mqtt_str (cstr t)" by metis
  then show ?thesis unfolding t(1) by (simp add: stage_def opt_str_def)
qed

lemma or_flags_stage:
  assumes "at_flags p c"
  obtains c' where "or_flags p c m = Some c'" "open_msg c'" "buffer_length c' = buffer_length c"
    "body c' = or_at (flags_pos p) m (body c)" "msg_length c' = msg_length c"
proof -
  have o: "open_msg c" and k: "flags_pos p + 3 < msg_length c"
    using assms by (auto simp: at_flags_def)
  note c = open_msgD [OF o]
  let ?b = "(buffer c)[flags_pos p + 3 := buffer c ! (flags_pos p + 3) OR m]"
  have "or_flags p c m = Some (c\<lparr>buffer := ?b\<rparr>)"
    using k c by (simp add: or_flags_def connect_flags_at_pos mem_simps)
  moreover have "body (c\<lparr>buffer := ?b\<rparr>) = or_at (flags_pos p) m (body c)"
    using k c by (simp add: body_def or_at_def drop_update_swap take_update_swap add.commute)
  moreover have "open_msg (c\<lparr>buffer := ?b\<rparr>)" using o by (simp add: open_msg_def conn_ok_def)
  ultimately show ?thesis using that by simp
qed

lemma or_flags_after:
  assumes "stage p c 0 xs r" and "at_flags p c"
  shows "stage p c m xs (and_then r (\<lambda>c. do { c \<leftarrow> or_flags p c m; Some (False, c) }))"
proof -
  obtain c' where c': "r = Some (\<not> fits c (body c @ xs), c')" "open_msg c'"
    "buffer_length c' = buffer_length c" "fits c (body c @ xs) \<longrightarrow> body c' = body c @ xs"
    using assms(1) by (auto simp: stage_def)
  show ?thesis
  proof (cases "fits c (body c @ xs)")
    case True
    then have "at_flags p c'" and k: "flags_pos p < length (body c)"
      using c' assms(2) by (simp_all add: at_flags_def del: open_msg_length_body)
    from or_flags_stage [OF this(1), of m] obtain d where "or_flags p c' m = Some d" "open_msg d"
      "buffer_length d = buffer_length c'" "body d = or_at (flags_pos p) m (body c')" by metis
    with True c' k show ?thesis by (simp add: stage_def and_then_def)
  next
    case False
    with c' show ?thesis by (simp add: stage_def and_then_def)
  qed
qed

lemma and_then_stage:
  assumes r: "stage p c m xs r" and c: "at_flags p c"
    and f: "\<And>d. at_flags p d \<Longrightarrow> buffer_length d = buffer_length c \<Longrightarrow> stage p d n ys (f d)"
  shows "stage p c (m OR n) (xs @ ys) (and_then r f)"
proof -
  obtain c' where c': "r = Some (\<not> fits c (body c @ xs), c')" "open_msg c'"
    "buffer_length c' = buffer_length c"
    "fits c (body c @ xs) \<longrightarrow> body c' = or_at (flags_pos p) m (body c) @ xs"
    using r by (auto simp: stage_def)
  show ?thesis
  proof (cases "fits c (body c @ xs)")
    case True
    with c' c have b: "body c' = or_at (flags_pos p) m (body c) @ xs" and at: "at_flags p c'"
      and k: "flags_pos p < length (body c)"
      by (simp_all add: at_flags_def del: open_msg_length_body)
    have fit: "fits c' (body c' @ ys) = fits c (body c @ xs @ ys)"
      using b c'(3) by (simp add: fits_def)
    from f [OF at c'(3)] obtain d where "f c' = Some (\<not> fits c (body c @ xs @ ys), d)" "open_msg d"
      "buffer_length d = buffer_length c"
      "fits c (body c @ xs @ ys) \<longrightarrow> body d = or_at (flags_pos p) n (body c') @ ys"
      unfolding stage_def fit using c'(3) by auto
    with True c' b k show ?thesis by (simp add: stage_def and_then_def)
  next
    case False
    then have "\<not> fits c (body c @ xs @ ys)" using fits_append [of c "body c @ xs" ys] by auto
    with False c' show ?thesis by (simp add: stage_def and_then_def)
  qed
qed

lemma opt_str_None [simp]: "opt_str None = []"
  by (simp add: opt_str_def)

lemma opt_str_present: "opt_str s \<noteq> [] \<Longrightarrow> s \<noteq> None"
  by (cases s) simp_all

lemma nonempty_string_ok: "str_ok s \<Longrightarrow> nonempty_string s = Some (opt_str s \<noteq> [])"
  using nonempty_string_terminated
  by (cases s) (simp_all add: str_ok_def opt_str_def nonempty_string_def)

lemma stage_credential:
  assumes "at_flags p c" and "str_ok s"
  shows "stage p c (if opt_str s \<noteq> [] then m else 0) (opt_field s) (connect_credential p s m c)"
proof (cases "opt_str s = []")
  case True
  then show ?thesis
    using assms stage_nothing [of c p]
    by (simp add: connect_credential_def nonempty_string_ok opt_field_def at_flags_def)
next
  case False
  then have "s \<noteq> None" by (rule opt_str_present)
  from or_flags_after [OF stage_string [OF assms this] assms(1), of m] False show ?thesis
    by (simp add: connect_credential_def nonempty_string_ok [OF assms(2)] and_then_def opt_field_def)
qed

lemma stage_client_id:
  assumes "at_flags p c" and "str_ok (client_id info)" and "opt_str (client_id info) \<noteq> []"
  shows "stage p c 0 (mqtt_str (opt_str (client_id info))) (connect_client_id p info c)"
proof -
  obtain s where s: "client_id info = Some s" using assms(3) by (cases "client_id info") (auto simp: opt_str_def)
  then obtain x xs where "s = x # xs" "x \<noteq> 0"
    using assms(3) by (cases s) (auto simp: opt_str_def cstr_def split: if_splits)
  then have "connect_client_id p info c = append_cstring c (client_id info)"
    by (simp add: connect_client_id_def s mem_simps)
  with stage_string [OF assms(1,2)] s show ?thesis by simp
qed

text \<open>The will stage: its flag updates are one update.\<close>

lemma will_flag_updates:
  assumes "at_flags p c"
  shows "do { c \<leftarrow> or_flags p c 4;
      c \<leftarrow> (if will_retain info \<noteq> 0 then or_flags p c 32 else Some c);
      c \<leftarrow> or_flags p c (word_of_int (push_bit 3 (will_qos info AND 3)));
      Some (False, c) }
    = do { c \<leftarrow> or_flags p c (will_flags info); Some (False, c) }"
proof -
  have k: "connect_flags_at p < length (buffer c)"
    using assms open_msgD [of c] unfolding at_flags_def connect_flags_at_pos
    by (metis add.commute length_drop less_diff_conv less_le_trans length_take min.cobounded1
        min.cobounded2 body_def)
  then have step: "or_flags p (c\<lparr>buffer := b\<rparr>) m =
      Some (c\<lparr>buffer := b[connect_flags_at p := b ! connect_flags_at p OR m]\<rparr>)"
    if "length b = length (buffer c)" for b m
    using that by (simp add: or_flags_def mem_simps)
  have "or_flags p c m = Some (c\<lparr>buffer := (buffer c)[connect_flags_at p :=
      buffer c ! connect_flags_at p OR m]\<rparr>)" for m
    using step [of "buffer c" m] by simp
  moreover have "4 OR 32 OR x = 36 OR x" for x :: u8
    unfolding or.assoc [symmetric] by simp
  ultimately show ?thesis using step k by (simp add: will_flags_def or.assoc)
qed

lemma and_then_Some: "and_then (Some (b, d)) R = (if b then Some (True, d) else R d)"
  by (simp add: and_then_def)

lemma and_then_two:
  "and_then (and_then A B) R = do { (failed, c) \<leftarrow> A;
     if failed then Some (True, c) else do { (failed, c) \<leftarrow> B c; if failed then Some (True, c) else R c } }"
  by (cases A) (simp_all add: and_then_def split: prod.split)

lemma stage_will:
  assumes "at_flags p c" and "info_ok info"
  shows "stage p c (if opt_str (will_topic info) \<noteq> [] then will_flags info else 0)
    (will_fields info) (connect_will p info c)"
proof (cases "opt_str (will_topic info) = []")
  case True
  with assms stage_nothing [of c p] show ?thesis
    by (simp add: connect_will_def nonempty_string_ok will_fields_def info_ok_def at_flags_def)
next
  case False
  then have t: "will_topic info \<noteq> None" "will_message info \<noteq> None" "str_ok (will_topic info)"
      "str_ok (will_message info)"
    using assms(2) opt_str_present [OF False] by (simp_all add: info_ok_def)
  let ?two = "and_then (append_cstring c (will_topic info)) (\<lambda>d. append_cstring d (will_message info))"
  have two: "stage p c 0 (will_fields info) ?two"
    using and_then_stage [OF stage_string [OF assms(1) t(3,1)] assms(1) stage_string [OF _ t(4,2)]] False
    by (simp add: will_fields_def)
  obtain d where d: "?two = Some (\<not> fits c (body c @ will_fields info), d)" "open_msg d"
    "fits c (body c @ will_fields info) \<longrightarrow> body d = body c @ will_fields info"
    using two by (auto simp: stage_def)
  have at: "at_flags p d" if "fits c (body c @ will_fields info)"
    using that d assms(1) by (simp add: at_flags_def del: open_msg_length_body)
  have "connect_will p info c = and_then ?two (\<lambda>c. do { c \<leftarrow> or_flags p c 4;
      c \<leftarrow> (if will_retain info \<noteq> 0 then or_flags p c 32 else Some c);
      c \<leftarrow> or_flags p c (word_of_int (push_bit 3 (will_qos info AND 3)));
      Some (False, c) })"
    unfolding connect_will_def nonempty_string_ok [OF t(3)] Option.bind.simps and_then_two [symmetric]
    using False by (simp only: not_False_eq_True not_True_eq_False if_False)
  also have "\<dots> = and_then ?two (\<lambda>c. do { c \<leftarrow> or_flags p c (will_flags info); Some (False, c) })"
    using will_flag_updates [OF at, of info]
    by (cases "fits c (body c @ will_fields info)") (simp_all only: d(1) and_then_Some
      not_False_eq_True not_True_eq_False if_True if_False)
  finally show ?thesis using or_flags_after [OF two assms(1), of "will_flags info"] False by simp
qed

lemma connect_spec:
  assumes c: "conn_ok c" "small_buffer c" and i: "info_ok info" "opt_str (client_id info) \<noteq> []"
  shows "\<exists>c'. mqtt_msg_connect p c info = Some c' \<and>
    yields c MQTT_MSG_TYPE_CONNECT 0 0 (connect_body p info) c'"
proof -
  let ?f0 = "if clean_session info \<noteq> 0 then 2 else 0 :: u8"
  let ?c0 = "init_message c" and ?h = "connect_header p (keepalive info) ?f0"
  let ?xs = "mqtt_str (opt_str (client_id info)) @ will_fields info @
     opt_field (username info) @ opt_field (password info)"
  have o0: "open_msg ?c0" using c by simp
  have lh: "length (connect_header p ka f) = length ?h" for ka f by (cases p) simp_all
  show ?thesis
  proof (cases "3 + length ?h \<le> buffer_length c")
    case False
    then have "mqtt_msg_connect p c info = Some (fail_message ?c0)"
      by (simp add: mqtt_msg_connect_def Let_def)
    moreover have "\<not> fits c (connect_body p info)"
      using False lh [of "keepalive info" "connect_flags info"] unfolding fits_def connect_body_def
      by (simp only: length_append)
    ultimately show ?thesis using yields_fail [of c _ ?c0] c by simp
  next
    case True
    then obtain c1 where c1: "put_block ?c0 ?h (length ?h) = Some c1" "grown ?c0 ?h c1"
      using put_block_grown [OF o0, of "length ?h" ?h] by auto
    note g = grownD [OF c1(2), simplified]
    have at: "at_flags p c1" using g flags_pos_header by (simp add: at_flags_def del: open_msg_length_body)
    let ?all = "and_then (and_then (and_then (connect_client_id p info c1) (connect_will p info))
               (connect_credential p (username info) 128)) (connect_credential p (password info) 64)"
    have run: "mqtt_msg_connect p c info = do { (failed, c) \<leftarrow> ?all;
        if failed then Some (fail_message c) else fini_message c MQTT_MSG_TYPE_CONNECT 0 0 0 }"
      using True c1(1) by (simp add: mqtt_msg_connect_def Let_def)
    have ok: "str_ok (client_id info)" "str_ok (username info)" "str_ok (password info)"
      using i(1) by (simp_all add: info_ok_def)
    let ?w = "if opt_str (will_topic info) \<noteq> [] then will_flags info else 0"
    let ?u = "if opt_str (username info) \<noteq> [] then 128 else 0 :: u8"
    let ?pw = "if opt_str (password info) \<noteq> [] then 64 else 0 :: u8"
    have "stage p c1 (((0 OR ?w) OR ?u) OR ?pw) (((mqtt_str (opt_str (client_id info)) @ will_fields info) @
        opt_field (username info)) @ opt_field (password info)) ?all"
      by (intro and_then_stage stage_client_id stage_will stage_credential at ok i)
    then obtain c2 where c2: "?all = Some (\<not> fits c1 (body c1 @ ?xs), c2)" "open_msg c2"
      "buffer_length c2 = buffer_length c1"
      "fits c1 (body c1 @ ?xs) \<longrightarrow> body c2 = or_at (flags_pos p) (?w OR ?u OR ?pw) (body c1) @ ?xs"
      unfolding stage_def by (auto simp: or.assoc)
    have b: "or_at (flags_pos p) (?w OR ?u OR ?pw) (body c1) @ ?xs = connect_body p info"
      unfolding g(2) or_at_header connect_body_def connect_flags_def ..
    have fit: "fits c1 (body c1 @ ?xs) = fits c (connect_body p info)"
      using lh [of "keepalive info" "connect_flags info"]
      unfolding fits_def connect_body_def g(2,4) by (simp only: length_append)
    show ?thesis
    proof (cases "fits c (connect_body p info)")
      case True
      then have "body c2 = connect_body p info" using c2(4) b fit by simp
      then obtain d where "fini_message c2 MQTT_MSG_TYPE_CONNECT 0 0 0 = Some d"
        "yields c MQTT_MSG_TYPE_CONNECT 0 0 (connect_body p info) d"
        using fini_message_yields [OF c2(2) c(2)] c2(3) g(4) by metis
      with run c2(1) fit True show ?thesis by simp
    next
      case False
      with run c2 fit yields_fail [OF False open_msgD(1) [OF c2(2)]] g(4) show ?thesis by simp
    qed
  qed
qed

end
