(* ===== verification/Mqtt_Codec.thy ===== *)
theory Mqtt_Codec
  imports Mqtt_Msg
begin

text \<open>
  What the decoders of \<open>mqtt/mqtt_msg.c\<close> make of the packets that MQTT specifies, and the
  properties of the message component: building never leaves the output buffer, builders
  emit the specified packets, and decoding inverts building.
\<close>

section \<open>Lemmas on decoding\<close>

subsection \<open>The first byte\<close>

lemma and_mods: "t AND 15 = t mod (16 :: int)" "t AND 3 = t mod (4 :: int)" "t AND 1 = t mod (2 :: int)"
  using take_bit_eq_mask [of 4 t] take_bit_eq_mask [of 2 t] take_bit_eq_mask [of 1 t]
  by (simp_all add: mask_eq_exp_minus_1 take_bit_eq_mod)

lemma uint_header_byte:
  "uint (header_byte t d q r) = (t mod 16) * 16 + (d mod 2) * 8 + (q mod 4) * 2 + r mod 2"
proof -
  have lt: "0 \<le> r mod 2" "r mod 2 < 2" "0 \<le> q mod 4" "q mod 4 < 4" "0 \<le> d mod 2" "d mod 2 < 2"
    "0 \<le> t mod 16" "t mod 16 < 16" by simp_all
  let ?q = "(q mod 4) * 2 + r mod 2" and ?d = "(d mod 2) * 8 + ((q mod 4) * 2 + r mod 2)"
  have "push_bit 1 (q mod 4) OR (r mod 2) = ?q" using or_shifted [of "r mod 2" 1] lt by simp
  moreover have "push_bit 3 (d mod 2) OR ?q = ?d" using or_shifted [of ?q 3] lt by simp
  moreover have "push_bit 4 (t mod 16) OR ?d = (t mod 16) * 16 + ?d"
    using or_shifted [of ?d 4] lt by simp
  ultimately have "header_byte t d q r = word_of_int ((t mod 16) * 16 + ?d)"
    unfolding header_byte_def and_mods by (simp only:)
  moreover have "uint (word_of_int x :: u8) = x" if "0 \<le> x" "x < 256" for x
    using that by (simp add: uint_word_of_int)
  moreover have "0 \<le> (t mod 16) * 16 + ?d" "(t mod 16) * 16 + ?d < 256" using lt by linarith+
  ultimately show ?thesis by (simp only: add.assoc)
qed

lemma header_split:
  assumes "D < 2" and "Q < 4" and "R < (2 :: nat)"
  shows "(T * 16 + D * 8 + Q * 2 + R) div 16 = T \<and> (T * 16 + D * 8 + Q * 2 + R) div 8 mod 2 = D \<and>
    (T * 16 + D * 8 + Q * 2 + R) div 2 mod 4 = Q \<and> (T * 16 + D * 8 + Q * 2 + R) mod 2 = R"
proof -
  let ?x = "T * 16 + D * 8 + Q * 2 + R"
  have "?x div 16 = T" "?x div 8 = T * 2 + D" "?x div 2 = (T * 2 + D) * 4 + Q"
    using assms by (auto intro!: div_nat_eqI)
  moreover have "?x mod 2 = R"
    using assms(3) mod_mult_self2 [of R 2 "T * 8 + D * 4 + Q"] by (simp add: algebra_simps)
  moreover have "((T * 2 + D) * 4 + Q) mod 4 = Q" "(T * 2 + D) mod 2 = D"
    using assms by (simp_all only: mod_mult_self3 mod_less)
  ultimately show ?thesis by (simp only: simp_thms)
qed

lemma zero_less_Suc_length: "0 < length (x # xs)"
  by simp

lemma header_byte_fields:
  "mqtt_get_type (header_byte t d q r # bs) = Some (nat (t mod 16))"
  "mqtt_get_dup (header_byte t d q r # bs) = Some (nat (d mod 2))"
  "mqtt_get_qos (header_byte t d q r # bs) = Some (nat (q mod 4))"
  "mqtt_get_retain (header_byte t d q r # bs) = Some (nat (r mod 2))"
proof -
  define T D Q R where "T = nat (t mod 16)" and "D = nat (d mod 2)" and "Q = nat (q mod 4)"
    and "R = nat (r mod 2)"
  have lt: "D < 2" "Q < 4" "R < 2" by (simp_all add: D_def Q_def R_def nat_less_iff)
  have "int (unat (header_byte t d q r)) = int (T * 16 + D * 8 + Q * 2 + R)"
    by (simp add: uint_header_byte T_def D_def Q_def R_def)
  then have u: "unat (header_byte t d q r) = T * 16 + D * 8 + Q * 2 + R" by (simp only: of_nat_eq_iff)
  have "(T * 16 + D * 8 + Q * 2 + R) div 16 = T" "(T * 16 + D * 8 + Q * 2 + R) div 8 mod 2 = D"
    "(T * 16 + D * 8 + Q * 2 + R) div 2 mod 4 = Q" "(T * 16 + D * 8 + Q * 2 + R) mod 2 = R"
    using header_split [OF lt] by simp_all
  then show "mqtt_get_type (header_byte t d q r # bs) = Some (nat (t mod 16))"
    "mqtt_get_dup (header_byte t d q r # bs) = Some (nat (d mod 2))"
    "mqtt_get_qos (header_byte t d q r # bs) = Some (nat (q mod 4))"
    "mqtt_get_retain (header_byte t d q r # bs) = Some (nat (r mod 2))"
    unfolding mqtt_get_type_def mqtt_get_dup_def mqtt_get_qos_def mqtt_get_retain_def
      load_Some [OF zero_less_Suc_length] Option.bind.simps nth_Cons_0
      get_type_bits get_dup_bits get_qos_bits get_retain_bits u
      T_def [symmetric] D_def [symmetric] Q_def [symmetric] R_def [symmetric]
    by simp_all
qed

lemma packet_type [simp]: "mqtt_get_type (packet type d q r xs @ rest) = Some (type_code type)"
  unfolding packet_def append_Cons header_byte_fields by (cases type) simp_all

lemma packet_qos [simp]: "mqtt_get_qos (packet type d q r xs @ rest) = Some (nat (q mod 4))"
  unfolding packet_def append_Cons header_byte_fields ..

subsection \<open>The remaining-length field\<close>

lemma varint_length: "n < 268435456 \<Longrightarrow> 1 \<le> length (varint n) \<and> length (varint n) \<le> 4"
proof -
  assume n: "n < 268435456"
  have "n div 128 < 2097152" "n div 128 div 128 < 16384" "n div 128 div 128 div 128 < 128"
    using n by linarith+
  then show ?thesis
    by (cases "n < 128"; cases "n div 128 < 128"; cases "n div 128 div 128 < 128")
      (simp_all add: varint_small varint_large)
qed

text \<open>
  \<open>j\<close> bytes into the field, at most the fourth: the loops consume the rest of the field and
  add its value.
\<close>

lemma varint_step:
  assumes "128 \<le> n"
  shows "unat (hd (varint n)) = 128 + n mod 128" "varint n = hd (varint n) # varint (n div 128)"
  using assms by (simp_all add: varint_large unat_of_nat del: of_nat_add)

lemma shl32_small:
  assumes "j \<le> 3" and "x * 2 ^ (7 * j) < 2147483648"
  shows "shl32 (int x) (7 * j) = Some (int (x * 2 ^ (7 * j)))"
proof -
  have "push_bit (7 * j) (int x) = int (x * 2 ^ (7 * j))" by (simp add: push_bit_eq_mult)
  moreover have "int (x * 2 ^ (7 * j)) < 2147483648" using assms(2) by linarith
  ultimately show ?thesis using assms(1) unfolding shl32_def by (simp del: of_nat_mult of_nat_power)
qed

lemma add32_small: "x + y < 2147483648 \<Longrightarrow> add32 (int x) (int y) = Some (int (x + y))"
  by (simp add: add32_def)

lemma power_128: "(2 :: nat) ^ 7 = 128"
  by simp

lemma mod_div_scaled: "(n mod 128) * x + (n div 128) * (128 * x) = n * (x :: nat)"
  using arg_cong [OF div_mult_mod_eq [of n 128], of "\<lambda>y. y * x"]
  by (simp only: add_mult_distrib add_mult_distrib2 ac_simps)

lemma and_7F_int: "uint ((x :: u8) AND 0x7F) = int (unat x mod 128)"
  by (simp only: and_7F [symmetric] of_nat_unat)

lemma remaining_loop_step:
  assumes "drop (Suc j) b = varint n @ rest" and "Suc j + length (varint n) \<le> len"
  shows "remaining_loop b len (Suc j) (int tot) = do {
      d \<leftarrow> shl32 (int (unat (hd (varint n)) mod 128)) (7 * j);
      totlen \<leftarrow> add32 (int tot) d;
      if unat (hd (varint n)) < 128 then Some (totlen, Suc (Suc j))
      else remaining_loop b len (Suc (Suc j)) totlen }"
proof -
  have ne: "varint n \<noteq> []" by (subst varint.simps) simp
  have "Suc j < length b"
    using assms(1) ne by (metis append_is_Nil_conv drop_eq_Nil not_le)
  moreover have i: "b ! Suc j = hd (varint n)"
    using assms(1) ne \<open>Suc j < length b\<close> by (metis hd_append2 hd_drop_conv_nth)
  moreover have "Suc j < len" using assms(2) ne by (cases "varint n") auto
  ultimately show ?thesis
    by (subst remaining_loop.simps)
      (simp only: load_Some and_80 and_7F_int if_True Option.bind.simps diff_Suc_Suc diff_zero add_Suc_right
        add_0_right One_nat_def)
qed

lemma scaled_bound:
  assumes "j \<le> 3" and "n < 2 ^ (28 - 7 * j)" and "tot < 2 ^ (7 * j)"
  shows "tot + n * 2 ^ (7 * j) < (268435456 :: nat)"
proof -
  have pw: "(2::nat) ^ (28 - 7 * j) * 2 ^ (7 * j) = 2 ^ 28"
    using assms(1) by (simp add: power_add [symmetric])
  have "(n + 1) * 2 ^ (7 * j) \<le> 2 ^ 28"
    using assms(2) pw by (metis Suc_eq_plus1 Suc_leI mult_le_mono1)
  with assms(3) show ?thesis by simp
qed

lemma remaining_digits:
  assumes "j \<le> 3" and "n < 2 ^ (28 - 7 * j)" and "128 \<le> (n :: nat)"
  shows "Suc j \<le> 3" "n div 128 < 2 ^ (28 - 7 * Suc j)"
proof -
  show j: "Suc j \<le> 3" using assms by (cases "j = 3") simp_all
  have "28 - 7 * j = 7 + (28 - 7 * Suc j)" using j by simp
  then have "(2::nat) ^ (28 - 7 * j) = 2 ^ 7 * 2 ^ (28 - 7 * Suc j)" by (simp only: power_add)
  then have "n < 128 * 2 ^ (28 - 7 * Suc j)" using assms(2) by (simp only: power_128)
  then show "n div 128 < 2 ^ (28 - 7 * Suc j)" by (simp only: less_mult_imp_div_less mult.commute)
qed

text \<open>One digit of the length: neither the shift nor the sum overflows.\<close>

lemma digit_added:
  assumes "j \<le> 3" and "tot + m * 2 ^ (7 * j) < 268435456"
  shows "shl32 (int m) (7 * j) = Some (int (m * 2 ^ (7 * j)))"
    "add32 (int tot) (int (m * 2 ^ (7 * j))) = Some (int (tot + m * 2 ^ (7 * j)))"
proof -
  have "m * 2 ^ (7 * j) < 2147483648" "tot + m * 2 ^ (7 * j) < 2147483648" using assms(2) by linarith+
  then show "shl32 (int m) (7 * j) = Some (int (m * 2 ^ (7 * j)))"
    "add32 (int tot) (int (m * 2 ^ (7 * j))) = Some (int (tot + m * 2 ^ (7 * j)))"
    by - (rule shl32_small [OF assms(1)], assumption, rule add32_small, assumption)
qed

lemma remaining_loop_varint:
  assumes "drop (Suc j) b = varint n @ rest" and "Suc j + length (varint n) \<le> len"
    and "j \<le> 3" and "n < 2 ^ (28 - 7 * j)" and "tot < 2 ^ (7 * j)"
  shows "remaining_loop b len (Suc j) (int tot) =
    Some (int (tot + n * 2 ^ (7 * j)), Suc j + length (varint n))"
  using assms
proof (induction n arbitrary: j tot rule: less_induct)
  case (less n)
  note unf = remaining_loop_step [OF less.prems(1,2), of tot]
  note bound = scaled_bound [OF less.prems(3-5)]
  show ?case
  proof (cases "n < 128")
    case True
    then have h: "unat (hd (varint n)) = n" "length (varint n) = 1" "n mod 128 = n"
      by (simp_all add: varint_small unat_of_nat)
    show ?thesis
      using digit_added [OF less.prems(3) bound] True unfolding unf h by (simp del: of_nat_add of_nat_mult)
  next
    case False
    then have n: "128 \<le> n" by simp
    let ?m = "n mod 128" and ?k = "n div 128" and ?p = "2 ^ (7 * j) :: nat" and ?q = "2 ^ (7 * Suc j) :: nat"
    have q: "?q = 128 * ?p" by (simp add: power_add)
    have nmk: "?m * ?p + ?k * ?q = n * ?p" unfolding q by (rule mod_div_scaled)
    have v: "varint n = hd (varint n) # varint ?k" and h: "unat (hd (varint n)) = 128 + ?m"
      using varint_step [OF n] by blast+
    have len: "length (varint n) = Suc (length (varint ?k))" by (subst v) simp
    note jk = remaining_digits [OF less.prems(3,4) n]
    have "tot + ?m * ?p < 268435456" using bound nmk by linarith
    note d = digit_added [OF less.prems(3) this]
    have "(?m + 1) * ?p \<le> 128 * ?p" by (intro mult_le_mono1) (simp add: Suc_leI)
    then have tot: "tot + ?m * ?p < ?q" unfolding q add_mult_distrib using less.prems(5) by linarith
    have "remaining_loop b len (Suc (Suc j)) (int (tot + ?m * ?p)) =
        Some (int (tot + ?m * ?p + ?k * ?q), Suc (Suc j) + length (varint ?k))"
    proof (rule less.IH)
      show "drop (Suc (Suc j)) b = varint ?k @ rest"
        using less.prems(1) by (metis v append_Cons drop_Suc list.sel(3) tl_drop)
    qed (use less.prems(2) len jk tot n in simp_all)
    moreover have "tot + ?m * ?p + ?k * ?q = tot + n * ?p" using nmk by linarith
    ultimately have "remaining_loop b len (Suc (Suc j)) (int (tot + ?m * ?p)) =
        Some (int (tot + n * ?p), Suc j + length (varint n))"
      using len by (simp only: add_Suc add_Suc_right)
    moreover have "unat (hd (varint n)) mod 128 = ?m" unfolding h by simp
    ultimately show ?thesis unfolding unf using d h by (simp only: Option.bind.simps if_False) simp
  qed
qed

text \<open>The loop of \<open>mqtt_get_id\<close> stops where the others do.\<close>

lemma skip_remaining_loop:
  "remaining_loop b len i tot = Some (t, k) \<Longrightarrow> skip_remaining b len i = Some k"
proof (induction b len i tot rule: remaining_loop.induct)
  case (1 b len i tot)
  show ?case
  proof (cases "i < len")
    case False
    with 1(2) show ?thesis by (subst (asm) remaining_loop.simps, subst skip_remaining.simps) simp
  next
    case True
    with 1(2) obtain x d s where x: "load b i = Some x" "shl32 (uint (x AND 0x7F)) (7 * (i - 1)) = Some d"
      "add32 tot d = Some s"
      and r: "(if x AND 0x80 = 0 then Some (s, i + 1) else remaining_loop b len (i + 1) s) = Some (t, k)"
      by (subst (asm) remaining_loop.simps) (auto simp: bind_eq_Some_conv)
    show ?thesis
    proof (cases "x AND 0x80 = 0")
      case True
      with r x \<open>i < len\<close> show ?thesis by (subst skip_remaining.simps) simp
    next
      case False
      with 1(1) [OF \<open>i < len\<close> x(1,2,3) False] r x \<open>i < len\<close> show ?thesis
        by (subst skip_remaining.simps) simp
    qed
  qed
qed

section \<open>Packets in a receive buffer\<close>

text \<open>Where the body of a packet starts, and reading its length.\<close>

definition header_len :: "bytes \<Rightarrow> nat" where
  "header_len xs = Suc (length (varint (length xs)))"

lemma packet_length: "length (packet type dup qos retain xs) = header_len xs + length xs"
  by (simp add: packet_def header_len_def)

lemma drop_packet: "drop (header_len xs) (packet type dup qos retain xs @ rest) = xs @ rest"
  by (simp add: packet_def header_len_def)

lemma packet_remaining:
  assumes "length xs < 268435456" and "header_len xs \<le> len"
  shows "remaining_loop (packet type dup qos retain xs @ rest) len 1 0 =
    Some (int (length xs), header_len xs)"
  using remaining_loop_varint [of 0 "packet type dup qos retain xs @ rest" "length xs" "xs @ rest" len 0]
    assms by (simp add: packet_def header_len_def)

lemma packet_total_length:
  assumes "length xs < 268435456" and "header_len xs \<le> len"
  shows "mqtt_get_total_length (packet type dup qos retain xs @ rest) len =
    Some (int (header_len xs + length xs))"
proof -
  have "header_len xs \<le> 5" using varint_length [OF assms(1)] by (simp add: header_len_def)
  then have "add32 (int (length xs)) (int (header_len xs)) = Some (int (length xs + header_len xs))"
    using assms(1) by (intro add32_small) simp
  then show ?thesis
    unfolding mqtt_get_total_length_def packet_remaining [OF assms] by (simp add: add.commute)
qed

text \<open>What the decoders compute once the length field is read.\<close>

lemma get_publish_topic_at:
  assumes "remaining_loop b len (Suc 0) 0 = Some (n, h)" and "add32 n (int h) = Some tot"
    and "load b h = Some x" and "load b (Suc h) = Some y" and "h + 2 < len"
  shows "mqtt_get_publish_topic b len =
    Some (if h + 2 + be16 x y > len then (None, len) else (Some (h + 2), be16 x y))"
  using assms by (simp add: mqtt_get_publish_topic_def Let_def)

lemma get_publish_data_at:
  assumes "remaining_loop b len (Suc 0) 0 = Some (n, h)" and "add32 n (int h) = Some tot"
    and "load b h = Some x" and "load b (Suc h) = Some y" and "h + 2 < len"
    and "mqtt_get_qos b = Some q" and "d = h + 2 + be16 x y + (if q > 0 then 2 else 0)"
    and "int d \<le> tot" and "tot \<le> int len"
  shows "mqtt_get_publish_data b len =
    Some (if d \<ge> len then (None, 0) else (Some d, to_u16 (tot - int d)))"
proof (cases "q > 0")
  case True
  with assms show ?thesis by (auto simp: mqtt_get_publish_data_def Let_def)
next
  case False
  with assms show ?thesis by (auto simp: mqtt_get_publish_data_def Let_def)
qed

lemma get_id_at:
  assumes "mqtt_get_type b = Some (type_code MQTT_MSG_TYPE_PUBLISH)" and "1 \<le> len"
    and "remaining_loop b len (Suc 0) 0 = Some (n, h)"
    and "load b h = Some x" and "load b (Suc h) = Some y" and "h + 2 < len"
    and "mqtt_get_qos b = Some q" and "0 < q"
    and "i = h + 2 + be16 x y" and "load b i = Some u" and "load b (Suc i) = Some v"
  shows "mqtt_get_id b len = Some (if i + 2 \<ge> len then 0 else be16 u v)"
  using assms skip_remaining_loop [OF assms(3)] by (simp add: mqtt_get_id_def Let_def)

lemma get_id_qos0:
  assumes "mqtt_get_type b = Some (type_code MQTT_MSG_TYPE_PUBLISH)" and "1 \<le> len"
    and "remaining_loop b len (Suc 0) 0 = Some (n, h)"
    and "load b h = Some x" and "load b (Suc h) = Some y" and "mqtt_get_qos b = Some 0"
  shows "mqtt_get_id b len = Some 0"
  using assms skip_remaining_loop [OF assms(3)] by (simp add: mqtt_get_id_def Let_def)

text \<open>Where the fields of a publish packet are.\<close>

definition publish_packet :: "bytes \<Rightarrow> int \<Rightarrow> int \<Rightarrow> int \<Rightarrow> u16 \<Rightarrow> bytes \<Rightarrow> bytes" where
  "publish_packet topic dup qos retain mid data =
     packet MQTT_MSG_TYPE_PUBLISH dup qos retain (publish_body topic qos mid data)"

definition body_at :: "bytes \<Rightarrow> int \<Rightarrow> u16 \<Rightarrow> bytes \<Rightarrow> nat" where
  "body_at topic qos mid data = header_len (publish_body topic qos mid data)"

definition data_at :: "bytes \<Rightarrow> int \<Rightarrow> u16 \<Rightarrow> bytes \<Rightarrow> nat" where
  "data_at topic qos mid data =
     body_at topic qos mid data + 2 + length topic + (if qos > 0 then 2 else 0)"

lemma publish_packet_length:
  "length (publish_packet topic dup qos retain mid data) = data_at topic qos mid data + length data"
  by (simp add: publish_packet_def packet_length data_at_def body_at_def publish_body_def)

lemma publish_drops:
  assumes "b = publish_packet topic dup qos retain mid data @ rest" and "h = body_at topic qos mid data"
  shows "load b h = Some (hi8 (length topic))" "load b (Suc h) = Some (lo8 (length topic))"
    "drop (h + 2) b = topic @ (if qos > 0 then mqtt_id mid else []) @ data @ rest"
    "drop (h + 2 + length topic) b = (if qos > 0 then mqtt_id mid else []) @ data @ rest"
    "drop (data_at topic qos mid data) b = data @ rest"
proof -
  have d0: "drop h b = hi8 (length topic) # lo8 (length topic) #
      topic @ (if qos > 0 then mqtt_id mid else []) @ data @ rest"
    unfolding assms publish_packet_def body_at_def drop_packet by (simp add: publish_body_def mqtt_str_def)
  show "load b h = Some (hi8 (length topic))" "load b (Suc h) = Some (lo8 (length topic))"
    by (rule load_drop [OF d0], rule load_drop [OF drop_Suc_drop [OF d0]])
  show dt: "drop (h + 2) b = topic @ (if qos > 0 then mqtt_id mid else []) @ data @ rest"
    using drop_Suc_drop [OF drop_Suc_drop [OF d0]] by simp
  show di: "drop (h + 2 + length topic) b = (if qos > 0 then mqtt_id mid else []) @ data @ rest"
    by (rule drop_append_drop [OF dt])
  show "drop (data_at topic qos mid data) b = data @ rest"
    using drop_append_drop [OF di] assms(2) by (cases "qos > 0") (simp_all add: data_at_def)
qed

text \<open>A buffer that starts with the packet, of which \<open>len\<close> bytes were received.\<close>

definition received :: "bytes \<Rightarrow> int \<Rightarrow> int \<Rightarrow> int \<Rightarrow> u16 \<Rightarrow> bytes \<Rightarrow> nat \<Rightarrow> bool" where
  "received topic dup qos retain mid data len \<longleftrightarrow> 0 \<le> qos \<and> qos < 4 \<and> topic \<noteq> [] \<and>
     length topic < 65536 \<and> length (publish_packet topic dup qos retain mid data) \<le> len \<and> len < 65536"

lemma receivedD:
  assumes "received topic dup qos retain mid data len"
  shows "data_at topic qos mid data + length data \<le> len" "len < 65536" "1 \<le> len"
    "body_at topic qos mid data + 2 < len" "0 \<le> qos" "qos < 4"
    "be16 (hi8 (length topic)) (lo8 (length topic)) = length topic"
    "body_at topic qos mid data + 2 + length topic \<le> len"
proof -
  have r: "data_at topic qos mid data + length data \<le> len" "len < 65536" "0 \<le> qos" "qos < 4"
    "length topic < 65536" "0 < length topic"
    using assms by (simp_all add: received_def publish_packet_length)
  then show "data_at topic qos mid data + length data \<le> len" "len < 65536" "0 \<le> qos" "qos < 4"
    "be16 (hi8 (length topic)) (lo8 (length topic)) = length topic"
    by (simp_all add: byte_simps)
  show "1 \<le> len" "body_at topic qos mid data + 2 < len"
    "body_at topic qos mid data + 2 + length topic \<le> len"
    using r(1,6) unfolding data_at_def by linarith+
qed

lemma received_loop:
  assumes "received topic dup qos retain mid data len"
  shows "remaining_loop (publish_packet topic dup qos retain mid data @ rest) len (Suc 0) 0 =
      Some (int (length (publish_body topic qos mid data)), body_at topic qos mid data)"
    "add32 (int (length (publish_body topic qos mid data))) (int (body_at topic qos mid data)) =
      Some (int (data_at topic qos mid data + length data))"
proof -
  have sum: "length (publish_body topic qos mid data) + body_at topic qos mid data =
      data_at topic qos mid data + length data"
    by (simp add: data_at_def publish_body_def)
  have len: "data_at topic qos mid data + length data < 65536"
    using receivedD(1,2) [OF assms] by linarith
  then have "length (publish_body topic qos mid data) < 268435456" using sum by linarith
  moreover have "header_len (publish_body topic qos mid data) \<le> len"
    using receivedD(4) [OF assms] by (simp add: body_at_def)
  ultimately show "remaining_loop (publish_packet topic dup qos retain mid data @ rest) len (Suc 0) 0 =
      Some (int (length (publish_body topic qos mid data)), body_at topic qos mid data)"
    using packet_remaining unfolding publish_packet_def body_at_def One_nat_def by blast
  show "add32 (int (length (publish_body topic qos mid data))) (int (body_at topic qos mid data)) =
      Some (int (data_at topic qos mid data + length data))"
    unfolding sum [symmetric] using len sum by (intro add32_small) linarith
qed

lemma received_qos:
  assumes "received topic dup qos retain mid data len"
  shows "mqtt_get_qos (publish_packet topic dup qos retain mid data @ rest) = Some (nat qos)"
  using receivedD(5,6) [OF assms] by (simp add: publish_packet_def)

lemma received_topic:
  assumes "received topic dup qos retain mid data len"
  shows "mqtt_get_publish_topic (publish_packet topic dup qos retain mid data @ rest) len =
    Some (Some (body_at topic qos mid data + 2), length topic)"
  using get_publish_topic_at [OF received_loop [OF assms] publish_drops(1,2) [OF refl refl]
      receivedD(4) [OF assms]] receivedD(7,8) [OF assms]
  by simp

lemma received_data:
  assumes "received topic dup qos retain mid data len"
  shows "mqtt_get_publish_data (publish_packet topic dup qos retain mid data @ rest) len =
    Some (if data_at topic qos mid data \<ge> len then (None, 0)
      else (Some (data_at topic qos mid data), length data))"
proof -
  let ?d = "data_at topic qos mid data"
  have "?d = body_at topic qos mid data + 2 + be16 (hi8 (length topic)) (lo8 (length topic)) +
      (if nat qos > 0 then 2 else 0)"
    using receivedD(7) [OF assms] by (simp add: data_at_def)
  from get_publish_data_at [OF received_loop [OF assms] publish_drops(1,2) [OF refl refl]
      receivedD(4) [OF assms] received_qos [OF assms] this] receivedD(1,2) [OF assms]
  show ?thesis by simp
qed

lemma received_id:
  assumes "received topic dup qos retain mid data len"
  shows "mqtt_get_id (publish_packet topic dup qos retain mid data @ rest) len =
    Some (if qos > 0 \<and> data_at topic qos mid data < len then unat mid else 0)"
proof (cases "qos > 0")
  case True
  let ?i = "body_at topic qos mid data + 2 + length topic"
  have "drop ?i (publish_packet topic dup qos retain mid data @ rest) =
      hi8 (unat mid) # lo8 (unat mid) # data @ rest"
    using publish_drops(4) [OF refl refl] True by (simp add: mqtt_id_def)
  note ids = load_drop [OF this] load_drop [OF drop_Suc_drop [OF this]]
  have "?i = body_at topic qos mid data + 2 + be16 (hi8 (length topic)) (lo8 (length topic))"
    using receivedD(7) [OF assms] by simp
  from get_id_at [OF _ receivedD(3) [OF assms] received_loop(1) [OF assms] publish_drops(1,2) [OF refl refl]
      receivedD(4) [OF assms] received_qos [OF assms] _ this ids] True
  show ?thesis by (simp add: publish_packet_def data_at_def byte_simps not_le)
next
  case False
  then have "nat qos = 0" by simp
  from get_id_qos0 [OF _ receivedD(3) [OF assms] received_loop(1) [OF assms] publish_drops(1,2) [OF refl refl]
      received_qos [OF assms, unfolded this]] False
  show ?thesis by (simp add: publish_packet_def)
qed

section \<open>The builders as one operation\<close>

text \<open>What a client can ask for, the call that builds it, and the packet MQTT specifies for it.\<close>

datatype request =
    Req_Connect mqtt_connect_info
  | Req_Publish bytes bytes int int
  | Req_Ack mqtt_message_type u16
  | Req_Subscribe bytes int
  | Req_Unsubscribe bytes
  | Req_Control mqtt_message_type

fun build :: "protocol_name \<Rightarrow> mqtt_connection \<Rightarrow> request \<Rightarrow> mqtt_connection option" where
  "build p c (Req_Connect info) = mqtt_msg_connect p c info"
| "build p c (Req_Publish t d qos retain) =
     map_option fst (mqtt_msg_publish c (Some t) d (int (length d)) qos retain 0)"
| "build p c (Req_Ack MQTT_MSG_TYPE_PUBREC mid) = mqtt_msg_pubrec c mid"
| "build p c (Req_Ack MQTT_MSG_TYPE_PUBREL mid) = mqtt_msg_pubrel c mid"
| "build p c (Req_Ack MQTT_MSG_TYPE_PUBCOMP mid) = mqtt_msg_pubcomp c mid"
| "build p c (Req_Ack _ mid) = mqtt_msg_puback c mid"
| "build p c (Req_Subscribe t qos) = map_option fst (mqtt_msg_subscribe c (Some t) qos 0)"
| "build p c (Req_Unsubscribe t) = map_option fst (mqtt_msg_unsubscribe c (Some t) 0)"
| "build p c (Req_Control MQTT_MSG_TYPE_PINGRESP) = mqtt_msg_pingresp c"
| "build p c (Req_Control MQTT_MSG_TYPE_DISCONNECT) = mqtt_msg_disconnect c"
| "build p c (Req_Control _) = mqtt_msg_pingreq c"

fun request_ok :: "request \<Rightarrow> bool" where
  "request_ok (Req_Connect info) = (info_ok info \<and> opt_str (client_id info) \<noteq> [])"
| "request_ok (Req_Publish t d qos retain) = (0 \<in> set t \<and> cstr t \<noteq> [])"
| "request_ok (Req_Ack type mid) = (type \<in> {MQTT_MSG_TYPE_PUBACK, MQTT_MSG_TYPE_PUBREC,
     MQTT_MSG_TYPE_PUBREL, MQTT_MSG_TYPE_PUBCOMP})"
| "request_ok (Req_Subscribe t qos) = (0 \<in> set t \<and> cstr t \<noteq> [])"
| "request_ok (Req_Unsubscribe t) = (0 \<in> set t \<and> cstr t \<noteq> [])"
| "request_ok (Req_Control type) = (type \<in> {MQTT_MSG_TYPE_PINGREQ, MQTT_MSG_TYPE_PINGRESP,
     MQTT_MSG_TYPE_DISCONNECT})"

fun request_type :: "request \<Rightarrow> mqtt_message_type" where
  "request_type (Req_Connect info) = MQTT_MSG_TYPE_CONNECT"
| "request_type (Req_Publish t d qos retain) = MQTT_MSG_TYPE_PUBLISH"
| "request_type (Req_Ack type mid) = type"
| "request_type (Req_Subscribe t qos) = MQTT_MSG_TYPE_SUBSCRIBE"
| "request_type (Req_Unsubscribe t) = MQTT_MSG_TYPE_UNSUBSCRIBE"
| "request_type (Req_Control type) = type"

text \<open>\<open>PUBREL\<close>, \<open>SUBSCRIBE\<close> and \<open>UNSUBSCRIBE\<close> carry the fixed flags \<open>0010\<close>.\<close>

fun request_qos :: "request \<Rightarrow> int" where
  "request_qos (Req_Publish t d qos retain) = qos"
| "request_qos (Req_Ack type mid) = (if type = MQTT_MSG_TYPE_PUBREL then 1 else 0)"
| "request_qos (Req_Subscribe t qos) = 1"
| "request_qos (Req_Unsubscribe t) = 1"
| "request_qos _ = 0"

fun request_retain :: "request \<Rightarrow> int" where
  "request_retain (Req_Publish t d qos retain) = retain"
| "request_retain _ = 0"

fun request_body :: "protocol_name \<Rightarrow> mqtt_connection \<Rightarrow> request \<Rightarrow> bytes" where
  "request_body p c (Req_Connect info) = connect_body p info"
| "request_body p c (Req_Publish t d qos retain) =
     publish_body (cstr t) qos (publish_id c qos) d"
| "request_body p c (Req_Ack type mid) = mqtt_id (used_id c mid)"
| "request_body p c (Req_Subscribe t qos) =
     mqtt_id (used_id c 0) @ mqtt_str (cstr t) @ [word_of_int qos]"
| "request_body p c (Req_Unsubscribe t) = mqtt_id (used_id c 0) @ mqtt_str (cstr t)"
| "request_body p c (Req_Control type) = []"

definition request_packet :: "protocol_name \<Rightarrow> mqtt_connection \<Rightarrow> request \<Rightarrow> bytes" where
  "request_packet p c r =
     packet (request_type r) 0 (request_qos r) (request_retain r) (request_body p c r)"

lemma build_yields:
  assumes "conn_ok c" and "small_buffer c" and "request_ok r"
  shows "\<exists>c'. build p c r = Some c' \<and>
    yields c (request_type r) (request_qos r) (request_retain r) (request_body p c r) c'"
proof (cases r)
  case (Req_Connect info)
  with connect_spec [OF assms(1,2)] assms(3) show ?thesis by simp
next
  case (Req_Publish t d qos retain)
  with publish_spec [OF assms(1,2)] assms(3) show ?thesis by fastforce
next
  case (Req_Ack type mid)
  with ack_spec [OF assms(1,2), of mid] assms(3) show ?thesis
    by (auto simp: mqtt_msg_puback_def mqtt_msg_pubrec_def mqtt_msg_pubrel_def mqtt_msg_pubcomp_def)
next
  case (Req_Subscribe t qos)
  with subscribe_spec [OF assms(1,2)] assms(3) show ?thesis by fastforce
next
  case (Req_Unsubscribe t)
  with unsubscribe_spec [OF assms(1,2)] assms(3) show ?thesis by fastforce
next
  case (Req_Control type)
  with ping_spec [OF assms(1,2)] assms(3) show ?thesis
    by (auto simp: mqtt_msg_pingreq_def mqtt_msg_pingresp_def mqtt_msg_disconnect_def)
qed

section \<open>Properties\<close>

text \<open>
  C20: every builder (\<open>mqtt_msg_connect\<close>, \<open>publish\<close>, \<open>puback\<close>, \<open>pubrec\<close>, \<open>pubrel\<close>, \<open>pubcomp\<close>,
  \<open>subscribe\<close>, \<open>unsubscribe\<close>, \<open>pingreq\<close>, \<open>pingresp\<close>, \<open>disconnect\<close>) terminates without an access
  outside the output buffer, keeps the connection well formed, and leaves in \<open>message\<close>
  exactly the packet that MQTT specifies for the request when the body has room behind the
  three header bytes, and the empty message otherwise. The hypotheses are a buffer of 3 to
  16386 bytes and terminated, non-empty strings.
\<close>

theorem builders_emit_packets:
  assumes "conn_ok c" and "small_buffer c" and "request_ok r"
  shows "\<exists>c'. build p c r = Some c' \<and> conn_ok c' \<and> buffer_length c' = buffer_length c \<and>
    message_out c' = Some (if 3 + length (request_body p c r) \<le> buffer_length c
      then request_packet p c r else [])"
  using build_yields [OF assms, of p]
  by (auto simp: yields_def built_def fits_def request_packet_def)

lemma builders_emit_packets_witness:
  "\<exists>c'. build PROTOCOL_NAMEv31 (mqtt_msg_init (replicate 20 0) 20) (Req_Publish [116, 0] [1, 2] 1 0) = Some c' \<and>
    conn_ok c' \<and> message_out c' = Some [0x32, 7, 0, 1, 116, 0, 1, 1, 2]"
proof -
  let ?c = "mqtt_msg_init (replicate 20 0) 20" and ?r = "Req_Publish [116, 0] [1, 2] 1 0"
  have "conn_ok ?c" "small_buffer ?c" "request_ok ?r"
    by (simp_all add: conn_ok_def small_buffer_def mqtt_msg_init_def cstr_def)
  from builders_emit_packets [OF this, of PROTOCOL_NAMEv31] show ?thesis
    by (simp add: mqtt_msg_init_def request_packet_def packet_def cstr_def publish_body_def publish_id_def
      fresh_id_def mqtt_str_def mqtt_id_def varint_small header_byte_def hi8_def lo8_def) blast
qed

text \<open>
  C21: what \<open>mqtt_msg_publish\<close> sends, a receiver that runs this file's decoders reads back.
  For every topic, non-empty payload, QoS and retain flag whose packet fits the buffer, and
  whatever follows the packet in the receive buffer: \<open>mqtt_get_publish_topic\<close> and
  \<open>mqtt_get_publish_data\<close> point at exactly the topic and the payload with their lengths,
  \<open>mqtt_get_id\<close> is the identifier that was returned to the sender, and
  \<open>mqtt_get_total_length\<close>, \<open>mqtt_get_type\<close>, \<open>mqtt_get_qos\<close> describe the packet.
\<close>

theorem publish_decodes:
  assumes "conn_ok c" and "small_buffer c" and "0 \<in> set t" and "cstr t \<noteq> []"
    and "0 \<le> qos" and "qos < 4" and "data \<noteq> []"
    and "fits c (publish_body (cstr t) qos (publish_id c qos) data)"
    and "buffer_length c + length rest < 65536"
  shows "\<exists>c' mid p at_topic at_data.
    mqtt_msg_publish c (Some t) data (int (length data)) qos retain m = Some (c', mid) \<and>
    message_out c' = Some p \<and>
    mqtt_get_publish_topic (p @ rest) (length (p @ rest)) = Some (Some at_topic, length (cstr t)) \<and>
    load_block (p @ rest) at_topic (length (cstr t)) = Some (cstr t) \<and>
    mqtt_get_publish_data (p @ rest) (length (p @ rest)) = Some (Some at_data, length data) \<and>
    load_block (p @ rest) at_data (length data) = Some data \<and>
    mqtt_get_id (p @ rest) (length (p @ rest)) = Some (if qos > 0 then unat mid else 0) \<and>
    mqtt_get_total_length (p @ rest) (length (p @ rest)) = Some (int (length p)) \<and>
    mqtt_get_type (p @ rest) = Some (type_code MQTT_MSG_TYPE_PUBLISH) \<and>
    mqtt_get_qos (p @ rest) = Some (nat qos)"
proof -
  let ?mid = "publish_id c qos"
  define xs where "xs = publish_body (cstr t) qos ?mid data"
  define p where "p = publish_packet (cstr t) 0 qos retain ?mid data"
  obtain c' where run: "mqtt_msg_publish c (Some t) data (int (length data)) qos retain m = Some (c', ?mid)"
    and out: "message_out c' = Some p"
    using publish_spec [OF assms(1-4), of data qos retain m] assms(8)
    by (auto simp: yields_def built_def p_def publish_packet_def)
  have xs: "3 + length xs \<le> buffer_length c" using assms(8) by (simp add: fits_def xs_def)
  have small: "length xs < 16384" using xs assms(2) by (simp add: small_buffer_def)
  then have hl: "header_len xs \<le> 3"
    by (cases "length xs < 128") (simp_all add: header_len_def varint_small varint_large)
  have plen: "length p = header_len xs + length xs"
    by (simp add: p_def publish_packet_def packet_length xs_def)
  have "length (cstr t) < 65536" using small by (simp add: xs_def publish_body_def)
  with assms hl xs plen have r: "received (cstr t) 0 qos retain ?mid data (length (p @ rest))"
    by (simp add: received_def p_def [symmetric])
  have d: "data_at (cstr t) qos ?mid data < length (p @ rest)"
    using publish_packet_length [of "cstr t" 0 qos retain ?mid data] assms(7)
    by (cases data) (simp_all add: p_def)
  have "header_len xs \<le> length (p @ rest)" using plen by simp
  with small have total: "mqtt_get_total_length (p @ rest) (length (p @ rest)) = Some (int (length p))"
    using packet_total_length [of xs "length (p @ rest)"]
    unfolding plen p_def publish_packet_def xs_def [symmetric] by (simp add: packet_length)
  note drops = publish_drops(3,5) [of "p @ rest" "cstr t" 0 qos retain ?mid data rest, OF _ refl,
      unfolded p_def [symmetric], OF refl]
  have "body_at (cstr t) qos ?mid data + 2 \<le> length (p @ rest)"
    using receivedD(4) [OF r] by simp
  note blocks = load_block_drop [OF drops(1) this] load_block_drop [OF drops(2) less_imp_le [OF d]]
  from received_topic [OF r, of rest] received_data [OF r, of rest] received_id [OF r, of rest]
    received_qos [OF r, of rest] run out total blocks d
  show ?thesis unfolding p_def [symmetric]
    by (intro exI [of _ c'] exI [of _ ?mid] exI [of _ p]
      exI [of _ "body_at (cstr t) qos ?mid data + 2"] exI [of _ "data_at (cstr t) qos ?mid data"])
      (simp add: p_def publish_packet_def)
qed

lemma publish_decodes_witness:
  "\<exists>c' mid p at_data. mqtt_msg_publish (mqtt_msg_init (replicate 20 0) 20) (Some [116, 0]) [1, 2] 2 1 0 0 =
      Some (c', mid) \<and> message_out c' = Some p \<and>
    mqtt_get_publish_data (p @ [9]) (length (p @ [9])) = Some (Some at_data, 2) \<and>
    load_block (p @ [9]) at_data 2 = Some [1, 2]"
proof -
  let ?c = "mqtt_msg_init (replicate 20 0) 20"
  have "conn_ok ?c" "small_buffer ?c" "0 \<in> set [116, 0 :: u8]" "cstr [116, 0] \<noteq> []"
    "(0::int) \<le> 1" "(1::int) < 4" "[1, 2 :: u8] \<noteq> []"
    "fits ?c (publish_body (cstr [116, 0]) 1 (publish_id ?c 1) [1, 2])"
    "buffer_length ?c + length [9 :: u8] < 65536"
    by (simp_all add: conn_ok_def small_buffer_def mqtt_msg_init_def cstr_def fits_def publish_body_def)
  from publish_decodes [OF this, of 0 0]
  have "\<exists>c' mid p at_data. mqtt_msg_publish ?c (Some [116, 0]) [1, 2] (int (length [1, 2 :: u8])) 1 0 0 =
      Some (c', mid) \<and> message_out c' = Some p \<and>
    mqtt_get_publish_data (p @ [9]) (length (p @ [9])) = Some (Some at_data, length [1, 2 :: u8]) \<and>
    load_block (p @ [9]) at_data (length [1, 2 :: u8]) = Some [1, 2]" by blast
  moreover have "int (length [1, 2 :: u8]) = 2" "length [1, 2 :: u8] = 2" by simp_all
  ultimately show ?thesis by (simp only:)
qed

text \<open>
  \<open>mqtt_get_total_length\<close> inverts the remaining-length encoding of MQTT for every length
  below \<open>2\<^sup>2\<^sup>8\<close> (one to four bytes), whatever follows, once the field is in the buffer.
\<close>

theorem total_length_decodes_varint:
  assumes "n < 268435456" and "1 + length (varint n) \<le> len"
  shows "mqtt_get_total_length (h # varint n @ rest) len = Some (int (1 + length (varint n) + n))"
proof -
  have "remaining_loop (h # varint n @ rest) len (Suc 0) 0 = Some (int n, Suc (length (varint n)))"
    using remaining_loop_varint [of 0 "h # varint n @ rest" n rest len 0] assms by simp
  moreover have "add32 (int n) (int (Suc (length (varint n)))) = Some (int (n + Suc (length (varint n))))"
    using varint_length [OF assms(1)] assms(1) by (intro add32_small) linarith
  ultimately show ?thesis by (simp add: mqtt_get_total_length_def add.commute)
qed

lemma total_length_decodes_varint_witness:
  "mqtt_get_total_length (0x30 # varint 321 @ [7]) 3 = Some 324"
proof -
  have "length (varint 321) = 2" by (simp add: varint_large varint_small)
  with total_length_decodes_varint [of 321 3 "0x30" "[7]"] show ?thesis by simp
qed

text \<open>The identifier that the \<open>n\<close>-th call of \<open>append_message_id\<close> with argument 0 uses.\<close>

definition id_after :: "u16 \<Rightarrow> nat \<Rightarrow> u16" where
  "id_after cnt n = ((\<lambda>cnt. snd (next_message_id 0 cnt)) ^^ n) cnt"

lemma unat_fresh_id: "unat (fresh_id x) = (if unat x = 65535 then 1 else Suc (unat x))"
proof (cases "x + 1 = 0")
  case True
  then have "x = - 1" by (simp add: eq_neg_iff_add_eq_0)
  moreover have "unat (- 1 :: u16) = 65535" by (simp add: unsigned_minus_1_eq_mask mask_eq_exp_minus_1)
  ultimately show ?thesis using True by (simp add: fresh_id_def)
next
  case False
  then have "unat (x + 1) = Suc (unat x)" by (metis add.commute unatSuc)
  moreover from this have "unat x \<noteq> 65535" using unat_u16_less [of "x + 1"] by linarith
  ultimately show ?thesis using False by (simp add: fresh_id_def)
qed

lemma unat_id_after:
  "unat (id_after cnt (Suc n)) = ((if unat cnt = 65535 then 0 else unat cnt) + n) mod 65535 + 1"
proof (induction n)
  case 0
  have "unat cnt \<noteq> 65535 \<Longrightarrow> unat cnt < 65535" using unat_u16_less [of cnt] by linarith
  then show ?case by (auto simp: id_after_def unat_fresh_id)
next
  case (Suc n)
  let ?k = "if unat cnt = 65535 then 0 else unat cnt"
  have step: "id_after cnt (Suc (Suc n)) = fresh_id (id_after cnt (Suc n))"
    by (simp add: id_after_def)
  have "(?k + Suc n) mod 65535 = (if Suc ((?k + n) mod 65535) = 65535 then 0 else Suc ((?k + n) mod 65535))"
    by (simp only: add_Suc_right mod_Suc)
  then show ?case unfolding step unat_fresh_id Suc.IH by (simp only: Suc_eq_plus1 split: if_split) simp
qed

text \<open>
  the identifiers that \<open>append_message_id\<close> hands out are never 0 (which MQTT forbids), and
  any 65535 consecutive ones are pairwise different, whatever the counter starts from; it
  skips the 0 when the counter wraps.
\<close>

theorem message_ids_distinct:
  "inj_on (id_after cnt) {Suc k..k + 65535} \<and> 0 \<notin> id_after cnt ` {Suc k..k + 65535}"
proof
  let ?c = "if unat cnt = 65535 then 0 else unat cnt"
  show "inj_on (id_after cnt) {Suc k..k + 65535}"
  proof (rule linorder_inj_onI)
    fix i j assume ij: "i < j" and "i \<in> {Suc k..k + 65535}" "j \<in> {Suc k..k + 65535}"
    then obtain i' j' where i: "i = Suc i'" "j = Suc j'" "i' < j'" "j' - i' < 65535"
      by (cases i; cases j) auto
    show "id_after cnt i \<noteq> id_after cnt j"
    proof
      assume "id_after cnt i = id_after cnt j"
      then have "(?c + j') mod 65535 = (?c + i') mod 65535"
        using unat_id_after [of cnt i'] unat_id_after [of cnt j'] i by simp
      then have "65535 dvd (?c + j') - (?c + i')"
        using i(3) by (subst mod_eq_dvd_iff_nat [symmetric]) simp_all
      then have "65535 dvd j' - i'" by (simp only: diff_add_inverse add_diff_cancel_left)
      with i(3,4) show False by (auto dest: dvd_imp_le)
    qed
  qed auto
  show "0 \<notin> id_after cnt ` {Suc k..k + 65535}"
  proof
    assume "0 \<in> id_after cnt ` {Suc k..k + 65535}"
    then obtain n where "id_after cnt n = 0" "Suc k \<le> n" by auto
    then obtain n' where "id_after cnt (Suc n') = 0" by (cases n) auto
    with unat_id_after [of cnt n'] show False by simp
  qed
qed

text \<open>
  \<open>mqtt_get_id\<close> loses the identifier of a QoS 1 or 2 publish with an empty payload when it
  is given the packet's exact length: it returns 0, although the identifier is the packet's last
  two bytes (the bound test is off by one). With anything behind the packet, and with the buffer
  size that the receive loop passes instead of the length, it finds the identifier.
\<close>

theorem empty_publish_id_lost:
  assumes "received topic dup qos retain mid [] (length p)" and "0 < qos"
    and "p = publish_packet topic dup qos retain mid []" and "length (p @ x # rest) < 65536"
  shows "mqtt_get_id p (length p) = Some 0 \<and>
    load_block p (length p - 2) 2 = Some (mqtt_id mid) \<and>
    mqtt_get_id (p @ x # rest) (length (p @ x # rest)) = Some (unat mid)"
proof -
  have len: "length p = data_at topic qos mid []" using assms(3) by (simp add: publish_packet_length)
  then have "mqtt_get_id p (length p) = Some 0"
    using received_id [OF assms(1), of "[]"] assms(3) by simp
  moreover have "drop (body_at topic qos mid [] + 2 + length topic) p = mqtt_id mid @ []"
    using publish_drops(4) [of p topic dup qos retain mid "[]" "[]"] assms(2,3) by simp
  then have "load_block p (length p - 2) (length (mqtt_id mid)) = Some (mqtt_id mid)"
    using len assms(2) by (intro load_block_drop) (simp_all add: data_at_def)
  moreover have "received topic dup qos retain mid [] (length (p @ x # rest))"
    using assms(1,3,4) by (simp add: received_def)
  from received_id [OF this, of "x # rest"]
  have "mqtt_get_id (p @ x # rest) (length (p @ x # rest)) = Some (unat mid)"
    using assms(2,3) len by simp
  ultimately show ?thesis by simp
qed

text \<open>The packet \<open>32 05 00 01 74 12 34\<close>: topic \<open>t\<close>, identifier 0x1234, no payload.\<close>

lemma empty_publish_id_lost_witness:
  "mqtt_get_id [0x32, 5, 0, 1, 0x74, 0x12, 0x34] 7 = Some 0"
proof -
  let ?p = "publish_packet [0x74] 0 1 0 0x1234 []"
  have p: "?p = [0x32, 5, 0, 1, 0x74, 0x12, 0x34]"
    by (simp add: publish_packet_def packet_def publish_body_def mqtt_str_def mqtt_id_def
      varint_small header_byte_def hi8_def lo8_def)
  have l: "length [0x32, 5, 0, 1, 0x74, 0x12, 0x34 :: u8] = 7" by simp
  have "received [0x74] 0 1 0 0x1234 [] (length ?p)" by (simp add: received_def p)
  from empty_publish_id_lost [OF this _ refl, of 0 "[]"]
  have "mqtt_get_id ?p (length ?p) = Some 0" by (simp add: p)
  then show ?thesis unfolding p l .
qed

end
