(* ===== verification/Mqtt_Client.thy ===== *)
theory Mqtt_Client
  imports Msg_Queue Net_Utils Mqtt_Codec
begin

text \<open>
  The MQTT client of \<open>mqtt/mqtt.c\<close>: connection state machine, keep-alive, queued sending and
  the receive loop.

  The ESP8266 SDK (\<open>espconn_*\<close>, \<open>system_os_*\<close>, \<open>os_timer_*\<close>) is not part of the sources: a
  call to it is an event in the ghost field \<open>trace\<close>, and a result the code uses is an
  argument of the operation. \<open>os_zalloc\<close> is taken to succeed. The build has no
  \<open>MQTT_SSL_ENABLE\<close>, so a client with \<open>security\<close> set makes no transport call. Application
  callbacks are the argument \<open>cbs\<close>; the client's fields only say whether they are registered.
\<close>

section \<open>State\<close>

datatype tConnState =
    WIFI_INIT | WIFI_CONNECTING | WIFI_CONNECTING_ERROR | WIFI_CONNECTED | DNS_RESOLVE
  | TCP_DISCONNECTING | TCP_DISCONNECTED | TCP_RECONNECT_DISCONNECTING | TCP_RECONNECT_REQ
  | TCP_RECONNECT | TCP_CONNECTING | TCP_CONNECTING_ERROR | TCP_CONNECTED | MQTT_CONNECT_SEND
  | MQTT_CONNECT_SENDING | MQTT_SUBSCIBE_SEND | MQTT_SUBSCIBE_SENDING | MQTT_DATA
  | MQTT_KEEPALIVE_SEND | MQTT_PUBLISH_RECV | MQTT_PUBLISHING | MQTT_DELETING | MQTT_DELETED

text \<open>The connection block \<open>pCon\<close> with its \<open>proto.tcp\<close> block.\<close>

record espconn =
  remote_ip :: bytes
  remote_port :: u32

datatype event =
    Ev_Post | Ev_Task | Ev_TimerArm | Ev_TimerDisarm
  | Ev_Connect bytes | Ev_Resolve bytes | Ev_Disconnect | Ev_Abort | Ev_Delete | Ev_Regist
  | Ev_Send bytes
  | Ev_Connected | Ev_Disconnected | Ev_Published | Ev_Timeout
  | Ev_Data "bytes option" "bytes option"

text \<open>
  \<open>MQTT_Client\<close> with its \<open>mqtt_state\<close>. \<open>has_out\<close> says that \<open>out_buffer\<close> is not null; its
  memory is the \<open>buffer\<close> of \<open>conn\<close>, which is the same pointer. \<open>has_info\<close> says that
  \<open>mqtt_state.connect_info\<close> points to \<open>connect_info\<close>, \<open>outbound\<close> that \<open>outbound_message\<close>
  points to the message of \<open>conn\<close> (it never points anywhere else).
\<close>

record mqtt_client =
  pCon :: "espconn option"
  security :: u8
  host :: "bytes option"
  port :: u32
  ip_addr :: u32
  in_buffer :: "bytes option"
  in_buffer_length :: nat
  has_out :: bool
  out_buffer_length :: nat
  message_length :: nat
  message_length_read :: nat
  outbound :: bool
  conn :: mqtt_connection
  has_info :: bool
  pending_msg_id :: u16
  pending_msg_type :: nat
  connect_info :: mqtt_connect_info
  connectedCb :: bool
  disconnectedCb :: bool
  publishedCb :: bool
  timeoutCb :: bool
  dataCb :: bool
  keepAliveTick :: u32
  reconnectTick :: u32
  sendTimeout :: u32
  connState :: tConnState
  msgQueue :: msg_queue
  user_data :: bool
  trace :: "event list"

text \<open>The application's callbacks. The data callback gets offsets into \<open>in_buffer\<close>.\<close>

record callbacks =
  cb_connected :: "mqtt_client \<Rightarrow> mqtt_client option"
  cb_disconnected :: "mqtt_client \<Rightarrow> mqtt_client option"
  cb_published :: "mqtt_client \<Rightarrow> mqtt_client option"
  cb_timeout :: "mqtt_client \<Rightarrow> mqtt_client option"
  cb_data :: "mqtt_client \<Rightarrow> nat option \<Rightarrow> nat \<Rightarrow> nat option \<Rightarrow> nat \<Rightarrow> mqtt_client option"

text \<open>The uninitialised locals of a function that reads the queue.\<close>

record locals =
  l_c :: u8
  l_proto :: proto_parser
  dataBuffer :: bytes
  dataLen :: nat

definition MQTT_BUF_SIZE :: nat where "MQTT_BUF_SIZE = 0x500"
definition QUEUE_BUFFER_SIZE :: nat where "QUEUE_BUFFER_SIZE = 512"
definition MQTT_SEND_TIMOUT :: u32 where "MQTT_SEND_TIMOUT = 5"
definition MQTT_RECONNECT_TIMEOUT :: u32 where "MQTT_RECONNECT_TIMEOUT = 5"

definition emit :: "event \<Rightarrow> mqtt_client \<Rightarrow> mqtt_client" where
  "emit e c = c\<lparr>trace := trace c @ [e]\<rparr>"

text \<open>\<open>system_os_post(MQTT_TASK_PRIO, 0, client)\<close>, and a callback call if it is registered.\<close>

abbreviation post :: "mqtt_client \<Rightarrow> mqtt_client" where
  "post \<equiv> emit Ev_Post"

definition call_back ::
    "bool \<Rightarrow> event \<Rightarrow> (mqtt_client \<Rightarrow> mqtt_client option) \<Rightarrow> mqtt_client \<Rightarrow> mqtt_client option" where
  "call_back registered e f c = (if registered then f (emit e c) else Some c)"

text \<open>The message that \<open>outbound_message\<close> points to: its data pointer's object.\<close>

definition outbound_data :: "mqtt_client \<Rightarrow> bytes option" where
  "outbound_data c = do { d \<leftarrow> msg_data (conn c); Some (drop d (buffer (conn c))) }"

section \<open>Transport\<close>

text \<open>A transport call \<open>e\<close>, which needs a build with TLS when \<open>security\<close> is set.\<close>

definition transport :: "event \<Rightarrow> mqtt_client \<Rightarrow> mqtt_client" where
  "transport e c = (if security c \<noteq> 0 then c else emit e c)"

text \<open>\<open>espconn_send(pCon, data, length)\<close>: reads \<open>length\<close> bytes.\<close>

definition send_block :: "mqtt_client \<Rightarrow> bytes \<Rightarrow> nat \<Rightarrow> mqtt_client option" where
  "send_block c data len =
     (if security c \<noteq> 0 then Some c
      else do { xs \<leftarrow> load_block data 0 len; Some (emit (Ev_Send xs) c) })"

definition le32 :: "u32 \<Rightarrow> bytes" where
  "le32 x = map (\<lambda>i. of_nat (unat x div 256 ^ i)) [0, 1, 2, 3]"

definition mqtt_dns_found :: "mqtt_client \<Rightarrow> u32 option \<Rightarrow> mqtt_client option" where
  "mqtt_dns_found c ipaddr =
     (case ipaddr of
        None \<Rightarrow> Some (c\<lparr>connState := TCP_RECONNECT_REQ\<rparr>)
      | Some a \<Rightarrow> do {
          c \<leftarrow> (if ip_addr c = 0 \<and> a \<noteq> 0 then do {
                 p \<leftarrow> pCon c;
                 let c = c\<lparr>pCon := Some (p\<lparr>remote_ip := le32 a\<rparr>)\<rparr>;
                 Some ((transport (Ev_Connect (le32 a)) c)\<lparr>connState := TCP_CONNECTING\<rparr>)
               } else Some c);
          Some (post c)
        })"

definition deliver_publish :: "callbacks \<Rightarrow> mqtt_client \<Rightarrow> nat \<Rightarrow> mqtt_client option" where
  "deliver_publish cbs c len = do {
     message \<leftarrow> in_buffer c;
     (topic, topic_length) \<leftarrow> mqtt_get_publish_topic message len;
     (data, data_length) \<leftarrow> mqtt_get_publish_data message len;
     if dataCb c then
       cb_data cbs (emit (Ev_Data (do { p \<leftarrow> topic; load_block message p topic_length })
                                  (do { p \<leftarrow> data; load_block message p data_length })) c)
         topic topic_length data data_length
     else Some c
   }"

text \<open>The messages that \<open>mqtt_msg_*\<close> built become \<open>outbound_message\<close>.\<close>

definition set_outbound :: "mqtt_client \<Rightarrow> mqtt_connection \<Rightarrow> mqtt_client" where
  "set_outbound c m = c\<lparr>conn := m, outbound := True\<rparr>"

definition set_pending :: "mqtt_client \<Rightarrow> bytes \<Rightarrow> nat \<Rightarrow> mqtt_client option" where
  "set_pending c data len = do {
     t \<leftarrow> mqtt_get_type data;
     i \<leftarrow> mqtt_get_id data len;
     Some (c\<lparr>pending_msg_type := t, pending_msg_id := of_nat i\<rparr>)
   }"

text \<open>\<open>send_ok\<close>: \<open>espconn_send\<close> returned \<open>ESPCONN_OK\<close>.\<close>

definition mqtt_send_keepalive :: "mqtt_client \<Rightarrow> bool \<Rightarrow> mqtt_client option" where
  "mqtt_send_keepalive c send_ok = do {
     m \<leftarrow> mqtt_msg_pingreq (conn c);
     let c = set_outbound c m;
     data \<leftarrow> outbound_data c;
     c \<leftarrow> set_pending c data (msg_length m);
     let c = c\<lparr>sendTimeout := MQTT_SEND_TIMOUT\<rparr>;
     let result = (security c \<noteq> 0 \<or> send_ok);
     c \<leftarrow> send_block c data (msg_length m);
     let c = c\<lparr>outbound := False\<rparr>;
     if result then Some (post (c\<lparr>keepAliveTick := 0, connState := MQTT_DATA\<rparr>))
     else Some (post (c\<lparr>connState := TCP_RECONNECT_DISCONNECTING\<rparr>))
   }"

definition mqtt_tcpclient_delete :: "mqtt_client \<Rightarrow> mqtt_client" where
  "mqtt_tcpclient_delete c =
     (if pCon c \<noteq> None then (emit Ev_Delete (emit Ev_Abort c))\<lparr>pCon := None\<rparr> else c)"

text \<open>
  \<open>mqtt_client_delete\<close>. The blocks of \<open>in_buffer\<close>, \<open>host\<close> and the strings are freed once
  each. \<open>outbound_message->data\<close> points into \<open>out_buffer\<close>, which has been freed by then:
  freeing it is undefined.
\<close>

definition mqtt_client_delete :: "mqtt_client option \<Rightarrow> mqtt_client option option" where
  "mqtt_client_delete mqttClient =
     (case mqttClient of None \<Rightarrow> Some None | Some c \<Rightarrow> do {
        let c = mqtt_tcpclient_delete c;
        let c = c\<lparr>host := None, user_data := False, in_buffer := None, has_out := False\<rparr>;
        if outbound c \<and> msg_data (conn c) \<noteq> None then None
        else Some (Some (c\<lparr>conn := (conn c)\<lparr>buffer := []\<rparr>,
          connect_info := (connect_info c)\<lparr>client_id := None, username := None, password := None,
            will_topic := None, will_message := None\<rparr>,
          msgQueue := (msgQueue c)\<lparr>q_buf := False\<rparr>,
          connState := WIFI_INIT, connectedCb := False, disconnectedCb := False,
          publishedCb := False, timeoutCb := False, dataCb := False\<rparr>))
      })"

section \<open>Receiving\<close>

text \<open>\<open>QUEUE_Puts\<close> of the outbound message; the result is its status.\<close>

definition queue_outbound :: "mqtt_client \<Rightarrow> (int \<times> mqtt_client) option" where
  "queue_outbound c = do {
     data \<leftarrow> outbound_data c;
     (r, q) \<leftarrow> QUEUE_Puts (msgQueue c) data (msg_length (conn c));
     Some (r, c\<lparr>msgQueue := q\<rparr>)
   }"

text \<open>Building a response and queueing it; a full queue is only reported.\<close>

definition respond :: "mqtt_client \<Rightarrow> mqtt_connection option \<Rightarrow> mqtt_client option" where
  "respond c m = do { m \<leftarrow> m; (r, c) \<leftarrow> queue_outbound (set_outbound c m); Some c }"

definition recv_connack :: "callbacks \<Rightarrow> mqtt_client \<Rightarrow> nat \<Rightarrow> mqtt_client option" where
  "recv_connack cbs c msg_type =
     (if msg_type = type_code MQTT_MSG_TYPE_CONNACK then
        (if pending_msg_type c \<noteq> type_code MQTT_MSG_TYPE_CONNECT then Some (transport Ev_Disconnect c)
         else do {
           b \<leftarrow> in_buffer c;
           msg_conn_ret \<leftarrow> mqtt_get_connect_return_code b;
           if msg_conn_ret = 0
           then call_back (connectedCb c) Ev_Connected (cb_connected cbs) (c\<lparr>connState := MQTT_DATA\<rparr>)
           else Some (transport Ev_Disconnect c)
         })
      else Some c)"

definition recv_publish ::
    "callbacks \<Rightarrow> mqtt_client \<Rightarrow> nat \<Rightarrow> u16 \<Rightarrow> mqtt_client option" where
  "recv_publish cbs c msg_qos msg_id = do {
     c \<leftarrow> (if msg_qos = 1 then respond c (mqtt_msg_puback (conn c) msg_id)
           else if msg_qos = 2 then respond c (mqtt_msg_pubrec (conn c) msg_id)
           else Some c);
     deliver_publish cbs c (message_length_read c)
   }"

text \<open>The inner switch on the message type.\<close>

definition recv_message ::
    "callbacks \<Rightarrow> mqtt_client \<Rightarrow> nat \<Rightarrow> nat \<Rightarrow> u16 \<Rightarrow> mqtt_client option" where
  "recv_message cbs c msg_type msg_qos msg_id =
     (if msg_type = type_code MQTT_MSG_TYPE_PUBLISH then recv_publish cbs c msg_qos msg_id
      else if msg_type = type_code MQTT_MSG_TYPE_PUBREC then respond c (mqtt_msg_pubrel (conn c) msg_id)
      else if msg_type = type_code MQTT_MSG_TYPE_PUBREL then respond c (mqtt_msg_pubcomp (conn c) msg_id)
      else if msg_type = type_code MQTT_MSG_TYPE_PINGREQ then respond c (mqtt_msg_pingresp (conn c))
      else Some c)"

text \<open>
  One pass from the label \<open>READPACKET\<close> to the end of the switch; the second component of the
  result is the rest of the data when the pass ends in \<open>goto READPACKET\<close>.
\<close>

definition recv_packet ::
    "callbacks \<Rightarrow> mqtt_client \<Rightarrow> bytes \<Rightarrow> nat \<Rightarrow> (mqtt_client \<times> (bytes \<times> nat) option) option" where
  "recv_packet cbs c pdata len =
     (if len < MQTT_BUF_SIZE \<and> len > 0 then do {
        b \<leftarrow> in_buffer c;
        xs \<leftarrow> load_block pdata 0 len;
        b \<leftarrow> store_block b 0 xs;
        let c = c\<lparr>in_buffer := Some b\<rparr>;
        msg_type \<leftarrow> mqtt_get_type b;
        msg_qos \<leftarrow> mqtt_get_qos b;
        msg_id \<leftarrow> mqtt_get_id b (in_buffer_length c);
        if connState c = MQTT_CONNECT_SENDING then do {
          c \<leftarrow> recv_connack cbs c msg_type;
          Some (c, None)
        }
        else if connState c = MQTT_DATA \<or> connState c = MQTT_KEEPALIVE_SEND then do {
          total \<leftarrow> mqtt_get_total_length b len;
          let c = c\<lparr>message_length_read := len, message_length := to_u16 total\<rparr>;
          c \<leftarrow> recv_message cbs c msg_type msg_qos (of_nat msg_id);
          if msg_type = type_code MQTT_MSG_TYPE_PUBLISH \<and> message_length c < message_length_read c
          then Some (c, Some (drop (message_length c) pdata, message_length_read c - message_length c))
          else Some (c, None)
        }
        else Some (c, None)
      } else Some (c, None))"

text \<open>
  The loop. The outer \<open>None\<close> is that it does not return, the inner one undefined behaviour.
\<close>

partial_function (option) recv_loop ::
    "callbacks \<Rightarrow> mqtt_client \<Rightarrow> bytes \<Rightarrow> nat \<Rightarrow> mqtt_client option option" where
  "recv_loop cbs c pdata len =
     (case recv_packet cbs c pdata len of
        None \<Rightarrow> Some None
      | Some (c, None) \<Rightarrow> Some (Some (post c))
      | Some (c, Some (pdata, len)) \<Rightarrow> recv_loop cbs c pdata len)"

definition mqtt_tcpclient_recv ::
    "callbacks \<Rightarrow> mqtt_client \<Rightarrow> bytes \<Rightarrow> nat \<Rightarrow> mqtt_client option option" where
  "mqtt_tcpclient_recv cbs c pdata len = recv_loop cbs (c\<lparr>keepAliveTick := 0\<rparr>) pdata len"

section \<open>Transport callbacks and the timer\<close>

definition mqtt_tcpclient_sent_cb :: "callbacks \<Rightarrow> mqtt_client \<Rightarrow> mqtt_client option" where
  "mqtt_tcpclient_sent_cb cbs c = do {
     let c = c\<lparr>sendTimeout := 0, keepAliveTick := 0\<rparr>;
     c \<leftarrow> call_back ((connState c = MQTT_DATA \<or> connState c = MQTT_KEEPALIVE_SEND) \<and>
              pending_msg_type c = type_code MQTT_MSG_TYPE_PUBLISH \<and> publishedCb c)
            Ev_Published (cb_published cbs) c;
     Some (post c)
   }"

definition mqtt_timer :: "callbacks \<Rightarrow> mqtt_client \<Rightarrow> mqtt_client option" where
  "mqtt_timer cbs c = do {
     c \<leftarrow> (if connState c = MQTT_DATA then do {
             let c = c\<lparr>keepAliveTick := keepAliveTick c + 1\<rparr>;
             if has_info c then
               Some (if keepAliveTick c > keepalive (connect_info c) div 2
                     then post (c\<lparr>connState := MQTT_KEEPALIVE_SEND\<rparr>) else c)
             else None
           }
           else if connState c = TCP_RECONNECT_REQ then do {
             let c = c\<lparr>reconnectTick := reconnectTick c + 1\<rparr>;
             if reconnectTick c > MQTT_RECONNECT_TIMEOUT then
               (let c = post (c\<lparr>reconnectTick := 0, connState := TCP_RECONNECT\<rparr>)
                in call_back (timeoutCb c) Ev_Timeout (cb_timeout cbs) c)
             else Some c
           }
           else Some c);
     Some (if sendTimeout c > 0 then c\<lparr>sendTimeout := sendTimeout c - 1\<rparr> else c)
   }"

definition mqtt_tcpclient_discon_cb :: "callbacks \<Rightarrow> mqtt_client \<Rightarrow> mqtt_client option" where
  "mqtt_tcpclient_discon_cb cbs c = do {
     let c = c\<lparr>connState :=
       (if connState c = TCP_DISCONNECTING then TCP_DISCONNECTED
        else if connState c = MQTT_DELETING then MQTT_DELETED
        else TCP_RECONNECT_REQ)\<rparr>;
     c \<leftarrow> call_back (disconnectedCb c) Ev_Disconnected (cb_disconnected cbs) c;
     Some (post c)
   }"

definition mqtt_tcpclient_connect_cb :: "protocol_name \<Rightarrow> mqtt_client \<Rightarrow> mqtt_client option" where
  "mqtt_tcpclient_connect_cb p c =
     (if \<not> has_out c \<or> \<not> has_info c then None else do {
        let c = emit Ev_Regist c;
        m \<leftarrow> mqtt_msg_connect p (mqtt_msg_init (buffer (conn c)) (out_buffer_length c)) (connect_info c);
        let c = set_outbound c m;
        data \<leftarrow> outbound_data c;
        c \<leftarrow> set_pending c data (msg_length m);
        let c = c\<lparr>sendTimeout := MQTT_SEND_TIMOUT\<rparr>;
        c \<leftarrow> send_block c data (msg_length m);
        Some (post (c\<lparr>outbound := False, connState := MQTT_CONNECT_SENDING\<rparr>))
      })"

definition mqtt_tcpclient_recon_cb :: "mqtt_client \<Rightarrow> mqtt_client" where
  "mqtt_tcpclient_recon_cb c = post (c\<lparr>connState := TCP_RECONNECT_REQ\<rparr>)"

section \<open>Requests of the application\<close>

text \<open>\<open>QUEUE_Gets(&client->msgQueue, dataBuffer, &dataLen, MQTT_BUF_SIZE)\<close>\<close>

definition queue_gets :: "msg_queue \<Rightarrow> locals \<Rightarrow> (int \<times> locals \<times> msg_queue) option" where
  "queue_gets q u = do {
     (s, buf, len, q) \<leftarrow> QUEUE_Gets q (l_c u) (l_proto u) (dataBuffer u) (dataLen u) MQTT_BUF_SIZE;
     Some (s, u\<lparr>dataBuffer := buf, dataLen := len\<rparr>, q)
   }"

text \<open>A message that is read from the queue frees space.\<close>

lemma ParseRb_loop_decreases:
  "PROTO_ParseRb_loop rb c p = Some (True, p', rb') \<Longrightarrow> nat (fill_cnt rb') < nat (fill_cnt rb)"
proof (induction rb c p rule: PROTO_ParseRb_loop.induct)
  case (1 rb c p)
  obtain s c1 rb1 where get: "RINGBUF_Get rb c = Some (s, c1, rb1)" "s = 0"
    using 1(2) by (subst (asm) PROTO_ParseRb_loop.simps) (auto split: option.splits if_splits)
  obtain t p1 where byte: "PROTO_ParseByte p c1 = Some (t, p1)"
    using 1(2) get by (subst (asm) PROTO_ParseRb_loop.simps) (auto split: option.splits if_splits)
  have dec: "nat (fill_cnt rb1) < nat (fill_cnt rb)" using get by (auto dest: RINGBUF_Get_decreases)
  show ?case
  proof (cases "t = 0")
    case True
    with 1(2) get byte have "rb' = rb1" by (subst (asm) PROTO_ParseRb_loop.simps) auto
    with dec show ?thesis by simp
  next
    case False
    with 1(2) get byte have "PROTO_ParseRb_loop rb1 c1 p1 = Some (True, p', rb')"
      by (subst (asm) PROTO_ParseRb_loop.simps) auto
    with 1(1) get byte False dec show ?thesis by fastforce
  qed
qed

lemma queue_gets_decreases:
  "queue_gets q u = Some (s, u', q') \<Longrightarrow> s \<noteq> -1 \<Longrightarrow> nat (fill_cnt (q_rb q')) < nat (fill_cnt (q_rb q))"
  by (auto simp: queue_gets_def QUEUE_Gets_def PROTO_ParseRb_def bind_eq_Some_conv Let_def
    split: prod.splits if_splits dest!: ParseRb_loop_decreases)

text \<open>The loop of \<open>MQTT_Publish\<close>: drop the oldest messages until \<open>need\<close> slots are free.\<close>

function make_room :: "msg_queue \<Rightarrow> nat \<Rightarrow> locals \<Rightarrow> (bool \<times> msg_queue) option" where
  "make_room q need u =
     (if rb_size (q_rb q) - fill_cnt (q_rb q) < int need then
        (case queue_gets q u of
           None \<Rightarrow> None
         | Some (s, u', q') \<Rightarrow> if s = -1 then Some (False, q') else make_room q' need u')
      else Some (True, q))"
  by pat_completeness auto
termination
  by (relation "measure (\<lambda>(q, need, u). nat (fill_cnt (q_rb q)))") (auto dest: queue_gets_decreases)

declare make_room.simps [simp del]

text \<open>The loop of the other requests: put, and drop the oldest message while that fails.\<close>

lemma QUEUE_Puts_failed:
  "QUEUE_Puts q m n = Some (-1, q') \<Longrightarrow> fill_cnt (q_rb q') = fill_cnt (q_rb q)"
  by (auto simp: QUEUE_Puts_def bind_eq_Some_conv Let_def split: if_splits)

function puts_retry :: "msg_queue \<Rightarrow> bytes \<Rightarrow> nat \<Rightarrow> locals \<Rightarrow> (bool \<times> msg_queue) option" where
  "puts_retry q data n u =
     (case QUEUE_Puts q data n of
        None \<Rightarrow> None
      | Some (r, q1) \<Rightarrow>
          if r = -1 then
            (case queue_gets q1 u of
               None \<Rightarrow> None
             | Some (s, u', q2) \<Rightarrow> if s = -1 then Some (False, q2) else puts_retry q2 data n u')
          else Some (True, q1))"
  by pat_completeness auto
termination
proof (relation "measure (\<lambda>(q, data, n, u). nat (fill_cnt (q_rb q)))")
  show "wf (measure (\<lambda>(q :: msg_queue, data :: bytes, n :: nat, u :: locals). nat (fill_cnt (q_rb q))))"
    by simp
qed (auto dest!: queue_gets_decreases dest: QUEUE_Puts_failed)

declare puts_retry.simps [simp del]

definition MQTT_Publish ::
    "mqtt_client \<Rightarrow> locals \<Rightarrow> bytes option \<Rightarrow> bytes \<Rightarrow> int \<Rightarrow> int \<Rightarrow> int \<Rightarrow> (bool \<times> mqtt_client) option" where
  "MQTT_Publish c u topic data data_length qos retain = do {
     (m, mid) \<leftarrow> mqtt_msg_publish (conn c) topic data data_length qos retain (pending_msg_id c);
     let c = (set_outbound c m)\<lparr>pending_msg_id := mid\<rparr>;
     if msg_length m = 0 then Some (False, c) else do {
       (ok, q) \<leftarrow> make_room (msgQueue c) (msg_length m + 2) u;
       let c = c\<lparr>msgQueue := q\<rparr>;
       if \<not> ok then Some (False, c) else do {
         (r, c) \<leftarrow> queue_outbound c;
         Some (True, post c)
       }
     }
   }"

definition request_put :: "mqtt_client \<Rightarrow> locals \<Rightarrow> (bool \<times> mqtt_client) option" where
  "request_put c u = do {
     data \<leftarrow> outbound_data c;
     (ok, q) \<leftarrow> puts_retry (msgQueue c) data (msg_length (conn c)) u;
     let c = c\<lparr>msgQueue := q\<rparr>;
     Some (if ok then (True, post c) else (False, c))
   }"

definition MQTT_Subscribe ::
    "mqtt_client \<Rightarrow> locals \<Rightarrow> bytes option \<Rightarrow> u8 \<Rightarrow> (bool \<times> mqtt_client) option" where
  "MQTT_Subscribe c u topic qos = do {
     (m, mid) \<leftarrow> mqtt_msg_subscribe (conn c) topic (uint qos) (pending_msg_id c);
     request_put ((set_outbound c m)\<lparr>pending_msg_id := mid\<rparr>) u
   }"

definition MQTT_UnSubscribe ::
    "mqtt_client \<Rightarrow> locals \<Rightarrow> bytes option \<Rightarrow> (bool \<times> mqtt_client) option" where
  "MQTT_UnSubscribe c u topic = do {
     (m, mid) \<leftarrow> mqtt_msg_unsubscribe (conn c) topic (pending_msg_id c);
     request_put ((set_outbound c m)\<lparr>pending_msg_id := mid\<rparr>) u
   }"

definition MQTT_Ping :: "mqtt_client \<Rightarrow> locals \<Rightarrow> (bool \<times> mqtt_client) option" where
  "MQTT_Ping c u = do {
     m \<leftarrow> mqtt_msg_pingreq (conn c);
     let c = set_outbound c m;
     if msg_length m = 0 then Some (False, c) else request_put c u
   }"

section \<open>Life cycle\<close>

text \<open>
  \<open>MQTT_InitConnection\<close>: \<open>memset\<close> clears the client, so it does not depend on the old one.
  A string is copied into a block of its length plus one.
\<close>

definition copy_string :: "bytes \<Rightarrow> bytes option" where
  "copy_string s = do { n \<leftarrow> strlen s; Some (take n s @ [0]) }"

definition no_info :: mqtt_connect_info where
  "no_info = \<lparr>client_id = None, username = None, password = None, will_topic = None,
     will_message = None, keepalive = 0, will_qos = 0, will_retain = 0, clean_session = 0\<rparr>"

definition MQTT_InitConnection :: "bytes \<Rightarrow> u32 \<Rightarrow> u8 \<Rightarrow> mqtt_client option" where
  "MQTT_InitConnection h p sec = do {
     h \<leftarrow> copy_string h;
     Some \<lparr>pCon = None, security = sec, host = Some h, port = p, ip_addr = 0, in_buffer = None,
       in_buffer_length = 0, has_out = False, out_buffer_length = 0, message_length = 0,
       message_length_read = 0, outbound = False,
       conn = \<lparr>msg_data = None, msg_length = 0, message_id = 0, buffer = [], buffer_length = 0\<rparr>,
       has_info = False, pending_msg_id = 0, pending_msg_type = 0, connect_info = no_info,
       connectedCb = False, disconnectedCb = False, publishedCb = False, timeoutCb = False,
       dataCb = False, keepAliveTick = 0, reconnectTick = 0, sendTimeout = 0, connState = WIFI_INIT,
       msgQueue = \<lparr>q_buf = False, q_rb = \<lparr>rb_mem = [], p_r = 0, p_w = 0, fill_cnt = 0, rb_size = 0\<rparr>\<rparr>,
       user_data = False, trace = []\<rparr>
   }"

text \<open>An optional string argument; \<open>zero_len_id\<close> is the static array \<open>{ 0, 0 }\<close>.\<close>

definition copy_optional :: "bytes option \<Rightarrow> bytes option option" where
  "copy_optional s = (case s of None \<Rightarrow> Some None | Some s \<Rightarrow> do { s \<leftarrow> copy_string s; Some (Some s) })"

definition MQTT_InitClient ::
    "protocol_name \<Rightarrow> mqtt_client \<Rightarrow> bytes option \<Rightarrow> bytes option \<Rightarrow> bytes option \<Rightarrow> u32 \<Rightarrow> u8
      \<Rightarrow> (bool \<times> mqtt_client) option" where
  "MQTT_InitClient p c cid user pass keepAliveTime cleanSession =
     (if cid = None \<and> (p = PROTOCOL_NAMEv31 \<or> cleanSession = 0)
      then Some (False, c\<lparr>connect_info := no_info\<rparr>)
      else do {
        cid \<leftarrow> (case cid of None \<Rightarrow> Some (Some [0, 0]) | Some s \<Rightarrow> copy_optional (Some s));
        user \<leftarrow> copy_optional user;
        pass \<leftarrow> copy_optional pass;
        let c = c\<lparr>connect_info := no_info\<lparr>client_id := cid, username := user, password := pass,
            keepalive := keepAliveTime, clean_session := uint cleanSession\<rparr>,
          in_buffer := Some (replicate MQTT_BUF_SIZE 0), in_buffer_length := MQTT_BUF_SIZE,
          has_out := True, out_buffer_length := MQTT_BUF_SIZE, has_info := True,
          conn := mqtt_msg_init (replicate MQTT_BUF_SIZE 0) MQTT_BUF_SIZE,
          msgQueue := QUEUE_Init (msgQueue c) (Some (replicate QUEUE_BUFFER_SIZE 0)) (int QUEUE_BUFFER_SIZE)\<rparr>;
        Some (True, post (emit Ev_Task c))
      })"

definition MQTT_InitLWT :: "mqtt_client \<Rightarrow> bytes \<Rightarrow> bytes \<Rightarrow> u8 \<Rightarrow> u8 \<Rightarrow> mqtt_client option" where
  "MQTT_InitLWT c topic msg qos retain = do {
     topic \<leftarrow> copy_string topic;
     msg \<leftarrow> copy_string msg;
     Some (c\<lparr>connect_info := (connect_info c)\<lparr>will_topic := Some topic, will_message := Some msg,
       will_qos := uint qos, will_retain := uint retain\<rparr>\<rparr>)
   }"

text \<open>
  \<open>MQTT_Connect\<close>. When the host is no address, \<open>espconn_gethostbyname\<close> is given the cell
  \<open>ip\<close> and calls \<open>mqtt_dns_found\<close> later.
\<close>

definition MQTT_Connect :: "mqtt_client \<Rightarrow> mqtt_client option" where
  "MQTT_Connect c = do {
     let c = (if pCon c \<noteq> None then mqtt_tcpclient_delete c else c);
     h \<leftarrow> host c;
     (found, rip) \<leftarrow> UTILS_StrToIP h [0, 0, 0, 0];
     let c = c\<lparr>pCon := Some \<lparr>remote_ip = rip, remote_port = port c\<rparr>,
       keepAliveTick := 0, reconnectTick := 0\<rparr>;
     let c = emit Ev_TimerArm (emit Ev_TimerDisarm (emit Ev_Regist c));
     let c = (if found \<noteq> 0 then transport (Ev_Connect rip) c else emit (Ev_Resolve h) c);
     Some (c\<lparr>connState := TCP_CONNECTING\<rparr>)
   }"

definition MQTT_Disconnect :: "mqtt_client \<Rightarrow> mqtt_client" where
  "MQTT_Disconnect c = emit Ev_TimerDisarm (post (c\<lparr>connState := TCP_DISCONNECTING\<rparr>))"

definition MQTT_DeleteClient :: "mqtt_client option \<Rightarrow> mqtt_client option" where
  "MQTT_DeleteClient c = (case c of None \<Rightarrow> None
     | Some c \<Rightarrow> Some (emit Ev_TimerDisarm (post (c\<lparr>connState := MQTT_DELETED\<rparr>))))"

definition MQTT_OnConnected :: "mqtt_client \<Rightarrow> bool \<Rightarrow> mqtt_client" where
  "MQTT_OnConnected c f = c\<lparr>connectedCb := f\<rparr>"

definition MQTT_OnDisconnected :: "mqtt_client \<Rightarrow> bool \<Rightarrow> mqtt_client" where
  "MQTT_OnDisconnected c f = c\<lparr>disconnectedCb := f\<rparr>"

definition MQTT_OnData :: "mqtt_client \<Rightarrow> bool \<Rightarrow> mqtt_client" where
  "MQTT_OnData c f = c\<lparr>dataCb := f\<rparr>"

definition MQTT_OnPublished :: "mqtt_client \<Rightarrow> bool \<Rightarrow> mqtt_client" where
  "MQTT_OnPublished c f = c\<lparr>publishedCb := f\<rparr>"

definition MQTT_OnTimeout :: "mqtt_client \<Rightarrow> bool \<Rightarrow> mqtt_client" where
  "MQTT_OnTimeout c f = c\<lparr>timeoutCb := f\<rparr>"

text \<open>Sending the oldest queued message, when nothing is in flight.\<close>

definition task_send :: "mqtt_client \<Rightarrow> locals \<Rightarrow> mqtt_client option" where
  "task_send c u =
     (if QUEUE_IsEmpty (msgQueue c) \<or> sendTimeout c \<noteq> 0 then Some c else do {
        (s, u, q) \<leftarrow> queue_gets (msgQueue c) u;
        let c = c\<lparr>msgQueue := q\<rparr>;
        if s = 0 then do {
          c \<leftarrow> set_pending c (dataBuffer u) (dataLen u);
          let c = c\<lparr>sendTimeout := MQTT_SEND_TIMOUT\<rparr>;
          c \<leftarrow> send_block c (dataBuffer u) (dataLen u);
          Some (c\<lparr>outbound := False\<rparr>)
        } else Some c
      })"

text \<open>
  \<open>MQTT_Task\<close>. \<open>send_ok\<close> is the result of \<open>espconn_send\<close> for a keep-alive; a null parameter
  is no client.
\<close>

definition MQTT_Task :: "mqtt_client option \<Rightarrow> locals \<Rightarrow> bool \<Rightarrow> mqtt_client option option" where
  "MQTT_Task par u send_ok =
     (case par of None \<Rightarrow> Some None | Some c \<Rightarrow>
        (case connState c of
           TCP_RECONNECT \<Rightarrow> do {
             c \<leftarrow> MQTT_Connect (mqtt_tcpclient_delete c);
             Some (Some (c\<lparr>connState := TCP_CONNECTING\<rparr>))
           }
         | MQTT_DELETING \<Rightarrow> Some (Some (transport Ev_Disconnect c))
         | TCP_DISCONNECTING \<Rightarrow> Some (Some (transport Ev_Disconnect c))
         | TCP_RECONNECT_DISCONNECTING \<Rightarrow> Some (Some (transport Ev_Disconnect c))
         | TCP_DISCONNECTED \<Rightarrow> Some (Some (mqtt_tcpclient_delete c))
         | MQTT_DELETED \<Rightarrow> mqtt_client_delete (Some c)
         | MQTT_KEEPALIVE_SEND \<Rightarrow> do { c \<leftarrow> mqtt_send_keepalive c send_ok; Some (Some c) }
         | MQTT_DATA \<Rightarrow> do { c \<leftarrow> task_send c u; Some (Some c) }
         | _ \<Rightarrow> Some (Some c)))"

end
