(* ===== verification/Mqtt_Client_Facts.thy ===== *)
theory Mqtt_Client_Facts
  imports Mqtt_Client
begin

text \<open>
  The MQTT client against its specification: the queue operations of the client refine a list
  of messages, every operation keeps the client's buffers well formed, and the receive loop
  delivers each packet once.
\<close>

section \<open>The queue as the client uses it\<close>

text \<open>Dropping the oldest messages until \<open>need\<close> slots are free, and putting with drops.\<close>

fun drop_until :: "nat \<Rightarrow> nat \<Rightarrow> bytes list \<Rightarrow> bool \<times> bytes list" where
  "drop_until cap need [] = (need \<le> cap, [])"
| "drop_until cap need (m # ms) =
     (if length (frames (m # ms)) + need \<le> cap then (True, m # ms) else drop_until cap need ms)"

fun put_dropping :: "nat \<Rightarrow> bytes list \<Rightarrow> bytes \<Rightarrow> bool \<times> bytes list" where
  "put_dropping cap [] m = (if length (frame m) \<le> cap then (True, [m]) else (False, []))"
| "put_dropping cap (x # xs) m =
     (if length (frames (x # xs)) + length (frame m) \<le> cap then (True, x # xs @ [m])
      else put_dropping cap xs m)"

definition locals_ok :: "locals \<Rightarrow> bool" where
  "locals_ok u \<longleftrightarrow> length (dataBuffer u) = MQTT_BUF_SIZE"

lemma queue_gets_next:
  assumes "queue_holds q (m # ms)" and "locals_ok u" and "length m \<le> MQTT_BUF_SIZE"
  obtains u' q' where "queue_gets q u = Some (0, u', q')" "take (length m) (dataBuffer u') = m"
    "dataLen u' = length m" "locals_ok u'" "queue_holds q' ms" "queue_size q' = queue_size q"
    "q_buf q' = q_buf q"
proof -
  have "MQTT_BUF_SIZE \<le> length (dataBuffer u)" using assms(2) by (simp add: locals_ok_def)
  from QUEUE_Gets_next [OF assms(1) this, of "l_c u" "l_proto u" "dataLen u"] that assms(2,3)
  show ?thesis by (auto simp: queue_gets_def locals_ok_def min_absorb2)
qed

lemma queue_gets_none:
  assumes "queue_holds q []" and "locals_ok u"
  obtains u' q' where "queue_gets q u = Some (-1, u', q')" "locals_ok u'" "queue_holds q' []"
    "queue_size q' = queue_size q" "q_buf q' = q_buf q"
proof -
  have "MQTT_BUF_SIZE \<le> length (dataBuffer u)" using assms(2) by (simp add: locals_ok_def)
  from QUEUE_Gets_none [OF assms(1) this, of "l_c u" "l_proto u" "dataLen u"] that assms(2)
  show ?thesis by (auto simp: queue_gets_def locals_ok_def)
qed

definition short :: "bytes list \<Rightarrow> bool" where
  "short ms \<longleftrightarrow> (\<forall>m \<in> set ms. length m \<le> MQTT_BUF_SIZE)"

lemma short_simps [simp]:
  "short []" "short (m # ms) = (length m \<le> MQTT_BUF_SIZE \<and> short ms)"
  "short (xs @ ys) = (short xs \<and> short ys)"
  by (auto simp: short_def)

lemma holds_free: "queue_holds q ms \<Longrightarrow>
    (rb_size (q_rb q) - fill_cnt (q_rb q) < int need) = (\<not> length (frames ms) + need \<le> queue_size q)"
proof -
  assume q: "queue_holds q ms"
  then have "0 \<le> rb_size (q_rb q)" by (simp add: queue_holds_def rb_inv_def)
  with holds_used_int [OF q] show ?thesis unfolding queue_size_def by linarith
qed

lemma make_room_spec:
  assumes "queue_holds q ms" and "short ms" and "locals_ok u"
  shows "\<exists>q'. make_room q need u = Some (fst (drop_until (queue_size q) need ms), q') \<and>
    queue_holds q' (snd (drop_until (queue_size q) need ms)) \<and> queue_size q' = queue_size q \<and>
    q_buf q' = q_buf q"
  using assms
proof (induction ms arbitrary: q u)
  case Nil
  obtain u' q' where q': "queue_gets q u = Some (-1, u', q')" "queue_holds q' []"
    "queue_size q' = queue_size q" "q_buf q' = q_buf q"
    by (rule queue_gets_none [OF Nil.prems(1,3)])
  show ?case
    using q' Nil.prems(1) holds_free [OF Nil.prems(1), of need]
    by (subst make_room.simps) simp
next
  case (Cons m ms)
  obtain u' q' where q': "queue_gets q u = Some (0, u', q')" "locals_ok u'" "queue_holds q' ms"
    "queue_size q' = queue_size q" "q_buf q' = q_buf q"
    by (rule queue_gets_next [OF Cons.prems(1,3)]) (use Cons.prems(2) in simp_all)
  from Cons.IH [OF q'(3) _ q'(2)] Cons.prems(2) q' show ?case
    using Cons.prems(1) holds_free [OF Cons.prems(1), of need]
    by (subst make_room.simps) simp
qed

lemma puts_retry_spec:
  assumes "queue_holds q ms" and "short ms" and "locals_ok u" and "n \<le> length data" and "n < 65536"
  shows "\<exists>q'. puts_retry q data n u = Some (fst (put_dropping (queue_size q) ms (take n data)), q') \<and>
    queue_holds q' (snd (put_dropping (queue_size q) ms (take n data))) \<and>
    queue_size q' = queue_size q \<and> q_buf q' = q_buf q"
  using assms(1-3)
proof (induction ms arbitrary: q u)
  case Nil
  show ?case
  proof (cases "length (frame (take n data)) \<le> queue_size q")
    case True
    with QUEUE_Puts_fits [OF Nil.prems(1) assms(4,5)] show ?thesis
      by (subst puts_retry.simps) auto
  next
    case False
    then obtain q1 where q1: "QUEUE_Puts q data n = Some (-1, q1)" "queue_holds q1 []"
      "queue_size q1 = queue_size q" "q_buf q1 = q_buf q"
      using QUEUE_Puts_rejects [OF Nil.prems(1) assms(4,5)] by auto
    obtain u' q2 where "queue_gets q1 u = Some (-1, u', q2)" "queue_holds q2 []"
      "queue_size q2 = queue_size q1" "q_buf q2 = q_buf q1"
      by (rule queue_gets_none [OF q1(2) Nil.prems(3)])
    with q1 False show ?thesis by (subst puts_retry.simps) simp
  qed
next
  case (Cons m ms)
  show ?case
  proof (cases "length (frames (m # ms)) + length (frame (take n data)) \<le> queue_size q")
    case True
    with QUEUE_Puts_fits [OF Cons.prems(1) assms(4,5)] show ?thesis
      by (subst puts_retry.simps) auto
  next
    case False
    then obtain q1 where q1: "QUEUE_Puts q data n = Some (-1, q1)" "queue_holds q1 (m # ms)"
      "queue_size q1 = queue_size q" "q_buf q1 = q_buf q"
      using QUEUE_Puts_rejects [OF Cons.prems(1) assms(4,5)] by auto
    obtain u' q2 where q2: "queue_gets q1 u = Some (0, u', q2)" "locals_ok u'" "queue_holds q2 ms"
      "queue_size q2 = queue_size q1" "q_buf q2 = q_buf q1"
      by (rule queue_gets_next [OF q1(2) Cons.prems(3)]) (use Cons.prems(2) in simp_all)
    from Cons.IH [OF q2(3) _ q2(2)] Cons.prems(2) q1 q2 False show ?thesis
      by (subst puts_retry.simps) simp
  qed
qed

lemma drop_until_suffix: "\<exists>n. snd (drop_until cap need ms) = drop n ms"
proof (induction ms)
  case (Cons m ms)
  then obtain n where "snd (drop_until cap need ms) = drop n ms" by blast
  then show ?case by (auto intro: exI [of _ 0] exI [of _ "Suc n"])
qed simp

lemma drop_until_room:
  "fst (drop_until cap need ms) = (need \<le> cap) \<and>
   (need \<le> cap \<longrightarrow> length (frames (snd (drop_until cap need ms))) + need \<le> cap)"
  by (induction ms) auto

lemma put_dropping_outcome:
  "\<exists>n. put_dropping cap ms m =
    (length (frame m) \<le> cap, if length (frame m) \<le> cap then drop n ms @ [m] else [])"
proof (induction ms)
  case (Cons x xs)
  then obtain n where "put_dropping cap xs m =
      (length (frame m) \<le> cap, if length (frame m) \<le> cap then drop n xs @ [m] else [])" by blast
  then show ?case by (auto intro: exI [of _ 0] exI [of _ "Suc n"])
qed simp

lemma short_drop: "short ms \<Longrightarrow> short (drop n ms)"
  by (auto simp: short_def dest: in_set_dropD)

lemma short_drop_until: "short ms \<Longrightarrow> short (snd (drop_until cap need ms))"
  using drop_until_suffix [of cap need ms] short_drop by metis

lemma short_put_dropping:
  "short ms \<Longrightarrow> length m \<le> MQTT_BUF_SIZE \<Longrightarrow> short (snd (put_dropping cap ms m))"
  by (induction ms) auto

section \<open>Well-formed clients\<close>

definition client_ok :: "mqtt_client \<Rightarrow> bool" where
  "client_ok c \<longleftrightarrow> conn_ok (conn c) \<and> buffer_length (conn c) = MQTT_BUF_SIZE \<and> has_out c \<and>
     out_buffer_length c = MQTT_BUF_SIZE \<and> in_buffer_length c = MQTT_BUF_SIZE \<and>
     (\<exists>b. in_buffer c = Some b \<and> length b = MQTT_BUF_SIZE) \<and> has_info c \<and>
     info_ok (connect_info c) \<and> opt_str (client_id (connect_info c)) \<noteq> [] \<and>
     (\<exists>h. host c = Some h \<and> UTILS_StrToIP h [0, 0, 0, 0] \<noteq> None) \<and>
     queue_size (msgQueue c) = QUEUE_BUFFER_SIZE"

text \<open>\<open>holds c ms\<close>: the client is well formed and its queue holds the messages \<open>ms\<close>.\<close>

definition holds :: "mqtt_client \<Rightarrow> bytes list \<Rightarrow> bool" where
  "holds c ms \<longleftrightarrow> client_ok c \<and> queue_holds (msgQueue c) ms \<and> short ms"

text \<open>The fields that neither depends on.\<close>

lemma client_ok_simps [simp]:
  "client_ok (c\<lparr>pCon := p\<rparr>) = client_ok c" "client_ok (c\<lparr>outbound := b\<rparr>) = client_ok c"
  "client_ok (c\<lparr>message_length := n\<rparr>) = client_ok c" "client_ok (c\<lparr>message_length_read := n\<rparr>) = client_ok c"
  "client_ok (c\<lparr>pending_msg_id := i\<rparr>) = client_ok c" "client_ok (c\<lparr>pending_msg_type := n\<rparr>) = client_ok c"
  "client_ok (c\<lparr>keepAliveTick := t\<rparr>) = client_ok c" "client_ok (c\<lparr>reconnectTick := t\<rparr>) = client_ok c"
  "client_ok (c\<lparr>sendTimeout := t\<rparr>) = client_ok c" "client_ok (c\<lparr>connState := st\<rparr>) = client_ok c"
  "client_ok (c\<lparr>trace := tr\<rparr>) = client_ok c" "client_ok (emit e c) = client_ok c"
  "client_ok (c\<lparr>connectedCb := b\<rparr>) = client_ok c" "client_ok (c\<lparr>disconnectedCb := b\<rparr>) = client_ok c"
  "client_ok (c\<lparr>publishedCb := b\<rparr>) = client_ok c" "client_ok (c\<lparr>timeoutCb := b\<rparr>) = client_ok c"
  "client_ok (c\<lparr>dataCb := b\<rparr>) = client_ok c"
  by (simp_all add: client_ok_def emit_def)

lemma holds_simps [simp]:
  "holds (c\<lparr>pCon := p\<rparr>) ms = holds c ms" "holds (c\<lparr>outbound := b\<rparr>) ms = holds c ms"
  "holds (c\<lparr>message_length := n\<rparr>) ms = holds c ms" "holds (c\<lparr>message_length_read := n\<rparr>) ms = holds c ms"
  "holds (c\<lparr>pending_msg_id := i\<rparr>) ms = holds c ms" "holds (c\<lparr>pending_msg_type := n\<rparr>) ms = holds c ms"
  "holds (c\<lparr>keepAliveTick := t\<rparr>) ms = holds c ms" "holds (c\<lparr>reconnectTick := t\<rparr>) ms = holds c ms"
  "holds (c\<lparr>sendTimeout := t\<rparr>) ms = holds c ms" "holds (c\<lparr>connState := st\<rparr>) ms = holds c ms"
  "holds (c\<lparr>trace := tr\<rparr>) ms = holds c ms" "holds (emit e c) ms = holds c ms"
  "holds (transport e c) ms = holds c ms"
  by (simp_all add: holds_def transport_def) (simp_all add: emit_def)

lemma emit_simps [simp]:
  "pCon (emit e c) = pCon c" "security (emit e c) = security c" "host (emit e c) = host c"
  "in_buffer (emit e c) = in_buffer c" "conn (emit e c) = conn c" "msgQueue (emit e c) = msgQueue c"
  "connState (emit e c) = connState c" "dataCb (emit e c) = dataCb c" "port (emit e c) = port c"
  "message_length (emit e c) = message_length c" "sendTimeout (emit e c) = sendTimeout c"
  "message_length_read (emit e c) = message_length_read c" "trace (emit e c) = trace c @ [e]"
  "connect_info (emit e c) = connect_info c" "keepAliveTick (emit e c) = keepAliveTick c"
  "outbound (emit e c) = outbound c" "pending_msg_type (emit e c) = pending_msg_type c"
  "in_buffer_length (emit e c) = in_buffer_length c" "timeoutCb (emit e c) = timeoutCb c"
  "reconnectTick (emit e c) = reconnectTick c" "out_buffer_length (emit e c) = out_buffer_length c"
  "has_info (emit e c) = has_info c" "disconnectedCb (emit e c) = disconnectedCb c"
  "connectedCb (emit e c) = connectedCb c" "publishedCb (emit e c) = publishedCb c"
  by (simp_all add: emit_def)

lemma holdsD: "holds c ms \<Longrightarrow> client_ok c" "holds c ms \<Longrightarrow> queue_holds (msgQueue c) ms"
    "holds c ms \<Longrightarrow> short ms" "holds c ms \<Longrightarrow> queue_size (msgQueue c) = QUEUE_BUFFER_SIZE"
  by (simp_all add: holds_def client_ok_def)

lemma holds_queue:
  "holds c ms \<Longrightarrow> queue_holds q ms' \<Longrightarrow> queue_size q = QUEUE_BUFFER_SIZE \<Longrightarrow> short ms' \<Longrightarrow>
    holds (c\<lparr>msgQueue := q\<rparr>) ms'"
  by (simp add: holds_def client_ok_def)

lemma client_conn:
  "client_ok c \<Longrightarrow> conn_ok (conn c)" "client_ok c \<Longrightarrow> small_buffer (conn c)"
  "client_ok c \<Longrightarrow> buffer_length (conn c) = MQTT_BUF_SIZE"
  by (simp_all add: client_ok_def small_buffer_def MQTT_BUF_SIZE_def)

text \<open>After a builder has run: the outbound message.\<close>

lemma holds_set_outbound:
  "holds c ms \<Longrightarrow> built (conn c) p m \<Longrightarrow> holds (set_outbound c m) ms"
  by (simp add: holds_def client_ok_def set_outbound_def built_def)

lemma set_outbound_simps [simp]:
  "conn (set_outbound c m) = m" "msgQueue (set_outbound c m) = msgQueue c"
  "connState (set_outbound c m) = connState c" "in_buffer (set_outbound c m) = in_buffer c"
  "outbound_data (set_outbound c m) = do { d \<leftarrow> msg_data m; Some (drop d (buffer m)) }"
  "trace (set_outbound c m) = trace c" "security (set_outbound c m) = security c"
  by (simp_all add: set_outbound_def outbound_data_def)

lemma built_message:
  assumes "built c p m"
  obtains d where "msg_data m = Some d" "take (msg_length m) (drop d (buffer m)) = p"
    "msg_length m = length p" "msg_length m \<le> length (drop d (buffer m))" "length p \<le> buffer_length c"
proof -
  obtain d where d: "msg_data m = Some d" "load_block (buffer m) d (msg_length m) = Some p"
    using assms by (auto simp: built_def message_out_def bind_eq_Some_conv)
  then have fit: "d + msg_length m \<le> length (buffer m)" "take (msg_length m) (drop d (buffer m)) = p"
    by (auto simp: load_block_def split: if_splits)
  moreover have "length (buffer m) = buffer_length c" using assms by (simp add: built_def conn_ok_def)
  ultimately show ?thesis using that [OF d(1) fit(2)] by auto
qed

definition enqueue :: "bytes list \<Rightarrow> bytes \<Rightarrow> bytes list" where
  "enqueue ms p = (if length (frames ms) + length (frame p) \<le> QUEUE_BUFFER_SIZE then ms @ [p] else ms)"

text \<open>Queueing the message under construction appends it when its frame fits.\<close>

lemma queue_outbound_spec:
  assumes "holds c ms" and "built (conn c0) p (conn c)" and "buffer_length (conn c0) = MQTT_BUF_SIZE"
  obtains r q where "queue_outbound c = Some (r, c\<lparr>msgQueue := q\<rparr>)"
    "holds (c\<lparr>msgQueue := q\<rparr>) (enqueue ms p)"
proof -
  obtain d where d: "msg_data (conn c) = Some d" "take (msg_length (conn c)) (drop d (buffer (conn c))) = p"
    "msg_length (conn c) = length p" "msg_length (conn c) \<le> length (drop d (buffer (conn c)))"
    "length p \<le> MQTT_BUF_SIZE"
    using built_message [OF assms(2)] assms(3) by metis
  have n: "msg_length (conn c) < 65536" using d(3,5) by (simp add: MQTT_BUF_SIZE_def)
  note q = holdsD [OF assms(1)]
  have p: "short (enqueue ms p)" using q(3) d(5) by (simp add: enqueue_def)
  show ?thesis
  proof (cases "length (frames ms) + length (frame p) \<le> QUEUE_BUFFER_SIZE")
    case True
    with QUEUE_Puts_fits [OF q(2) d(4) n] d q(4) obtain s q' where
      "QUEUE_Puts (msgQueue c) (drop d (buffer (conn c))) (msg_length (conn c)) = Some (s, q')"
      "queue_holds q' (ms @ [p])" "queue_size q' = QUEUE_BUFFER_SIZE" by auto
    with that [of s q'] holds_queue [OF assms(1)] True d(1) p show ?thesis
      by (simp add: queue_outbound_def outbound_data_def enqueue_def)
  next
    case False
    with QUEUE_Puts_rejects [OF q(2) d(4) n] d q(4) obtain q' where
      "QUEUE_Puts (msgQueue c) (drop d (buffer (conn c))) (msg_length (conn c)) = Some (-1, q')"
      "queue_holds q' ms" "queue_size q' = QUEUE_BUFFER_SIZE" by auto
    with that [of "-1" q'] holds_queue [OF assms(1)] False d(1) p show ?thesis
      by (simp add: queue_outbound_def outbound_data_def enqueue_def)
  qed
qed

lemma respond_spec:
  assumes "holds c ms" and "r = Some m" and "built (conn c) p m"
  obtains q where "respond c r = Some ((set_outbound c m)\<lparr>msgQueue := q\<rparr>)"
    "holds ((set_outbound c m)\<lparr>msgQueue := q\<rparr>) (enqueue ms p)"
proof -
  have "built (conn c) p (conn (set_outbound c m))" using assms(3) by simp
  from queue_outbound_spec [OF holds_set_outbound [OF assms(1,3)] this
      client_conn(3) [OF holdsD(1) [OF assms(1)]]]
  obtain r' q where q: "queue_outbound (set_outbound c m) = Some (r', (set_outbound c m)\<lparr>msgQueue := q\<rparr>)"
    "holds ((set_outbound c m)\<lparr>msgQueue := q\<rparr>) (enqueue ms p)" .
  have "respond c r = Some ((set_outbound c m)\<lparr>msgQueue := q\<rparr>)"
    unfolding respond_def assms(2) Option.bind.simps q(1) by (simp only: prod.case)
  from this q(2) show ?thesis by (rule that)
qed

section \<open>Initialisation\<close>

lemma copy_string_Some: "0 \<in> set s \<Longrightarrow> copy_string s = Some (cstr s @ [0])"
  by (simp add: copy_string_def strlen_Some take_cstr)

lemma cstr_no_zero: "0 \<notin> set (cstr s)"
  unfolding cstr_def by (metis (mono_tags, lifting) set_takeWhileD)

lemma cstr_copy [simp]: "cstr (cstr s @ [0]) = cstr s"
  using cstr_no_zero [of s] unfolding cstr_def
  by (metis (mono_tags, lifting) append.right_neutral set_takeWhileD takeWhile.simps(2) takeWhile_append2)

lemma copy_optional_ok:
  "str_ok s \<Longrightarrow> copy_optional s = Some (map_option (\<lambda>s. cstr s @ [0]) s)"
  by (cases s) (simp_all add: copy_optional_def str_ok_def copy_string_Some)

lemma init_client_holds:
  assumes "0 \<in> set h" and "UTILS_StrToIP (cstr h @ [0]) [0, 0, 0, 0] \<noteq> None"
    and "0 \<in> set cid" and "cstr cid \<noteq> []" and "str_ok user" and "str_ok pass"
  shows "\<exists>c c'. MQTT_InitConnection h p sec = Some c \<and>
    MQTT_InitClient v c (Some cid) user pass ka cs = Some (True, c') \<and> holds c' [] \<and>
    connState c' = WIFI_INIT \<and> security c' = sec \<and> pCon c' = None"
proof -
  have q: "queue_holds (QUEUE_Init q (Some (replicate QUEUE_BUFFER_SIZE 0)) (int QUEUE_BUFFER_SIZE)) []"
    "queue_size (QUEUE_Init q (Some (replicate QUEUE_BUFFER_SIZE 0)) (int QUEUE_BUFFER_SIZE)) = QUEUE_BUFFER_SIZE"
    for q using QUEUE_Init_holds [of "replicate QUEUE_BUFFER_SIZE 0" q]
    by (simp_all add: QUEUE_BUFFER_SIZE_def)
  have z: "str_ok (map_option (\<lambda>s. cstr s @ [0]) s)" for s by (cases s) (simp_all add: str_ok_def)
  show ?thesis
    using assms q z [of user] z [of pass]
    by (simp add: MQTT_InitConnection_def MQTT_InitClient_def copy_string_Some copy_optional_ok str_ok_def
      holds_def client_ok_def mqtt_msg_init_def conn_ok_def MQTT_BUF_SIZE_def info_ok_def no_info_def
      opt_str_def emit_def)
qed

text \<open>The client of the witnesses: host \<open>1.2.3.4\<close>, identifier \<open>D\<close>.\<close>

definition example_host :: bytes where
  "example_host = [49, 46, 50, 46, 51, 46, 52, 0]"

definition example_client :: mqtt_client where
  "example_client = the (do { c \<leftarrow> MQTT_InitConnection example_host 1883 0;
     (ok, c) \<leftarrow> MQTT_InitClient PROTOCOL_NAMEv31 c (Some [68, 0]) None None 120 1; Some c })"

lemma example_client_holds:
  "holds example_client []" "connState example_client = WIFI_INIT" "security example_client = 0"
proof -
  have h: "cstr example_host @ [0] = numerals4 [49] [50] [51] [52] @ 0 # []" "0 \<in> set example_host"
    by (simp_all add: example_host_def cstr_def numerals4_def)
  have "UTILS_StrToIP (cstr example_host @ [0]) [0, 0, 0, 0] \<noteq> None"
    unfolding h(1) by (subst StrToIP_numerals4) (simp_all add: is_digit_def dec_value_def)
  from init_client_holds [OF h(2) this, of "[68, 0]" None None 1883 0 PROTOCOL_NAMEv31 120 1]
  show "holds example_client []" "connState example_client = WIFI_INIT" "security example_client = 0"
    by (auto simp: example_client_def cstr_def str_ok_def)
qed

lemma example_timeout: "sendTimeout example_client = 0" "reconnectTick example_client = 0"
    "keepAliveTick example_client = 0" "keepalive (connect_info example_client) = 120"
  by (simp_all add: example_client_def MQTT_InitConnection_def MQTT_InitClient_def copy_string_Some
    copy_optional_def example_host_def emit_def no_info_def)

lemma example_host_client: "host example_client = Some example_host"
  by (simp add: example_client_def MQTT_InitConnection_def MQTT_InitClient_def copy_string_Some
    copy_optional_def example_host_def emit_def no_info_def cstr_def)

definition example_locals :: locals where
  "example_locals = \<lparr>l_c = 0, l_proto = \<lparr>pbuf = [], bufSize = 0, dataLen = 0, isEsc = 0,
     isBegin = 0, callback = False, cb_calls = 0\<rparr>, dataBuffer = replicate MQTT_BUF_SIZE 0, dataLen = 0\<rparr>"

lemma example_locals_ok [simp]: "locals_ok example_locals"
  by (simp add: example_locals_def locals_ok_def)

section \<open>Requests\<close>

lemma request_put_spec:
  assumes "holds c ms" and "built (conn c0) p (conn c)" and "buffer_length (conn c0) = MQTT_BUF_SIZE"
    and "locals_ok u"
  shows "\<exists>c'. request_put c u = Some (fst (put_dropping QUEUE_BUFFER_SIZE ms p), c') \<and>
    holds c' (snd (put_dropping QUEUE_BUFFER_SIZE ms p)) \<and> connState c' = connState c"
proof -
  obtain d where d: "msg_data (conn c) = Some d" "take (msg_length (conn c)) (drop d (buffer (conn c))) = p"
    "msg_length (conn c) = length p" "msg_length (conn c) \<le> length (drop d (buffer (conn c)))"
    "length p \<le> MQTT_BUF_SIZE"
    using built_message [OF assms(2)] assms(3) by metis
  have n: "msg_length (conn c) < 65536" using d(3,5) by (simp add: MQTT_BUF_SIZE_def)
  note q = holdsD [OF assms(1)]
  have s: "short (snd (put_dropping QUEUE_BUFFER_SIZE ms p))" using q(3) d(5) by (rule short_put_dropping)
  from puts_retry_spec [OF q(2,3) assms(4) d(4) n, unfolded d(2) q(4)] obtain q' where
    "puts_retry (msgQueue c) (drop d (buffer (conn c))) (msg_length (conn c)) u =
      Some (fst (put_dropping QUEUE_BUFFER_SIZE ms p), q')"
    "queue_holds q' (snd (put_dropping QUEUE_BUFFER_SIZE ms p))" "queue_size q' = QUEUE_BUFFER_SIZE"
    by blast
  with holds_queue [OF assms(1) this(2,3) s] d(1) show ?thesis
    by (simp add: request_put_def outbound_data_def Let_def)
qed

text \<open>What \<open>MQTT_Publish\<close> does to the queued messages.\<close>

definition publish_queue :: "bytes list \<Rightarrow> bytes \<Rightarrow> bool \<times> bytes list" where
  "publish_queue ms p =
     (let (room, ms') = drop_until QUEUE_BUFFER_SIZE (length p + 2) ms
      in if room then (True, enqueue ms' p) else (False, ms'))"

definition publish_bytes :: "mqtt_connection \<Rightarrow> bytes \<Rightarrow> int \<Rightarrow> int \<Rightarrow> bytes \<Rightarrow> bytes" where
  "publish_bytes m topic qos retain data =
     packet MQTT_MSG_TYPE_PUBLISH 0 qos retain (publish_body topic qos (publish_id m qos) data)"

lemma publish_queue_short: "short ms \<Longrightarrow> length p \<le> MQTT_BUF_SIZE \<Longrightarrow> short (snd (publish_queue ms p))"
  using short_drop_until [of ms QUEUE_BUFFER_SIZE "length p + 2"]
  by (auto simp: publish_queue_def enqueue_def split: prod.splits)

text \<open>The queueing part of \<open>MQTT_Publish\<close>.\<close>

lemma publish_queued:
  assumes c: "holds c ms" and u: "locals_ok u" and b: "built (conn c0) p (conn c)"
    and c0: "buffer_length (conn c0) = MQTT_BUF_SIZE"
  shows "\<exists>c'. do { (ok, q) \<leftarrow> make_room (msgQueue c) (msg_length (conn c) + 2) u;
      let c = c\<lparr>msgQueue := q\<rparr>;
      if \<not> ok then Some (False, c) else do { (r, c) \<leftarrow> queue_outbound c; Some (True, post c) } } =
    Some (fst (publish_queue ms p), c') \<and> holds c' (snd (publish_queue ms p)) \<and> connState c' = connState c"
proof -
  note h = holdsD [OF c]
  have len: "msg_length (conn c) = length p" using built_message [OF b] by metis
  obtain room ms' where d: "drop_until QUEUE_BUFFER_SIZE (length p + 2) ms = (room, ms')"
    by (cases "drop_until QUEUE_BUFFER_SIZE (length p + 2) ms")
  with make_room_spec [OF h(2,3) u, of "length p + 2"] h(4) obtain q where
    q: "make_room (msgQueue c) (length p + 2) u = Some (room, q)" "queue_holds q ms'"
    "queue_size q = QUEUE_BUFFER_SIZE" by auto
  have s: "short ms'" using short_drop_until [OF h(3), of QUEUE_BUFFER_SIZE "length p + 2"] d by simp
  let ?c = "c\<lparr>msgQueue := q\<rparr>"
  have c1: "holds ?c ms'" by (rule holds_queue [OF c q(2,3) s])
  show ?thesis
  proof (cases room)
    case False
    with q(1) d c1 show ?thesis by (simp add: len publish_queue_def)
  next
    case True
    have "built (conn c0) p (conn ?c)" using b by simp
    from queue_outbound_spec [OF c1 this c0] obtain r q2 where
      "queue_outbound ?c = Some (r, ?c\<lparr>msgQueue := q2\<rparr>)" "holds (?c\<lparr>msgQueue := q2\<rparr>) (enqueue ms' p)" .
    with True q(1) d show ?thesis by (simp add: len publish_queue_def)
  qed
qed

lemma MQTT_Publish_fits:
  assumes c: "holds c ms" and u: "locals_ok u" and t: "0 \<in> set t" "cstr t \<noteq> []"
    and fit: "3 + length (publish_body (cstr t) qos (publish_id (conn c) qos) data) \<le> MQTT_BUF_SIZE"
  shows "\<exists>c'. MQTT_Publish c u (Some t) data (int (length data)) qos retain =
      Some (fst (publish_queue ms (publish_bytes (conn c) (cstr t) qos retain data)), c') \<and>
    holds c' (snd (publish_queue ms (publish_bytes (conn c) (cstr t) qos retain data))) \<and>
    connState c' = connState c"
proof -
  let ?p = "publish_bytes (conn c) (cstr t) qos retain data"
  note h = holdsD(1) [OF c] and cc = client_conn [OF holdsD(1) [OF c]]
  from publish_spec [OF cc(1,2) t, of data qos retain "pending_msg_id c"] fit cc(3) obtain m mid where
    m: "mqtt_msg_publish (conn c) (Some t) data (int (length data)) qos retain (pending_msg_id c) = Some (m, mid)"
    and b: "built (conn c) ?p m" by (auto simp: yields_def fits_def publish_bytes_def)
  have "msg_length m = length ?p" using built_message [OF b] by metis
  then have nz: "msg_length m \<noteq> 0" by (simp add: publish_bytes_def packet_def)
  let ?c = "(set_outbound c m)\<lparr>pending_msg_id := mid\<rparr>"
  have "holds ?c ms" using holds_set_outbound [OF c b] by simp
  moreover have "built (conn c) ?p (conn ?c)" using b by simp
  ultimately show ?thesis
    using publish_queued [of ?c ms u c ?p] u cc(3) nz by (simp add: MQTT_Publish_def m)
qed

lemma MQTT_Publish_too_long:
  assumes c: "holds c ms" and t: "0 \<in> set t" "cstr t \<noteq> []"
    and "\<not> 3 + length (publish_body (cstr t) qos (publish_id (conn c) qos) data) \<le> MQTT_BUF_SIZE"
  shows "\<exists>c'. MQTT_Publish c u (Some t) data (int (length data)) qos retain = Some (False, c') \<and>
    holds c' ms \<and> connState c' = connState c"
proof -
  note cc = client_conn [OF holdsD(1) [OF c]]
  from publish_spec [OF cc(1,2) t, of data qos retain "pending_msg_id c"] assms(4) cc(3) obtain m mid where
    m: "mqtt_msg_publish (conn c) (Some t) data (int (length data)) qos retain (pending_msg_id c) = Some (m, mid)"
    and b: "built (conn c) [] m" by (auto simp: yields_def fits_def)
  have "msg_length m = 0" using built_message [OF b] by (metis list.size(3))
  with m holds_set_outbound [OF c b] show ?thesis by (simp add: MQTT_Publish_def)
qed

text \<open>The three requests that retry: subscribe, unsubscribe and ping.\<close>

lemma MQTT_Subscribe_spec:
  fixes q :: u8
  assumes c: "holds c ms" and u: "locals_ok u" and t: "0 \<in> set t" "cstr t \<noteq> []"
  defines "xs \<equiv> mqtt_id (used_id (conn c) 0) @ mqtt_str (cstr t) @ [word_of_int (uint q)]"
  defines "p \<equiv> if 3 + length xs \<le> MQTT_BUF_SIZE then packet MQTT_MSG_TYPE_SUBSCRIBE 0 1 0 xs else []"
  shows "\<exists>c'. MQTT_Subscribe c u (Some t) q = Some (fst (put_dropping QUEUE_BUFFER_SIZE ms p), c') \<and>
    holds c' (snd (put_dropping QUEUE_BUFFER_SIZE ms p)) \<and> connState c' = connState c"
proof -
  note cc = client_conn [OF holdsD(1) [OF c]]
  from subscribe_spec [OF cc(1,2) t, of "uint q" "pending_msg_id c"] cc(3) obtain m mid where
    m: "mqtt_msg_subscribe (conn c) (Some t) (uint q) (pending_msg_id c) = Some (m, mid)"
    and b: "built (conn c) p m" unfolding yields_def fits_def p_def xs_def by auto
  let ?c = "(set_outbound c m)\<lparr>pending_msg_id := mid\<rparr>"
  have "holds ?c ms" "built (conn c) p (conn ?c)" using holds_set_outbound [OF c b] b by simp_all
  from request_put_spec [OF this cc(3) u] show ?thesis by (simp add: MQTT_Subscribe_def m)
qed

lemma MQTT_UnSubscribe_spec:
  assumes c: "holds c ms" and u: "locals_ok u" and t: "0 \<in> set t" "cstr t \<noteq> []"
  defines "xs \<equiv> mqtt_id (used_id (conn c) 0) @ mqtt_str (cstr t)"
  defines "p \<equiv> if 3 + length xs \<le> MQTT_BUF_SIZE then packet MQTT_MSG_TYPE_UNSUBSCRIBE 0 1 0 xs else []"
  shows "\<exists>c'. MQTT_UnSubscribe c u (Some t) = Some (fst (put_dropping QUEUE_BUFFER_SIZE ms p), c') \<and>
    holds c' (snd (put_dropping QUEUE_BUFFER_SIZE ms p)) \<and> connState c' = connState c"
proof -
  note cc = client_conn [OF holdsD(1) [OF c]]
  from unsubscribe_spec [OF cc(1,2) t, of "pending_msg_id c"] cc(3) obtain m mid where
    m: "mqtt_msg_unsubscribe (conn c) (Some t) (pending_msg_id c) = Some (m, mid)"
    and b: "built (conn c) p m" unfolding yields_def fits_def p_def xs_def by auto
  let ?c = "(set_outbound c m)\<lparr>pending_msg_id := mid\<rparr>"
  have "holds ?c ms" "built (conn c) p (conn ?c)" using holds_set_outbound [OF c b] b by simp_all
  from request_put_spec [OF this cc(3) u] show ?thesis by (simp add: MQTT_UnSubscribe_def m)
qed

lemma pingreq_built:
  assumes "client_ok c"
  obtains m where "mqtt_msg_pingreq (conn c) = Some m"
    "built (conn c) (packet MQTT_MSG_TYPE_PINGREQ 0 0 0 []) m"
proof -
  note cc = client_conn [OF assms]
  from ping_spec [OF cc(1,2), of MQTT_MSG_TYPE_PINGREQ] cc(3) that show ?thesis
    by (auto simp: mqtt_msg_pingreq_def yields_def fits_def MQTT_BUF_SIZE_def)
qed

lemma MQTT_Ping_spec:
  assumes c: "holds c ms" and u: "locals_ok u"
  defines "p \<equiv> packet MQTT_MSG_TYPE_PINGREQ 0 0 0 []"
  shows "\<exists>c'. MQTT_Ping c u = Some (fst (put_dropping QUEUE_BUFFER_SIZE ms p), c') \<and>
    holds c' (snd (put_dropping QUEUE_BUFFER_SIZE ms p)) \<and> connState c' = connState c"
proof -
  obtain m where m: "mqtt_msg_pingreq (conn c) = Some m" and b: "built (conn c) p m"
    using pingreq_built [OF holdsD(1) [OF c]] p_def by metis
  have "msg_length m = length p" using built_message [OF b] by metis
  then have "msg_length m \<noteq> 0" by (simp add: p_def packet_def)
  moreover have "holds (set_outbound c m) ms" "built (conn c) p (conn (set_outbound c m))"
    using holds_set_outbound [OF c b] b by simp_all
  ultimately show ?thesis
    using request_put_spec [of "set_outbound c m" ms c p u] client_conn(3) [OF holdsD(1) [OF c]] u
    by (simp add: MQTT_Ping_def m)
qed

section \<open>Receiving a stream of publish packets\<close>

record publication =
  pb_topic :: bytes
  pb_dup :: int
  pb_qos :: int
  pb_retain :: int
  pb_id :: u16
  pb_data :: bytes

definition wire :: "publication \<Rightarrow> bytes" where
  "wire p = publish_packet (pb_topic p) (pb_dup p) (pb_qos p) (pb_retain p) (pb_id p) (pb_data p)"

definition stream :: "publication list \<Rightarrow> bytes" where
  "stream ps = concat (map wire ps)"

text \<open>MQTT asks for a topic, a QoS of 0 to 2 and an identifier other than 0 when QoS is not 0.\<close>

definition publication_ok :: "publication \<Rightarrow> bool" where
  "publication_ok p \<longleftrightarrow> pb_topic p \<noteq> [] \<and> 0 \<le> pb_qos p \<and> pb_qos p \<le> 2 \<and>
     (pb_qos p > 0 \<longrightarrow> pb_id p \<noteq> 0)"

text \<open>
  What the receiver owes for a publication: the acknowledgement it queues, and the call of
  the data callback. At the end of the data an empty payload is passed as \<open>NULL\<close>.
\<close>

definition acknowledge :: "bytes list \<Rightarrow> publication \<Rightarrow> bytes list" where
  "acknowledge ms p =
     (if pb_qos p = 1 then enqueue ms (packet MQTT_MSG_TYPE_PUBACK 0 0 0 (mqtt_id (pb_id p)))
      else if pb_qos p = 2 then enqueue ms (packet MQTT_MSG_TYPE_PUBREC 0 0 0 (mqtt_id (pb_id p)))
      else ms)"

fun deliveries :: "publication list \<Rightarrow> event list" where
  "deliveries [] = []"
| "deliveries (p # ps) =
     Ev_Data (Some (pb_topic p)) (if pb_data p = [] \<and> ps = [] then None else Some (pb_data p))
       # deliveries ps"

text \<open>Clients that accept data, and callbacks that only look.\<close>

definition accepting :: "mqtt_client \<Rightarrow> bool" where
  "accepting c \<longleftrightarrow> (connState c = MQTT_DATA \<or> connState c = MQTT_KEEPALIVE_SEND) \<and> dataCb c"

definition observing :: "callbacks \<Rightarrow> bool" where
  "observing cbs \<longleftrightarrow> (\<forall>c t tl d dl. cb_data cbs c t tl d dl = Some c)"

lemma ack_built:
  assumes "client_ok c" and "mid \<noteq> 0"
  obtains m where "mqtt_msg_ack (conn c) mid type qos = Some m"
    "built (conn c) (packet type 0 qos 0 (mqtt_id mid)) m"
proof -
  note cc = client_conn [OF assms(1)]
  from ack_spec [OF cc(1,2), of mid type qos] cc(3) assms(2) that show ?thesis
    by (auto simp: yields_def fits_def MQTT_BUF_SIZE_def used_id_def)
qed

lemma accepting_respond [simp]:
  "accepting ((set_outbound c m)\<lparr>msgQueue := q\<rparr>) = accepting c"
  "connState ((set_outbound c m)\<lparr>msgQueue := q\<rparr>) = connState c"
  "in_buffer ((set_outbound c m)\<lparr>msgQueue := q\<rparr>) = in_buffer c"
  "message_length ((set_outbound c m)\<lparr>msgQueue := q\<rparr>) = message_length c"
  "message_length_read ((set_outbound c m)\<lparr>msgQueue := q\<rparr>) = message_length_read c"
  "trace ((set_outbound c m)\<lparr>msgQueue := q\<rparr>) = trace c"
  by (simp_all add: accepting_def set_outbound_def)

text \<open>The acknowledgement.\<close>

lemma recv_ack:
  assumes "holds c ms" and "publication_ok p"
  obtains c' where
    "(if nat (pb_qos p) = 1 then respond c (mqtt_msg_puback (conn c) (pb_id p))
      else if nat (pb_qos p) = 2 then respond c (mqtt_msg_pubrec (conn c) (pb_id p)) else Some c) = Some c'"
    "holds c' (acknowledge ms p)" "connState c' = connState c" "accepting c' = accepting c"
    "in_buffer c' = in_buffer c" "message_length c' = message_length c"
    "message_length_read c' = message_length_read c" "trace c' = trace c"
proof -
  have q: "nat (pb_qos p) = 1 \<longleftrightarrow> pb_qos p = 1" "nat (pb_qos p) = 2 \<longleftrightarrow> pb_qos p = 2" by auto
  consider "pb_qos p = 1" | "pb_qos p = 2" | "pb_qos p \<noteq> 1" "pb_qos p \<noteq> 2" by blast
  then show ?thesis
  proof cases
    case 1
    then have "pb_id p \<noteq> 0" using assms(2) by (simp add: publication_ok_def)
    from ack_built [OF holdsD(1) [OF assms(1)] this] obtain m where
      m: "mqtt_msg_puback (conn c) (pb_id p) = Some m"
        "built (conn c) (packet MQTT_MSG_TYPE_PUBACK 0 0 0 (mqtt_id (pb_id p))) m"
      by (auto simp: mqtt_msg_puback_def)
    from respond_spec [OF assms(1) m] obtain q where
      "respond c (mqtt_msg_puback (conn c) (pb_id p)) = Some ((set_outbound c m)\<lparr>msgQueue := q\<rparr>)"
      "holds ((set_outbound c m)\<lparr>msgQueue := q\<rparr>)
        (enqueue ms (packet MQTT_MSG_TYPE_PUBACK 0 0 0 (mqtt_id (pb_id p))))" .
    with 1 that [of "(set_outbound c m)\<lparr>msgQueue := q\<rparr>"] show ?thesis
      by (simp add: acknowledge_def)
  next
    case 2
    then have "pb_id p \<noteq> 0" using assms(2) by (simp add: publication_ok_def)
    from ack_built [OF holdsD(1) [OF assms(1)] this] obtain m where
      m: "mqtt_msg_pubrec (conn c) (pb_id p) = Some m"
        "built (conn c) (packet MQTT_MSG_TYPE_PUBREC 0 0 0 (mqtt_id (pb_id p))) m"
      by (auto simp: mqtt_msg_pubrec_def)
    from respond_spec [OF assms(1) m] obtain q where
      "respond c (mqtt_msg_pubrec (conn c) (pb_id p)) = Some ((set_outbound c m)\<lparr>msgQueue := q\<rparr>)"
      "holds ((set_outbound c m)\<lparr>msgQueue := q\<rparr>)
        (enqueue ms (packet MQTT_MSG_TYPE_PUBREC 0 0 0 (mqtt_id (pb_id p))))" .
    with 2 that [of "(set_outbound c m)\<lparr>msgQueue := q\<rparr>"] show ?thesis
      by (simp add: acknowledge_def)
  next
    case 3
    with that [of c] assms(1) q show ?thesis by (simp add: acknowledge_def)
  qed
qed

text \<open>The delivery: the callback sees the topic and the payload of the packet.\<close>

lemma deliver_publish_spec:
  assumes r: "received (pb_topic p) (pb_dup p) (pb_qos p) (pb_retain p) (pb_id p) (pb_data p) len"
    and b: "in_buffer c = Some (wire p @ rest)" and len: "len \<le> length (wire p @ rest)"
    and cb: "observing cbs" "accepting c"
  shows "deliver_publish cbs c len = Some (emit (Ev_Data (Some (pb_topic p))
    (if pb_data p = [] \<and> len = length (wire p) then None else Some (pb_data p))) c)"
proof -
  let ?d = "data_at (pb_topic p) (pb_qos p) (pb_id p) (pb_data p)"
  let ?h = "body_at (pb_topic p) (pb_qos p) (pb_id p) (pb_data p)"
  note w = wire_def [of p]
  have wl: "length (wire p) = ?d + length (pb_data p)" unfolding w by (rule publish_packet_length)
  note drops = publish_drops(3,5) [of "wire p @ rest" "pb_topic p" "pb_dup p" "pb_qos p" "pb_retain p"
      "pb_id p" "pb_data p" rest, OF _ refl, unfolded w, OF refl, folded w]
  have "?h + 2 \<le> length (wire p @ rest)" using receivedD(4) [OF r] len by linarith
  from load_block_drop [OF drops(1) this]
  have topic: "load_block (wire p @ rest) (?h + 2) (length (pb_topic p)) = Some (pb_topic p)" .
  have "?d \<le> length (wire p @ rest)" using wl by simp
  from load_block_drop [OF drops(2) this]
  have data: "load_block (wire p @ rest) ?d (length (pb_data p)) = Some (pb_data p)" .
  have bound: "(?d \<ge> len) = (pb_data p = [] \<and> len = length (wire p))"
    using receivedD(1) [OF r] wl by (cases "pb_data p") auto
  note rt = received_topic [OF r, of rest, folded w] and rd = received_data [OF r, of rest, folded w]
  show ?thesis
  proof (cases "pb_data p = [] \<and> len = length (wire p)")
    case True
    then have "mqtt_get_publish_data (wire p @ rest) len = Some (None, 0)" using rd bound by simp
    with True b rt topic cb show ?thesis
      by (simp add: deliver_publish_def observing_def accepting_def del: One_nat_def)
  next
    case False
    then have "mqtt_get_publish_data (wire p @ rest) len = Some (Some ?d, length (pb_data p))"
      using rd bound by simp
    with False b rt topic data cb show ?thesis
      by (auto simp: deliver_publish_def observing_def accepting_def)
  qed
qed

text \<open>One pass of the receive loop over a buffer that starts with a publish packet.\<close>

lemma wire_received:
  assumes "publication_ok p" and "length (wire p) \<le> len" and "len < 65536"
  shows "received (pb_topic p) (pb_dup p) (pb_qos p) (pb_retain p) (pb_id p) (pb_data p) len"
proof -
  have "length (pb_topic p) \<le> length (wire p)"
    by (simp add: wire_def publish_packet_length data_at_def)
  with assms show ?thesis by (simp add: received_def publication_ok_def wire_def)
qed

lemma wire_id:
  assumes "publication_ok p" and "length (wire p) < len" and "len < 65536"
  shows "mqtt_get_id (wire p @ rest) len = Some (if pb_qos p > 0 then unat (pb_id p) else 0)"
proof -
  have r: "received (pb_topic p) (pb_dup p) (pb_qos p) (pb_retain p) (pb_id p) (pb_data p) len"
    using assms by (intro wire_received) simp_all
  have "data_at (pb_topic p) (pb_qos p) (pb_id p) (pb_data p) \<le> length (wire p)"
    by (simp add: wire_def publish_packet_length)
  with received_id [OF r, of rest] assms(2) show ?thesis by (simp add: wire_def)
qed

lemma wire_header:
  assumes "publication_ok p"
  shows "mqtt_get_type (wire p @ rest) = Some (type_code MQTT_MSG_TYPE_PUBLISH)"
    "mqtt_get_qos (wire p @ rest) = Some (nat (pb_qos p))"
  using assms by (simp_all add: wire_def publish_packet_def publication_ok_def)

lemma wire_total:
  assumes "length (wire p) \<le> len" and "len < 65536"
  shows "mqtt_get_total_length (wire p @ rest) len = Some (int (length (wire p)))"
proof -
  let ?xs = "publish_body (pb_topic p) (pb_qos p) (pb_id p) (pb_data p)"
  have l: "length (wire p) = header_len ?xs + length ?xs"
    by (simp add: wire_def publish_packet_def packet_length)
  then have "length ?xs < 268435456" "header_len ?xs \<le> len" using assms by linarith+
  from packet_total_length [OF this] show ?thesis
    unfolding l by (simp add: wire_def publish_packet_def)
qed

lemma store_front: "store_block b 0 xs = (if length xs \<le> length b then Some (xs @ drop (length xs) b) else None)"
  by (simp add: store_block_def)

lemma recv_packet_publish:
  assumes c: "holds c ms" "accepting c" and cbs: "observing cbs" and p: "publication_ok p"
    and len: "length (wire p @ nxt) < MQTT_BUF_SIZE"
  shows "\<exists>c'. recv_packet cbs c (wire p @ nxt) (length (wire p @ nxt)) =
      Some (c', if nxt = [] then None else Some (nxt, length nxt)) \<and>
    holds c' (acknowledge ms p) \<and> accepting c' \<and>
    trace c' = trace c @ [Ev_Data (Some (pb_topic p))
      (if pb_data p = [] \<and> nxt = [] then None else Some (pb_data p))]"
proof -
  let ?n = "length (wire p @ nxt)"
  have bs: "MQTT_BUF_SIZE = 1280" by (simp add: MQTT_BUF_SIZE_def)
  obtain b where b: "in_buffer c = Some b" "length b = MQTT_BUF_SIZE"
    and il: "in_buffer_length c = MQTT_BUF_SIZE"
    using holdsD(1) [OF c(1)] by (auto simp: client_ok_def)
  let ?rest = "nxt @ drop ?n b"
  have st: "store_block b 0 (wire p @ nxt) = Some (wire p @ ?rest)" using len b(2) by (simp add: store_front)
  have inlen: "length (wire p @ ?rest) = MQTT_BUF_SIZE" using len b(2) by simp
  have wp: "length (wire p) < MQTT_BUF_SIZE" using len by simp
  have npos: "0 < ?n" by (simp add: wire_def publish_packet_def packet_def)
  have id: "mqtt_get_id (wire p @ ?rest) MQTT_BUF_SIZE = Some (if pb_qos p > 0 then unat (pb_id p) else 0)"
    using wire_id [OF p wp] bs by simp
  have total: "mqtt_get_total_length (wire p @ ?rest) ?n = Some (int (length (wire p)))"
    using wire_total [of p ?n] len bs by simp
  let ?c = "c\<lparr>in_buffer := Some (wire p @ ?rest), message_length_read := ?n,
      message_length := length (wire p)\<rparr>"
  have u: "to_u16 (int (length (wire p))) = length (wire p)" using wp bs by simp
  have h: "holds ?c ms" "accepting ?c"
    using c inlen by (simp_all add: holds_def client_ok_def accepting_def)
  from recv_ack [OF h(1) p] obtain c1 where
    ack: "(if nat (pb_qos p) = 1 then respond ?c (mqtt_msg_puback (conn ?c) (pb_id p))
      else if nat (pb_qos p) = 2 then respond ?c (mqtt_msg_pubrec (conn ?c) (pb_id p)) else Some ?c) = Some c1"
    and c1: "holds c1 (acknowledge ms p)" "connState c1 = connState ?c" "accepting c1"
      "in_buffer c1 = Some (wire p @ ?rest)" "message_length c1 = length (wire p)"
      "message_length_read c1 = ?n" "trace c1 = trace c"
    using h(2) by auto
  let ?ev = "Ev_Data (Some (pb_topic p)) (if pb_data p = [] \<and> nxt = [] then None else Some (pb_data p))"
  have "received (pb_topic p) (pb_dup p) (pb_qos p) (pb_retain p) (pb_id p) (pb_data p) ?n"
    using p len bs by (intro wire_received) simp_all
  from deliver_publish_spec [OF this c1(4) _ cbs c1(3)] len inlen
  have del: "deliver_publish cbs c1 ?n = Some (emit ?ev c1)"
    by (cases "nxt = []") auto
  have msg: "recv_message cbs ?c (type_code MQTT_MSG_TYPE_PUBLISH) (nat (pb_qos p))
      (of_nat (if pb_qos p > 0 then unat (pb_id p) else 0)) = Some (emit ?ev c1)"
  proof -
    have "(if nat (pb_qos p) = 1 then respond ?c (mqtt_msg_puback (conn ?c) (of_nat (if pb_qos p > 0 then unat (pb_id p) else 0)))
      else if nat (pb_qos p) = 2 then respond ?c (mqtt_msg_pubrec (conn ?c) (of_nat (if pb_qos p > 0 then unat (pb_id p) else 0)))
      else Some ?c) = Some c1"
      using ack by (cases "pb_qos p > 0") auto
    then show ?thesis
      unfolding recv_message_def recv_publish_def if_P [OF refl] by (simp only: Option.bind.simps c1(6) del)
  qed
  have "recv_packet cbs c (wire p @ nxt) ?n = Some (emit ?ev c1,
      if length (wire p) < ?n then Some (drop (length (wire p)) (wire p @ nxt), ?n - length (wire p)) else None)"
    using npos len b(1) st id il total u msg wire_header [OF p] c(2) c1(5,6)
    unfolding recv_packet_def accepting_def
    by (auto simp: load_block_Some)
  with c1 show ?thesis by (auto simp: accepting_def)
qed

lemma stream_simps [simp]: "stream [] = []" "stream (p # ps) = wire p @ stream ps"
  by (simp_all add: stream_def)

lemma wire_not_Nil [simp]: "wire p \<noteq> []"
  by (simp add: wire_def publish_packet_def packet_def)

lemma stream_Nil_iff [simp]: "stream ps = [] \<longleftrightarrow> ps = []"
  by (cases ps) simp_all

lemma recv_loop_stream:
  assumes "holds c ms" and "accepting c" and "observing cbs" and "\<forall>p \<in> set ps. publication_ok p"
    and "length (stream ps) < MQTT_BUF_SIZE"
  shows "\<exists>c'. recv_loop cbs c (stream ps) (length (stream ps)) = Some (Some c') \<and>
    holds c' (foldl acknowledge ms ps) \<and> trace c' = trace c @ deliveries ps @ [Ev_Post]"
  using assms
proof (induction ps arbitrary: c ms)
  case Nil
  then show ?case by (subst recv_loop.simps) (simp add: recv_packet_def)
next
  case (Cons p ps)
  then obtain c1 where c1: "recv_packet cbs c (stream (p # ps)) (length (stream (p # ps))) =
      Some (c1, if ps = [] then None else Some (stream ps, length (stream ps)))"
    "holds c1 (acknowledge ms p)" "accepting c1"
    "trace c1 = trace c @ [Ev_Data (Some (pb_topic p)) (if pb_data p = [] \<and> ps = [] then None else Some (pb_data p))]"
    using recv_packet_publish [of c ms cbs p "stream ps"] by (auto simp del: append_is_Nil_conv)
  show ?case
  proof (cases "ps = []")
    case True
    with c1 show ?thesis by (subst recv_loop.simps) simp
  next
    case False
    have "length (stream ps) < MQTT_BUF_SIZE" using Cons.prems(5) by simp
    with Cons.IH [OF c1(2,3)] Cons.prems(3,4) obtain c' where
      "recv_loop cbs c1 (stream ps) (length (stream ps)) = Some (Some c')"
      "holds c' (foldl acknowledge (acknowledge ms p) ps)" "trace c' = trace c1 @ deliveries ps @ [Ev_Post]"
      by auto
    with False c1 show ?thesis by (subst recv_loop.simps) simp
  qed
qed

section \<open>Decoding arbitrary bytes\<close>

text \<open>
  The decoders on any received bytes: none reads outside what was received, and the only
  undefined behaviour left is the arithmetic of the remaining-length loop.
\<close>

lemma remaining_loop_prefix:
  "len \<le> length b \<Longrightarrow> remaining_loop (b @ r) len i tot = remaining_loop b len i tot"
proof (induction b len i tot rule: remaining_loop.induct)
  case (1 b len i tot)
  show ?case
  proof (cases "i < len")
    case True
    with 1(2) obtain x where x: "load (b @ r) i = Some x" "load b i = Some x"
      by (simp add: load_def nth_append)
    show ?thesis
    proof (cases "shl32 (uint (x AND 0x7F)) (7 * (i - 1))")
      case None
      with True x show ?thesis by (subst (1 2) remaining_loop.simps) simp
    next
      case d: (Some d)
      show ?thesis
      proof (cases "add32 tot d")
        case None
        with True x d show ?thesis by (subst (1 2) remaining_loop.simps) simp
      next
        case (Some t)
        with 1(1) [OF True x(2) d Some _ 1(2)] True x d show ?thesis
          by (subst (1 2) remaining_loop.simps) simp
      qed
    qed
  next
    case False
    then show ?thesis by (subst (1 2) remaining_loop.simps) simp
  qed
qed

lemma total_length_prefix:
  "len \<le> length b \<Longrightarrow> mqtt_get_total_length (b @ r) len = mqtt_get_total_length b len"
  by (simp add: mqtt_get_total_length_def remaining_loop_prefix)

lemma skip_remaining_total: "len \<le> length b \<Longrightarrow> \<exists>k. skip_remaining b len i = Some k"
proof (induction b len i rule: skip_remaining.induct)
  case (1 b len i)
  then show ?case by (subst skip_remaining.simps) (simp add: load_Some)
qed

lemma get_type_total: "0 < length b \<Longrightarrow> \<exists>t. mqtt_get_type b = Some t"
  by (simp add: mqtt_get_type_def load_Some)

lemma get_qos_total: "0 < length b \<Longrightarrow> \<exists>t. mqtt_get_qos b = Some t"
  by (simp add: mqtt_get_qos_def load_Some)

lemma get_id_total:
  assumes "0 < length b" and "len \<le> length b"
  shows "\<exists>n. mqtt_get_id b len = Some n"
proof -
  obtain t q k where "mqtt_get_type b = Some t" "mqtt_get_qos b = Some q" "skip_remaining b len 1 = Some k"
    using get_type_total [OF assms(1)] get_qos_total [OF assms(1)] skip_remaining_total [OF assms(2)]
    by blast
  with assms show ?thesis unfolding mqtt_get_id_def by (auto simp: load_Some Let_def)
qed

lemma publish_parts_total:
  assumes "mqtt_get_total_length b len = Some tot" and "len \<le> length b" and "0 < length b"
  shows "\<exists>x y. mqtt_get_publish_topic b len = Some (x, y)" "\<exists>x y. mqtt_get_publish_data b len = Some (x, y)"
proof -
  obtain n i where l: "remaining_loop b len 1 0 = Some (n, i)" "add32 n (int i) = Some tot"
    using assms(1) by (auto simp: mqtt_get_total_length_def bind_eq_Some_conv)
  obtain q where q: "mqtt_get_qos b = Some q" using get_qos_total [OF assms(3)] by blast
  show "\<exists>x y. mqtt_get_publish_topic b len = Some (x, y)"
    unfolding mqtt_get_publish_topic_def l Option.bind.simps prod.case
    using assms(2) l by (auto simp: load_Some Let_def)
  show "\<exists>x y. mqtt_get_publish_data b len = Some (x, y)"
    unfolding mqtt_get_publish_data_def l Option.bind.simps prod.case
    using assms(2) l q by (auto simp: load_Some Let_def)
qed

section \<open>A packet on which the receive loop does not return\<close>

text \<open>
  A publish packet whose total length is a multiple of \<open>2\<^sup>1\<^sup>6\<close>: \<open>message_length\<close> is 0, so the
  rest of the data is all of it and the loop starts over with the same arguments.
\<close>

definition endless :: "mqtt_client \<Rightarrow> bytes \<Rightarrow> bool" where
  "endless c pdata \<longleftrightarrow> client_ok c \<and> (connState c = MQTT_DATA \<or> connState c = MQTT_KEEPALIVE_SEND) \<and>
     0 < length pdata \<and> length pdata < MQTT_BUF_SIZE \<and>
     mqtt_get_type pdata = Some (type_code MQTT_MSG_TYPE_PUBLISH) \<and> mqtt_get_qos pdata = Some 0 \<and>
     (\<exists>k. mqtt_get_total_length pdata (length pdata) = Some (65536 * k))"

lemma first_byte_prefix:
  "0 < length b \<Longrightarrow> mqtt_get_type (b @ r) = mqtt_get_type b \<and> mqtt_get_qos (b @ r) = mqtt_get_qos b"
  by (simp add: mqtt_get_type_def mqtt_get_qos_def load_def nth_append)

lemma deliver_publish_observing:
  assumes "observing cbs" and "in_buffer c = Some b" and "mqtt_get_publish_topic b len = Some (x, y)"
    and "mqtt_get_publish_data b len = Some (v, w)"
  shows "\<exists>tr. deliver_publish cbs c len = Some (c\<lparr>trace := tr\<rparr>)"
proof (cases "dataCb c")
  case True
  with assms show ?thesis
    by (simp add: deliver_publish_def observing_def emit_def) (rule exI, rule refl)
next
  case False
  with assms have "deliver_publish cbs c len = Some (c\<lparr>trace := trace c\<rparr>)"
    by (simp add: deliver_publish_def)
  then show ?thesis by blast
qed

lemma endless_pass:
  assumes e: "endless c pdata" and cbs: "observing cbs"
  shows "\<exists>c'. recv_packet cbs c pdata (length pdata) = Some (c', Some (pdata, length pdata)) \<and> endless c' pdata"
proof -
  let ?n = "length pdata"
  have bs: "MQTT_BUF_SIZE = 1280" by (simp add: MQTT_BUF_SIZE_def)
  have c: "client_ok c" "0 < ?n" "?n < MQTT_BUF_SIZE" using e by (simp_all add: endless_def)
  obtain b where b: "in_buffer c = Some b" "length b = MQTT_BUF_SIZE"
    and il: "in_buffer_length c = MQTT_BUF_SIZE" using c(1) by (auto simp: client_ok_def)
  obtain k where k: "mqtt_get_total_length pdata ?n = Some (65536 * k)" using e by (auto simp: endless_def)
  define b' where "b' = pdata @ drop ?n b"
  have st: "store_block b 0 pdata = Some b'" using c b by (simp add: store_front b'_def)
  have len: "length b' = MQTT_BUF_SIZE" using c b by (simp add: b'_def)
  have tot: "mqtt_get_total_length b' ?n = Some (65536 * k)" unfolding b'_def using total_length_prefix k by simp
  have hd: "mqtt_get_type b' = Some (type_code MQTT_MSG_TYPE_PUBLISH)" "mqtt_get_qos b' = Some 0"
    using first_byte_prefix [of pdata "drop ?n b"] e c(2) by (simp_all add: b'_def endless_def)
  obtain i where i: "mqtt_get_id b' MQTT_BUF_SIZE = Some i" using get_id_total [of b' MQTT_BUF_SIZE] len bs by auto
  let ?c = "c\<lparr>in_buffer := Some b', message_length_read := ?n, message_length := 0\<rparr>"
  obtain x y v w where "mqtt_get_publish_topic b' ?n = Some (x, y)" "mqtt_get_publish_data b' ?n = Some (v, w)"
    using publish_parts_total [OF tot] len c bs by (metis less_imp_le less_trans)
  then obtain tr where del: "deliver_publish cbs ?c ?n = Some (?c\<lparr>trace := tr\<rparr>)"
    using deliver_publish_observing [OF cbs, of ?c b' ?n x y v w] by auto
  have "recv_packet cbs c pdata ?n = Some (?c\<lparr>trace := tr\<rparr>, Some (pdata, ?n))"
  proof -
    have "to_u16 (65536 * k) = 0" by (simp add: to_u16_def)
    with e show ?thesis
      using c(2,3) b(1) st il tot hd i del
      by (auto simp: recv_packet_def load_block_Some endless_def recv_message_def recv_publish_def)
  qed
  moreover have "endless (?c\<lparr>trace := tr\<rparr>) pdata"
    using e len by (auto simp: endless_def client_ok_def)
  ultimately show ?thesis by blast
qed

lemma endless_no_return:
  assumes "endless c pdata" and cbs: "observing cbs"
  shows "recv_loop cbs c pdata (length pdata) = None"
proof (rule ccontr)
  assume "recv_loop cbs c pdata (length pdata) \<noteq> None"
  then obtain r where r: "recv_loop cbs c pdata (length pdata) = Some r" by blast
  have "observing cbs \<longrightarrow> endless c pdata \<longrightarrow> length pdata \<noteq> length pdata"
  proof (rule recv_loop.raw_induct [where P = "\<lambda>cbs c pdata n r.
      observing cbs \<longrightarrow> endless c pdata \<longrightarrow> n \<noteq> length pdata", OF _ r])
    fix f cbs c pdata n r
    assume IH: "\<And>cbs c pdata n r. f cbs c pdata n = Some r \<Longrightarrow>
        observing cbs \<longrightarrow> endless c pdata \<longrightarrow> n \<noteq> length pdata"
      and eq: "(case recv_packet cbs c pdata n of None \<Rightarrow> Some None
        | Some (c, None) \<Rightarrow> Some (Some (post c))
        | Some (c, Some (pdata, n)) \<Rightarrow> f cbs c pdata n) = Some r"
    show "observing cbs \<longrightarrow> endless c pdata \<longrightarrow> n \<noteq> length pdata"
    proof (intro impI notI)
      assume o: "observing cbs" and e: "endless c pdata" and n: "n = length pdata"
      from endless_pass [OF e o] obtain c' where
        "recv_packet cbs c pdata n = Some (c', Some (pdata, length pdata))" "endless c' pdata"
        unfolding n by blast
      with eq IH [of cbs c' pdata "length pdata" r] o show False by simp
    qed
  qed
  with assms show False by simp
qed

end
