(* ===== verification/Mqtt_Session.thy ===== *)
theory Mqtt_Session
  imports Mqtt_Client_Facts
begin

text \<open>
  Sessions of the MQTT client: its operations and received data as a step relation, the
  invariant of the reachable states for every application that keeps it, and what the client
  does over time (receiving, sending, keeping alive, reconnecting, deleting).
\<close>

section \<open>Every operation is defined on a well-formed client and keeps it well formed\<close>

definition well :: "mqtt_client \<Rightarrow> bool" where
  "well c \<longleftrightarrow> (\<exists>ms. holds c ms)"

lemma wellI: "holds c ms \<Longrightarrow> well c"
  by (auto simp: well_def)

lemma well_simps [simp]:
  "well (c\<lparr>pCon := p\<rparr>) = well c" "well (c\<lparr>outbound := b\<rparr>) = well c"
  "well (c\<lparr>message_length := n\<rparr>) = well c" "well (c\<lparr>message_length_read := n\<rparr>) = well c"
  "well (c\<lparr>pending_msg_id := i\<rparr>) = well c" "well (c\<lparr>pending_msg_type := n\<rparr>) = well c"
  "well (c\<lparr>keepAliveTick := t\<rparr>) = well c" "well (c\<lparr>reconnectTick := t\<rparr>) = well c"
  "well (c\<lparr>sendTimeout := t\<rparr>) = well c" "well (c\<lparr>connState := st\<rparr>) = well c"
  "well (c\<lparr>trace := tr\<rparr>) = well c" "well (emit e c) = well c" "well (transport e c) = well c"
  by (simp_all add: well_def)

lemma wellD: "well c \<Longrightarrow> client_ok c"
  by (auto simp: well_def holds_def)

text \<open>\<open>defined r\<close>: \<open>r\<close> is no undefined behaviour, and its client is well formed.\<close>

definition defined :: "mqtt_client option \<Rightarrow> bool" where
  "defined r \<longleftrightarrow> (\<exists>c. r = Some c \<and> well c)"

lemma defined_simps [simp]: "defined (Some c) = well c" "\<not> defined None"
  by (simp_all add: defined_def)

lemma defined_bind: "defined r \<Longrightarrow> (\<And>c. well c \<Longrightarrow> defined (f c)) \<Longrightarrow> defined (Option.bind r f)"
  by (auto simp: defined_def)

lemma built_set_outbound: "well c \<Longrightarrow> built (conn c) p m \<Longrightarrow> well (set_outbound c m)"
  by (auto simp: well_def intro: holds_set_outbound)

text \<open>Sending the message under construction.\<close>

lemma get_id_total': "b \<noteq> [] \<Longrightarrow> len \<le> length b \<Longrightarrow> \<exists>t i. mqtt_get_type b = Some t \<and> mqtt_get_id b len = Some i"
  using get_type_total [of b] get_id_total [of b len] by auto

lemma set_pending_total:
  assumes "b \<noteq> []" and "len \<le> length b"
  shows "\<exists>t i. set_pending c b len = Some (c\<lparr>pending_msg_type := t, pending_msg_id := i\<rparr>)"
proof -
  obtain t i where "mqtt_get_type b = Some t" "mqtt_get_id b len = Some i"
    using get_id_total' [OF assms] by blast
  then have "set_pending c b len = Some (c\<lparr>pending_msg_type := t, pending_msg_id := of_nat i\<rparr>)"
    by (simp add: set_pending_def)
  then show ?thesis by blast
qed

lemma send_block_total:
  assumes "len \<le> length data"
  shows "send_block c data len = Some (transport (Ev_Send (take len data)) c)"
  using assms by (simp add: send_block_def transport_def load_block_Some)

lemma keepalive_defined: "well c \<Longrightarrow> defined (mqtt_send_keepalive c ok)"
proof -
  assume c: "well c"
  obtain m where m: "mqtt_msg_pingreq (conn c) = Some m"
    and b: "built (conn c) (packet MQTT_MSG_TYPE_PINGREQ 0 0 0 []) m"
    using pingreq_built [OF wellD [OF c]] .
  obtain d where d: "msg_data m = Some d" "msg_length m = length (packet MQTT_MSG_TYPE_PINGREQ 0 0 0 [])"
    "msg_length m \<le> length (drop d (buffer m))" using built_message [OF b] by metis
  then have ne: "drop d (buffer m) \<noteq> []" by (auto simp: packet_def)
  obtain t i where p: "set_pending (set_outbound c m) (drop d (buffer m)) (msg_length m) =
      Some ((set_outbound c m)\<lparr>pending_msg_type := t, pending_msg_id := i\<rparr>)"
    using set_pending_total [OF ne d(3)] by blast
  show ?thesis using built_set_outbound [OF c b] send_block_total [OF d(3)]
    by (simp add: mqtt_send_keepalive_def m p d(1) Let_def)
qed

lemma connect_data: "mqtt_msg_connect p c info = Some m \<Longrightarrow> msg_data m = Some 0 \<or> msg_data m = Some 1"
  by (auto simp: mqtt_msg_connect_def Let_def fini_message_def fail_message_def bind_eq_Some_conv
    split: if_splits)

lemma connect_cb_defined: "well c \<Longrightarrow> defined (mqtt_tcpclient_connect_cb p c)"
proof -
  assume c: "well c"
  note ok = wellD [OF c]
  let ?c = "emit Ev_Regist c"
  let ?m0 = "mqtt_msg_init (buffer (conn c)) MQTT_BUF_SIZE"
  have f: "has_out c" "has_info c" "out_buffer_length c = MQTT_BUF_SIZE"
    using ok by (simp_all add: client_ok_def)
  have m0: "conn_ok ?m0" "small_buffer ?m0" "buffer_length ?m0 = buffer_length (conn c)"
    using ok by (simp_all add: client_ok_def conn_ok_def small_buffer_def mqtt_msg_init_def MQTT_BUF_SIZE_def)
  have i: "info_ok (connect_info c)" "opt_str (client_id (connect_info c)) \<noteq> []"
    using ok by (simp_all add: client_ok_def)
  obtain m xs where m: "mqtt_msg_connect p ?m0 (connect_info c) = Some m" and b: "built ?m0 xs m"
    using connect_spec [OF m0(1,2) i, of p] unfolding yields_def by blast
  then have b': "built (conn ?c) xs m" using m0(3) by (simp add: built_def)
  obtain d where d: "msg_data m = Some d" "msg_length m \<le> length (drop d (buffer m))"
    using built_message [OF b] by metis
  have "3 \<le> length (buffer m)" using b by (simp add: built_def conn_ok_def)
  then have ne: "drop d (buffer m) \<noteq> []" using connect_data [OF m] d(1) by auto
  have "well ?c" using c by simp
  from built_set_outbound [OF this b'] have w: "well (set_outbound ?c m)" .
  obtain t n where p: "set_pending (set_outbound ?c m) (drop d (buffer m)) (msg_length m) =
      Some ((set_outbound ?c m)\<lparr>pending_msg_type := t, pending_msg_id := n\<rparr>)"
    using set_pending_total [OF ne d(2)] by blast
  show ?thesis using w f send_block_total [OF d(2)]
    by (simp add: mqtt_tcpclient_connect_cb_def m p d(1) Let_def)
qed

lemma dns_found_defined: "well c \<Longrightarrow> a = None \<or> pCon c \<noteq> None \<Longrightarrow> defined (mqtt_dns_found c a)"
  by (auto simp: mqtt_dns_found_def split: option.splits)

lemma MQTT_Connect_defined: "well c \<Longrightarrow> defined (MQTT_Connect c)"
proof -
  assume c: "well c"
  obtain h found rip where h: "host c = Some h" "UTILS_StrToIP h [0, 0, 0, 0] = Some (found, rip)"
    using wellD [OF c] by (auto simp: client_ok_def)
  have "host (if pCon c \<noteq> None then mqtt_tcpclient_delete c else c) = Some h"
    using h(1) by (simp add: mqtt_tcpclient_delete_def)
  moreover have "well (if pCon c \<noteq> None then mqtt_tcpclient_delete c else c)"
    using c by (simp add: mqtt_tcpclient_delete_def)
  ultimately show ?thesis using h(2) by (simp add: MQTT_Connect_def Let_def)
qed

lemma tcpclient_delete_well [simp]: "well (mqtt_tcpclient_delete c) = well c"
  by (simp add: mqtt_tcpclient_delete_def)

lemma task_send_defined:
  assumes c: "well c" and u: "locals_ok u"
  shows "defined (task_send c u)"
proof (cases "QUEUE_IsEmpty (msgQueue c) \<or> sendTimeout c \<noteq> 0")
  case True
  with c show ?thesis by (simp add: task_send_def)
next
  case False
  from c obtain ms where h: "holds c ms" by (auto simp: well_def)
  note q = holdsD [OF h]
  from False QUEUE_IsEmpty_holds [OF q(2)] obtain m ms' where ms: "ms = m # ms'" by (cases ms) auto
  obtain u' q' where g: "queue_gets (msgQueue c) u = Some (0, u', q')" "take (length m) (dataBuffer u') = m"
    "dataLen u' = length m" "locals_ok u'" "queue_holds q' ms'" "queue_size q' = queue_size (msgQueue c)"
    using q ms by (auto intro: queue_gets_next [OF _ u])
  have w: "well (c\<lparr>msgQueue := q'\<rparr>)"
    using holds_queue [OF h g(5)] g(6) q(3,4) ms by (auto intro: wellI)
  have len: "dataLen u' \<le> length (dataBuffer u')" "dataBuffer u' \<noteq> []"
    using g(3,4) q(3) ms by (auto simp: locals_ok_def MQTT_BUF_SIZE_def)
  obtain t i where p: "set_pending (c\<lparr>msgQueue := q'\<rparr>) (dataBuffer u') (dataLen u') =
      Some ((c\<lparr>msgQueue := q'\<rparr>)\<lparr>pending_msg_type := t, pending_msg_id := i\<rparr>)"
    using set_pending_total [OF len(2,1)] by blast
  show ?thesis using False w by (simp add: task_send_def g(1) p send_block_total [OF len(1)])
qed

text \<open>
  The operations that the SDK's task, timer and transport callbacks and the application call,
  apart from received data. Uninitialised locals, the results of SDK calls and the protocol
  version are arguments.
\<close>

datatype client_op =
    Op_Sent | Op_Timer | Op_Disconnected | Op_Connected protocol_name | Op_Reconnect
  | Op_Resolved "u32 option" | Op_Task locals bool
  | Op_Publish locals bytes bytes int int | Op_Subscribe locals bytes u8
  | Op_UnSubscribe locals bytes | Op_Ping locals
  | Op_Connect | Op_Disconnect | Op_Delete

fun client_exec :: "callbacks \<Rightarrow> client_op \<Rightarrow> mqtt_client \<Rightarrow> mqtt_client option" where
  "client_exec cbs Op_Sent c = mqtt_tcpclient_sent_cb cbs c"
| "client_exec cbs Op_Timer c = mqtt_timer cbs c"
| "client_exec cbs Op_Disconnected c = mqtt_tcpclient_discon_cb cbs c"
| "client_exec cbs (Op_Connected p) c = mqtt_tcpclient_connect_cb p c"
| "client_exec cbs Op_Reconnect c = Some (mqtt_tcpclient_recon_cb c)"
| "client_exec cbs (Op_Resolved a) c = mqtt_dns_found c a"
| "client_exec cbs (Op_Task u ok) c = do { r \<leftarrow> MQTT_Task (Some c) u ok; r }"
| "client_exec cbs (Op_Publish u t data qos retain) c =
     map_option snd (MQTT_Publish c u (Some t) data (int (length data)) qos retain)"
| "client_exec cbs (Op_Subscribe u t qos) c = map_option snd (MQTT_Subscribe c u (Some t) qos)"
| "client_exec cbs (Op_UnSubscribe u t) c = map_option snd (MQTT_UnSubscribe c u (Some t))"
| "client_exec cbs (Op_Ping u) c = map_option snd (MQTT_Ping c u)"
| "client_exec cbs Op_Connect c = MQTT_Connect c"
| "client_exec cbs Op_Disconnect c = Some (MQTT_Disconnect c)"
| "client_exec cbs Op_Delete c = MQTT_DeleteClient (Some c)"

text \<open>
  What a caller has to respect: topics are non-empty strings, an address is only reported to a
  client with a connection block, and the task does not run on a client under deletion.
\<close>

fun op_ok :: "mqtt_client \<Rightarrow> client_op \<Rightarrow> bool" where
  "op_ok c (Op_Resolved a) = (a = None \<or> pCon c \<noteq> None)"
| "op_ok c (Op_Task u ok) = (locals_ok u \<and> connState c \<noteq> MQTT_DELETED)"
| "op_ok c (Op_Publish u t data qos retain) = (locals_ok u \<and> 0 \<in> set t \<and> cstr t \<noteq> [])"
| "op_ok c (Op_Subscribe u t qos) = (locals_ok u \<and> 0 \<in> set t \<and> cstr t \<noteq> [])"
| "op_ok c (Op_UnSubscribe u t) = (locals_ok u \<and> 0 \<in> set t \<and> cstr t \<noteq> [])"
| "op_ok c (Op_Ping u) = locals_ok u"
| "op_ok c _ = True"

lemma requests_defined:
  assumes c: "well c" and u: "locals_ok u"
  shows "defined (client_exec cbs (Op_Ping u) c)"
    "0 \<in> set t \<Longrightarrow> cstr t \<noteq> [] \<Longrightarrow> defined (client_exec cbs (Op_Publish u t data qos retain) c)"
    "0 \<in> set t \<Longrightarrow> cstr t \<noteq> [] \<Longrightarrow> defined (client_exec cbs (Op_Subscribe u t q) c)"
    "0 \<in> set t \<Longrightarrow> cstr t \<noteq> [] \<Longrightarrow> defined (client_exec cbs (Op_UnSubscribe u t) c)"
proof -
  from c obtain ms where h: "holds c ms" by (auto simp: well_def)
  show "defined (client_exec cbs (Op_Ping u) c)"
    using MQTT_Ping_spec [OF h u] by (auto simp: defined_def intro: wellI)
  assume t: "0 \<in> set t" "cstr t \<noteq> []"
  show "defined (client_exec cbs (Op_Publish u t data qos retain) c)"
    using MQTT_Publish_fits [OF h u t, of qos data retain] MQTT_Publish_too_long [OF h t, of qos data u retain]
    by (cases "3 + length (publish_body (cstr t) qos (publish_id (conn c) qos) data) \<le> MQTT_BUF_SIZE")
      (auto simp: defined_def intro: wellI)
  show "defined (client_exec cbs (Op_Subscribe u t q) c)"
    using MQTT_Subscribe_spec [OF h u t, of q] by (auto simp: defined_def intro: wellI)
  show "defined (client_exec cbs (Op_UnSubscribe u t) c)"
    using MQTT_UnSubscribe_spec [OF h u t] by (auto simp: defined_def intro: wellI)
qed

lemma task_defined:
  assumes "well c" and "locals_ok u" and "connState c \<noteq> MQTT_DELETED"
  shows "defined (client_exec cbs (Op_Task u ok) c)"
proof -
  have "defined (task_send c u)" "defined (mqtt_send_keepalive c ok)"
    "defined (MQTT_Connect (mqtt_tcpclient_delete c))"
    using assms by (simp_all add: task_send_defined keepalive_defined MQTT_Connect_defined)
  with assms show ?thesis
    by (auto simp: MQTT_Task_def defined_def split: tConnState.split)
qed

text \<open>Responses.\<close>

lemma respond_defined: "well c \<Longrightarrow> \<exists>m p. r = Some m \<and> built (conn c) p m \<Longrightarrow> defined (respond c r)"
  by (metis respond_spec well_def defined_simps(1))

lemma respond_ack_defined: "well c \<Longrightarrow> defined (respond c (mqtt_msg_ack (conn c) mid type qos))"
proof -
  assume c: "well c"
  note cc = client_conn [OF wellD [OF c]]
  from ack_spec [OF cc(1,2), of mid type qos] show ?thesis
    unfolding yields_def by (intro respond_defined [OF c]) blast
qed

lemma respond_pingresp_defined: "well c \<Longrightarrow> defined (respond c (mqtt_msg_pingresp (conn c)))"
proof -
  assume c: "well c"
  note cc = client_conn [OF wellD [OF c]]
  from ping_spec [OF cc(1,2), of MQTT_MSG_TYPE_PINGRESP] show ?thesis
    unfolding yields_def mqtt_msg_pingresp_def by (intro respond_defined [OF c]) blast
qed

lemma well_in_buffer:
  "well c \<Longrightarrow> in_buffer c = Some b \<Longrightarrow> length b' = length b \<Longrightarrow> well (c\<lparr>in_buffer := Some b'\<rparr>)"
  by (auto simp: well_def holds_def client_ok_def)

section \<open>Applications\<close>

text \<open>
  What the client relies on: the application's callbacks, run inside the client's own, are
  defined and keep the client well formed. The data callback may fail on what it is handed.
\<close>

locale mqtt_application =
  fixes cbs :: callbacks
  assumes connected_ok: "well c \<Longrightarrow> defined (cb_connected cbs c)"
    and disconnected_ok: "well c \<Longrightarrow> defined (cb_disconnected cbs c)"
    and published_ok: "well c \<Longrightarrow> defined (cb_published cbs c)"
    and timeout_ok: "well c \<Longrightarrow> defined (cb_timeout cbs c)"
    and data_ok: "well c \<Longrightarrow> cb_data cbs c t tlen d dlen = Some c' \<Longrightarrow> well c'"
begin

lemma call_back_defined:
  "well c \<Longrightarrow> (\<And>c. well c \<Longrightarrow> defined (f c)) \<Longrightarrow> defined (call_back b e f c)"
  by (simp add: call_back_def)

lemma sent_defined: "well c \<Longrightarrow> defined (mqtt_tcpclient_sent_cb cbs c)"
  unfolding mqtt_tcpclient_sent_cb_def Let_def
  by (intro defined_bind call_back_defined published_ok) simp_all

lemma timer_defined:
  assumes "well c"
  shows "defined (mqtt_timer cbs c)"
proof -
  have "has_info c" using wellD [OF assms] by (simp add: client_ok_def)
  with assms show ?thesis
    unfolding mqtt_timer_def Let_def
    by (intro defined_bind) (auto intro!: call_back_defined timeout_ok)
qed

lemma discon_defined: "well c \<Longrightarrow> defined (mqtt_tcpclient_discon_cb cbs c)"
  unfolding mqtt_tcpclient_discon_cb_def Let_def
  by (intro defined_bind call_back_defined disconnected_ok) simp_all

lemma deliver_well: "well c \<Longrightarrow> deliver_publish cbs c len = Some c' \<Longrightarrow> well c'"
  by (auto simp: deliver_publish_def bind_eq_Some_conv split: if_splits dest!: data_ok [rotated])

lemma connack_well: "well c \<Longrightarrow> recv_connack cbs c t = Some c' \<Longrightarrow> well c'"
  using connected_ok
  by (auto simp: recv_connack_def call_back_def bind_eq_Some_conv defined_def split: if_splits)
    (metis well_simps(10,12) option.inject)+

lemma publish_well: 
  assumes "well c" and "recv_publish cbs c q i = Some c'"
  shows "well c'"
proof -
  have "defined (if q = 1 then respond c (mqtt_msg_puback (conn c) i)
      else if q = 2 then respond c (mqtt_msg_pubrec (conn c) i) else Some c)"
    using assms(1) by (simp add: respond_ack_defined mqtt_msg_puback_def mqtt_msg_pubrec_def)
  then obtain c1 where "(if q = 1 then respond c (mqtt_msg_puback (conn c) i)
      else if q = 2 then respond c (mqtt_msg_pubrec (conn c) i) else Some c) = Some c1" "well c1"
    by (auto simp: defined_def)
  with assms(2) deliver_well show ?thesis by (simp add: recv_publish_def)
qed

lemma message_well:
  assumes "well c" and "recv_message cbs c t q i = Some c'"
  shows "well c'"
proof -
  have "defined (respond c (mqtt_msg_pubrel (conn c) i))" "defined (respond c (mqtt_msg_pubcomp (conn c) i))"
    "defined (respond c (mqtt_msg_pingresp (conn c)))"
    using assms(1) by (simp_all add: respond_ack_defined respond_pingresp_defined mqtt_msg_pubrel_def mqtt_msg_pubcomp_def)
  with assms publish_well [of c q i c'] show ?thesis
    by (auto simp: recv_message_def defined_def split: if_splits)
qed

lemma packet_well:
  assumes "well c" and r: "recv_packet cbs c pdata len = Some (c', x)"
  shows "well c'"
proof (cases "len < MQTT_BUF_SIZE \<and> len > 0")
  case False
  with assms show ?thesis by (auto simp: recv_packet_def)
next
  case True
  from r obtain b xs b' where b: "in_buffer c = Some b" "load_block pdata 0 len = Some xs"
    "store_block b 0 xs = Some b'" by (auto simp: recv_packet_def True bind_eq_Some_conv)
  have w: "well (c\<lparr>in_buffer := Some b'\<rparr>)" using well_in_buffer [OF assms(1) b(1)] store_block_length [OF b(3)] .
  with r b True show ?thesis
    by (auto simp: recv_packet_def bind_eq_Some_conv Let_def split: if_splits
      intro: connack_well [OF w] dest!: message_well [rotated])
qed

lemma loop_well: "recv_loop cbs c pdata len = Some (Some c') \<Longrightarrow> well c \<Longrightarrow> well c'"
proof -
  assume r: "recv_loop cbs c pdata len = Some (Some c')" and c: "well c"
  have "\<forall>x. f = cbs \<longrightarrow> r = Some x \<longrightarrow> well c \<longrightarrow> well x"
    if "recv_loop f c pdata len = Some r" for f c pdata len r
    by (rule recv_loop.raw_induct [where P = "\<lambda>f c pdata n r. \<forall>x. f = cbs \<longrightarrow> r = Some x \<longrightarrow> well c \<longrightarrow> well x", OF _ that])
      (auto split: option.splits prod.splits dest: packet_well)
  with r c show ?thesis by blast
qed

lemma recv_well: "well c \<Longrightarrow> mqtt_tcpclient_recv cbs c pdata len = Some (Some c') \<Longrightarrow> well c'"
  unfolding mqtt_tcpclient_recv_def using loop_well [of "c\<lparr>keepAliveTick := 0\<rparr>"] by simp

lemma exec_defined: "well c \<Longrightarrow> op_ok c op \<Longrightarrow> defined (client_exec cbs op c)"
  by (cases op) (simp_all add: sent_defined timer_defined discon_defined connect_cb_defined
    dns_found_defined task_defined [simplified] requests_defined [simplified] MQTT_Connect_defined
    mqtt_tcpclient_recon_cb_def MQTT_Disconnect_def MQTT_DeleteClient_def)

end

section \<open>Sessions\<close>

inductive client_step :: "callbacks \<Rightarrow> mqtt_client \<Rightarrow> mqtt_client \<Rightarrow> bool" for cbs where
  received: "mqtt_tcpclient_recv cbs c pdata len = Some (Some c') \<Longrightarrow> client_step cbs c c'"
| operated: "op_ok c op \<Longrightarrow> client_exec cbs op c = Some c' \<Longrightarrow> client_step cbs c c'"

inductive_cases client_stepE: "client_step cbs c c'"

inductive session :: "callbacks \<Rightarrow> mqtt_client \<Rightarrow> mqtt_client \<Rightarrow> bool" for cbs c where
  start: "session cbs c c"
| step: "session cbs c c' \<Longrightarrow> client_step cbs c' c'' \<Longrightarrow> session cbs c c''"

context mqtt_application
begin

lemma step_well: "client_step cbs c c' \<Longrightarrow> well c \<Longrightarrow> well c'"
proof (erule client_stepE)
  show "well c'" if "well c" "mqtt_tcpclient_recv cbs c pdata len = Some (Some c')" for pdata len
    using that by (rule recv_well)
  show "well c'" if "well c" "op_ok c op" "client_exec cbs op c = Some c'" for op
    using exec_defined [OF that(1,2)] that(3) by simp
qed

lemma session_well: "session cbs c c' \<Longrightarrow> well c \<Longrightarrow> well c'"
  by (induction rule: session.induct) (auto dest: step_well)

text \<open>In every reachable state each operation that its caller may perform is defined.\<close>

lemma session_progress: "session cbs c c' \<Longrightarrow> well c \<Longrightarrow> op_ok c' op \<Longrightarrow> defined (client_exec cbs op c')"
  using exec_defined session_well by blast

end

end
