(* ===== verification/Firmware_Text.thy ===== *)
theory Firmware_Text
  imports Net_Utils
begin

text \<open>
  The text helpers of \<open>user/user_main.c\<close>: topic names with the station's identifier or name
  appended, decimal input and hexadecimal output.
\<close>

section \<open>Model\<close>

text \<open>
  \<open>copy_text mem p s\<close>: the loop \<open>while(*x) { *pt_string=*x; pt_string++; x++; }\<close> with
  \<open>pt_string\<close> at offset \<open>p\<close> of \<open>mem\<close>. Running out of \<open>s\<close> or of \<open>mem\<close> is undefined.
\<close>

fun copy_text :: "bytes \<Rightarrow> nat \<Rightarrow> bytes \<Rightarrow> (bytes \<times> nat) option" where
  "copy_text mem p [] = None"
| "copy_text mem p (c # s) =
     (if c = 0 then Some (mem, p) else do { mem \<leftarrow> store mem p c; copy_text mem (p + 1) s })"

text \<open>\<open>ID\<close> and \<open>ad_name\<close>: \<open>string\<close> is the function's static array of 100 characters.\<close>

definition ID :: "bytes \<Rightarrow> bytes \<Rightarrow> bytes \<Rightarrow> bytes option" where
  "ID MYID x string = do {
     (string, p) \<leftarrow> copy_text string 0 x;
     (string, p) \<leftarrow> copy_text string p MYID;
     store string p 0
   }"

definition ad_name :: "bytes \<Rightarrow> bytes \<Rightarrow> bytes \<Rightarrow> bytes option" where
  "ad_name StationName x string = do {
     (string, p) \<leftarrow> copy_text string 0 x;
     (string, p) \<leftarrow> copy_text string p StationName;
     store string p 0
   }"

text \<open>\<open>stringToUint\<close>: \<open>val\<close> is a signed \<open>int\<close>, whose overflow is undefined.\<close>

fun stringToUint_loop :: "bytes \<Rightarrow> int \<Rightarrow> int option" where
  "stringToUint_loop [] val = None"
| "stringToUint_loop (c # s) val =
     (if 48 \<le> c \<and> c \<le> 57 then
        (let val' = val * 10 + (uint c - 48)
         in if val' > 2147483647 then None else stringToUint_loop s val')
      else Some val)"

definition stringToUint :: "bytes \<Rightarrow> u32 option" where
  "stringToUint str = map_option of_int (stringToUint_loop str 0)"

definition TO_HEX :: "u8 \<Rightarrow> u8" where
  "TO_HEX i = (if i \<le> 9 then 48 + i else 65 - 10 + i)"

fun hex_digits :: "nat list \<Rightarrow> int \<Rightarrow> bytes \<Rightarrow> bytes option" where
  "hex_digits [] val str = Some str"
| "hex_digits (l # ls) val str = do {
     str \<leftarrow> store str (8 - l) (TO_HEX (word_of_int (drop_bit (l * 4) val AND 0xF)));
     hex_digits ls val str
   }"

fun blank_zeros :: "nat list \<Rightarrow> bytes \<Rightarrow> bytes option" where
  "blank_zeros [] str = Some str"
| "blank_zeros (l # ls) str = do {
     c \<leftarrow> load str (l + 1);
     if c \<noteq> 48 then Some str else do { str \<leftarrow> store str (l + 1) 32; blank_zeros ls str }
   }"

definition int_to_srthex :: "int \<Rightarrow> bytes \<Rightarrow> bytes option" where
  "int_to_srthex val str = do {
     str \<leftarrow> hex_digits [0..<8] val str;
     str \<leftarrow> store str 0 32;
     str \<leftarrow> blank_zeros [0..<7] str;
     store str 9 0
   }"

section \<open>Topic names\<close>

lemma copy_text_cstr:
  "0 \<in> set s \<Longrightarrow> length pre + length (cstr s) \<le> length (pre @ mem) \<Longrightarrow>
    copy_text (pre @ mem) (length pre) s =
      Some (pre @ cstr s @ drop (length (cstr s)) mem, length pre + length (cstr s))"
proof (induction s arbitrary: pre mem)
  case (Cons c s)
  show ?case
  proof (cases "c = 0")
    case True
    then show ?thesis by (simp add: cstr_def)
  next
    case False
    then have cs: "cstr (c # s) = c # cstr s" by (simp add: cstr_def)
    with Cons.prems(2) obtain m mem' where mem: "mem = m # mem'" by (cases mem) auto
    have "store (pre @ m # mem') (length pre) c = Some ((pre @ [c]) @ mem')" by (simp add: store_def)
    with Cons.IH [of "pre @ [c]" mem'] Cons.prems False show ?thesis by (simp add: mem cs)
  qed
qed simp

lemma copy_text_overflow:
  "0 \<in> set s \<Longrightarrow> length mem < p + length (cstr s) \<Longrightarrow> p \<le> length mem \<Longrightarrow> copy_text mem p s = None"
proof (induction s arbitrary: mem p)
  case (Cons c s)
  then have "c \<noteq> 0" by (auto simp: cstr_def)
  then have cs: "cstr (c # s) = c # cstr s" by (simp add: cstr_def)
  show ?case
  proof (cases "p < length mem")
    case True
    then have "store mem p c = Some (mem[p := c])" by (simp add: store_Some)
    with Cons.IH [of "mem[p := c]" "p + 1"] Cons.prems True \<open>c \<noteq> 0\<close> show ?thesis by (simp add: cs)
  next
    case False
    with Cons.prems(3) \<open>c \<noteq> 0\<close> show ?thesis by (simp add: store_None)
  qed
qed simp

lemma ad_name_is_ID: "ad_name y x string = ID y x string"
  by (simp add: ad_name_def ID_def)

lemma ID_spec:
  assumes "0 \<in> set x" and "0 \<in> set y"
  shows "length (cstr x @ cstr y) < length string \<Longrightarrow>
      ID y x string = Some (cstr x @ cstr y @ 0 # drop (length (cstr x @ cstr y) + 1) string)"
    and "\<not> length (cstr x @ cstr y) < length string \<Longrightarrow> ID y x string = None"
proof -
  assume l: "length (cstr x @ cstr y) < length string"
  let ?m = "drop (length (cstr x)) string"
  have 1: "copy_text string 0 x = Some (cstr x @ ?m, length (cstr x))"
    using copy_text_cstr [of x "[]" string] assms(1) l by simp
  have 2: "copy_text (cstr x @ ?m) (length (cstr x)) y =
      Some (cstr x @ cstr y @ drop (length (cstr y)) ?m, length (cstr x) + length (cstr y))"
    using copy_text_cstr [of y "cstr x" ?m] assms(2) l by simp
  obtain z zs where z: "drop (length (cstr y)) ?m = z # zs"
    using l by (cases "drop (length (cstr y)) ?m") auto
  then have "zs = drop (length (cstr x @ cstr y) + 1) string"
    using drop_Suc_drop [OF z] by (simp add: add.commute)
  moreover have "store (cstr x @ cstr y @ z # zs) (length (cstr x) + length (cstr y)) 0 =
      Some (cstr x @ cstr y @ 0 # zs)"
    by (simp add: store_def list_update_append)
  ultimately show "ID y x string = Some (cstr x @ cstr y @ 0 # drop (length (cstr x @ cstr y) + 1) string)"
    by (simp add: ID_def 1 2 z [simplified])
next
  assume l: "\<not> length (cstr x @ cstr y) < length string"
  show "ID y x string = None"
  proof (cases "length (cstr x) \<le> length string")
    case False
    with copy_text_overflow [OF assms(1), of string 0] show ?thesis by (simp add: ID_def)
  next
    case True
    let ?m = "drop (length (cstr x)) string"
    have 1: "copy_text string 0 x = Some (cstr x @ ?m, length (cstr x))"
      using copy_text_cstr [of x "[]" string] assms(1) True by simp
    show ?thesis
    proof (cases "length (cstr x @ cstr y) = length string")
      case True
      then have "copy_text (cstr x @ ?m) (length (cstr x)) y = Some (cstr x @ cstr y, length string)"
        using copy_text_cstr [of y "cstr x" ?m] assms(2) by simp
      with True show ?thesis by (simp add: ID_def 1 store_None)
    next
      case False
      with l True copy_text_overflow [OF assms(2), of "cstr x @ ?m" "length (cstr x)"]
      show ?thesis by (simp add: ID_def 1)
    qed
  qed
qed

section \<open>Numbers\<close>

text \<open>The hexadecimal digits of a number, most significant first, and their text.\<close>

definition nibbles :: "nat \<Rightarrow> nat \<Rightarrow> nat list" where
  "nibbles k n = map (\<lambda>l. n div 16 ^ l mod 16) (rev [0..<k])"

lemma nibbles_simps [simp]:
  "nibbles 0 n = []" "nibbles (Suc k) n = (n div 16 ^ k mod 16) # nibbles k n" "length (nibbles k n) = k"
  by (simp_all add: nibbles_def)

lemma hex_numeral_from: "foldl (\<lambda>x v. x * 16 + v) a vs = a * 16 ^ length vs + hex_numeral vs"
  unfolding hex_numeral_def
  by (induction vs rule: rev_induct) (simp_all add: algebra_simps)

lemma hex_numeral_Cons [simp]: "hex_numeral (v # vs) = v * 16 ^ length vs + hex_numeral vs" "hex_numeral [] = 0"
  using hex_numeral_from [of v vs] by (simp_all add: hex_numeral_def)

lemma hex_numeral_nibbles: "hex_numeral (nibbles k n) = n mod 16 ^ k"
proof (induction k)
  case (Suc k)
  have "n mod 16 ^ Suc k = 16 ^ k * (n div 16 ^ k mod 16) + n mod 16 ^ k"
    by (simp add: mod_mult2_eq [symmetric] mult.commute)
  with Suc show ?case by (simp add: mult.commute)
qed simp

lemma TO_HEX_value: "v < 16 \<Longrightarrow> hex_value (TO_HEX (of_nat v)) = Some v"
proof -
  have "\<forall>v \<in> set [0..<16]. hex_value (TO_HEX (of_nat v)) = Some v" by code_simp
  moreover assume "v < 16"
  ultimately show ?thesis by simp
qed

lemma TO_HEX_48: "v < 16 \<Longrightarrow> (TO_HEX (of_nat v) = 48) = (v = 0)"
proof -
  assume v: "v < 16"
  have "hex_value 48 = Some 0" by (simp add: hex_value_def)
  moreover have "TO_HEX (of_nat 0) = 48" by (simp add: TO_HEX_def)
  ultimately show ?thesis using TO_HEX_value [OF v] by (metis option.inject)
qed

text \<open>The four bits of \<open>val>>(l*4)\<close> are those of the 32-bit pattern of \<open>val\<close>.\<close>

lemma nibble_bits:
  assumes "l < 8"
  shows "drop_bit (l * 4) val AND 15 = int (nat (take_bit 32 val) div 16 ^ l mod 16)"
proof -
  have "drop_bit (l * 4) val AND 15 = take_bit 4 (drop_bit (l * 4) val)"
    by (simp add: take_bit_eq_mask mask_eq_exp_minus_1)
  also have "\<dots> = take_bit 4 (drop_bit (l * 4) (take_bit 32 val))"
    using assms by (intro bit_eqI) (auto simp: bit_take_bit_iff bit_drop_bit_eq)
  also have "\<dots> = take_bit 32 val div 16 ^ l mod 16"
  proof -
    have "(2 :: int) ^ (l * 4) = 16 ^ l" by (simp add: mult.commute [of l] power_mult)
    then show ?thesis by (simp add: take_bit_eq_mod drop_bit_eq_div)
  qed
  finally show ?thesis by (simp add: zdiv_int zmod_int)
qed

definition hex_chars :: "int \<Rightarrow> bytes" where
  "hex_chars val = map (\<lambda>v. TO_HEX (of_nat v)) (nibbles 8 (nat (take_bit 32 val)))"

lemma store_next: "length pre = n \<Longrightarrow> store (pre @ x # rest) n y = Some (pre @ y # rest)"
  by (simp add: store_def list_update_append)

lemma hex_digits_from:
  "length xs = k \<Longrightarrow> k \<le> 8 \<Longrightarrow> hex_digits [8 - k..<8] val (s # xs @ ys) =
    Some (s # map (\<lambda>l. TO_HEX (word_of_int (drop_bit (l * 4) val AND 15))) (rev [8 - k..<8]) @ ys)"
proof (induction k arbitrary: xs ys)
  case (Suc k)
  then obtain x xs' where xs: "xs = xs' @ [x]" "length xs' = k" by (cases xs rule: rev_cases) auto
  let ?d = "TO_HEX (word_of_int (drop_bit ((8 - Suc k) * 4) val AND 15))"
  have l: "[8 - Suc k..<8] = (8 - Suc k) # [8 - k..<8]"
  proof -
    have "Suc (8 - Suc k) = 8 - k" "8 - Suc k < 8" using Suc.prems(2) by simp_all
    then show ?thesis using upt_conv_Cons [of "8 - Suc k" 8] by metis
  qed
  have "store (s # xs' @ x # ys) (Suc k) ?d = Some (s # xs' @ ?d # ys)"
    using xs(2) by (simp add: store_def list_update_append)
  with Suc.IH [OF xs(2), of "?d # ys"] Suc.prems(2) show ?case
    unfolding l by (simp add: xs(1))
qed simp

lemma hex_digits_spec:
  assumes "length xs = 8"
  shows "hex_digits [0..<8] val (s # xs @ ys) = Some (s # hex_chars val @ ys)"
proof -
  have "word_of_int (drop_bit (l * 4) val AND 15) = (of_nat (nat (take_bit 32 val) div 16 ^ l mod 16) :: u8)"
    if "l < 8" for l unfolding nibble_bits [OF that] by simp
  then have "map (\<lambda>l. TO_HEX (word_of_int (drop_bit (l * 4) val AND 15))) (rev [0..<8]) = hex_chars val"
    unfolding hex_chars_def nibbles_def map_map by (intro map_cong) simp_all
  with hex_digits_from [OF assms, of val s ys] show ?thesis by simp
qed

text \<open>Leading zeros, except the last digit, become blanks.\<close>

lemma blank_zeros_spec:
  "length pre = Suc i \<Longrightarrow> length ds = n \<Longrightarrow>
    blank_zeros [i..<i + n] (pre @ ds @ rest) =
      Some (pre @ map (\<lambda>c. 32) (takeWhile (\<lambda>c. c = 48) ds) @ dropWhile (\<lambda>c. c = 48) ds @ rest)"
proof (induction n arbitrary: i pre ds)
  case (Suc n)
  then obtain d ds' where ds: "ds = d # ds'" "length ds' = n" by (cases ds) auto
  have l: "[i..<i + Suc n] = i # [Suc i..<Suc i + n]" by (simp add: upt_rec)
  have ld: "load (pre @ d # ds' @ rest) (Suc i) = Some d"
    and st: "store (pre @ d # ds' @ rest) (Suc i) 32 = Some ((pre @ [32]) @ ds' @ rest)"
    using Suc.prems(1) by (simp_all add: load_def store_def nth_append list_update_append)
  show ?case
  proof (cases "d = 48")
    case False
    then show ?thesis unfolding l by (simp add: ds(1) ld)
  next
    case True
    then show ?thesis using Suc.IH [of "pre @ [32]" "Suc i" ds'] Suc.prems(1) ds(2) unfolding l
      by (simp add: ds(1) ld [unfolded True] st [unfolded True])
  qed
qed simp

text \<open>The ten characters: a blank, the digits without leading zeros right-aligned in eight, a zero byte.\<close>

definition hex_text :: "int \<Rightarrow> bytes" where
  "hex_text val = (let ds = butlast (hex_chars val) in
     32 # map (\<lambda>c. 32) (takeWhile (\<lambda>c. c = 48) ds) @ dropWhile (\<lambda>c. c = 48) ds @ [last (hex_chars val), 0])"

lemma hex_chars_length [simp]: "length (hex_chars val) = 8"
  by (simp add: hex_chars_def)

lemma int_to_srthex_spec:
  assumes "length xs = 10"
  shows "int_to_srthex val (xs @ rest) = Some (hex_text val @ rest)" and "length (hex_text val) = 10"
proof -
  let ?c = "hex_chars val" and ?d = "butlast (hex_chars val)"
  have c: "?c = ?d @ [last ?c]" and d: "length ?d = 7"
    by (metis append_butlast_last_id hex_chars_length list.size(3) zero_neq_numeral) simp
  have "length (map (\<lambda>c. 32 :: u8) (takeWhile (\<lambda>c. c = 48) ?d) @ dropWhile (\<lambda>c. c = 48) ?d) = 7"
    using d takeWhile_dropWhile_id [of "\<lambda>c. c = 48" ?d] by (metis length_append length_map)
  then show "length (hex_text val) = 10" by (simp add: hex_text_def Let_def)
  obtain s ys t where xs: "xs = s # ys @ [t]" "length ys = 8"
  proof -
    obtain s zs where "xs = s # zs" "length zs = 9" using assms by (cases xs) auto
    moreover obtain ys t where "zs = ys @ [t]" "length ys = 8" using calculation(2) by (cases zs rule: rev_cases) auto
    ultimately show ?thesis using that by simp
  qed
  have 1: "hex_digits [0..<8] val (xs @ rest) = Some (s # ?c @ t # rest)"
    using hex_digits_spec [OF xs(2), of val s "t # rest"] by (simp add: xs(1))
  have 2: "store (s # ?c @ t # rest) 0 32 = Some (32 # ?c @ t # rest)" by (simp add: store_def)
  have 3: "blank_zeros [0..<7] (32 # ?c @ t # rest) =
      Some (32 # map (\<lambda>c. 32) (takeWhile (\<lambda>c. c = 48) ?d) @ dropWhile (\<lambda>c. c = 48) ?d @ last ?c # t # rest)"
    using blank_zeros_spec [of "[32]" 0 ?d 7 "last ?c # t # rest"] d by (subst c) simp
  let ?m = "map (\<lambda>c. 32 :: u8) (takeWhile (\<lambda>c. c = 48) ?d) @ dropWhile (\<lambda>c. c = 48) ?d"
  have m: "length ?m = 7" using d takeWhile_dropWhile_id [of "\<lambda>c. c = 48" ?d] by (metis length_append length_map)
  have "length (32 # ?m @ [last ?c]) = 9" using m by (simp del: length_append length_map) simp
  from store_next [OF this, of t rest 0]
  have "store ((32 # ?m @ [last ?c]) @ t # rest) 9 0 = Some ((32 # ?m @ [last ?c]) @ 0 # rest)" .
  then show "int_to_srthex val (xs @ rest) = Some (hex_text val @ rest)"
    by (simp add: int_to_srthex_def 1 2 3 [simplified] hex_text_def Let_def)
qed

lemma hex_numeral_zeros: "set vs \<subseteq> {0} \<Longrightarrow> hex_numeral (vs @ ws) = hex_numeral ws"
  by (induction vs) simp_all

lemma TO_HEX_not_blank: "v < 16 \<Longrightarrow> TO_HEX (of_nat v) \<noteq> 32"
  using TO_HEX_value [of v] by (auto simp: hex_value_def)

text \<open>The text behind the blanks: hexadecimal digits with the value of the lower 32 bits.\<close>

lemma hex_text_digits:
  "\<exists>ds. (\<forall>v \<in> set ds. v < 16) \<and> hex_numeral ds = nat (take_bit 32 val) \<and>
    dropWhile (\<lambda>c. c = 32) (hex_text val @ rest) = map (\<lambda>v. TO_HEX (of_nat v)) ds @ 0 # rest"
proof -
  let ?n = "nat (take_bit 32 val)" and ?h = "\<lambda>v. TO_HEX (of_nat v)"
  define vs w where "vs = butlast (nibbles 8 ?n)" and "w = last (nibbles 8 ?n)"
  have split: "nibbles 8 ?n = vs @ [w]"
    unfolding vs_def w_def by (metis append_butlast_last_id list.size(3) nibbles_simps(3) zero_neq_numeral)
  have small: "\<forall>v \<in> set (vs @ [w]). v < 16" unfolding split [symmetric] by (simp add: nibbles_def)
  have d: "butlast (hex_chars val) = map ?h vs" "last (hex_chars val) = ?h w"
    by (simp_all add: hex_chars_def split)
  let ?z = "takeWhile (\<lambda>v. v = 0) vs" and ?ds = "dropWhile (\<lambda>v. v = 0) vs @ [w]"
  have t: "takeWhile (\<lambda>c. c = 48) (map ?h vs) = map ?h ?z" "dropWhile (\<lambda>c. c = 48) (map ?h vs) = map ?h (dropWhile (\<lambda>v. v = 0) vs)"
    using small TO_HEX_48 unfolding takeWhile_map dropWhile_map comp_def
    by (auto intro: arg_cong [where f = "map ?h"] takeWhile_cong dropWhile_cong)
  have sub: "\<forall>v \<in> set ?ds. v < 16" using small by (auto dest: set_dropWhileD)
  then have nb: "\<forall>v \<in> set ?ds. ?h v \<noteq> 32" using TO_HEX_not_blank by blast
  have "dropWhile (\<lambda>c. c = 32) (map ?h ?ds @ 0 # rest) = map ?h ?ds @ 0 # rest"
    using nb by (cases ?ds) simp_all
  then have dw: "dropWhile (\<lambda>c. c = 32) (hex_text val @ rest) = map ?h ?ds @ 0 # rest"
    unfolding hex_text_def Let_def d t by (simp add: dropWhile_append)
  have "set ?z \<subseteq> {0}" by (auto dest: set_takeWhileD)
  then have "hex_numeral ?ds = hex_numeral (?z @ ?ds)" by (simp only: hex_numeral_zeros)
  also have "?z @ ?ds = nibbles 8 ?n" unfolding split by simp
  also have "hex_numeral (nibbles 8 ?n) = ?n"
    unfolding hex_numeral_nibbles by (simp add: take_bit_eq_mod nat_mod_distrib)
  finally show ?thesis using sub dw by blast
qed

lemma Atoh_hex_text:
  assumes "\<forall>v \<in> set ds. v < 16"
  shows "UTILS_Atoh (map (\<lambda>v. TO_HEX (of_nat v)) ds @ 0 # rest) = Some (of_nat (hex_numeral ds))"
proof -
  have "map hex_value (map (\<lambda>v. TO_HEX (of_nat v)) ds) = map Some ds"
    unfolding map_map using assms TO_HEX_value by (intro map_cong) auto
  moreover have "hex_value 0 = None" by (simp add: hex_value_def)
  ultimately show ?thesis
    unfolding UTILS_Atoh_def hex_numeral_def using Atoh_digits [of "map (\<lambda>v. TO_HEX (of_nat v)) ds" ds 0 rest 0] by simp
qed



end
