(* ===== verification/User_Mqtt.thy ===== *)
theory User_Mqtt
  imports Mqtt_Session Firmware_Text Device_State
begin

text \<open>
  The firmware's use of the MQTT client, \<open>user/user_mqtt.c\<close>: initialisation, the retry timer,
  and the callbacks, on which the client's session invariant is discharged.
\<close>

section \<open>Comparing topics\<close>

text \<open>\<open>topicCmp\<close> reads both strings up to the first difference or terminator.\<close>

fun topicCmp :: "bytes \<Rightarrow> bytes \<Rightarrow> bool option" where
  "topicCmp (a # buff1) (b # buff2) =
     (if a \<noteq> 0 \<and> b \<noteq> 0 then (if a \<noteq> b then Some False else topicCmp buff1 buff2) else Some (a = b))"
| "topicCmp _ _ = None"

text \<open>\<open>topicCmp\<close> decides whether the texts of two strings are equal.\<close>

lemma topicCmp_compares_texts:
  assumes "0 \<in> set s" and "0 \<in> set t"
  shows "topicCmp s t = Some (cstr s = cstr t)"
  using assms
proof (induction s t rule: topicCmp.induct)
  case (1 a buff1 b buff2)
  then show ?case by (cases "a = 0"; cases "b = 0") (simp_all add: cstr_def)
qed simp_all

section \<open>State\<close>

record SYSCFG =
  device_id :: bytes
  mqtt_host :: bytes
  mqtt_port :: u32
  mqtt_user :: bytes
  mqtt_pass :: bytes
  mqtt_keepalive :: u32
  cfg_security :: u8

text \<open>
  The globals of \<open>user_mqtt.c\<close>; \<open>timer_try_connect\<close> is the period it is armed with, and
  \<open>ad_string\<close> the static array of \<open>ad_name\<close>.
\<close>

record user_mqtt =
  ConnectedCallBack :: bool
  sysCfg :: SYSCFG
  timer_try_connect :: "nat option"
  topicLight :: bytes
  connected :: bool
  ad_string :: bytes

definition MQTT_TIME_TRY_CONNECT :: "build \<Rightarrow> nat" where
  "MQTT_TIME_TRY_CONNECT b = (if SLEEP b then 50 else 500)"

definition MAX_ID_LENGTH :: nat where "MAX_ID_LENGTH = 16"

definition no_syscfg :: SYSCFG where
  "no_syscfg = \<lparr>device_id = replicate 16 0, mqtt_host = replicate 64 0, mqtt_port = 0,
     mqtt_user = replicate 32 0, mqtt_pass = replicate 32 0, mqtt_keepalive = 0, cfg_security = 0\<rparr>"

text \<open>The globals at reset: \<open>topicLight\<close> is \<open>actuators\<close> in an array of 26 characters.\<close>

definition user_reset :: user_mqtt where
  "user_reset = \<lparr>ConnectedCallBack = False, sysCfg = no_syscfg, timer_try_connect = None,
     topicLight = chars ''actuators'' @ replicate (MAX_ID_LENGTH + 1) 0, connected = False,
     ad_string = replicate 100 0\<rparr>"

section \<open>Operations\<close>

text \<open>\<open>os_sprintf(dst, "%s", s)\<close> and the format \<open>"DVES_%08X"\<close>.\<close>

definition sprintf_s :: "bytes \<Rightarrow> bytes \<Rightarrow> bytes option" where
  "sprintf_s dst s = do { n \<leftarrow> strlen s; store_block dst 0 (take n s @ [0]) }"

definition hex8 :: "u32 \<Rightarrow> bytes" where
  "hex8 x = map (\<lambda>l. TO_HEX (ucast (drop_bit (4 * l) x AND 0xF))) (rev [0..<8])"

definition tryConnect :: "mqtt_client \<Rightarrow> mqtt_client option" where
  "tryConnect c = MQTT_Connect c"

text \<open>
  \<open>mqttInit\<close>, whose client is \<open>MQTT_InitConnection\<close>'s; \<open>chip\<close> is \<open>system_get_chip_id()\<close>.
\<close>

definition mqttInit ::
    "build \<Rightarrow> bytes \<Rightarrow> u32 \<Rightarrow> user_mqtt \<Rightarrow> (mqtt_client \<times> user_mqtt) option" where
  "mqttInit b adresse chip us = do {
     length \<leftarrow> strlen (topicLight us);
     t \<leftarrow> store (topicLight us) length (of_char (CHR ''/''));
     t \<leftarrow> store t (length + 1) 0;
     did \<leftarrow> store_block (device_id no_syscfg) 0 (chars ''DVES_'' @ hex8 chip @ [0]);
     h \<leftarrow> sprintf_s (mqtt_host no_syscfg) adresse;
     user \<leftarrow> sprintf_s (mqtt_user no_syscfg) (chars ''DVES_USER'' @ [0]);
     pass \<leftarrow> sprintf_s (mqtt_pass no_syscfg) (chars ''DVES_PASS'' @ [0]);
     let cfg = \<lparr>device_id = did, mqtt_host = h, mqtt_port = 1883, mqtt_user = user, mqtt_pass = pass,
       mqtt_keepalive = 120, cfg_security = 0\<rparr>;
     c \<leftarrow> MQTT_InitConnection h (mqtt_port cfg) (cfg_security cfg);
     (ok, c) \<leftarrow> MQTT_InitClient PROTOCOL_NAMEv31 c (Some did) (Some user) (Some pass) (mqtt_keepalive cfg) 1;
     c \<leftarrow> MQTT_InitLWT c (chars ''/lwt'' @ [0]) (chars ''offline'' @ [0]) 0 0;
     let c = MQTT_OnData (MQTT_OnPublished (MQTT_OnDisconnected (MQTT_OnConnected c True) True) True) True;
     Some (c, us\<lparr>ConnectedCallBack := True, sysCfg := cfg,
       timer_try_connect := Some (MQTT_TIME_TRY_CONNECT b), topicLight := t\<rparr>)
   }"

definition mqttIsConected :: "user_mqtt \<Rightarrow> bool" where
  "mqttIsConected us = connected us"

definition mqtt_print :: "mqtt_client \<Rightarrow> locals \<Rightarrow> bytes \<Rightarrow> mqtt_client option" where
  "mqtt_print c u str = do {
     l \<leftarrow> strlen str;
     (ok, c) \<leftarrow> MQTT_Publish c u (Some (chars ''/Debug/'' @ [0])) str (int l) 0 0;
     Some c
   }"

text \<open>
  \<open>mqttConnectedCb\<close>. \<open>MYID\<close> is declared here as an array but defined as a pointer, so the
  published byte is the first one of the pointer variable, whose memory is \<open>id_cell\<close>. The
  call of \<open>ConnectedCallBack\<close> is undefined if it is null; what it does is not part of this
  state.
\<close>

definition mqttConnectedCb ::
    "build \<Rightarrow> bytes \<Rightarrow> bytes \<Rightarrow> locals \<Rightarrow> locals \<Rightarrow> mqtt_client \<Rightarrow> user_mqtt
      \<Rightarrow> (mqtt_client \<times> user_mqtt) option" where
  "mqttConnectedCb b StationName id_cell u1 u2 c us = do {
     let us = us\<lparr>timer_try_connect := None, connected := True\<rparr>;
     (c, us) \<leftarrow> (if TRIACK b \<or> PWM b \<or> RELAY b then do {
         t \<leftarrow> ad_name StationName (topicLight us) (ad_string us);
         (ok, c) \<leftarrow> MQTT_Subscribe c u1 (Some t) 0;
         Some (c, us\<lparr>connected := True, ad_string := t\<rparr>)
       } else Some (c, us));
     (ok, c) \<leftarrow> MQTT_Publish c u2 (Some (chars ''/device'' @ [0])) id_cell 1 1 1;
     if ConnectedCallBack us then Some (c, us) else None
   }"

definition mqttDisconnectedCb :: "build \<Rightarrow> user_mqtt \<Rightarrow> user_mqtt" where
  "mqttDisconnectedCb b us = us\<lparr>connected := False, timer_try_connect := Some (MQTT_TIME_TRY_CONNECT b)\<rparr>"

definition mqttPublishedCb :: "mqtt_client \<Rightarrow> mqtt_client option" where
  "mqttPublishedCb c = Some c"

section \<open>Initialisation\<close>

lemma cstr_append: "0 \<notin> set s \<Longrightarrow> cstr (s @ 0 # rest) = s"
  by (auto simp: cstr_def takeWhile_append)

lemma hex8_length [simp]: "length (hex8 x) = 8"
  by (simp add: hex8_def)

lemma chars_of: "chars [] = []" "chars (c # cs) = of_char c # chars cs"
  by (simp_all add: chars_def)

lemma length_chars [simp]: "length (chars s) = length s"
  by (simp add: chars_def)

lemma TO_HEX_nonzero: "TO_HEX (ucast ((x :: u32) AND 0xF)) \<noteq> 0"
proof -
  have "\<forall>n \<in> set [0..<16]. TO_HEX (of_nat n) \<noteq> 0" by code_simp
  moreover have "unat (x AND 0xF) < 16" using unat_and_mask [of x 4] by (simp add: mask_eq_exp_minus_1)
  moreover have "ucast (x AND 0xF) = (of_nat (unat (x AND 0xF)) :: u8)" by simp
  ultimately show ?thesis by (metis atLeast_upt lessThan_iff)
qed

lemma hex8_no_zero: "0 \<notin> set (hex8 x)"
  using TO_HEX_nonzero by (auto simp: hex8_def)

lemma sprintf_s_spec:
  assumes "0 \<in> set s" and "length (cstr s) < length dst"
  shows "sprintf_s dst s = Some (cstr s @ 0 # drop (length (cstr s) + 1) dst)"
proof -
  have "strlen s = Some (length (cstr s))" "take (length (cstr s)) s = cstr s"
    using assms(1) strlen_Some [of s] take_cstr [of s] by (simp_all add: cstr_def)
  then show ?thesis using assms(2) by (simp add: sprintf_s_def store_block_Some)
qed

text \<open>What the globals keep: the retry timer runs exactly while the client is not connected.\<close>

definition user_ok :: "user_mqtt \<Rightarrow> bool" where
  "user_ok us \<longleftrightarrow> ConnectedCallBack us \<and> (timer_try_connect us = None \<longleftrightarrow> connected us) \<and>
     topicLight us = chars ''actuators/'' @ replicate 16 0 \<and> length (ad_string us) = 100"

lemma user_ok_topic:
  assumes "user_ok us"
  shows "0 \<in> set (topicLight us)" "cstr (topicLight us) = chars ''actuators/''"
proof -
  have "cstr (chars ''actuators/'' @ replicate 16 0) = chars ''actuators/''" by code_simp
  then show "cstr (topicLight us) = chars ''actuators/''" using assms by (simp add: user_ok_def)
qed (use assms in \<open>simp add: user_ok_def\<close>)

lemma holds_callbacks:
  "holds (MQTT_OnData (MQTT_OnPublished (MQTT_OnDisconnected (MQTT_OnConnected c a) b) d) e) ms = holds c ms"
  by (simp add: holds_def client_ok_def MQTT_OnData_def MQTT_OnPublished_def MQTT_OnDisconnected_def
    MQTT_OnConnected_def)

lemma init_lwt_holds:
  assumes "holds c ms" and "0 \<in> set t" and "0 \<in> set m"
  shows "\<exists>c'. MQTT_InitLWT c t m q r = Some c' \<and> holds c' ms \<and> connState c' = connState c \<and> host c' = host c \<and>
    port c' = port c \<and> client_id (connect_info c') = client_id (connect_info c)"
  using assms by (simp add: MQTT_InitLWT_def copy_string_Some holds_def client_ok_def info_ok_def str_ok_def
    opt_str_def)

lemma topicLight_init:
  "strlen (topicLight user_reset) = Some 9"
  "do { t \<leftarrow> store (topicLight user_reset) 9 (of_char (CHR ''/'')); store t 10 0 } =
    Some (chars ''actuators/'' @ replicate 16 0)"
proof -
  have t: "topicLight user_reset = chars ''actuators'' @ 0 # replicate 16 0"
    by (simp add: user_reset_def MAX_ID_LENGTH_def numeral_eq_Suc)
  have "0 \<notin> set (chars ''actuators'')" by (simp add: chars_of)
  from strlen_terminated [OF this] show "strlen (topicLight user_reset) = Some 9"
    unfolding t by simp
  show "do { t \<leftarrow> store (topicLight user_reset) 9 (of_char (CHR ''/'')); store t 10 0 } =
    Some (chars ''actuators/'' @ replicate 16 0)"
    unfolding t by (simp add: chars_of store_def numeral_eq_Suc)
qed

lemma MQTT_Connect_connecting:
  assumes "holds c ms"
  shows "\<exists>c'. MQTT_Connect c = Some c' \<and> connState c' = TCP_CONNECTING"
proof -
  have "defined (MQTT_Connect c)" using assms by (intro MQTT_Connect_defined) (rule wellI)
  then obtain c' where c': "MQTT_Connect c = Some c'" by (auto simp: defined_def)
  then have "connState c' = TCP_CONNECTING"
    by (auto simp: MQTT_Connect_def bind_eq_Some_conv Let_def split: prod.splits)
  with c' show ?thesis by blast
qed

lemma init_client_fields:
  assumes "MQTT_InitConnection h p sec = Some c0"
    and "MQTT_InitClient v c0 (Some cid) user pass ka cs = Some (ok, c)"
    and "0 \<in> set h" and "0 \<in> set cid"
  shows "host c = Some (cstr h @ [0]) \<and> port c = p \<and> client_id (connect_info c) = Some (cstr cid @ [0])"
  using assms by (auto simp: MQTT_InitConnection_def MQTT_InitClient_def copy_string_Some copy_optional_def
    bind_eq_Some_conv emit_def no_info_def split: option.splits)

lemma mqttInit_spec:
  assumes "0 \<in> set adresse" and "length (cstr adresse) < 64"
    and "UTILS_StrToIP (cstr adresse @ [0]) [0, 0, 0, 0] \<noteq> None"
  shows "\<exists>c us. mqttInit b adresse chip user_reset = Some (c, us) \<and> holds c [] \<and> user_ok us \<and>
    \<not> mqttIsConected us \<and> timer_try_connect us = Some (MQTT_TIME_TRY_CONNECT b) \<and>
    host c = Some (cstr adresse @ [0]) \<and> port c = 1883 \<and>
    client_id (connect_info c) = Some (chars ''DVES_'' @ hex8 chip @ [0])"
proof -
  let ?user = "chars ''DVES_USER''" and ?pass = "chars ''DVES_PASS''" and ?id = "chars ''DVES_'' @ hex8 chip"
  define did h user pass where "did = ?id @ 0 # [0, 0]"
    and "h = cstr adresse @ 0 # drop (length (cstr adresse) + 1) (mqtt_host no_syscfg)"
    and "user = ?user @ 0 # replicate 22 0" and "pass = ?pass @ 0 # replicate 22 0"
  note defs = did_def h_def user_def pass_def
  have z: "0 \<notin> set ?user" "0 \<notin> set ?pass" "0 \<notin> set ?id" "0 \<notin> set (cstr adresse)"
    using hex8_no_zero [of chip] cstr_no_zero [of adresse] by (simp_all add: chars_of)
  note cs = cstr_append [OF z(1)] cstr_append [OF z(2)] cstr_append [OF z(3)] cstr_append [OF z(4)]
  have did: "store_block (device_id no_syscfg) 0 (chars ''DVES_'' @ hex8 chip @ [0]) = Some did"
    by (subst store_block_Some) (simp_all add: no_syscfg_def defs numeral_eq_Suc)
  have h: "sprintf_s (mqtt_host no_syscfg) adresse = Some h"
    unfolding h_def using assms(1,2) by (intro sprintf_s_spec) (simp_all add: no_syscfg_def)
  have user: "sprintf_s (mqtt_user no_syscfg) (?user @ [0]) = Some user"
    and pass: "sprintf_s (mqtt_pass no_syscfg) (?pass @ [0]) = Some pass"
    by (subst sprintf_s_spec; simp add: cs no_syscfg_def defs; simp add: numeral_eq_Suc)+
  have ok: "str_ok (Some user)" "str_ok (Some pass)" "0 \<in> set did" "0 \<in> set h"
    by (simp_all add: str_ok_def defs)
  have c': "cstr did = ?id" "cstr h = cstr adresse" unfolding defs by (rule cs)+
  then have "cstr did \<noteq> []" by (simp add: chars_of)
  with init_client_holds [OF ok(4) _ ok(3) _ ok(1,2), of 1883 0 PROTOCOL_NAMEv31 120 1] assms(3) c'(2)
  obtain c0 c1 where c: "MQTT_InitConnection h 1883 0 = Some c0"
    "MQTT_InitClient PROTOCOL_NAMEv31 c0 (Some did) (Some user) (Some pass) 120 1 = Some (True, c1)" "holds c1 []"
    by auto
  note f = init_client_fields [OF c(1,2) ok(4,3)]
  obtain c2 where c2: "MQTT_InitLWT c1 (chars ''/lwt'' @ [0]) (chars ''offline'' @ [0]) 0 0 = Some c2" "holds c2 []"
    "host c2 = host c1" "port c2 = port c1" "client_id (connect_info c2) = client_id (connect_info c1)"
    using init_lwt_holds [OF c(3), of "chars ''/lwt'' @ [0]" "chars ''offline'' @ [0]" 0 0] by auto
  let ?c = "MQTT_OnData (MQTT_OnPublished (MQTT_OnDisconnected (MQTT_OnConnected c2 True) True) True) True"
  have hc: "holds ?c []" using c2(2) by (simp add: holds_callbacks)
  obtain us where run: "mqttInit b adresse chip user_reset = Some (?c, us)"
    and us: "us = user_reset\<lparr>ConnectedCallBack := True, sysCfg := sysCfg us,
      timer_try_connect := Some (MQTT_TIME_TRY_CONNECT b), topicLight := chars ''actuators/'' @ replicate 16 0\<rparr>"
    using topicLight_init by (auto simp: mqttInit_def did h user pass c c2(1) bind_eq_Some_conv)
  have "user_ok us" "\<not> mqttIsConected us" "timer_try_connect us = Some (MQTT_TIME_TRY_CONNECT b)"
    by (subst us; simp add: user_ok_def user_reset_def mqttIsConected_def)+
  moreover have "host ?c = host c2" "port ?c = port c2" "connect_info ?c = connect_info c2"
    by (simp_all add: MQTT_OnData_def MQTT_OnPublished_def MQTT_OnDisconnected_def MQTT_OnConnected_def)
  ultimately show ?thesis using run hc c2(3-5) f c' by auto
qed

text \<open>
  C29: starting the messaging. With a terminated broker address of at most 63 characters whose
  numbers do not overflow, \<open>mqttInit\<close> writes only inside its arrays and leaves a well-formed
  client with an empty queue, the given host, the port 1883 and the identifier \<open>DVES_\<close> followed
  by the chip number in eight hexadecimal digits; it is not connected, the topic prefix ends
  in a slash, and the retry timer is armed, whose first run starts to connect.
\<close>

theorem mqtt_started:
  assumes "0 \<in> set adresse" and "length (cstr adresse) < 64"
    and "UTILS_StrToIP (cstr adresse @ [0]) [0, 0, 0, 0] \<noteq> None"
  shows "\<exists>c us. mqttInit b adresse chip user_reset = Some (c, us) \<and> holds c [] \<and> user_ok us \<and>
    \<not> mqttIsConected us \<and> timer_try_connect us = Some (MQTT_TIME_TRY_CONNECT b) \<and>
    host c = Some (cstr adresse @ [0]) \<and> port c = 1883 \<and>
    client_id (connect_info c) = Some (chars ''DVES_'' @ hex8 chip @ [0]) \<and>
    (\<exists>c'. tryConnect c = Some c' \<and> connState c' = TCP_CONNECTING)"
  unfolding tryConnect_def using mqttInit_spec [OF assms] MQTT_Connect_connecting by blast

lemma example_host_ok:
  "0 \<in> set example_host" "length (cstr example_host) < 64"
  "UTILS_StrToIP (cstr example_host @ [0]) [0, 0, 0, 0] \<noteq> None"
  by code_simp+

lemma mqtt_started_witness:
  "\<exists>c us. mqttInit build_PRISE example_host 0xABCDEF user_reset = Some (c, us) \<and> holds c [] \<and>
    timer_try_connect us = Some 500 \<and> host c = Some example_host \<and>
    client_id (connect_info c) = Some (chars ''DVES_00ABCDEF'' @ [0])"
proof -
  have "chars ''DVES_'' @ hex8 0xABCDEF @ [0] = chars ''DVES_00ABCDEF'' @ [0]" "cstr example_host @ [0] = example_host" by code_simp+
  moreover have "MQTT_TIME_TRY_CONNECT build_PRISE = 500"
    by (simp add: MQTT_TIME_TRY_CONNECT_def build_PRISE_def plain_build_def)
  ultimately show ?thesis
    using mqtt_started [OF example_host_ok, where b = build_PRISE and chip = "0xABCDEF"]
    by (simp only:) blast
qed

section \<open>The callbacks\<close>

text \<open>A publication whose payload is a part of its object.\<close>

lemma publish_prefix:
  assumes "n \<le> length data"
  shows "MQTT_Publish c u t data (int n) qos retain = MQTT_Publish c u t (take n data) (int (length (take n data))) qos retain"
proof -
  have pb: "put_block c (take n data) n = put_block c data n" for c
    using assms by (simp add: put_block_def load_block_def)
  have m: "length (take n data) = n" using assms by simp
  have "mqtt_msg_publish c t data (int n) qos retain i =
      mqtt_msg_publish c t (take n data) (int (length (take n data))) qos retain i" for c i
    unfolding mqtt_msg_publish_def m nat_int pb by (rule refl)
  then show ?thesis by (simp add: MQTT_Publish_def)
qed

lemma frame_short: "length (frame m) \<le> 2 * length m + 2"
proof -
  have "length (escs m) \<le> 2 * length m" by (induction m) (simp_all add: escs_def esc_def)
  then show ?thesis by (simp add: frame_def)
qed

text \<open>Two small requests on an empty queue.\<close>

lemma put_first: "2 * length p + 2 \<le> cap \<Longrightarrow> put_dropping cap [] p = (True, [p])"
  using frame_short [of p] by simp

lemma publish_second:
  assumes "2 * length p + 2 * length q + 4 \<le> QUEUE_BUFFER_SIZE"
  shows "publish_queue [p] q = (True, [p, q])"
  using assms frame_short [of p] frame_short [of q]
  by (simp add: publish_queue_def enqueue_def)

text \<open>The station's topic, the subscription to it, and the message for \<open>/device\<close>.\<close>

lemma ad_name_topic:
  assumes "user_ok us" and "0 \<in> set name" and "length (cstr name) < 32"
  shows "\<exists>s. ad_name name (topicLight us) (ad_string us) = Some s \<and> 0 \<in> set s \<and> length s = 100 \<and>
    cstr s = chars ''actuators/'' @ cstr name"
proof -
  let ?t = "chars ''actuators/'' @ cstr name"
  have us: "0 \<in> set (topicLight us)" "cstr (topicLight us) = chars ''actuators/''" "length (ad_string us) = 100"
    using assms(1) user_ok_topic [OF assms(1)] by (simp_all add: user_ok_def)
  let ?s = "?t @ 0 # drop (length ?t + 1) (ad_string us)"
  have "0 \<notin> set ?t" using cstr_no_zero [of name] by (simp add: chars_of)
  then have "cstr ?s = ?t" by (rule cstr_append)
  moreover have "ad_name name (topicLight us) (ad_string us) = Some ?s"
    using ID_spec(1) [OF us(1) assms(2), of "ad_string us"] us(2,3) assms(3) by (simp add: ad_name_is_ID)
  moreover have "0 \<in> set ?s" "length ?s = 100" using us(3) assms(3) by simp_all
  ultimately show ?thesis by blast
qed

lemma topic_subscribed:
  assumes "holds c []" and "locals_ok u" and "0 \<in> set s" and "cstr s \<noteq> []" and "length (cstr s) \<le> 41"
  shows "\<exists>c' i. MQTT_Subscribe c u (Some s) 0 = Some (True, c') \<and> i \<noteq> 0 \<and>
    holds c' [packet MQTT_MSG_TYPE_SUBSCRIBE 0 1 0 (mqtt_id i @ mqtt_str (cstr s) @ [0])]"
proof -
  let ?i = "used_id (conn c) 0" and ?xs = "mqtt_id (used_id (conn c) 0) @ mqtt_str (cstr s) @ [0]"
  let ?p = "packet MQTT_MSG_TYPE_SUBSCRIBE 0 1 0 ?xs"
  have lx: "length ?xs = 5 + length (cstr s)" by (simp add: mqtt_id_def mqtt_str_def)
  then have "length ?p = 7 + length (cstr s)" using assms(5) by (simp add: packet_def varint_small)
  then have put: "put_dropping QUEUE_BUFFER_SIZE [] ?p = (True, [?p])"
    using assms(5) by (intro put_first) (simp add: QUEUE_BUFFER_SIZE_def)
  have fit: "3 + length ?xs \<le> MQTT_BUF_SIZE" using lx assms(5) by (simp add: MQTT_BUF_SIZE_def)
  have w0: "word_of_int (uint (0 :: u8)) = (0 :: u8)" by simp
  note sub = MQTT_Subscribe_spec [OF assms(1-3) assms(4), of 0, unfolded w0 if_P [OF fit] put fst_conv snd_conv]
  moreover have "?i \<noteq> 0" using used_id_nonzero [of "conn c" 0] by simp
  ultimately show ?thesis by blast
qed

lemma device_published:
  assumes "holds c [p]" and "locals_ok u" and "id_cell \<noteq> []" and "length p \<le> 100"
  shows "\<exists>c' j. MQTT_Publish c u (Some (chars ''/device'' @ [0])) id_cell 1 1 1 = Some (True, c') \<and> j \<noteq> 0 \<and>
    holds c' [p, packet MQTT_MSG_TYPE_PUBLISH 0 1 1 (publish_body (chars ''/device'') 1 j [hd id_cell])]"
proof -
  let ?d = "take 1 id_cell" and ?q = "chars ''/device'' @ [0]" and ?j = "publish_id (conn c) 1"
  let ?body = "publish_body (chars ''/device'') 1 (publish_id (conn c) 1) [hd id_cell]"
  let ?pub = "packet MQTT_MSG_TYPE_PUBLISH 0 1 1 ?body"
  have d: "?d = [hd id_cell]" and one: "1 \<le> length id_cell" using assms(3) by (cases id_cell; simp)+
  have dev: "cstr ?q = chars ''/device''" by (intro cstr_append) (simp add: chars_of)
  have lb: "length ?body = 12" by (simp add: publish_body_def mqtt_str_def mqtt_id_def)
  then have "length ?pub = 14" by (simp add: packet_def varint_small)
  with assms(4) have pq: "publish_queue [p] ?pub = (True, [p, ?pub])"
    by (intro publish_second) (simp add: QUEUE_BUFFER_SIZE_def)
  have "3 + length ?body \<le> MQTT_BUF_SIZE" using lb by (simp add: MQTT_BUF_SIZE_def)
  then have fit: "3 + length (publish_body (cstr ?q) 1 (publish_id (conn c) 1) ?d) \<le> MQTT_BUF_SIZE" unfolding dev d .
  have q: "0 \<in> set ?q" "cstr ?q \<noteq> []" unfolding dev by (simp_all add: chars_of)
  obtain c' where c': "MQTT_Publish c u (Some ?q) ?d (int (length ?d)) 1 1 = Some (True, c')" "holds c' [p, ?pub]"
    using MQTT_Publish_fits [OF assms(1,2) q fit, of 1, unfolded publish_bytes_def dev d pq fst_conv snd_conv]
    unfolding d by blast
  have "MQTT_Publish c u (Some ?q) id_cell 1 1 1 = Some (True, c')"
    using publish_prefix [OF one, of c u "Some ?q" 1 1] c'(1) by simp
  moreover have "?j \<noteq> 0" using used_id_nonzero [of "conn c" 0] by (simp add: publish_id_def used_id_def)
  ultimately show ?thesis using c'(2) by blast
qed

text \<open>
  C30: what a connection starts with. On an empty queue the connected callback marks the client
  as connected, stops the retry timer, and queues exactly two messages: a subscription with
  QoS 0 to \<open>actuators/\<close> followed by the station's name (in builds with an actuator), and the
  retained message for \<open>/device\<close> with QoS 1, whose payload is one byte.
\<close>

theorem connected_announces:
  assumes "holds c []" and "user_ok us" and "TRIACK b \<or> PWM b \<or> RELAY b"
    and "0 \<in> set name" and "length (cstr name) < 32" and "id_cell \<noteq> []" and "locals_ok u1" and "locals_ok u2"
  shows "\<exists>c' us' i j. mqttConnectedCb b name id_cell u1 u2 c us = Some (c', us') \<and> user_ok us' \<and>
    mqttIsConected us' \<and> timer_try_connect us' = None \<and> i \<noteq> 0 \<and> j \<noteq> 0 \<and> holds c'
      [packet MQTT_MSG_TYPE_SUBSCRIBE 0 1 0 (mqtt_id i @ mqtt_str (chars ''actuators/'' @ cstr name) @ [0]),
       packet MQTT_MSG_TYPE_PUBLISH 0 1 1 (publish_body (chars ''/device'') 1 j [hd id_cell])]"
proof -
  let ?us = "us\<lparr>timer_try_connect := None, connected := True\<rparr>"
  obtain s where s: "ad_name name (topicLight us) (ad_string us) = Some s" "0 \<in> set s" "length s = 100"
    "cstr s = chars ''actuators/'' @ cstr name" using ad_name_topic [OF assms(2,4,5)] by blast
  then have l: "cstr s \<noteq> []" "length (cstr s) \<le> 41" using assms(5) by (simp_all add: chars_of)
  obtain c1 i where c1: "MQTT_Subscribe c u1 (Some s) 0 = Some (True, c1)" "i \<noteq> 0"
    "holds c1 [packet MQTT_MSG_TYPE_SUBSCRIBE 0 1 0 (mqtt_id i @ mqtt_str (cstr s) @ [0])]" (is "holds c1 [?p]")
    using topic_subscribed [OF assms(1,7) s(2) l] by blast
  have "length ?p \<le> 100" using l(2) by (simp add: packet_def varint_small mqtt_id_def mqtt_str_def)
  with device_published [OF c1(3) assms(8,6)] obtain c2 j where
    c2: "MQTT_Publish c1 u2 (Some (chars ''/device'' @ [0])) id_cell 1 1 1 = Some (True, c2)" "j \<noteq> 0"
    "holds c2 [?p, packet MQTT_MSG_TYPE_PUBLISH 0 1 1 (publish_body (chars ''/device'') 1 j [hd id_cell])]" by blast
  let ?us' = "?us\<lparr>connected := True, ad_string := s\<rparr>"
  have "ConnectedCallBack us" using assms(2) by (simp add: user_ok_def)
  then have run: "mqttConnectedCb b name id_cell u1 u2 c us = Some (c2, ?us')"
    using assms(3) s(1) c1(1) c2(1) by (simp add: mqttConnectedCb_def)
  have "user_ok ?us'" "mqttIsConected ?us'" "timer_try_connect ?us' = None"
    using assms(2) s(3) by (simp_all add: user_ok_def mqttIsConected_def)
  then show ?thesis using run c1(2) c2(2) c2(3) [unfolded s(4)] by blast
qed

definition example_user :: user_mqtt where
  "example_user = user_reset\<lparr>ConnectedCallBack := True, timer_try_connect := Some 500,
     topicLight := chars ''actuators/'' @ replicate 16 0\<rparr>"

lemma example_user_ok: "user_ok example_user"
  by (simp add: user_ok_def example_user_def user_reset_def)

lemma connected_announces_witness:
  "\<exists>c' us' i j. mqttConnectedCb build_PRISE (chars ''lamp'' @ [0]) [0x10, 0x20, 0xFE, 0x3F]
      example_locals example_locals example_client example_user = Some (c', us') \<and> holds c'
      [packet MQTT_MSG_TYPE_SUBSCRIBE 0 1 0 (mqtt_id i @ mqtt_str (chars ''actuators/lamp'') @ [0]),
       packet MQTT_MSG_TYPE_PUBLISH 0 1 1 (publish_body (chars ''/device'') 1 j [0x10])]"
proof -
  have n: "cstr (chars ''lamp'' @ [0]) = chars ''lamp''" by code_simp
  have t: "chars ''actuators/'' @ chars ''lamp'' = chars ''actuators/lamp''" by (simp add: chars_of)
  have "0 \<in> set (chars ''lamp'' @ [0])" "length (cstr (chars ''lamp'' @ [0])) < 32" by (simp_all add: n)
  moreover have "TRIACK build_PRISE" by (simp add: build_PRISE_def)
  ultimately show ?thesis
    using connected_announces [OF example_client_holds(1) example_user_ok, of build_PRISE "chars ''lamp'' @ [0]"
      "[0x10, 0x20, 0xFE, 0x3F]" example_locals example_locals, unfolded n t] by fastforce
qed

section \<open>The application\<close>

text \<open>
  The callbacks as the client sees them. The data callback changes actuators only; what it does
  is the subject of the theory \<open>Station\<close>. The name is the array of 32 characters that
  \<open>user_init\<close> fills from \<open>rd\<close> and terminates, and the buffers of the calls hold anything.
\<close>

definition MAX_LENGTH_STATION_NAME :: nat where "MAX_LENGTH_STATION_NAME = 32"

definition boot_name :: "(nat \<Rightarrow> u8) \<Rightarrow> bytes" where
  "boot_name rd = (map rd [0..<MAX_LENGTH_STATION_NAME])[MAX_LENGTH_STATION_NAME - 1 := 0]"

definition stack_locals :: "u8 \<Rightarrow> proto_parser \<Rightarrow> (nat \<Rightarrow> u8) \<Rightarrow> nat \<Rightarrow> locals" where
  "stack_locals ch p rd n = \<lparr>l_c = ch, l_proto = p, dataBuffer = map rd [0..<MQTT_BUF_SIZE], dataLen = n\<rparr>"

definition user_callbacks :: "build \<Rightarrow> bytes \<Rightarrow> bytes \<Rightarrow> locals \<Rightarrow> locals \<Rightarrow> user_mqtt \<Rightarrow> callbacks" where
  "user_callbacks b name id_cell u1 u2 us = \<lparr>
     cb_connected = (\<lambda>c. map_option fst (mqttConnectedCb b name id_cell u1 u2 c us)),
     cb_disconnected = Some, cb_published = mqttPublishedCb, cb_timeout = Some,
     cb_data = (\<lambda>c t tlen d dlen. Some c)\<rparr>"

lemma boot_name_ok: "0 \<in> set (boot_name rd)" "length (cstr (boot_name rd)) < 32"
proof -
  have z: "boot_name rd ! 31 = 0" "length (boot_name rd) = 32"
    by (simp_all add: boot_name_def MAX_LENGTH_STATION_NAME_def del: upt_rec_numeral)
  then have "31 < length (boot_name rd)" by simp
  then have "boot_name rd ! 31 \<in> set (boot_name rd)" by (rule nth_mem)
  then show i: "0 \<in> set (boot_name rd)" unfolding z(1) .
  have "\<not> length (boot_name rd) \<le> length (cstr (boot_name rd))"
  proof
    assume "length (boot_name rd) \<le> length (cstr (boot_name rd))"
    then have "take (length (cstr (boot_name rd))) (boot_name rd) = boot_name rd" by (rule take_all)
    then have e: "cstr (boot_name rd) = boot_name rd" unfolding take_cstr(1) .
    have "0 \<notin> set (cstr (boot_name rd))" by (rule cstr_no_zero)
    with i show False unfolding e by contradiction
  qed
  then show "length (cstr (boot_name rd)) < 32" using z(2) by simp
qed

lemma stack_locals_ok [simp]: "locals_ok (stack_locals ch p rd n)"
  by (simp add: stack_locals_def locals_ok_def)

text \<open>The globals once \<open>mqttInit\<close> has run; \<open>ad_name\<close> has left anything in its array.\<close>

definition initialised :: "(nat \<Rightarrow> u8) \<Rightarrow> user_mqtt \<Rightarrow> user_mqtt" where
  "initialised rd us = us\<lparr>ConnectedCallBack := True, topicLight := chars ''actuators/'' @ replicate 16 0,
     ad_string := map rd [0..<100]\<rparr>"

lemma initialised_ok:
  "0 \<in> set (topicLight (initialised rd us))" "cstr (topicLight (initialised rd us)) = chars ''actuators/''"
  "length (ad_string (initialised rd us)) = 100" "ConnectedCallBack (initialised rd us)"
proof -
  have "cstr (chars ''actuators/'' @ replicate 16 0) = chars ''actuators/''" by code_simp
  then show "cstr (topicLight (initialised rd us)) = chars ''actuators/''" by (simp add: initialised_def)
qed (simp_all add: initialised_def)

lemma connected_defined:
  assumes c: "well c"
  shows "defined (cb_connected (user_callbacks b (boot_name rd) (le32 p) (stack_locals x1 p1 r1 n1)
    (stack_locals x2 p2 r2 n2) (initialised ad us)) c)"
proof -
  let ?us = "initialised ad us" and ?u1 = "stack_locals x1 p1 r1 n1" and ?u2 = "stack_locals x2 p2 r2 n2"
  note us = initialised_ok [of ad us]
  let ?t = "chars ''actuators/'' @ cstr (boot_name rd)"
  let ?s = "?t @ 0 # drop (length ?t + 1) (ad_string ?us)"
  have t: "ad_name (boot_name rd) (topicLight ?us) (ad_string ?us) = Some ?s"
    using ID_spec(1) [OF us(1) boot_name_ok(1) [of rd], of "ad_string ?us"] us(2,3) boot_name_ok(2) [of rd]
    by (simp add: ad_name_is_ID)
  have "0 \<notin> set ?t" using cstr_no_zero [of "boot_name rd"] by (simp add: chars_of)
  then have "cstr ?s = ?t" by (rule cstr_append)
  moreover have "?t \<noteq> []" by (simp add: chars_of)
  ultimately have s: "0 \<in> set ?s" "cstr ?s \<noteq> []" by simp_all
  let ?q = "chars ''/device'' @ [0]"
  have q: "0 \<in> set ?q" "cstr ?q \<noteq> []" by (simp_all add: chars_of cstr_def)
  have sub: "\<exists>ok c'. MQTT_Subscribe c ?u1 (Some ?s) 0 = Some (ok, c') \<and> well c'" if "well c" for c
    using requests_defined(3) [OF that, of ?u1 ?s _ 0] s by (auto simp: defined_def)
  have "\<exists>ok c'. MQTT_Publish c ?u2 (Some ?q) (take 1 (le32 p)) (int (length (take 1 (le32 p)))) 1 1 = Some (ok, c') \<and> well c'"
    if "well c" for c
    using requests_defined(2) [OF that, of ?u2 ?q _ "take 1 (le32 p)" 1 1] q by (auto simp: defined_def)
  moreover have "1 \<le> length (le32 p)" by (simp add: le32_def)
  ultimately have pub: "\<exists>ok c'. MQTT_Publish c ?u2 (Some ?q) (le32 p) 1 1 1 = Some (ok, c') \<and> well c'" if "well c" for c
    using publish_prefix [of 1 "le32 p" c ?u2 "Some ?q" 1 1] that by simp
  show ?thesis
  proof (cases "TRIACK b \<or> PWM b \<or> RELAY b")
    case True
    obtain ok c1 where c1: "MQTT_Subscribe c ?u1 (Some ?s) 0 = Some (ok, c1)" "well c1" using sub [OF c] by blast
    with pub [OF c1(2)] True t us(4) show ?thesis
      by (auto simp: user_callbacks_def mqttConnectedCb_def)
  next
    case False
    with pub [OF c] us(4) show ?thesis by (auto simp: user_callbacks_def mqttConnectedCb_def)
  qed
qed

interpretation app: mqtt_application
  "user_callbacks b (boot_name rd) (le32 p) (stack_locals x1 p1 r1 n1) (stack_locals x2 p2 r2 n2) (initialised ad us)"
  for b rd p x1 p1 r1 n1 x2 p2 r2 n2 ad us
  by unfold_locales (use connected_defined in \<open>auto simp: user_callbacks_def mqttPublishedCb_def\<close>)



section \<open>The globals over time\<close>

text \<open>What a connection does to the globals, independent of the client.\<close>

definition connected_user :: "build \<Rightarrow> bytes \<Rightarrow> user_mqtt \<Rightarrow> user_mqtt option" where
  "connected_user b StationName us = do {
     t \<leftarrow> (if TRIACK b \<or> PWM b \<or> RELAY b then ad_name StationName (topicLight us) (ad_string us)
          else Some (ad_string us));
     Some (us\<lparr>timer_try_connect := None, connected := True, ad_string := t\<rparr>)
   }"

lemma mqttConnectedCb_user:
  assumes "mqttConnectedCb b name id_cell u1 u2 c us = Some (c', us')"
  shows "connected_user b name us = Some us'"
  using assms by (auto simp: mqttConnectedCb_def connected_user_def bind_eq_Some_conv Let_def split: if_splits)

lemma ID_length:
  assumes "ID y x s = Some s'"
  shows "length s' = length s"
proof -
  have "length m' = length m" if "copy_text m p xs = Some (m', q)" for m p xs m' q
    using that by (induction m p xs rule: copy_text.induct)
      (auto simp: bind_eq_Some_conv store_length split: if_splits)
  then show ?thesis using assms by (auto simp: ID_def bind_eq_Some_conv store_length)
qed

lemma connected_user_ok: "connected_user b name us = Some us' \<Longrightarrow> user_ok us \<Longrightarrow> user_ok us'"
  by (auto simp: connected_user_def user_ok_def bind_eq_Some_conv ad_name_is_ID dest!: ID_length split: if_splits)

lemma mqttDisconnectedCb_ok: "user_ok us \<Longrightarrow> user_ok (mqttDisconnectedCb b us)"
  by (simp add: mqttDisconnectedCb_def user_ok_def)

end
