(* ===== verification/Reports.thy ===== *)
theory Reports
  imports User_Mqtt
begin

text \<open>
  Sensor reports, \<open>send_paquet_sensor\<close> of \<open>user/user_main.c\<close>: the packet
  \<open>S, type, value (4 bytes), station name and suffix, 0\<close> that is published for every reading,
  and a reference receiver that reads it back.
\<close>

section \<open>Model\<close>

text \<open>
  The two copying loops. \<open>StationName[l]\<close> is read before \<open>l\<close> is compared with the length.
\<close>

function put_station :: "bytes \<Rightarrow> bytes \<Rightarrow> nat \<Rightarrow> (bytes \<times> nat) option" where
  "put_station StationName buf l = do {
     c \<leftarrow> load StationName l;
     if c \<noteq> 0 \<and> l < MAX_LENGTH_STATION_NAME then do {
       buf \<leftarrow> store buf (6 + l) c;
       put_station StationName buf (l + 1)
     } else Some (buf, l)
   }"
  by pat_completeness auto
termination by (relation "measure (\<lambda>(_, _, l). MAX_LENGTH_STATION_NAME - l)") auto

declare put_station.simps [simp del]

function put_suffix :: "bytes option \<Rightarrow> bytes \<Rightarrow> nat \<Rightarrow> nat \<Rightarrow> (bytes \<times> nat) option" where
  "put_suffix name buf l l2 = (case name of None \<Rightarrow> Some (buf, l) | Some s \<Rightarrow> do {
     c \<leftarrow> load s l2;
     if c \<noteq> 0 \<and> l < MAX_LENGTH_STATION_NAME then do {
       buf \<leftarrow> store buf (6 + l) c;
       put_suffix name buf (l + 1) (l2 + 1)
     } else Some (buf, l)
   })"
  by pat_completeness auto
termination by (relation "measure (\<lambda>(_, _, l, _). MAX_LENGTH_STATION_NAME - l)") auto

declare put_suffix.simps [simp del]

fun put_val :: "nat list \<Rightarrow> int \<Rightarrow> bytes \<Rightarrow> bytes option" where
  "put_val [] val buf = Some buf"
| "put_val (l # ls) val buf = do {
     buf \<leftarrow> store buf (2 + l) (word_of_int (drop_bit ((3 - l) * 8) val));
     put_val ls val buf
   }"

text \<open>\<open>buf\<close> is the uninitialised local array, \<open>u\<close> the locals of \<open>MQTT_Publish\<close>.\<close>

definition send_paquet_sensor ::
    "bytes \<Rightarrow> bytes \<Rightarrow> locals \<Rightarrow> bytes option \<Rightarrow> sensor_type_t \<Rightarrow> int \<Rightarrow> int \<Rightarrow> bytes option
      \<Rightarrow> mqtt_client \<Rightarrow> mqtt_client option" where
  "send_paquet_sensor StationName buf u topic type val retain name c = do {
     first \<leftarrow> load StationName 0;
     if first = 0 then Some c else do {
       b \<leftarrow> store buf 0 (of_char (CHR ''S''));
       b \<leftarrow> store b 1 (of_nat (sensor_code type));
       b \<leftarrow> put_val [0..<4] val b;
       (b, l) \<leftarrow> put_station StationName b 0;
       (b, l) \<leftarrow> put_suffix name b l 0;
       b \<leftarrow> store b (6 + l) 0;
       (ok, c) \<leftarrow> MQTT_Publish c u topic b (int (7 + l)) 0 retain;
       Some c
     }
   }"

section \<open>The packet\<close>

definition be32 :: "int \<Rightarrow> bytes" where
  "be32 val = map (\<lambda>l. word_of_int (drop_bit ((3 - l) * 8) val)) [0..<4]"

definition sensor_packet :: "sensor_type_t \<Rightarrow> int \<Rightarrow> bytes \<Rightarrow> bytes" where
  "sensor_packet type val label = of_char (CHR ''S'') # of_nat (sensor_code type) # be32 val @ label @ [0]"

text \<open>A receiver: the type, the signed value and the label up to its terminator.\<close>

definition read_sensor :: "bytes \<Rightarrow> (nat \<times> int \<times> bytes) option" where
  "read_sensor m =
     (if length m < 7 \<or> m ! 0 \<noteq> of_char (CHR ''S'') then None
      else Some (unat (m ! 1), sint (word_rcat (take 4 (drop 2 m)) :: u32), cstr (drop 6 m)))"

lemma load_cstr: "i < length (cstr s) \<Longrightarrow> load s i = Some (cstr s ! i)"
  using take_cstr(2) [of s] unfolding cstr_def by (simp add: load_def takeWhile_nth)

lemma load_terminator: "0 \<in> set s \<Longrightarrow> load s (length (cstr s)) = Some 0"
  using cstr_append by (fastforce simp: load_def dest: split_list_first)

text \<open>One step of a copy into the label.\<close>

lemma put_char:
  assumes "length pre = 6" and "length mem = 34" and "length acc = l" and "l < 34"
  shows "store (pre @ acc @ drop l mem) (6 + l) x = Some (pre @ (acc @ [x]) @ drop (l + 1) mem)"
proof -
  obtain y ys where y: "drop l mem = y # ys" using assms by (cases "drop l mem") auto
  then have "drop (l + 1) mem = ys" using drop_Suc_drop [OF y] by simp
  with y assms show ?thesis by (simp add: store_def list_update_append)
qed

lemma put_station_copies:
  assumes "0 \<in> set s" and "length pre = 6" and "length mem = 34"
    and "pos \<le> length (cstr s)" and "length (cstr s) \<le> 32"
  shows "put_station s (pre @ take pos (cstr s) @ drop pos mem) pos =
    Some (pre @ cstr s @ drop (length (cstr s)) mem, length (cstr s))"
  using assms(4)
proof (induction "length (cstr s) - pos" arbitrary: pos)
  case 0
  then have p: "pos = length (cstr s)" by simp
  have "load s (length (cstr s)) = Some 0" using assms(1) by (rule load_terminator)
  then show ?case unfolding p by (subst put_station.simps) simp
next
  case (Suc k)
  let ?x = "cstr s ! pos"
  have lt: "pos < length (cstr s)" using Suc by simp
  have c: "load s pos = Some ?x" "?x \<noteq> 0"
    using load_cstr [OF lt] nth_mem [OF lt] cstr_no_zero [of s] by auto
  have st: "store (pre @ take pos (cstr s) @ drop pos mem) (6 + pos) ?x =
      Some (pre @ take (pos + 1) (cstr s) @ drop (pos + 1) mem)"
    using put_char [OF assms(2,3), of "take pos (cstr s)" pos ?x] lt assms(5)
    by (simp add: take_Suc_conv_app_nth)
  have "put_station s (pre @ take (pos + 1) (cstr s) @ drop (pos + 1) mem) (pos + 1) =
      Some (pre @ cstr s @ drop (length (cstr s)) mem, length (cstr s))"
    using Suc by (intro Suc.hyps(1)) simp_all
  moreover have "pos < MAX_LENGTH_STATION_NAME" using lt assms(5) by (simp add: MAX_LENGTH_STATION_NAME_def)
  ultimately show ?case using c st by (subst put_station.simps) simp
qed

lemma put_suffix_copies:
  assumes "0 \<in> set t" and "length pre = 6" and "length mem = 34"
    and "length acc = l" and "l \<le> 32" and "k \<le> length (cstr t)"
  shows "\<exists>n. n = length (take 32 (acc @ drop k (cstr t))) \<and> put_suffix (Some t) (pre @ acc @ drop l mem) l k =
    Some (pre @ take 32 (acc @ drop k (cstr t)) @ drop n mem, n)"
  using assms(4-6)
proof (induction "length (cstr t) - k" arbitrary: acc l k)
  case 0
  then have k: "k = length (cstr t)" by simp
  have "load t k = Some 0" using load_terminator [OF assms(1)] by (simp add: k)
  then show ?case using 0 by (subst put_suffix.simps) simp
next
  case (Suc n)
  let ?x = "cstr t ! k"
  have lt: "k < length (cstr t)" using Suc by simp
  have c: "load t k = Some ?x" "?x \<noteq> 0"
    using load_cstr [OF lt] nth_mem [OF lt] cstr_no_zero [of t] by auto
  show ?case
  proof (cases "l < 32")
    case False
    with Suc.prems(1,2) have l: "l = 32" "length acc = 32" by simp_all
    with c show ?thesis by (subst put_suffix.simps) (simp add: MAX_LENGTH_STATION_NAME_def)
  next
    case True
    have st: "store (pre @ acc @ drop l mem) (6 + l) ?x = Some (pre @ (acc @ [?x]) @ drop (l + 1) mem)"
      using put_char [OF assms(2,3) Suc.prems(1), of ?x] True by simp
    have d: "(acc @ [?x]) @ drop (k + 1) (cstr t) = acc @ drop k (cstr t)"
      using Cons_nth_drop_Suc [OF lt] by simp
    show ?thesis
      using Suc.hyps(1) [of "k + 1" "acc @ [?x]" "l + 1"] Suc.hyps(2) Suc.prems True lt c st d
      by (subst put_suffix.simps) (simp add: MAX_LENGTH_STATION_NAME_def Suc_diff_Suc)
  qed
qed

lemma put_val_be32: "put_val [0..<4] val (a # b # v0 # v1 # v2 # v3 # r) = Some (a # b # be32 val @ r)"
proof -
  have "[0..<4] = [0, 1, 2, 3 :: nat]" by code_simp
  then show ?thesis by (simp add: store_def be32_def numeral_eq_Suc)
qed

text \<open>
  The packet that is published: at most 32 characters of name and suffix. The array of 40 bytes
  is never overrun.
\<close>

lemma send_paquet_sensor_spec:
  fixes val :: int and type :: sensor_type_t
  assumes "0 \<in> set name" and "cstr name \<noteq> []" and "length (cstr name) \<le> 32" and "length buf = 40"
    and "\<forall>s. suffix = Some s \<longrightarrow> 0 \<in> set s"
  defines "label \<equiv> take 32 (cstr name @ (case suffix of None \<Rightarrow> [] | Some s \<Rightarrow> cstr s))"
  defines "m \<equiv> sensor_packet type val label"
  shows "send_paquet_sensor name buf u topic type val retain suffix c =
    do { (ok, c) \<leftarrow> MQTT_Publish c u topic m (int (length m)) 0 retain; Some c }"
proof -
  obtain b0 b1 v0 v1 v2 v3 mem where buf: "buf = b0 # b1 # v0 # v1 # v2 # v3 # mem"
    using assms(4) by (auto simp: numeral_eq_Suc length_Suc_conv)
  then have mem: "length mem = 34" using assms(4) by simp
  let ?pre = "of_char (CHR ''S'') # of_nat (sensor_code type) # be32 val"
  have pre: "length ?pre = 6" by (simp add: be32_def)
  obtain x xs where x: "cstr name = x # xs" "x \<noteq> 0" using assms(2) cstr_no_zero [of name] by (cases "cstr name") auto
  have first: "load name 0 = Some x" using load_cstr [of 0 name] x by simp
  have head: "store buf 0 (of_char (CHR ''S'')) = Some (of_char (CHR ''S'') # b1 # v0 # v1 # v2 # v3 # mem)"
    "store (of_char (CHR ''S'') # b1 # v0 # v1 # v2 # v3 # mem) 1 (of_nat (sensor_code type)) =
      Some (of_char (CHR ''S'') # of_nat (sensor_code type) # v0 # v1 # v2 # v3 # mem)"
    "put_val [0..<4] val (of_char (CHR ''S'') # of_nat (sensor_code type) # v0 # v1 # v2 # v3 # mem) = Some (?pre @ mem)"
    unfolding buf put_val_be32 by (simp_all add: store_def)
  have station: "put_station name (?pre @ mem) 0 = Some (?pre @ cstr name @ drop (length (cstr name)) mem, length (cstr name))"
    using put_station_copies [OF assms(1) pre mem, of 0] assms(3) by simp
  define n where "n = length label"
  have n: "n \<le> 32" by (simp add: n_def label_def)
  have suf: "put_suffix suffix (?pre @ cstr name @ drop (length (cstr name)) mem) (length (cstr name)) 0 =
      Some (?pre @ label @ drop n mem, n)"
  proof (cases suffix)
    case None
    then show ?thesis using assms(3) by (subst put_suffix.simps) (simp add: label_def n_def)
  next
    case (Some s)
    with assms(5) have "0 \<in> set s" by simp
    from put_suffix_copies [OF this pre mem refl assms(3), of 0] show ?thesis by (simp add: Some label_def n_def)
  qed
  have fin: "store (?pre @ label @ drop n mem) (6 + n) 0 = Some (m @ drop (n + 1) mem)"
    using put_char [OF pre mem, of label n 0] n by (simp add: n_def m_def sensor_packet_def)
  have lm: "length m = 7 + n" by (simp add: m_def sensor_packet_def n_def be32_def)
  have run: "send_paquet_sensor name buf u topic type val retain suffix c =
      do { (ok, c) \<leftarrow> MQTT_Publish c u topic (m @ drop (n + 1) mem) (int (7 + n)) 0 retain; Some c }"
    unfolding send_paquet_sensor_def first Option.bind_lunit using x(2) station suf fin
    by (simp add: head [simplified])
  show ?thesis unfolding run using publish_prefix [of "7 + n" "m @ drop (n + 1) mem" c u topic 0 retain] lm by simp
qed

section \<open>Reading it back\<close>

lemma join_bytes:
  fixes a :: int
  assumes "m = 16777216 * d + m24" and "m24 = 65536 * c + m16" and "m16 = 256 * b + a"
  shows "a + 256 * (b + 256 * (c + 256 * d)) = m"
  using assms by simp

lemma split_bytes:
  fixes v :: int
  shows "v mod 256 + 256 * (v div 256 mod 256 + 256 * (v div 65536 mod 256 + 256 * (v div 16777216 mod 256))) =
    v mod 4294967296"
proof (rule join_bytes)
  have e: "(4294967296 :: int) = 16777216 * 256" "(16777216 :: int) = 65536 * 256" "(65536 :: int) = 256 * 256" by simp_all
  show "v mod 4294967296 = 16777216 * (v div 16777216 mod 256) + v mod 16777216"
    unfolding e(1) by (rule zmod_zmult2_eq) simp
  show "v mod 16777216 = 65536 * (v div 65536 mod 256) + v mod 65536"
    unfolding e(2) by (rule zmod_zmult2_eq) simp
  show "v mod 65536 = 256 * (v div 256 mod 256) + v mod 256"
    unfolding e(3) by (rule zmod_zmult2_eq) simp
qed

lemma of_int_mod_word: "word_of_int (val mod 2 ^ 32) = (word_of_int val :: u32)"
  unfolding take_bit_eq_mod [symmetric] word_of_int_eq_iff by simp

lemma be32_word: "word_rcat (be32 val) = (word_of_int val :: u32)"
proof -
  have u: "uint (word_of_int (drop_bit n val) :: u8) = val div 2 ^ n mod 256" for n
    by (simp add: unsigned_of_int take_bit_eq_mod drop_bit_eq_div)
  have "[0..<4] = [0, 1, 2, 3 :: nat]" by code_simp
  then have b: "be32 val = [word_of_int (drop_bit 24 val), word_of_int (drop_bit 16 val),
      word_of_int (drop_bit 8 val), word_of_int (drop_bit 0 val)]"
    by (simp add: be32_def numeral_eq_Suc)
  have "horner_sum uint (2 ^ 8) (rev (be32 val)) = val mod 2 ^ 32"
  proof -
    have "horner_sum uint (2 ^ 8) (rev (be32 val)) = val mod 256 + 256 * (val div 256 mod 256 +
        256 * (val div 65536 mod 256 + 256 * (val div 16777216 mod 256)))"
      unfolding b by (simp add: u del: drop_bit_0)
    also have "\<dots> = val mod 4294967296" by (rule split_bytes)
    finally show ?thesis by simp
  qed
  then have "word_rcat (be32 val) = (word_of_int (val mod 2 ^ 32) :: u32)" by (simp add: word_rcat_def)
  also have "\<dots> = word_of_int val" by (rule of_int_mod_word)
  finally show ?thesis .
qed

lemma be32_value:
  assumes "-2147483648 \<le> val" and "val < 2147483648"
  shows "sint (word_rcat (be32 val) :: u32) = val"
  unfolding be32_word using assms by (simp add: signed_of_int signed_take_bit_int_eq_self)

lemma read_sensor_packet:
  assumes "0 \<notin> set label" and "-2147483648 \<le> val" and "val < 2147483648"
  shows "read_sensor (sensor_packet type val label) = Some (sensor_code type, val, label)"
proof -
  have b: "length (be32 val) = 4" by (simp add: be32_def)
  have m: "take 4 (drop 2 (sensor_packet type val label)) = be32 val" "drop 6 (sensor_packet type val label) = label @ [0]"
    by (simp_all add: sensor_packet_def b)
  have "sensor_code type < 256" by (cases type) simp_all
  then have "unat (sensor_packet type val label ! 1) = sensor_code type"
    by (simp add: sensor_packet_def unat_of_nat)
  moreover have "length (sensor_packet type val label) = 7 + length label" "sensor_packet type val label ! 0 = of_char (CHR ''S'')"
    by (simp_all add: sensor_packet_def b)
  ultimately show ?thesis
    unfolding read_sensor_def m be32_value [OF assms(2,3)] cstr_append [OF assms(1)] by simp
qed

text \<open>
  C11: a report arrives as it was sent. For a station with a terminated, non-empty name of at
  most 32 characters, \<open>send_paquet_sensor\<close> stays inside its 40 byte array and publishes a
  packet from which the receiver reads the sensor's type, the signed value, and the first 32
  characters of the station's name followed by the suffix. A station without a name sends
  nothing.
\<close>

theorem report_roundtrip:
  assumes "holds c ms" and "locals_ok u" and "0 \<in> set topic" and "cstr topic \<noteq> []" and "length (cstr topic) < 100"
    and "0 \<in> set name" and "length (cstr name) \<le> 32" and "length buf = 40"
    and "\<forall>s. suffix = Some s \<longrightarrow> 0 \<in> set s" and "-2147483648 \<le> val" and "val < 2147483648"
  shows "\<exists>c'. send_paquet_sensor name buf u (Some topic) type val retain suffix c = Some c' \<and>
    (if cstr name = [] then c' = c else \<exists>payload.
      holds c' (snd (publish_queue ms (publish_bytes (conn c) (cstr topic) 0 retain payload))) \<and>
      read_sensor payload = Some (sensor_code type, val,
        take 32 (cstr name @ (case suffix of None \<Rightarrow> [] | Some s \<Rightarrow> cstr s))))"
proof (cases "cstr name = []")
  case True
  then have "load name 0 = Some 0" using load_terminator [OF assms(6)] by simp
  with True show ?thesis by (simp add: send_paquet_sensor_def)
next
  case False
  let ?label = "take 32 (cstr name @ (case suffix of None \<Rightarrow> [] | Some s \<Rightarrow> cstr s))"
  let ?m = "sensor_packet type val ?label"
  have "0 \<notin> set (cstr name @ (case suffix of None \<Rightarrow> [] | Some s \<Rightarrow> cstr s))"
    using cstr_no_zero by (auto split: option.splits)
  then have z: "0 \<notin> set ?label" by (meson in_set_takeD)
  have "length ?m \<le> 39" by (simp add: sensor_packet_def be32_def)
  then have fit: "3 + length (publish_body (cstr topic) 0 (publish_id (conn c) 0) ?m) \<le> MQTT_BUF_SIZE"
    using assms(5) by (simp add: publish_body_def mqtt_str_def MQTT_BUF_SIZE_def)
  obtain ok c' where "MQTT_Publish c u (Some topic) ?m (int (length ?m)) 0 retain = Some (ok, c')"
    "holds c' (snd (publish_queue ms (publish_bytes (conn c) (cstr topic) 0 retain ?m)))"
    using MQTT_Publish_fits [OF assms(1-4) fit, of retain] by blast
  moreover note send_paquet_sensor_spec [OF assms(6) False assms(7-9), of u "Some topic" type val retain c]
  ultimately show ?thesis using read_sensor_packet [OF z assms(10,11), of type] False by auto
qed

lemma report_roundtrip_witness:
  "\<exists>c' payload. send_paquet_sensor (chars ''shed'' @ [0]) (replicate 40 0) example_locals (Some [0x74, 0])
      TEMPERATURE (-125) 1 (Some (chars ''_1'' @ [0])) example_client = Some c' \<and>
    holds c' (snd (publish_queue [] (publish_bytes (conn example_client) [0x74] 0 1 payload))) \<and>
    read_sensor payload = Some (0, -125, chars ''shed_1'')"
proof -
  have e: "cstr [0x74, 0] = [0x74]" "cstr (chars ''shed'' @ [0]) = chars ''shed''" "cstr (chars ''_1'' @ [0]) = chars ''_1''"
    "take 32 (chars ''shed'' @ chars ''_1'') = chars ''shed_1''" "chars ''shed'' \<noteq> []"
    by code_simp+
  have h: "0 \<in> set [0x74, 0 :: u8]" "cstr [0x74, 0] \<noteq> []" "length (cstr [0x74, 0]) < 100"
    "0 \<in> set (chars ''shed'' @ [0])" "length (cstr (chars ''shed'' @ [0])) \<le> 32" "length (replicate 40 (0 :: u8)) = 40"
    "\<forall>s. Some (chars ''_1'' @ [0]) = Some s \<longrightarrow> 0 \<in> set s" "-2147483648 \<le> (-125 :: int)" "(-125 :: int) < 2147483648"
    by (simp_all add: e)
  show ?thesis
    using report_roundtrip [OF example_client_holds(1) example_locals_ok h, of TEMPERATURE 1] e
    by (simp only: option.case if_False sensor_code.simps) blast
qed

end
