(* ===== verification/Mqtt_Behaviour.thy ===== *)
theory Mqtt_Behaviour
  imports Mqtt_Session
begin

text \<open>
  What the MQTT client does over time: receiving, queueing, sending, keeping alive,
  reconnecting and deleting.
\<close>

section \<open>Receiving\<close>

text \<open>
  C3: a segment of publish packets is delivered packet by packet. Whatever publish packets
  with QoS 0 to 2 one TCP segment (shorter than the receive buffer) carries,
  \<open>mqtt_tcpclient_recv\<close> returns, has called the data callback once per packet, in order, with
  exactly its topic and payload (a null payload if the last packet has none), has queued the
  \<open>PUBACK\<close> or \<open>PUBREC\<close> each packet asks for behind the messages already queued, as far as the
  queue has room, and has posted the task.
\<close>

theorem receive_delivers_stream:
  assumes "holds c ms" and "accepting c" and "observing cbs"
    and "\<forall>p \<in> set ps. publication_ok p" and "length (stream ps) < MQTT_BUF_SIZE"
  shows "\<exists>c'. mqtt_tcpclient_recv cbs c (stream ps) (length (stream ps)) = Some (Some c') \<and>
    holds c' (foldl acknowledge ms ps) \<and> trace c' = trace c @ deliveries ps @ [Ev_Post]"
proof -
  have "holds (c\<lparr>keepAliveTick := 0\<rparr>) ms" "accepting (c\<lparr>keepAliveTick := 0\<rparr>)"
    using assms(1,2) by (simp_all add: accepting_def)
  from recv_loop_stream [OF this assms(3-5)] show ?thesis by (simp add: mqtt_tcpclient_recv_def)
qed

text \<open>Callbacks and a client for the witnesses, and a publication with QoS 1.\<close>

definition example_callbacks :: callbacks where
  "example_callbacks = \<lparr>cb_connected = Some, cb_disconnected = Some, cb_published = Some,
     cb_timeout = Some, cb_data = (\<lambda>c t tlen d dlen. Some c)\<rparr>"

definition example_online :: mqtt_client where
  "example_online = example_client\<lparr>connState := MQTT_DATA, dataCb := True\<rparr>"

definition example_publication :: publication where
  "example_publication = \<lparr>pb_topic = [0x74], pb_dup = 0, pb_qos = 1, pb_retain = 0,
     pb_id = 0x1234, pb_data = [0x53, 1]\<rparr>"

lemma holds_dataCb: "holds (c\<lparr>dataCb := b\<rparr>) ms = holds c ms"
  by (simp add: holds_def)

lemma example_online [simp]:
  "holds example_online []" "connState example_online = MQTT_DATA" "dataCb example_online"
  "security example_online = 0" "observing example_callbacks"
  using example_client_holds
  by (simp_all add: example_online_def holds_dataCb observing_def example_callbacks_def)

lemma example_wire:
  "wire example_publication = [0x32, 7, 0, 1, 0x74, 0x12, 0x34, 0x53, 1]"
  by (simp add: wire_def example_publication_def publish_packet_def packet_def publish_body_def
    mqtt_str_def mqtt_id_def varint_small header_byte_def hi8_def lo8_def)

lemma receive_delivers_stream_witness:
  "\<exists>c'. mqtt_tcpclient_recv example_callbacks example_online
      [0x32, 7, 0, 1, 0x74, 0x12, 0x34, 0x53, 1] 9 = Some (Some c') \<and>
    trace c' = trace example_online @ [Ev_Data (Some [0x74]) (Some [0x53, 1]), Ev_Post]"
proof -
  have ok: "publication_ok example_publication" by (simp add: example_publication_def publication_ok_def)
  have st: "stream [example_publication] = [0x32, 7, 0, 1, 0x74, 0x12, 0x34, 0x53, 1]"
    by (simp add: example_wire)
  have l: "length [0x32, 7, 0, 1, 0x74, 0x12, 0x34, 0x53, 1 :: u8] = 9" by simp
  have d: "deliveries [example_publication] = [Ev_Data (Some [0x74]) (Some [0x53, 1])]"
    by (simp add: example_publication_def)
  from receive_delivers_stream [of example_online "[]" example_callbacks "[example_publication]",
      unfolded st l d] ok
  show ?thesis by (simp add: accepting_def MQTT_BUF_SIZE_def) blast
qed

text \<open>
  C39: the receive loop does not return on a publish packet whose total length is a multiple of
  65536. \<open>message_length\<close> is 16 bits wide, so it becomes 0, the loop takes the whole segment
  for the next message and starts over with the same data for ever. A broker needs four bytes
  for this.
\<close>

theorem receive_hangs:
  assumes "client_ok c" and "connState c = MQTT_DATA" and "observing cbs"
    and "0 < length pdata" and "length pdata < MQTT_BUF_SIZE"
    and "mqtt_get_type pdata = Some (type_code MQTT_MSG_TYPE_PUBLISH)"
    and "mqtt_get_qos pdata = Some 0" and "mqtt_get_total_length pdata (length pdata) = Some (65536 * k)"
  shows "mqtt_tcpclient_recv cbs c pdata (length pdata) = None"
proof -
  have "endless (c\<lparr>keepAliveTick := 0\<rparr>) pdata" using assms by (simp add: endless_def)
  from endless_no_return [OF this assms(3)] show ?thesis by (simp add: mqtt_tcpclient_recv_def)
qed

lemma receive_hangs_witness:
  "mqtt_tcpclient_recv example_callbacks example_online [0x30, 0xFC, 0xFF, 0x03] 4 = None"
proof -
  have "mqtt_get_total_length [0x30, 0xFC, 0xFF, 0x03] 4 = Some (65536 * 1)" by code_simp
  moreover have "mqtt_get_type [0x30, 0xFC, 0xFF, 0x03] = Some (type_code MQTT_MSG_TYPE_PUBLISH)"
    "mqtt_get_qos [0x30, 0xFC, 0xFF, 0x03] = Some 0" by code_simp+
  moreover have l: "length [0x30, 0xFC, 0xFF, 0x03 :: u8] = 4" by simp
  ultimately show ?thesis
    using receive_hangs [of example_online example_callbacks "[0x30, 0xFC, 0xFF, 0x03]" 1, unfolded l]
      holdsD(1) [OF example_online(1)] by (simp add: MQTT_BUF_SIZE_def)
qed

section \<open>Requests\<close>

text \<open>
  C28: the outcome of \<open>MQTT_Publish\<close>. A publish packet that does not fit the output buffer is
  refused and the queue stays as it is. Otherwise the oldest messages are dropped until the
  queue has two bytes more than the packet free, and the packet is appended if its frame fits;
  the call reports success even if it does not.
\<close>

theorem publish_request:
  assumes "holds c ms" and "locals_ok u" and "0 \<in> set t" and "cstr t \<noteq> []"
    and "xs = publish_body (cstr t) qos (publish_id (conn c) qos) data"
    and "r = (if 3 + length xs \<le> MQTT_BUF_SIZE
      then publish_queue ms (packet MQTT_MSG_TYPE_PUBLISH 0 qos retain xs) else (False, ms))"
  shows "\<exists>c'. MQTT_Publish c u (Some t) data (int (length data)) qos retain = Some (fst r, c') \<and>
    holds c' (snd r) \<and> connState c' = connState c"
  using assms MQTT_Publish_fits [OF assms(1-4), of qos data retain]
    MQTT_Publish_too_long [OF assms(1,3,4), of qos data u retain]
  by (cases "3 + length xs \<le> MQTT_BUF_SIZE") (simp_all add: publish_bytes_def)

lemma small_publish:
  "publish_queue [] (packet MQTT_MSG_TYPE_PUBLISH 0 0 0 (publish_body [0x74] 0 0 [0x53, 1])) =
    (True, [[0x30, 5, 0, 1, 0x74, 0x53, 1]])"
proof -
  have p: "packet MQTT_MSG_TYPE_PUBLISH 0 0 0 (publish_body [0x74] 0 0 [0x53, 1]) =
      [0x30, 5, 0, 1, 0x74, 0x53, 1]"
    by (simp add: packet_def publish_body_def mqtt_str_def varint_small header_byte_def hi8_def lo8_def)
  show ?thesis unfolding p by code_simp
qed

lemma publish_request_witness:
  "\<exists>c'. MQTT_Publish example_online example_locals (Some [0x74, 0]) [0x53, 1] 2 0 0 = Some (True, c') \<and>
    holds c' [[0x30, 5, 0, 1, 0x74, 0x53, 1]]"
proof -
  let ?xs = "publish_body [0x74] 0 0 [0x53, 1]"
  have xs: "?xs = publish_body (cstr [0x74, 0]) 0 (publish_id (conn example_online) 0) [0x53, 1]"
    by (simp add: cstr_def publish_id_def)
  have r: "(True, [[0x30, 5, 0, 1, 0x74, 0x53, 1]]) = (if 3 + length ?xs \<le> MQTT_BUF_SIZE
      then publish_queue [] (packet MQTT_MSG_TYPE_PUBLISH 0 0 0 ?xs) else (False, []))"
    unfolding small_publish by (simp add: publish_body_def mqtt_str_def MQTT_BUF_SIZE_def)
  show ?thesis
    using publish_request [OF example_online(1) example_locals_ok _ _ xs r] by (auto simp: cstr_def)
qed

text \<open>
  C40: a publication can be lost although the call succeeds. When the packet with two bytes
  fits the queue but its frame does not, since bytes in need of an escape are counted once,
  \<open>MQTT_Publish\<close> returns \<open>TRUE\<close> and the queue holds a suffix of the old messages only: the
  result of \<open>QUEUE_Puts\<close> is not looked at.
\<close>

theorem publish_reports_lost_message:
  assumes "holds c ms" and "locals_ok u" and "0 \<in> set t" and "cstr t \<noteq> []"
    and "xs = publish_body (cstr t) qos (publish_id (conn c) qos) data"
    and "p = packet MQTT_MSG_TYPE_PUBLISH 0 qos retain xs" and "3 + length xs \<le> MQTT_BUF_SIZE"
    and "length p + 2 \<le> QUEUE_BUFFER_SIZE" and "QUEUE_BUFFER_SIZE < length (frame p)"
  shows "\<exists>c' n. MQTT_Publish c u (Some t) data (int (length data)) qos retain = Some (True, c') \<and>
    holds c' (drop n ms)"
proof -
  obtain n where n: "snd (drop_until QUEUE_BUFFER_SIZE (length p + 2) ms) = drop n ms"
    using drop_until_suffix by blast
  moreover have "fst (drop_until QUEUE_BUFFER_SIZE (length p + 2) ms)"
    using drop_until_room [of QUEUE_BUFFER_SIZE "length p + 2" ms] assms(8) by blast
  ultimately have "publish_queue ms p = (True, drop n ms)"
    using assms(9) by (auto simp: publish_queue_def enqueue_def split: prod.splits)
  with MQTT_Publish_fits [OF assms(1-4), of qos data retain] assms(5-7)
  show ?thesis by (auto simp: publish_bytes_def)
qed

lemma escs_replicate: "length (escs (replicate n 0x7E)) = 2 * n"
  by (induction n) (simp_all add: esc_def special_def)

lemma publish_reports_lost_message_witness:
  "\<exists>c'. MQTT_Publish example_online example_locals (Some [0x74, 0]) (replicate 300 0x7E) 300 0 0 = Some (True, c') \<and>
    holds c' []"
proof -
  let ?xs = "publish_body [0x74] 0 0 (replicate 300 0x7E)"
  let ?p = "packet MQTT_MSG_TYPE_PUBLISH 0 0 0 ?xs"
  have xs: "length ?xs = 303" by (simp add: publish_body_def mqtt_str_def)
  then have p: "?p = header_byte (int (type_code MQTT_MSG_TYPE_PUBLISH)) 0 0 0 # 0xAF # 2 # ?xs"
    unfolding packet_def by (simp add: varint_large varint_small del: type_code.simps)
  have "2 * 300 \<le> length (escs ?p)"
    unfolding p by (simp add: publish_body_def mqtt_str_def escs_replicate del: type_code.simps)
  with xs p show ?thesis
    using publish_reports_lost_message [of example_online "[]" example_locals "[0x74, 0]" ?xs 0
        "replicate 300 0x7E" ?p 0]
    by (simp add: cstr_def publish_id_def MQTT_BUF_SIZE_def QUEUE_BUFFER_SIZE_def frame_def)
qed

text \<open>
  the outcome of \<open>MQTT_Subscribe\<close>. The oldest messages are dropped until the framed
  request fits, and success means that it is queued. A topic too long for the output buffer is
  not refused: an empty message is queued in its place.
\<close>

theorem subscribe_request:
  assumes "holds c ms" and "locals_ok u" and "0 \<in> set t" and "cstr t \<noteq> []"
    and "xs = mqtt_id (used_id (conn c) 0) @ mqtt_str (cstr t) @ [word_of_int (uint qos)]"
    and "p = (if 3 + length xs \<le> MQTT_BUF_SIZE then packet MQTT_MSG_TYPE_SUBSCRIBE 0 1 0 xs else [])"
  shows "\<exists>c' n. MQTT_Subscribe c u (Some t) qos =
      Some (length (frame p) \<le> QUEUE_BUFFER_SIZE, c') \<and> connState c' = connState c \<and>
    holds c' (if length (frame p) \<le> QUEUE_BUFFER_SIZE then drop n ms @ [p] else [])"
proof -
  obtain n where "put_dropping QUEUE_BUFFER_SIZE ms p =
      (length (frame p) \<le> QUEUE_BUFFER_SIZE, if length (frame p) \<le> QUEUE_BUFFER_SIZE then drop n ms @ [p] else [])"
    using put_dropping_outcome by blast
  with MQTT_Subscribe_spec [OF assms(1-4), of qos, folded assms(5), folded assms(6)]
  show ?thesis by (metis fst_conv snd_conv)
qed

lemma subscribe_request_witness:
  "\<exists>c'. MQTT_Subscribe example_online example_locals (Some [0x74, 0]) 0 = Some (True, c') \<and>
    holds c' [packet MQTT_MSG_TYPE_SUBSCRIBE 0 1 0
      (mqtt_id (used_id (conn example_online) 0) @ mqtt_str [0x74] @ [0])]"
proof -
  let ?xs = "mqtt_id (used_id (conn example_online) 0) @ mqtt_str (cstr [0x74, 0]) @ [word_of_int (uint (0 :: u8))]"
  let ?p = "packet MQTT_MSG_TYPE_SUBSCRIBE 0 1 0 ?xs"
  have s: "cstr [0x74, 0] = [0x74]" by (simp add: cstr_def)
  have p: "?p = (if 3 + length ?xs \<le> MQTT_BUF_SIZE then ?p else [])" by (simp add: s MQTT_BUF_SIZE_def)
  have "length (escs ?p) \<le> 2 * length ?p" using escs_length by blast
  moreover have "length ?p = 8" by (simp add: s packet_def varint_small)
  ultimately have "length (frame ?p) \<le> QUEUE_BUFFER_SIZE" by (simp add: frame_def QUEUE_BUFFER_SIZE_def)
  with subscribe_request [OF example_online(1) example_locals_ok _ _ refl p] show ?thesis
    by (auto simp: s)
qed

section \<open>Sending\<close>

text \<open>
  One round: the task runs, and the transport reports that the data is sent. \<open>pump\<close> is one
  round per element of the list of uninitialised locals.
\<close>

fun pump :: "callbacks \<Rightarrow> locals list \<Rightarrow> mqtt_client \<Rightarrow> mqtt_client option" where
  "pump cbs [] c = Some c"
| "pump cbs (u # us) c = do {
     r \<leftarrow> MQTT_Task (Some c) u True;
     c \<leftarrow> r;
     c \<leftarrow> mqtt_tcpclient_sent_cb cbs c;
     pump cbs us c
   }"

fun sent_data :: "event list \<Rightarrow> bytes list" where
  "sent_data [] = []"
| "sent_data (Ev_Send xs # es) = xs # sent_data es"
| "sent_data (_ # es) = sent_data es"

lemma sent_data_append [simp]: "sent_data (es @ fs) = sent_data es @ sent_data fs"
  by (induction es rule: sent_data.induct) simp_all

text \<open>A client that can send: in the data state, nothing in flight, no TLS.\<close>

definition sending :: "mqtt_client \<Rightarrow> bytes list \<Rightarrow> bool" where
  "sending c ms \<longleftrightarrow> holds c ms \<and> connState c = MQTT_DATA \<and> sendTimeout c = 0 \<and> security c = 0"

lemma task_send_next:
  assumes c: "sending c (m # ms)" and u: "locals_ok u"
  shows "\<exists>c'. MQTT_Task (Some c) u ok = Some (Some c') \<and> holds c' ms \<and> connState c' = MQTT_DATA \<and>
    security c' = 0 \<and> trace c' = trace c @ [Ev_Send m]"
proof -
  have h: "holds c (m # ms)" and s: "connState c = MQTT_DATA" "sendTimeout c = 0" "security c = 0"
    using c by (simp_all add: sending_def)
  note q = holdsD [OF h]
  have ne: "\<not> QUEUE_IsEmpty (msgQueue c)" using QUEUE_IsEmpty_holds [OF q(2)] by simp
  obtain u' q' where g: "queue_gets (msgQueue c) u = Some (0, u', q')" "take (length m) (dataBuffer u') = m"
    "dataLen u' = length m" "locals_ok u'" "queue_holds q' ms" "queue_size q' = queue_size (msgQueue c)"
    using q(3) by (auto intro: queue_gets_next [OF q(2) u])
  have len: "dataLen u' \<le> length (dataBuffer u')" "dataBuffer u' \<noteq> []"
    using g(3,4) q(3) by (auto simp: locals_ok_def MQTT_BUF_SIZE_def)
  let ?c = "c\<lparr>msgQueue := q'\<rparr>"
  have w: "holds ?c ms" using holds_queue [OF h g(5)] g(6) q(3,4) by simp
  obtain t i where p: "set_pending ?c (dataBuffer u') (dataLen u') =
      Some (?c\<lparr>pending_msg_type := t, pending_msg_id := i\<rparr>)"
    using set_pending_total [OF len(2,1)] by blast
  show ?thesis
    using s w ne g(2,3)
    by (simp add: MQTT_Task_def task_send_def g(1) p [unfolded g(3)] send_block_total [OF len(1) [unfolded g(3)]]
      g(3) transport_def emit_def)
qed

lemma sent_next:
  assumes "holds c ms" and "connState c = MQTT_DATA" and "security c = 0" and "\<forall>c. cb_published cbs c = Some c"
  shows "\<exists>c'. mqtt_tcpclient_sent_cb cbs c = Some c' \<and> sending c' ms \<and> sent_data (trace c') = sent_data (trace c)"
  using assms by (simp add: mqtt_tcpclient_sent_cb_def sending_def call_back_def Let_def)

text \<open>
  C15: every queued message is sent, in order. Each round of the task and the transport's sent
  callback transmits the oldest message, so as many rounds as there are messages transmit all
  of them and leave an empty queue.
\<close>

theorem queue_is_sent:
  assumes "sending c ms" and "length us = length ms" and "\<forall>u \<in> set us. locals_ok u"
    and "\<forall>c. cb_published cbs c = Some c"
  shows "\<exists>c'. pump cbs us c = Some c' \<and> sending c' [] \<and> sent_data (trace c') = sent_data (trace c) @ ms"
  using assms(1-3)
proof (induction ms arbitrary: c us)
  case Nil
  then show ?case by simp
next
  case (Cons m ms)
  then obtain u us' where us: "us = u # us'" "locals_ok u" by (cases us) auto
  obtain c1 where c1: "MQTT_Task (Some c) u True = Some (Some c1)" "holds c1 ms" "connState c1 = MQTT_DATA"
    "security c1 = 0" "trace c1 = trace c @ [Ev_Send m]"
    using task_send_next [OF Cons.prems(1) us(2)] by blast
  obtain c2 where c2: "mqtt_tcpclient_sent_cb cbs c1 = Some c2" "sending c2 ms"
    "sent_data (trace c2) = sent_data (trace c) @ [m]"
    using sent_next [OF c1(2-4) assms(4)] c1(5) by auto
  from Cons.IH [OF c2(2), of us'] Cons.prems(2,3) us c1(1) c2(1,3) show ?case by simp
qed

lemma queue_is_sent_witness:
  "\<exists>s q c'. QUEUE_Puts (msgQueue example_online) [0xC0, 0] 2 = Some (s, q) \<and>
    pump example_callbacks [example_locals] (example_online\<lparr>msgQueue := q\<rparr>) = Some c' \<and>
    sent_data (trace c') = sent_data (trace example_online) @ [[0xC0, 0]]"
proof -
  note h = example_online(1)
  have "length (frame [0xC0, 0]) \<le> QUEUE_BUFFER_SIZE" by code_simp
  with QUEUE_Puts_fits [OF holdsD(2) [OF h], of 2 "[0xC0, 0]"] holdsD(4) [OF h] obtain s q where
    q: "QUEUE_Puts (msgQueue example_online) [0xC0, 0] 2 = Some (s, q)" "queue_holds q [[0xC0, 0]]"
      "queue_size q = QUEUE_BUFFER_SIZE" by auto
  have "holds (example_online\<lparr>msgQueue := q\<rparr>) [[0xC0, 0]]"
    using holds_queue [OF h q(2,3)] by (simp add: MQTT_BUF_SIZE_def)
  then have "sending (example_online\<lparr>msgQueue := q\<rparr>) [[0xC0, 0]]"
    by (simp add: sending_def example_online_def example_client_holds example_timeout)
  with queue_is_sent [OF this, of "[example_locals]" example_callbacks] q(1)
  show ?thesis by (simp add: example_callbacks_def) blast
qed

section \<open>Time\<close>

text \<open>\<open>n\<close> ticks of the one-second timer.\<close>

fun ticks :: "callbacks \<Rightarrow> nat \<Rightarrow> mqtt_client \<Rightarrow> mqtt_client option" where
  "ticks cbs 0 c = Some c"
| "ticks cbs (Suc n) c = do { c \<leftarrow> mqtt_timer cbs c; ticks cbs n c }"

lemma ticks_add: "ticks cbs (m + n) c = do { c \<leftarrow> ticks cbs m c; ticks cbs n c }"
  by (induction m arbitrary: c) (auto split: bind_splits)

lemma data_ticks:
  assumes "client_ok c" and "connState c = MQTT_DATA"
    and "unat (keepAliveTick c) + n \<le> unat (keepalive (connect_info c) div 2)"
  shows "\<exists>c'. ticks cbs n c = Some c' \<and> client_ok c' \<and> connState c' = MQTT_DATA \<and>
    unat (keepAliveTick c') = unat (keepAliveTick c) + n \<and> trace c' = trace c \<and>
    connect_info c' = connect_info c \<and> security c' = security c"
  using assms
proof (induction n arbitrary: c)
  case 0
  then show ?case by simp
next
  case (Suc n)
  let ?K = "keepalive (connect_info c) div 2"
  have "unat ?K < 2 ^ LENGTH(32)" by (rule unsigned_less)
  with Suc.prems(3) have "unat (keepAliveTick c) + 1 < 2 ^ LENGTH(32)" by linarith
  then have t: "unat (keepAliveTick c + 1) = unat (keepAliveTick c) + 1"
    by (simp add: unat_add_lem [THEN iffD1] unat_word_ariths)
  have le: "\<not> ?K < keepAliveTick c + 1"
    using Suc.prems(3) t by (simp add: word_less_nat_alt)
  have "has_info c" using Suc.prems(1) by (simp add: client_ok_def)
  with le Suc.prems(2) have "\<exists>s. mqtt_timer cbs c = Some (c\<lparr>keepAliveTick := keepAliveTick c + 1, sendTimeout := s\<rparr>)"
    by (auto simp: mqtt_timer_def Let_def intro: exI [of _ "sendTimeout c"])
  then obtain s where s: "mqtt_timer cbs c = Some (c\<lparr>keepAliveTick := keepAliveTick c + 1, sendTimeout := s\<rparr>)" ..
  from Suc.IH [of "c\<lparr>keepAliveTick := keepAliveTick c + 1, sendTimeout := s\<rparr>"] Suc.prems t
  show ?case by (auto simp: s)
qed

lemma keepalive_sends:
  assumes c: "client_ok c" and s: "security c = 0"
  shows "\<exists>c'. mqtt_send_keepalive c True = Some c' \<and> connState c' = MQTT_DATA \<and> keepAliveTick c' = 0 \<and>
    trace c' = trace c @ [Ev_Send [0xC0, 0], Ev_Post]"
proof -
  let ?p = "packet MQTT_MSG_TYPE_PINGREQ 0 0 0 []"
  have p: "?p = [0xC0, 0]" by (simp add: packet_def varint_small header_byte_def)
  obtain m where m: "mqtt_msg_pingreq (conn c) = Some m" and b: "built (conn c) ?p m"
    using pingreq_built [OF c] .
  obtain d where d: "msg_data m = Some d" "take (msg_length m) (drop d (buffer m)) = ?p"
    "msg_length m \<le> length (drop d (buffer m))" using built_message [OF b] by metis
  then have ne: "drop d (buffer m) \<noteq> []" by (auto simp: p)
  obtain t i where q: "set_pending (set_outbound c m) (drop d (buffer m)) (msg_length m) =
      Some ((set_outbound c m)\<lparr>pending_msg_type := t, pending_msg_id := i\<rparr>)"
    using set_pending_total [OF ne d(3)] by blast
  show ?thesis using s d(2)
    by (simp add: mqtt_send_keepalive_def m q d(1) Let_def send_block_total [OF d(3)] transport_def p emit_def)
qed

text \<open>
  the keep-alive deadline. With no traffic in either direction, the client stays silent
  for half the keep-alive interval, asks for a ping at the next timer tick, and the task then
  sends a \<open>PINGREQ\<close>, returns to the data state and restarts the count.
\<close>

theorem keepalive_ping:
  assumes "client_ok c" and "connState c = MQTT_DATA" and "keepAliveTick c = 0" and "security c = 0"
    and "n = unat (keepalive (connect_info c) div 2)"
  shows "\<exists>c1 c2 c3. ticks cbs n c = Some c1 \<and> connState c1 = MQTT_DATA \<and> trace c1 = trace c \<and>
    ticks cbs (Suc n) c = Some c2 \<and> connState c2 = MQTT_KEEPALIVE_SEND \<and>
    MQTT_Task (Some c2) u True = Some (Some c3) \<and> connState c3 = MQTT_DATA \<and> keepAliveTick c3 = 0 \<and>
    trace c3 = trace c @ [Ev_Post, Ev_Send [0xC0, 0], Ev_Post]"
proof -
  obtain c1 where c1: "ticks cbs n c = Some c1" "client_ok c1" "connState c1 = MQTT_DATA"
    "unat (keepAliveTick c1) = n" "trace c1 = trace c" "connect_info c1 = connect_info c" "security c1 = 0"
    using data_ticks [OF assms(1,2), of n cbs] assms(3-5) by auto
  have "unat (keepalive (connect_info c)) < 2 ^ LENGTH(32)" by (rule unsigned_less)
  then have "n \<le> 2147483648" unfolding assms(5) by (simp add: unat_div)
  then have "keepalive (connect_info c1) div 2 < keepAliveTick c1 + 1"
    using c1(4,6) assms(5) by (simp add: word_less_nat_alt unat_word_ariths)
  moreover have "has_info c1" using c1(2) by (simp add: client_ok_def)
  ultimately obtain c2 where c2: "mqtt_timer cbs c1 = Some c2" "client_ok c2" "security c2 = 0"
    "connState c2 = MQTT_KEEPALIVE_SEND" "trace c2 = trace c @ [Ev_Post]"
    using c1 by (fastforce simp: mqtt_timer_def Let_def)
  obtain c3 where c3: "mqtt_send_keepalive c2 True = Some c3" "connState c3 = MQTT_DATA" "keepAliveTick c3 = 0"
    "trace c3 = trace c2 @ [Ev_Send [0xC0, 0], Ev_Post]"
    using keepalive_sends [OF c2(2,3)] by blast
  have "ticks cbs (Suc n) c = Some c2"
    using ticks_add [of cbs n "Suc 0" c] c1(1) c2(1) by simp
  moreover have "MQTT_Task (Some c2) u True = Some (Some c3)" using c2(4) c3(1) by (simp add: MQTT_Task_def)
  ultimately show ?thesis using c1 c2 c3 by auto
qed

lemma keepalive_ping_witness:
  "\<exists>c2 c3. ticks example_callbacks 61 example_online = Some c2 \<and>
    MQTT_Task (Some c2) example_locals True = Some (Some c3) \<and>
    trace c3 = trace example_online @ [Ev_Post, Ev_Send [0xC0, 0], Ev_Post]"
proof -
  have e: "keepAliveTick example_online = 0" "keepalive (connect_info example_online) div 2 = 60"
    by (simp_all add: example_online_def example_timeout)
  have n: "(60 :: nat) = unat (keepalive (connect_info example_online) div 2)" by (simp add: e(2))
  from keepalive_ping [OF holdsD(1) [OF example_online(1)] _ e(1) _ n, of example_callbacks example_locals]
  show ?thesis by auto
qed

lemma tcpclient_delete_simps [simp]:
  "pCon (mqtt_tcpclient_delete c) = None" "host (mqtt_tcpclient_delete c) = host c"
  "port (mqtt_tcpclient_delete c) = port c" "security (mqtt_tcpclient_delete c) = security c"
  by (simp_all add: mqtt_tcpclient_delete_def)

lemma waiting_ticks:
  assumes "connState c = TCP_RECONNECT_REQ" and "unat (reconnectTick c) + n \<le> 5"
  shows "\<exists>s. ticks cbs n c = Some (c\<lparr>reconnectTick := reconnectTick c + of_nat n, sendTimeout := s\<rparr>)"
  using assms
proof (induction n arbitrary: c)
  case 0
  then show ?case by (auto intro: exI [of _ "sendTimeout c"])
next
  case (Suc n)
  have "unat (reconnectTick c + 1) = unat (reconnectTick c) + 1"
    using Suc.prems(2) by (simp add: unat_word_ariths)
  moreover from this have "\<not> MQTT_RECONNECT_TIMEOUT < reconnectTick c + 1"
    using Suc.prems(2) by (simp add: word_less_nat_alt MQTT_RECONNECT_TIMEOUT_def)
  with Suc.prems(1) have "\<exists>s. mqtt_timer cbs c = Some (c\<lparr>reconnectTick := reconnectTick c + 1, sendTimeout := s\<rparr>)"
    by (auto simp: mqtt_timer_def Let_def intro: exI [of _ "sendTimeout c"])
  then obtain s where s: "mqtt_timer cbs c = Some (c\<lparr>reconnectTick := reconnectTick c + 1, sendTimeout := s\<rparr>)" ..
  ultimately show ?case
    using Suc.IH [of "c\<lparr>reconnectTick := reconnectTick c + 1, sendTimeout := s\<rparr>"] Suc.prems
    by (auto simp: s algebra_simps)
qed

text \<open>
  C32: a lost connection is re-established. Whatever state other than a requested disconnect
  the client is in, the transport's disconnect callback makes it wait; six timer ticks later
  the task tears the old connection down and connects to the same host again.
\<close>

theorem reconnects:
  assumes "connState c \<noteq> TCP_DISCONNECTING" and "connState c \<noteq> MQTT_DELETING"
    and "reconnectTick c = 0" and "security c = 0" and "host c = Some h"
    and "UTILS_StrToIP h [0, 0, 0, 0] = Some (1, rip)"
    and "\<forall>c. cb_disconnected cbs c = Some c" and "\<forall>c. cb_timeout cbs c = Some c"
  shows "\<exists>c1 c2 c3. mqtt_tcpclient_discon_cb cbs c = Some c1 \<and> connState c1 = TCP_RECONNECT_REQ \<and>
    ticks cbs 6 c1 = Some c2 \<and> connState c2 = TCP_RECONNECT \<and>
    MQTT_Task (Some c2) u ok = Some (Some c3) \<and> connState c3 = TCP_CONNECTING \<and>
    pCon c3 = Some \<lparr>remote_ip = rip, remote_port = port c\<rparr> \<and> last (trace c3) = Ev_Connect rip"
proof -
  obtain c1 where c1: "mqtt_tcpclient_discon_cb cbs c = Some c1" "connState c1 = TCP_RECONNECT_REQ"
    "reconnectTick c1 = 0" "security c1 = 0" "host c1 = Some h" "port c1 = port c"
    using assms by (cases "disconnectedCb c") (simp_all add: mqtt_tcpclient_discon_cb_def call_back_def Let_def)
  obtain s where s: "ticks cbs 5 c1 = Some (c1\<lparr>reconnectTick := 5, sendTimeout := s\<rparr>)"
    using waiting_ticks [OF c1(2), of 5 cbs] c1(3) by auto
  obtain c2 where c2: "mqtt_timer cbs (c1\<lparr>reconnectTick := 5, sendTimeout := s\<rparr>) = Some c2"
    "connState c2 = TCP_RECONNECT" "security c2 = 0" "host c2 = Some h" "port c2 = port c"
    using c1 assms(8) by (cases "timeoutCb c1") (simp_all add: mqtt_timer_def Let_def MQTT_RECONNECT_TIMEOUT_def call_back_def)
  have "ticks cbs 6 c1 = Some c2" using ticks_add [of cbs 5 "Suc 0" c1] s c2(1) by simp
  moreover obtain c3 where "MQTT_Connect (mqtt_tcpclient_delete c2) = Some c3"
    "pCon c3 = Some \<lparr>remote_ip = rip, remote_port = port c\<rparr>" "last (trace c3) = Ev_Connect rip"
    using c2 assms(6) by (simp add: MQTT_Connect_def Let_def transport_def emit_def)
  ultimately show ?thesis using c1 c2 by (auto simp: MQTT_Task_def)
qed

lemma reconnects_witness:
  "\<exists>c1 c2 c3. mqtt_tcpclient_discon_cb example_callbacks example_online = Some c1 \<and>
    ticks example_callbacks 6 c1 = Some c2 \<and> MQTT_Task (Some c2) example_locals True = Some (Some c3) \<and>
    last (trace c3) = Ev_Connect [1, 2, 3, 4]"
proof -
  have h: "host example_online = Some example_host" "reconnectTick example_online = 0"
    by (simp_all add: example_online_def example_timeout example_host_client)
  have "UTILS_StrToIP example_host [0, 0, 0, 0] = Some (1, [1, 2, 3, 4])" by code_simp
  from reconnects [OF _ _ h(2) _ h(1) this, of example_callbacks example_locals True]
  show ?thesis by (auto simp: example_callbacks_def)
qed

section \<open>Deleting a client\<close>

text \<open>
  deleting a client with an unsent request frees a pointer twice. \<open>MQTT_Publish\<close> leaves
  \<open>outbound_message\<close> pointing to the message in \<open>out_buffer\<close> until the task sends it. When
  the task runs for the deletion first, it frees \<open>out_buffer\<close> and then \<open>outbound_message->data\<close>,
  which points into it: undefined behaviour.
\<close>

theorem publish_delete_undefined:
  assumes "MQTT_Publish c u t data n qos retain = Some (True, c1)" and "MQTT_DeleteClient (Some c1) = Some c2"
  shows "MQTT_Task (Some c2) u' ok = None"
proof -
  have "outbound c1 \<and> msg_data (conn c1) \<noteq> None"
    using assms(1)
    by (auto simp: MQTT_Publish_def bind_eq_Some_conv queue_outbound_def outbound_data_def set_outbound_def
      emit_def Let_def split: if_splits)
  with assms(2) show ?thesis
    by (auto simp: MQTT_Task_def MQTT_DeleteClient_def mqtt_client_delete_def mqtt_tcpclient_delete_def emit_def Let_def)
qed

lemma publish_delete_undefined_witness:
  "\<exists>c1 c2. MQTT_Publish example_online example_locals (Some [0x74, 0]) [0x53, 1] 2 0 0 = Some (True, c1) \<and>
    MQTT_DeleteClient (Some c1) = Some c2 \<and> MQTT_Task (Some c2) example_locals True = None"
proof -
  have "3 + length (publish_body (cstr [0x74, 0]) 0 (publish_id (conn example_online) 0) [0x53, 1]) \<le> MQTT_BUF_SIZE"
    by (simp add: cstr_def publish_body_def mqtt_str_def MQTT_BUF_SIZE_def)
  from MQTT_Publish_fits [OF example_online(1) example_locals_ok _ _ this, of 0]
  obtain c1 where "MQTT_Publish example_online example_locals (Some [0x74, 0]) [0x53, 1] 2 0 0 = Some (True, c1)"
    by (auto simp: cstr_def publish_id_def publish_bytes_def small_publish)
  with publish_delete_undefined [OF this] show ?thesis by (auto simp: MQTT_DeleteClient_def)
qed

end
