(* ===== verification/Station.thy ===== *)
theory Station
  imports Battery Reports Mqtt_Behaviour
begin

text \<open>
  The station as a whole: the MQTT client, the globals of \<open>user_mqtt.c\<close> and the device, and the
  steps in which they act on each other. Data and connection callbacks change the device,
  the device's reports become publications.

  The client's operations leave the calls they make to the application in its trace; the
  application's part of a call neither reads nor changes the client apart from what
  \<open>mqttConnectedCb\<close> queues, so it is run on the events of the operation, in their order.
\<close>

section \<open>Model\<close>

record station =
  mqttClient :: mqtt_client
  user :: user_mqtt
  dev :: device
  StationName :: bytes
  MYID :: bytes
  id_string :: bytes
  topic :: bytes

text \<open>\<open>connectedCB\<close> of \<open>user_main.c\<close>; \<open>topic0\<close> is \<open>topic[0]\<close>.\<close>

definition connectedCB :: "build \<Rightarrow> u8 \<Rightarrow> device \<Rightarrow> device" where
  "connectedCB b topic0 d =
     (let d = (if STORE b then d\<lparr>irq_store := True\<rparr> else d);
          d = (if METEO b then d\<lparr>timer_DisconnectMQTT :=
            Some (Call_DisconnectMQTT, if topic0 = 0 then 200 else 800)\<rparr> else d)
      in if PCF8885 b \<and> SWITCH_ONLY b then d\<lparr>timer_mesure := Some (Call_pcf8885func, 200)\<rparr> else d)"

text \<open>The application's part of the client's events.\<close>

fun react :: "build \<Rightarrow> bytes \<Rightarrow> u8 \<Rightarrow> event list \<Rightarrow> user_mqtt \<times> device \<Rightarrow> (user_mqtt \<times> device) option" where
  "react b name topic0 [] s = Some s"
| "react b name topic0 (e # es) (us, d) = do {
     s \<leftarrow> (case e of
         Ev_Connected \<Rightarrow> do { us \<leftarrow> connected_user b name us; Some (us, connectedCB b topic0 d) }
       | Ev_Disconnected \<Rightarrow> Some (if disconnect_ignored d then us else mqttDisconnectedCb b us, d)
       | Ev_Data t data \<Rightarrow> do {
           d \<leftarrow> mqttDataCb b data (case data of None \<Rightarrow> 0 | Some m \<Rightarrow> length m) d;
           Some (us, d)
         }
       | _ \<Rightarrow> Some (us, d));
     react b name topic0 es s
   }"

definition after_client :: "build \<Rightarrow> mqtt_client \<Rightarrow> station \<Rightarrow> station option" where
  "after_client b c s = do {
     topic0 \<leftarrow> load (topic s) 0;
     (us, d) \<leftarrow> react b (StationName s) topic0 (drop (length (trace (mqttClient s))) (trace c)) (user s, dev s);
     Some (s\<lparr>mqttClient := c, user := us, dev := d\<rparr>)
   }"

definition station_callbacks :: "build \<Rightarrow> u32 \<Rightarrow> locals \<Rightarrow> locals \<Rightarrow> station \<Rightarrow> callbacks" where
  "station_callbacks b id_ptr u1 u2 s = user_callbacks b (StationName s) (le32 id_ptr) u1 u2 (user s)"

text \<open>A received segment: \<open>Some None\<close> as in \<open>mqtt_tcpclient_recv\<close>.\<close>

definition station_receive ::
    "build \<Rightarrow> u32 \<Rightarrow> locals \<Rightarrow> locals \<Rightarrow> station \<Rightarrow> bytes \<Rightarrow> nat \<Rightarrow> station option option" where
  "station_receive b id_ptr u1 u2 s pdata len = do {
     r \<leftarrow> mqtt_tcpclient_recv (station_callbacks b id_ptr u1 u2 s) (mqttClient s) pdata len;
     case r of None \<Rightarrow> Some None | Some c \<Rightarrow> do { s \<leftarrow> after_client b c s; Some (Some s) }
   }"

text \<open>
  A report: \<open>send_paquet_sensor(ID(prefix), ...)\<close>. \<open>mem n\<close> are the uninitialised array and
  locals of the n-th call.
\<close>

definition publish_report :: "bytes \<times> locals \<Rightarrow> report \<Rightarrow> station \<Rightarrow> station option" where
  "publish_report m r s = do {
     t \<leftarrow> ID (MYID s) (rp_topic r @ [0]) (id_string s);
     c \<leftarrow> send_paquet_sensor (StationName s) (fst m) (snd m) (Some t) (rp_type r) (rp_val r) (rp_retain r)
       (map_option (\<lambda>n. n @ [0]) (rp_name r)) (mqttClient s);
     Some (s\<lparr>mqttClient := c, id_string := t\<rparr>)
   }"

fun publish_reports :: "(nat \<Rightarrow> bytes \<times> locals) \<Rightarrow> report list \<Rightarrow> station \<Rightarrow> station option" where
  "publish_reports mem [] s = Some s"
| "publish_reports mem (r # rs) s = do {
     s \<leftarrow> publish_report (mem (length rs)) r s;
     publish_reports mem rs s
   }"

text \<open>An operation of the device, whose new reports are published.\<close>

definition after_device :: "(nat \<Rightarrow> bytes \<times> locals) \<Rightarrow> device \<Rightarrow> station \<Rightarrow> station option" where
  "after_device mem d s = publish_reports mem (drop (length (reports (dev s))) (reports d)) (s\<lparr>dev := d\<rparr>)"

text \<open>
  \<open>DisconnectMQTT\<close>, which a battery build calls to go to sleep, and when: after the last data, when
  the switches are released, or when a connection takes too long. The string that it sends to
  the UART is not part of the state.
\<close>

definition DisconnectMQTT :: "build \<Rightarrow> station \<Rightarrow> station" where
  "DisconnectMQTT b s =
     (let s = s\<lparr>mqttClient := MQTT_OnDisconnected (mqttClient s) True, dev := (dev s)\<lparr>disconnect_ignored := True\<rparr>\<rparr>;
          s = s\<lparr>mqttClient := MQTT_Disconnect (mqttClient s)\<rparr>
      in s\<lparr>dev := (dev s)\<lparr>timer_DisconnectMQTT := Some (Call_go_sleep, if PCF8885 b then 50 else 20)\<rparr>\<rparr>)"

definition disconnect_due :: "device \<Rightarrow> bool" where
  "disconnect_due d \<longleftrightarrow> timer_time_out_connection d \<noteq> None \<or>
     map_option fst (timer_DisconnectMQTT d) = Some Call_DisconnectMQTT \<or>
     map_option fst (timer_mesure d) = Some Call_DisconnectMQTT"

section \<open>Steps\<close>

text \<open>
  \<open>act\<close>: a step of the device, for the actuator that the build has. The retry timer calls
  \<open>tryConnect\<close> only while it is armed.
\<close>

inductive station_step :: "build \<Rightarrow> u32 \<Rightarrow> (device \<Rightarrow> device \<Rightarrow> bool) \<Rightarrow> station \<Rightarrow> station \<Rightarrow> bool"
  for b id_ptr act where
  received: "locals_ok u1 \<Longrightarrow> locals_ok u2 \<Longrightarrow> station_receive b id_ptr u1 u2 s pdata len = Some (Some s') \<Longrightarrow>
    station_step b id_ptr act s s'"
| operated: "locals_ok u1 \<Longrightarrow> locals_ok u2 \<Longrightarrow> op_ok (mqttClient s) op \<Longrightarrow>
    client_exec (station_callbacks b id_ptr u1 u2 s) op (mqttClient s) = Some c \<Longrightarrow>
    after_client b c s = Some s' \<Longrightarrow> station_step b id_ptr act s s'"
| retried: "timer_try_connect (user s) \<noteq> None \<Longrightarrow> tryConnect (mqttClient s) = Some c \<Longrightarrow>
    station_step b id_ptr act s (s\<lparr>mqttClient := c\<rparr>)"
| acted: "act (dev s) d \<Longrightarrow> \<forall>n. length (fst (mem n)) = 40 \<and> locals_ok (snd (mem n)) \<Longrightarrow>
    after_device mem d s = Some s' \<Longrightarrow> station_step b id_ptr act s s'"
| slept: "SLEEP b \<Longrightarrow> disconnect_due (dev s) \<Longrightarrow> station_step b id_ptr act s (DisconnectMQTT b s)"

inductive_cases station_stepE: "station_step b id_ptr act s s'"

inductive station_run :: "build \<Rightarrow> u32 \<Rightarrow> (device \<Rightarrow> device \<Rightarrow> bool) \<Rightarrow> station \<Rightarrow> station \<Rightarrow> bool"
  for b id_ptr act s where
  start: "station_run b id_ptr act s s"
| step: "station_run b id_ptr act s s' \<Longrightarrow> station_step b id_ptr act s' s'' \<Longrightarrow> station_run b id_ptr act s s''"

text \<open>The texts of the station: its name as \<open>user_init\<close> leaves it, and its identifier.\<close>

definition texts_ok :: "station \<Rightarrow> bool" where
  "texts_ok s \<longleftrightarrow> length (StationName s) = 32 \<and> StationName s ! 31 = 0 \<and>
     0 \<in> set (MYID s) \<and> length (cstr (MYID s)) \<le> 16 \<and> length (id_string s) = 100 \<and> topic s \<noteq> []"

definition station_ok :: "station \<Rightarrow> bool" where
  "station_ok s \<longleftrightarrow> well (mqttClient s) \<and> user_ok (user s) \<and> texts_ok s"

lemma texts_name:
  assumes "texts_ok s"
  shows "0 \<in> set (StationName s)" "length (cstr (StationName s)) < 32"
    "StationName s = boot_name (\<lambda>i. StationName s ! i)"
proof -
  have l: "length (StationName s) = 32" "StationName s ! 31 = 0" using assms by (simp_all add: texts_ok_def)
  then show e: "StationName s = boot_name (\<lambda>i. StationName s ! i)"
    by (intro nth_equalityI) (simp_all add: boot_name_def MAX_LENGTH_STATION_NAME_def nth_list_update del: upt_rec_numeral)
  show "0 \<in> set (StationName s)" "length (cstr (StationName s)) < 32" by (subst e, rule boot_name_ok)+
qed

text \<open>The callbacks of a well-formed station are an instance of the application.\<close>

lemma station_application:
  assumes "station_ok s" and "locals_ok u1" and "locals_ok u2"
  shows "mqtt_application (station_callbacks b id_ptr u1 u2 s)"
proof -
  have any: "map ((!) xs) [0..<length xs] = xs" for xs :: bytes by (rule map_nth)
  have u: "stack_locals (l_c u) (l_proto u) ((!) (dataBuffer u)) (dataLen u) = u" if "locals_ok u" for u
    using that any [of "dataBuffer u"] by (simp add: stack_locals_def locals_ok_def)
  have "user_ok (user s)" using assms(1) by (simp add: station_ok_def)
  then have "initialised ((!) (ad_string (user s))) (user s) = user s"
    using any [of "ad_string (user s)"] by (simp add: initialised_def user_ok_def del: upt_rec_numeral)
  moreover have "boot_name (\<lambda>i. StationName s ! i) = StationName s"
    using assms(1) texts_name(3) [of s] by (simp add: station_ok_def)
  ultimately show ?thesis
    using app.mqtt_application_axioms [of b "\<lambda>i. StationName s ! i" id_ptr "l_c u1" "l_proto u1" "(!) (dataBuffer u1)"
      "dataLen u1" "l_c u2" "l_proto u2" "(!) (dataBuffer u2)" "dataLen u2" "(!) (ad_string (user s))" "user s"]
    by (simp add: station_callbacks_def u [OF assms(2)] u [OF assms(3)])
qed

section \<open>Publishing reports\<close>

definition sendable :: "report \<Rightarrow> bool" where
  "sendable r \<longleftrightarrow> rp_topic r \<noteq> [] \<and> 0 \<notin> set (rp_topic r) \<and> length (rp_topic r) < 40"

lemma publish_report_ok:
  assumes s: "station_ok s" and r: "sendable r" and m: "length (fst m) = 40" "locals_ok (snd m)"
  shows "\<exists>s'. publish_report m r s = Some s' \<and> station_ok s' \<and> dev s' = dev s \<and> user s' = user s"
proof -
  let ?t = "rp_topic r @ cstr (MYID s)" and ?name = "map_option (\<lambda>n. n @ [0]) (rp_name r)"
  have t: "texts_ok s" and w: "well (mqttClient s)" using s by (simp_all add: station_ok_def)
  have p: "cstr (rp_topic r @ [0]) = rp_topic r" using r by (intro cstr_append) (simp add: sendable_def)
  let ?s = "?t @ 0 # drop (length ?t + 1) (id_string s)"
  have "ID (MYID s) (rp_topic r @ [0]) (id_string s) = Some ?s"
    using ID_spec(1) [of "rp_topic r @ [0]" "MYID s" "id_string s", unfolded p] t r by (simp add: texts_ok_def sendable_def)
  moreover have "0 \<notin> set ?t" using r cstr_no_zero [of "MYID s"] by (simp add: sendable_def)
  then have c: "cstr ?s = ?t" by (rule cstr_append)
  have "\<exists>c. send_paquet_sensor (StationName s) (fst m) (snd m) (Some ?s) (rp_type r) (rp_val r) (rp_retain r)
      ?name (mqttClient s) = Some c \<and> well c"
  proof (cases "cstr (StationName s) = []")
    case True
    then have "load (StationName s) 0 = Some 0" using load_terminator [OF texts_name(1) [OF t]] by simp
    with w show ?thesis by (simp add: send_paquet_sensor_def)
  next
    case False
    let ?m = "sensor_packet (rp_type r) (rp_val r) (take 32 (cstr (StationName s) @ (case ?name of None \<Rightarrow> [] | Some n \<Rightarrow> cstr n)))"
    have "defined (client_exec cbs (Op_Publish (snd m) ?s ?m 0 (rp_retain r)) (mqttClient s))" for cbs
      using requests_defined(2) [OF w m(2), of ?s] c r by (simp add: sendable_def)
    then have "\<exists>ok c. MQTT_Publish (mqttClient s) (snd m) (Some ?s) ?m (int (length ?m)) 0 (rp_retain r) = Some (ok, c) \<and> well c"
      by (auto simp: defined_def)
    moreover have "length (cstr (StationName s)) \<le> 32" "\<forall>n. ?name = Some n \<longrightarrow> 0 \<in> set n"
      using texts_name(2) [OF t] by auto
    ultimately show ?thesis
      using send_paquet_sensor_spec [OF texts_name(1) [OF t] False _ m(1), of ?name "snd m" "Some ?s" "rp_type r" "rp_val r"
        "rp_retain r" "mqttClient s"] by auto
  qed
  ultimately obtain c where "publish_report m r s = Some (s\<lparr>mqttClient := c, id_string := ?s\<rparr>)" "well c"
    by (auto simp: publish_report_def)
  moreover have "length ?s = 100" using t r by (simp add: texts_ok_def sendable_def)
  ultimately show ?thesis using s by (auto simp: station_ok_def texts_ok_def)
qed

lemma publish_reports_ok:
  assumes "station_ok s" and "\<forall>r \<in> set rs. sendable r" and "\<forall>n. length (fst (mem n)) = 40 \<and> locals_ok (snd (mem n))"
  shows "\<exists>s'. publish_reports mem rs s = Some s' \<and> station_ok s' \<and> dev s' = dev s \<and> user s' = user s"
  using assms(1,2)
proof (induction rs arbitrary: s)
  case (Cons r rs)
  obtain s1 where s1: "publish_report (mem (length rs)) r s = Some s1" "station_ok s1" "dev s1 = dev s" "user s1 = user s"
    using publish_report_ok [of s r "mem (length rs)"] Cons.prems assms(3) by auto
  with Cons.IH [of s1] Cons.prems(2) show ?case by auto
qed simp

lemma DisconnectMQTT_ok:
  assumes "station_ok s"
  shows "station_ok (DisconnectMQTT b s)"
    "dev (DisconnectMQTT b s) = (dev s)\<lparr>disconnect_ignored := True,
      timer_DisconnectMQTT := Some (Call_go_sleep, if PCF8885 b then 50 else 20)\<rparr>"
    "user (DisconnectMQTT b s) = user s" "connState (mqttClient (DisconnectMQTT b s)) = TCP_DISCONNECTING"
proof -
  let ?c = "MQTT_OnDisconnected (mqttClient s) True"
  have "well ?c" using assms
    by (simp add: station_ok_def well_def holds_def client_ok_def MQTT_OnDisconnected_def)
  then have "well (MQTT_Disconnect ?c)" by (simp add: MQTT_Disconnect_def)
  then show "station_ok (DisconnectMQTT b s)"
    using assms by (simp add: station_ok_def texts_ok_def DisconnectMQTT_def Let_def)
qed (simp_all add: DisconnectMQTT_def Let_def MQTT_Disconnect_def)

section \<open>Devices\<close>

text \<open>
  What the messaging part relies on: the device's own steps and the callbacks keep its
  invariant, and steps add reports that can be sent.
\<close>

locale station_device =
  fixes b :: build and act :: "device \<Rightarrow> device \<Rightarrow> bool" and inv :: "device \<Rightarrow> bool"
  assumes act_ok: "act d d' \<Longrightarrow> inv d \<Longrightarrow>
      inv d' \<and> (\<exists>rs. reports d' = reports d @ rs \<and> (\<forall>r \<in> set rs. sendable r))"
    and data_ok: "mqttDataCb b data n d = Some d' \<Longrightarrow> inv d \<Longrightarrow> inv d'"
    and connected_ok: "inv d \<Longrightarrow> inv (connectedCB b t d)"
    and sleep_ok: "SLEEP b \<Longrightarrow> inv d \<Longrightarrow> inv (d\<lparr>disconnect_ignored := True, timer_DisconnectMQTT := x\<rparr>)"
begin

lemma react_ok: "react b name t es s = Some s' \<Longrightarrow> user_ok (fst s) \<Longrightarrow> inv (snd s) \<Longrightarrow> user_ok (fst s') \<and> inv (snd s')"
proof (induction es arbitrary: s)
  case (Cons e es)
  obtain us d where s: "s = (us, d)" by (cases s)
  from Cons.prems(1) obtain s1 where s1: "react b name t es s1 = Some s'" and e: "(case e of
         Ev_Connected \<Rightarrow> do { us \<leftarrow> connected_user b name us; Some (us, connectedCB b t d) }
       | Ev_Disconnected \<Rightarrow> Some (if disconnect_ignored d then us else mqttDisconnectedCb b us, d)
       | Ev_Data tp data \<Rightarrow> do {
           d \<leftarrow> mqttDataCb b data (case data of None \<Rightarrow> 0 | Some m \<Rightarrow> length m) d;
           Some (us, d)
         }
       | _ \<Rightarrow> Some (us, d)) = Some s1" by (auto simp: s bind_eq_Some_conv)
  have "user_ok (fst s1) \<and> inv (snd s1)"
    using e Cons.prems(2,3) connected_ok data_ok
    by (auto simp: s bind_eq_Some_conv mqttDisconnectedCb_ok split: event.splits dest: connected_user_ok)
  with Cons.IH [OF s1] show ?case by blast
qed simp

lemma after_client_ok:
  assumes "after_client b c s = Some s'" and "station_ok s" and "inv (dev s)" and "well c"
  shows "station_ok s' \<and> inv (dev s')"
proof -
  obtain t us d where r: "react b (StationName s) t (drop (length (trace (mqttClient s))) (trace c)) (user s, dev s) = Some (us, d)"
    and s': "s' = s\<lparr>mqttClient := c, user := us, dev := d\<rparr>"
    using assms(1) by (auto simp: after_client_def bind_eq_Some_conv)
  from react_ok [OF r] assms show ?thesis by (simp add: s' station_ok_def texts_ok_def)
qed

lemma step_ok:
  assumes "station_step b id_ptr act s s'" and s: "station_ok s" and i: "inv (dev s)"
  shows "station_ok s' \<and> inv (dev s')"
  using assms(1)
proof (rule station_stepE)
  have w: "well (mqttClient s)" using s by (simp add: station_ok_def)
  fix u1 u2 assume u: "locals_ok u1" "locals_ok u2"
  let ?cbs = "station_callbacks b id_ptr u1 u2 s"
  note app = station_application [OF s u, of b id_ptr]
  show ?thesis if r: "station_receive b id_ptr u1 u2 s pdata len = Some (Some s')" for pdata len
  proof -
    obtain c where c: "mqtt_tcpclient_recv ?cbs (mqttClient s) pdata len = Some (Some c)" "after_client b c s = Some s'"
      using r by (auto simp: station_receive_def bind_eq_Some_conv split: option.splits)
    show ?thesis by (rule after_client_ok [OF c(2) s i mqtt_application.recv_well [OF app w c(1)]])
  qed
  show ?thesis if op: "op_ok (mqttClient s) op" and c: "client_exec ?cbs op (mqttClient s) = Some c"
    and a: "after_client b c s = Some s'" for op c
    using mqtt_application.exec_defined [OF app w op] c by (intro after_client_ok [OF a s i]) simp
next
  fix c assume "s' = s\<lparr>mqttClient := c\<rparr>" "tryConnect (mqttClient s) = Some c"
  then show ?thesis using s i MQTT_Connect_defined [of "mqttClient s"]
    by (simp add: station_ok_def texts_ok_def tryConnect_def)
next
  fix d mem assume a: "act (dev s) d" and m: "\<forall>n. length (fst (mem n)) = 40 \<and> locals_ok (snd (mem n))"
    and d: "after_device mem d s = Some s'"
  obtain rs where rs: "inv d" "reports d = reports (dev s) @ rs" "\<forall>r \<in> set rs. sendable r"
    using act_ok [OF a i] by blast
  have "station_ok (s\<lparr>dev := d\<rparr>)" using s by (simp add: station_ok_def texts_ok_def)
  from publish_reports_ok [OF this rs(3) m] d rs(1,2) show ?thesis by (auto simp: after_device_def)
next
  assume "s' = DisconnectMQTT b s" "SLEEP b"
  with DisconnectMQTT_ok [OF s] sleep_ok i show ?thesis by simp
qed

lemma run_ok: "station_run b id_ptr act s s' \<Longrightarrow> station_ok s \<Longrightarrow> inv (dev s) \<Longrightarrow> station_ok s' \<and> inv (dev s')"
  by (induction rule: station_run.induct) (auto dest: step_ok)

text \<open>Every report of the device can be published.\<close>

lemma after_device_defined:
  assumes "station_ok s" and "inv (dev s)" and "act (dev s) d"
    and m: "\<forall>n. length (fst (mem n)) = 40 \<and> locals_ok (snd (mem n))"
  shows "after_device mem d s \<noteq> None"
proof -
  obtain rs where rs: "reports d = reports (dev s) @ rs" "\<forall>r \<in> set rs. sendable r"
    using act_ok assms(2,3) by blast
  have "station_ok (s\<lparr>dev := d\<rparr>)" using assms(1) by (simp add: station_ok_def texts_ok_def)
  from publish_reports_ok [OF this rs(2) m] rs(1) show ?thesis by (auto simp: after_device_def)
qed

end

end
