(* ===== verification/Devices.thy ===== *)
theory Devices
  imports Station
begin

text \<open>
  The stations of the builds: what each keeps, and the way of a command from a TCP segment to the
  triac.
\<close>

section \<open>Steps that do not touch the powers\<close>

text \<open>Operations that neither change a power nor report.\<close>

definition same :: "device \<Rightarrow> device \<Rightarrow> bool" where
  "same d d' \<longleftrightarrow> puissance_triac d' = puissance_triac d \<and> puissance_pwm d' = puissance_pwm d \<and>
     reports d' = reports d \<and> old_stat_switch d' = old_stat_switch d \<and>
     timer_time_out_connection d' = timer_time_out_connection d"

lemma same_refl [simp]: "same d d"
  by (simp add: same_def)

lemma same_pin [simp]: "same d (set_pin n v d') = same d d'"
  by (simp add: same_def set_pin_def)

lemma same_fields [simp]:
  "same d (d'\<lparr>timers := t\<rparr>) = same d d'" "same d (d'\<lparr>timer_triack_on := x\<rparr>) = same d d'"
  "same d (d'\<lparr>TLI4970_is_enable := e\<rparr>) = same d d'" "same d (d'\<lparr>temp_from_zero_cross := z\<rparr>) = same d d'"
  "same d (d'\<lparr>pwm_on := on\<rparr>) = same d d'" "same d (d'\<lparr>timer_0V := v\<rparr>) = same d d'"
  "same d (d'\<lparr>num_mesure := n\<rparr>) = same d d'" "same d (d'\<lparr>mesure_sum := m\<rparr>) = same d d'"
  "same d (d'\<lparr>moyen_power := p\<rparr>) = same d d'"
  by (simp_all add: same_def)

lemma same_on_timers: "on_timers f d = Some d' \<Longrightarrow> same d0 d \<Longrightarrow> same d0 d'"
  by (auto simp: on_timers_def bind_eq_Some_conv)

lemma same_sensor [simp]: "same d (ZeroCross_sensor b d') = same d d'"
  by (simp add: ZeroCross_sensor_def TLI4970_enable_def)

lemma same_pwm: "timerPwm b l f d = Some d' \<Longrightarrow> same d d'"
  by (auto simp: timerPwm_def set_pwm_on_def bind_eq_Some_conv intro: same_on_timers split: if_splits)

lemma same_timer_off: "triac_timer_off d = Some d' \<Longrightarrow> same d0 d \<Longrightarrow> same d0 d'"
  by (auto simp: triac_timer_off_def bind_eq_Some_conv dest: same_on_timers split: if_splits)

lemma same_zero_cross: "ZeroCross b d = Some d' \<Longrightarrow> same d0 d \<Longrightarrow> same d0 d'"
  by (auto simp: ZeroCross_def ZeroCross_half_def ZeroCross_full_def Let_def bind_eq_Some_conv
    dest!: same_timer_off same_on_timers split: if_splits)

lemma same_timer_zero_cross: "timerZeroCross b d = Some d' \<Longrightarrow> same d d'"
  by (auto simp: timerZeroCross_def bind_eq_Some_conv intro: same_zero_cross [OF _ same_on_timers [OF _ same_refl]])

lemma same_irq: "ZeroCrossIRQ b d = Some d' \<Longrightarrow> same d d'"
  by (auto simp: ZeroCrossIRQ_def Let_def bind_eq_Some_conv split: if_splits)
    (rule same_on_timers, assumption, simp)+

lemma same_meter: "timerMesureSampleAdc active reply d = Some d' \<Longrightarrow> same d d'"
proof -
  have "same d0 d" if "meter_sample val d1 = Some d" "same d0 d1" for val d0 d1 d
    using that unfolding meter_sample_def Let_def bind_eq_Some_conv
    by (auto simp only: option.inject same_fields bind_eq_Some_conv split: if_split_asm)
  moreover have "same d d1" if "meter_read reply d = Some (v, d1)" for v d1
    using that by (auto simp: meter_read_def TLI4970_disable_def bind_eq_Some_conv split: if_splits)
  moreover assume "timerMesureSampleAdc active reply d = Some d'"
  ultimately show ?thesis
    by (auto simp: timerMesureSampleAdc_def bind_eq_Some_conv split: if_splits)
qed

lemmas same_ops = same_pwm same_timer_zero_cross same_irq same_meter

section \<open>The kinds of stations\<close>

text \<open>
  What happens to a device between two messages: zero crossings and timer callbacks; with the
  power meter also its samples, its reports and the loss of the mains; with a shutter the turns
  of its shaft, once connected, and its timeout.
\<close>

inductive power_act :: "build \<Rightarrow> device \<Rightarrow> device \<Rightarrow> bool" for b where
  zero_crossing: "ZeroCrossIRQ b d = Some d' \<Longrightarrow> power_act b d d'"
| simulated: "timerZeroCross b d = Some d' \<Longrightarrow> power_act b d d'"
| fired: "timerEnableTriack d = Some d' \<Longrightarrow> power_act b d d'"
| pwm: "timerPwm b l f d = Some d' \<Longrightarrow> power_act b d d'"
| counted: "power_act b d (d\<lparr>timers := (timers d)\<lparr>tab_callback_time :=
      map (fst \<circ> slot_step) (tab_callback_time (timers d))\<rparr>\<rparr>)"

inductive_cases power_actE: "power_act b d d'"

inductive triac_act :: "build \<Rightarrow> device \<Rightarrow> device \<Rightarrow> bool" for b where
  power: "power_act b d d' \<Longrightarrow> triac_act b d d'"
| metered: "timerMesureSampleAdc active reply d = Some d' \<Longrightarrow> triac_act b d d'"
| measured: "triac_act b d (time_send_mesures d)"
| unplugged: "timer_0V d \<noteq> None \<Longrightarrow> triac_act b d (no_zero_cross d)"

inductive_cases triac_actE: "triac_act b d d'"

inductive shutter_act :: "build \<Rightarrow> device \<Rightarrow> device \<Rightarrow> bool" for b where
  power: "power_act b d d' \<Longrightarrow> shutter_act b d d'"
| turn: "irq_store d \<Longrightarrow> storeIRQ b hall dir d = Some d' \<Longrightarrow> shutter_act b d d'"
| timeout: "timer_timout_store d \<noteq> None \<Longrightarrow> timeout_store b d = Some d' \<Longrightarrow> shutter_act b d d'"

inductive_cases shutter_actE: "shutter_act b d d'"

text \<open>
  A build without a triac: its PWM timers; its switches, polled by a timer when it has nothing
  else and on an interrupt otherwise; the measurement of the weather; and going to sleep.
\<close>

inductive plain_act :: "build \<Rightarrow> device \<Rightarrow> device \<Rightarrow> bool" for b where
  power: "PWM b \<Longrightarrow> power_act b d d' \<Longrightarrow> plain_act b d d'"
| touched: "PCF8885 b \<Longrightarrow> SWITCH_ONLY b \<longrightarrow> map_option fst (timer_mesure d) = Some Call_pcf8885func \<Longrightarrow>
    pcf8885func b peer bus d = (bus', d') \<Longrightarrow> plain_act b d d'"
| weather: "METEO b \<Longrightarrow> map_option fst (timer_mesure d) = Some Call_timer_mesure_handler \<Longrightarrow>
    plain_act b d (send_weather r (if ADS786x b then send_soil tab d else d))"
| asleep: "SLEEP b \<Longrightarrow> map_option fst (timer_DisconnectMQTT d) = Some Call_go_sleep \<Longrightarrow> plain_act b d (go_sleep d)"

inductive_cases plain_actE: "plain_act b d d'"

text \<open>Reports are only added.\<close>

definition adds :: "device \<Rightarrow> device \<Rightarrow> bool" where
  "adds d d' \<longleftrightarrow> (\<exists>rs. reports d' = reports d @ rs \<and> (\<forall>r \<in> set rs. sendable r))"

lemma addsI [intro?]: "reports d' = reports d @ rs \<Longrightarrow> \<forall>r \<in> set rs. sendable r \<Longrightarrow> adds d d'"
  by (auto simp: adds_def)

lemma same_adds: "same d d' \<Longrightarrow> adds d d'"
  by (auto simp: same_def adds_def)

lemma power_act_same: "power_act b d d' \<Longrightarrow> same d d'"
  by (elim power_actE) (auto intro: same_ops simp: timerEnableTriack_def)

lemma sendable_reports:
  "sendable \<lparr>rp_topic = chars ''/sensors/switch/'', rp_type = t, rp_val = v, rp_retain = r, rp_name = n\<rparr>"
  "sendable \<lparr>rp_topic = chars ''/sensors/powers/'', rp_type = t, rp_val = v, rp_retain = r, rp_name = n\<rparr>"
  "sendable \<lparr>rp_topic = chars ''/sensors/temperatures/'', rp_type = t, rp_val = v, rp_retain = r, rp_name = n\<rparr>"
  "sendable \<lparr>rp_topic = chars ''/sensors/humiditys/'', rp_type = t, rp_val = v, rp_retain = r, rp_name = n\<rparr>"
  "sendable \<lparr>rp_topic = chars ''/sensors/pressures/'', rp_type = t, rp_val = v, rp_retain = r, rp_name = n\<rparr>"
  "sendable \<lparr>rp_topic = chars ''/sensors/batterys/'', rp_type = t, rp_val = v, rp_retain = r, rp_name = n\<rparr>"
  by (simp_all add: sendable_def chars_of)

lemma power_act_dimmer:
  assumes "power_act b d d'" and "triac_build b" and "dimmer_ok d"
  shows "dimmer_ok d'"
  using assms(1) by (elim power_actE) (auto intro: dimmer_step_ok [OF _ assms(2,3)] dimmer_step.intros)

lemma dimmer_ok_reports [simp]: "dimmer_ok (send_report r d) = dimmer_ok d" "dimmer_ok (d\<lparr>timer_0V := t\<rparr>) = dimmer_ok d"
  "dimmer_ok (connectedCB b x d) = dimmer_ok d" "dimmer_ok (d\<lparr>disconnect_ignored := i\<rparr>) = dimmer_ok d"
  "dimmer_ok (d\<lparr>timer_DisconnectMQTT := x'\<rparr>) = dimmer_ok d"
  by (simp_all add: dimmer_ok_def send_report_def connectedCB_def Let_def)

lemma triac_device:
  assumes b: "triac_build b"
  shows "station_device b (triac_act b) dimmer_ok"
proof
  fix d d' assume a: "triac_act b d d'" and d: "dimmer_ok d"
  have "dimmer_ok d' \<and> adds d d'"
    using a
  proof (rule triac_actE)
    show ?thesis if "power_act b d d'" using that power_act_dimmer [OF that b d] same_adds power_act_same by blast
    show ?thesis if "timerMesureSampleAdc active reply d = Some d'" for active reply
      using that meter_ok [OF that d] same_adds same_meter by blast
    show ?thesis if "d' = time_send_mesures d"
      using d by (simp add: that time_send_mesures_def adds_def send_report_def sendable_reports)
        (simp add: dimmer_ok_def)
    show ?thesis if "d' = no_zero_cross d"
      using d by (simp add: that no_zero_cross_def adds_def send_report_def sendable_reports) (simp add: dimmer_ok_def)
  qed
  then show "dimmer_ok d' \<and> (\<exists>rs. reports d' = reports d @ rs \<and> (\<forall>r \<in> set rs. sendable r))"
    by (simp add: adds_def)
next
  show "dimmer_ok d'" if "mqttDataCb b data n d = Some d'" "dimmer_ok d" for data n d d'
    using that b by (rule data_ok)
qed simp_all

lemma motor_same: "same d d' \<Longrightarrow> motor_ok d \<Longrightarrow> motor_ok d'"
  by (auto simp: same_def motor_ok_def split: list.splits)

lemma adds_refl [simp]: "adds d d"
  by (simp add: adds_def)

lemma storeIRQ_adds:
  assumes "storeIRQ b hall dir d = Some d'"
  shows "adds d d'"
proof -
  have down: "reports d' = reports d" if "store_motor_down b x d = Some d'" for x d d'
    using that by (auto simp: store_motor_down_def set_pwm_def bind_eq_Some_conv split: if_splits)
  have up: "reports d' = reports d" if "store_motor_up b x d = Some d'" for x d d'
    using that by (auto simp: store_motor_up_def set_pwm_def bind_eq_Some_conv split: if_splits)
  have count: "reports d' = reports d" if "store_count dir d = Some d'" for d d'
    using that by (auto simp: store_count_def Let_def bind_eq_Some_conv split: if_splits)
  have level: "adds d d'" if l: "store_level d = Some d'" for d d'
  proof -
    obtain n where n: "niveau_pourcent d = Some n" using l by (auto simp: store_level_def bind_eq_Some_conv)
    define m where "m = (if n > 100 then 100 else if n < 0 then 0 else n)"
    have "d' = (if m \<noteq> niveau_100 d then send_report (report_niveau (d\<lparr>niveau_100 := m\<rparr>)) (d\<lparr>niveau_100 := m\<rparr>) else d)"
      using l unfolding store_level_def n Let_def Option.bind_lunit m_def by (metis option.inject)
    then show ?thesis by (auto simp: adds_def send_report_def report_niveau_def sendable_reports)
  qed
  obtain d1 d2 x where d: "store_motor_down b x d = Some d1" "store_motor_up b x d1 = Some d2"
    "if \<not> hall then \<exists>d3. store_count dir d2 = Some d3 \<and> store_level d3 = Some d' else d' = d2"
    using assms by (auto simp: storeIRQ_def bind_eq_Some_conv split: if_splits)
  have r: "reports d2 = reports d" using down [OF d(1)] up [OF d(2)] by simp
  show ?thesis
  proof (cases hall)
    case True
    with d(3) r show ?thesis by (simp add: adds_def)
  next
    case False
    with d(3) obtain d3 where d3: "store_count dir d2 = Some d3" "store_level d3 = Some d'" by auto
    from level [OF d3(2)] count [OF d3(1)] r show ?thesis by (simp add: adds_def)
  qed
qed

lemma timeout_adds: "timeout_store b d = Some d' \<Longrightarrow> adds d d'"
  by (auto simp: timeout_store_def set_pwm_def Let_def bind_eq_Some_conv adds_def send_report_def report_niveau_def
    sendable_reports split: if_splits)

lemma shutter_device: "station_device build_STORE (shutter_act build_STORE) motor_ok"
proof
  have b: "TRIACK build_STORE" by (simp add: build_STORE_def)
  fix d d' assume a: "shutter_act build_STORE d d'" and d: "motor_ok d"
  have "motor_ok d' \<and> adds d d'"
    using a
  proof (rule shutter_actE)
    show ?thesis if "power_act build_STORE d d'" using power_act_same [OF that] d by (simp add: motor_same same_adds)
    show ?thesis if "storeIRQ build_STORE hall dir d = Some d'" for hall dir
      using storeIRQ_ok [OF that b d] storeIRQ_adds [OF that] ..
    show ?thesis if "timeout_store build_STORE d = Some d'"
      using timeout_ok [OF that b d] timeout_adds [OF that] ..
  qed
  then show "motor_ok d' \<and> (\<exists>rs. reports d' = reports d @ rs \<and> (\<forall>r \<in> set rs. sendable r))"
    by (simp add: adds_def)
next
  fix d d' data n assume "mqttDataCb build_STORE data n d = Some d'" "motor_ok d"
  then show "motor_ok d'"
    using store_data_ok [of build_STORE data d d'] by (simp add: mqttDataCb_def build_STORE_def plain_build_def)
next
  show "motor_ok (connectedCB build_STORE t d)" if "motor_ok d" for d t
    by (rule motor_same [OF _ that]) (simp add: connectedCB_def same_def Let_def)
qed (rule motor_same, simp add: same_def)

text \<open>Builds that only switch: the power is off, the fixed one, or (after a toggle) full.\<close>

definition switches :: "build \<Rightarrow> bool" where
  "switches b \<longleftrightarrow> TRIACK b \<and> \<not> STORE b \<and> (TRIACK_ON_OFF b \<or> TRIACK_ON_OFF_INVERSE b)"

definition on_off :: "build \<Rightarrow> device \<Rightarrow> bool" where
  "on_off b d \<longleftrightarrow> puissance_triac d \<in> {0, TRIACK_ON_OFF_PUISSANCE b, PUISSANCE_MAX}"

lemma on_off_pwm: "pwm_data ls data n d = Some d' \<Longrightarrow> puissance_triac d' = puissance_triac d"
  by (induction ls arbitrary: d) (auto simp: set_pwm_def bind_eq_Some_conv split: if_splits)

lemma on_off_set: "on_off b (d\<lparr>puissance_triac := x\<rparr>) \<longleftrightarrow> x \<in> {0, TRIACK_ON_OFF_PUISSANCE b, PUISSANCE_MAX}"
  by (simp add: on_off_def)

lemma on_off_triac:
  assumes "triac_data b data d = Some d'" and "switches b" and "on_off b d"
  shows "on_off b d'"
proof -
  have sw: "TRIACK_ON_OFF_INVERSE b \<or> TRIACK_ON_OFF b" using assms(2) by (auto simp: switches_def)
  obtain cmd where c: "byte_of data 0 = Some cmd" using assms(1) by (auto simp: triac_data_def bind_eq_Some_conv)
  consider "cmd = of_char (CHR ''S'')" | "cmd = of_char (CHR ''T'')"
    | "cmd \<noteq> of_char (CHR ''S'')" "cmd \<noteq> of_char (CHR ''T'')" by blast
  then show ?thesis
  proof cases
    case 1
    then obtain v where v: "byte_of data 1 = Some v"
      using assms(1) c by (cases "byte_of data 1") (simp_all add: triac_data_def)
    have "d' = d\<lparr>puissance_triac := (if TRIACK_ON_OFF_INVERSE b then (if v > 0 then 0 else TRIACK_ON_OFF_PUISSANCE b)
        else if v > 0 then TRIACK_ON_OFF_PUISSANCE b else 0)\<rparr>"
      using assms(1) sw unfolding triac_data_def c v Option.bind_lunit if_P [OF 1]
      by (cases "TRIACK_ON_OFF_INVERSE b"; cases "v > 0") simp_all
    then show ?thesis by (simp add: on_off_set)
  next
    case 2
    have "(of_char (CHR ''T'') :: u8) \<noteq> of_char (CHR ''S'')" by simp
    with 2 assms(1) c have "d' = d\<lparr>puissance_triac := (if puissance_triac d \<noteq> 0 then 0 else PUISSANCE_MAX)\<rparr>"
      by (simp add: triac_data_def)
    then show ?thesis by (simp add: on_off_set)
  next
    case 3
    with assms c show ?thesis by (simp add: triac_data_def)
  qed
qed

lemma on_off_data:
  assumes "mqttDataCb b data n d = Some d'" and "switches b" and "on_off b d"
  shows "on_off b d'"
proof -
  let ?d0 = "if SLEEP b then d\<lparr>timer_DisconnectMQTT := Some (Call_DisconnectMQTT, 200)\<rparr> else d"
  have st: "STORE b = False" and tr: "TRIACK b" using assms(2) by (simp_all add: switches_def)
  obtain d1 where d1: "triac_data b data ?d0 = Some d1" and r1: "do {
      d \<leftarrow> (if PWM b then pwm_data [0..<length (BIT_PWM b)] data n d1 else Some d1);
      let d = (if SET_GPIO b then set_pin 13 True d else d);
      if RELAY b then relay_data b data d else Some d } = Some d'"
    using assms(1) tr unfolding mqttDataCb_def Let_def st if_False by (auto simp: bind_eq_Some_conv)
  have "on_off b ?d0" using assms(3) by (simp add: on_off_def)
  with on_off_triac [OF d1 assms(2)] have "on_off b d1" by blast
  moreover have "puissance_triac d' = puissance_triac d1"
    using r1 by (auto simp: relay_data_def bind_eq_Some_conv Let_def on_off_pwm split: if_splits)
  ultimately show ?thesis by (simp add: on_off_def)
qed

lemma on_off_same: "same d d' \<Longrightarrow> on_off b d \<Longrightarrow> on_off b d'"
  by (simp add: same_def on_off_def)

lemma switch_device:
  assumes b: "switches b"
  shows "station_device b (triac_act b) (on_off b)"
proof
  fix d d' assume a: "triac_act b d d'" and d: "on_off b d"
  have "on_off b d' \<and> adds d d'"
    using a
  proof (rule triac_actE)
    show ?thesis if "power_act b d d'" using power_act_same [OF that] d by (simp add: on_off_same same_adds)
    show ?thesis if "timerMesureSampleAdc active reply d = Some d'" for active reply
      using same_meter [OF that] d by (simp add: on_off_same same_adds)
    show ?thesis if "d' = time_send_mesures d"
      using d by (simp add: that time_send_mesures_def adds_def send_report_def sendable_reports on_off_def)
    show ?thesis if "d' = no_zero_cross d"
      using d by (simp add: that no_zero_cross_def adds_def send_report_def sendable_reports on_off_def)
  qed
  then show "on_off b d' \<and> (\<exists>rs. reports d' = reports d @ rs \<and> (\<forall>r \<in> set rs. sendable r))"
    by (simp add: adds_def)
next
  show "on_off b d'" if "mqttDataCb b data n d = Some d'" "on_off b d" for data n d d'
    using that(1) b that(2) by (rule on_off_data)
next
  show "on_off b (connectedCB b t d)" if "on_off b d" for d t
    by (rule on_off_same [OF _ that]) (simp add: connectedCB_def same_def Let_def)
qed (simp add: on_off_def)

text \<open>
  Builds without a triac: the PWM powers are at most 100, only the four switches are remembered,
  and a build that sleeps has its timeout armed, so that it goes to sleep whatever happens.
\<close>

definition plain_ok :: "build \<Rightarrow> device \<Rightarrow> bool" where
  "plain_ok b d \<longleftrightarrow> (\<forall>p \<in> set (puissance_pwm d). unat p \<le> 100) \<and>
     old_stat_switch d AND MASQUE_SWITCH = old_stat_switch d \<and> (SLEEP b \<longrightarrow> timer_time_out_connection d \<noteq> None)"

lemma plain_ok_same: "same d d' \<Longrightarrow> plain_ok b d \<Longrightarrow> plain_ok b d'"
  by (simp add: same_def plain_ok_def)

lemma plain_ok_pwm:
  assumes "set_pwm l v d = Some d'" and "plain_ok b d" and "unat v \<le> 100"
  shows "plain_ok b d'"
  using assms set_update_subset_insert [of "puissance_pwm d" l v]
  by (auto simp: set_pwm_def store_def bind_eq_Some_conv plain_ok_def split: if_splits)

lemma plain_ok_pwm_data:
  assumes "pwm_data ls data n d = Some d'" and "plain_ok b d"
  shows "plain_ok b d'"
  using assms
proof (induction ls arbitrary: d)
  case (Cons l ls)
  have level: "unat (if unat v \<ge> 100 then 100 else of_nat (unat v) :: u32) \<le> 100" for v :: u8
    by (simp add: unsigned_ucast_eq take_bit_nat_def)
  show ?case
  proof (cases "l + 1 < n")
    case True
    with Cons.prems(1) obtain cmd :: u8 and d1 d2 where c: "(if cmd = of_char (CHR ''S'') then do {
               v \<leftarrow> byte_of data (1 + l);
               set_pwm l (if unat v \<ge> 100 then 100 else of_nat (unat v)) d
             } else Some d) = Some d1" "(if cmd = of_char (CHR ''T'') then set_pwm l 0 d1 else Some d1) = Some d2"
      "pwm_data ls data n d2 = Some d'" by (auto simp: bind_eq_Some_conv)
    have "plain_ok b d1"
    proof (cases "cmd = of_char (CHR ''S'')")
      case True
      then obtain v :: u8 where "set_pwm l (if unat v \<ge> 100 then 100 else of_nat (unat v)) d = Some d1"
        using c(1) by (auto simp only: if_P bind_eq_Some_conv)
      then show ?thesis using Cons.prems(2) level by (rule plain_ok_pwm)
    qed (use c(1) Cons.prems(2) in simp)
    then have "plain_ok b d2" using c(2) plain_ok_pwm [of l 0 d1 d2 b] by (auto split: if_splits)
    with Cons.IH [OF c(3)] show ?thesis by blast
  qed (use Cons.prems in simp)
qed simp

lemma plain_ok_fields [simp]:
  "plain_ok b (d\<lparr>timer_DisconnectMQTT := x\<rparr>) = plain_ok b d" "plain_ok b (d\<lparr>timer_mesure := x\<rparr>) = plain_ok b d"
  "plain_ok b (d\<lparr>disconnect_ignored := i\<rparr>) = plain_ok b d" "plain_ok b (d\<lparr>reports := rs\<rparr>) = plain_ok b d"
  "plain_ok b (set_pin n v d) = plain_ok b d" "plain_ok b (d\<lparr>irq_store := i\<rparr>) = plain_ok b d"
  "plain_ok b (send_report r d) = plain_ok b d" "plain_ok b (go_sleep d) = plain_ok b d"
  by (simp_all add: plain_ok_def set_pin_def send_report_def go_sleep_def system_deep_sleep_def)

lemma plain_ok_data:
  assumes "mqttDataCb b data n d = Some d'" and "\<not> TRIACK b" and "\<not> STORE b" and "plain_ok b d"
  shows "plain_ok b d'"
  using assms by (auto simp: mqttDataCb_def Let_def relay_data_def bind_eq_Some_conv
    dest!: plain_ok_pwm_data [where b = b] split: if_splits)

lemma adds_report [simp]: "adds d (send_report r d') \<longleftrightarrow> adds d d' \<and> sendable r" if "adds d d'"
  using that by (auto simp: adds_def send_report_def)

lemma change_reports_sendable: "\<forall>r \<in> set (change_reports b v d ls). sendable r"
  by (auto simp: change_reports_def switch_report_def battery_report_def sendable_reports)

lemma touched_ok:
  assumes "pcf8885func b peer bus d = (bus', d')" and "plain_ok b d"
  shows "plain_ok b d' \<and> adds d d'"
proof -
  obtain v bus1 where r: "read_PCF8885 peer bus = (v, bus1)" by (cases "read_PCF8885 peer bus")
  have "old_stat_switch d AND MASQUE_SWITCH = old_stat_switch d" using assms(2) by (simp add: plain_ok_def)
  note s = send_PCF8885_reports [OF r this]
  have "reports d' = reports d @ change_reports b v d [0..<4]"
    using assms(1) s by (auto simp: pcf8885func_def Let_def)
  moreover have "plain_ok b d'"
    using assms s by (auto simp: pcf8885func_def Let_def) (auto simp: plain_ok_def)
  ultimately show ?thesis using change_reports_sendable by (auto simp: adds_def)
qed

lemma weather_adds: "adds d (send_weather r (if ADS786x b then send_soil tab d else d))"
  by (cases r) (auto simp: adds_def send_weather_def send_soil_def send_report_def set_pin_def battery_report_def
    sendable_reports)

lemma weather_ok: "plain_ok b (send_weather r (if ADS786x b then send_soil tab d else d)) = plain_ok b d"
  by (cases r) (simp add: send_weather_def send_soil_def Let_def)

lemma plain_device:
  assumes b: "\<not> TRIACK b" "\<not> STORE b"
  shows "station_device b (plain_act b) (plain_ok b)"
proof
  fix d d' assume a: "plain_act b d d'" and d: "plain_ok b d"
  have "plain_ok b d' \<and> adds d d'"
    using a
  proof (rule plain_actE)
    show ?thesis if "power_act b d d'" using power_act_same [OF that] d by (simp add: plain_ok_same same_adds)
    show ?thesis if "pcf8885func b peer bus d = (bus', d')" for peer bus bus' using touched_ok [OF that d] .
    show ?thesis if "d' = send_weather r (if ADS786x b then send_soil tab d else d)" for r tab
      unfolding that weather_ok using d weather_adds by blast
    show ?thesis if "d' = go_sleep d"
      unfolding that using d by (simp add: adds_def) (simp add: go_sleep_def system_deep_sleep_def)
  qed
  then show "plain_ok b d' \<and> (\<exists>rs. reports d' = reports d @ rs \<and> (\<forall>r \<in> set rs. sendable r))"
    by (simp add: adds_def)
next
  show "plain_ok b d'" if "mqttDataCb b data n d = Some d'" "plain_ok b d" for data n d d'
    using that(1) b that(2) by (rule plain_ok_data)
next
  show "plain_ok b (connectedCB b t d)" if "plain_ok b d" for d t
    using that by (simp add: connectedCB_def Let_def)
qed simp

text \<open>The builds: the plug, the two lamps, the radiator, the shutter, and those without a triac.\<close>

lemma triac_builds: "triac_build build_PRISE" "switches build_PWM_TRIACK" "switches build_PWM_TRIACK_0V_DETECT"
    "switches build_RADIATOR"
  by (simp_all add: triac_build_def switches_def build_PRISE_def build_PWM_TRIACK_def
    build_PWM_TRIACK_0V_DETECT_def build_RADIATOR_def plain_build_def power_ok_def)

definition plain_builds :: "build list" where
  "plain_builds = [build_PWM_12V, build_PWM_12V_AND_SWITCH_PCF8885, build_SONOFF, build_METEO,
     build_METEO_ADS786X, build_SWITCH_PCF8885]"

lemma plain_builds: "b \<in> set plain_builds \<Longrightarrow> \<not> TRIACK b" "b \<in> set plain_builds \<Longrightarrow> \<not> STORE b"
  by (auto simp: plain_builds_def build_PWM_12V_def build_PWM_12V_AND_SWITCH_PCF8885_def build_SONOFF_def
    build_METEO_def build_METEO_ADS786X_def build_SWITCH_PCF8885_def plain_build_def)

interpretation plug: station_device build_PRISE "triac_act build_PRISE" dimmer_ok
  by (rule triac_device [OF triac_builds(1)])

interpretation lamp: station_device build_PWM_TRIACK "triac_act build_PWM_TRIACK" "on_off build_PWM_TRIACK"
  by (rule switch_device [OF triac_builds(2)])

interpretation lamp_0V: station_device build_PWM_TRIACK_0V_DETECT "triac_act build_PWM_TRIACK_0V_DETECT"
    "on_off build_PWM_TRIACK_0V_DETECT"
  by (rule switch_device [OF triac_builds(3)])

interpretation radiator: station_device build_RADIATOR "triac_act build_RADIATOR" "on_off build_RADIATOR"
  by (rule switch_device [OF triac_builds(4)])

interpretation shutter: station_device build_STORE "shutter_act build_STORE" motor_ok
  by (rule shutter_device)

interpretation weather: station_device build_METEO "plain_act build_METEO" "plain_ok build_METEO"
  by (rule plain_device [OF plain_builds]) (auto simp: plain_builds_def)

interpretation touch: station_device build_SWITCH_PCF8885 "plain_act build_SWITCH_PCF8885" "plain_ok build_SWITCH_PCF8885"
  by (rule plain_device [OF plain_builds]) (auto simp: plain_builds_def)

text \<open>What each build keeps.\<close>

definition device_kind :: "build \<Rightarrow> (device \<Rightarrow> device \<Rightarrow> bool) \<Rightarrow> (device \<Rightarrow> bool) \<Rightarrow> bool" where
  "device_kind b act safe \<longleftrightarrow>
     b = build_PRISE \<and> act = triac_act b \<and> safe = dimmer_ok \<or>
     b \<in> {build_PWM_TRIACK, build_PWM_TRIACK_0V_DETECT, build_RADIATOR} \<and> act = triac_act b \<and> safe = on_off b \<or>
     b = build_STORE \<and> act = shutter_act b \<and> safe = motor_ok \<or>
     b \<in> set plain_builds \<and> act = plain_act b \<and> safe = plain_ok b"

lemma device_kind_device: "device_kind b act safe \<Longrightarrow> station_device b act safe"
  using plug.station_device_axioms lamp.station_device_axioms lamp_0V.station_device_axioms
    radiator.station_device_axioms shutter.station_device_axioms plain_device [OF plain_builds]
  by (auto simp: device_kind_def)

text \<open>
  C2: a station stays in order, whatever happens. For every build: after any sequence of received
  segments, client operations, retries, device steps and, in the battery builds, disconnections,
  the MQTT client is well formed, the retry timer is armed exactly while the client is
  not connected, and the device's own invariant holds (the plug's triac callback and power, the
  powers a switch can have, the two directions of the shutter's motor, the powers of the PWM
  outputs and the timeout that sends a battery build to sleep); and whatever the device
  does next, its reports can be published.
\<close>

theorem station_safe:
  assumes "station_run b id_ptr act s s'" and "station_ok s" and "safe (dev s)" and "device_kind b act safe"
    and "act (dev s') d" and "\<forall>n. length (fst (mem n)) = 40 \<and> locals_ok (snd (mem n))"
  shows "well (mqttClient s') \<and> (timer_try_connect (user s') = None \<longleftrightarrow> mqttIsConected (user s')) \<and>
    safe (dev s') \<and> (\<exists>s''. after_device mem d s' = Some s'')"
proof -
  note dv = station_device.run_ok [OF device_kind_device [OF assms(4)] assms(1-3)]
    station_device.after_device_defined [OF device_kind_device [OF assms(4)] _ _ assms(5,6)]
  then show ?thesis by (auto simp: station_ok_def user_ok_def mqttIsConected_def)
qed

definition example_station :: station where
  "example_station = \<lparr>mqttClient = example_client, user = example_user, dev = example_plug,
     StationName = (chars ''lamp'' @ replicate 28 0), MYID = chars ''   ABCDEF'' @ replicate 7 0,
     id_string = replicate 100 0, topic = replicate 128 0\<rparr>"

lemma example_station_ok: "station_ok example_station" "dimmer_ok (dev example_station)"
proof -
  have "texts_ok example_station" unfolding example_station_def texts_ok_def by code_simp
  then show "station_ok example_station"
    using example_client_holds(1) example_user_ok
    by (simp add: station_ok_def) (auto simp: example_station_def intro: wellI)
  show "dimmer_ok (dev example_station)"
    by (simp add: example_station_def dimmer_ok_def example_plug_timers registered_def free_slot_def)
      (simp add: example_plug_def power_ok_def)
qed

lemma station_safe_witness:
  "\<exists>s'. after_device (\<lambda>_. (replicate 40 0, example_locals)) (time_send_mesures example_plug) example_station = Some s'"
proof -
  have "station_run build_PRISE 0 (triac_act build_PRISE) example_station example_station" by (rule station_run.start)
  moreover have "triac_act build_PRISE (dev example_station) (time_send_mesures example_plug)"
    unfolding example_station_def by simp (rule triac_act.measured)
  ultimately show ?thesis
    using station_safe [of build_PRISE 0 "triac_act build_PRISE" example_station example_station dimmer_ok] example_station_ok
    by (auto simp: device_kind_def)
qed

section \<open>Going to sleep\<close>



section \<open>From a TCP segment to the triac\<close>

text \<open>The power that a level sets on a dimmer with a full wave.\<close>

definition level_power :: "u8 \<Rightarrow> int" where
  "level_power v = (if unat v \<ge> 100 then PUISSANCE_MAX else if v > 0 then int (unat v) * TRIAC_SCALL + TRIAC_MIN else 0)"

lemma level_command:
  "mqttDataCb build_PRISE (Some [0x53, v]) n d = Some (d\<lparr>puissance_triac := level_power v\<rparr>)"
  by (cases "v = 0") (simp_all add: mqttDataCb_def triac_data_def byte_of_def load_def build_PRISE_def
    plain_build_def level_power_def word_neq_0_conv)

lemma react_levels:
  assumes "\<forall>p \<in> set ps. \<exists>v. pb_data p = [0x53, v]"
  shows "react build_PRISE name t (deliveries ps @ [Ev_Post]) (us, d) = Some (us, d\<lparr>puissance_triac :=
    (if ps = [] then puissance_triac d else level_power (pb_data (last ps) ! 1))\<rparr>)"
  using assms
proof (induction ps arbitrary: d)
  case (Cons p ps)
  then obtain v where "pb_data p = [0x53, v]" by auto
  with Cons show ?case by (simp add: level_command)
qed simp

text \<open>
  C1: a command sets the power. On a connected plug, a TCP segment of publish packets whose
  payloads are \<open>S\<close> and a level is received, every packet is acknowledged as its QoS asks, and
  the power afterwards is that of the last level: off for 0, always on from 100, and otherwise
  \<open>83 * level + 900\<close>.
\<close>

theorem command_sets_power:
  assumes "station_ok s" and "holds (mqttClient s) ms" and "accepting (mqttClient s)"
    and "\<forall>p \<in> set ps. publication_ok p \<and> (\<exists>v. pb_data p = [0x53, v])" and "ps \<noteq> []"
    and "length (stream ps) < MQTT_BUF_SIZE"
  shows "\<exists>s'. station_receive build_PRISE id_ptr u1 u2 s (stream ps) (length (stream ps)) = Some (Some s') \<and>
    holds (mqttClient s') (foldl acknowledge ms ps) \<and>
    puissance_triac (dev s') = level_power (pb_data (last ps) ! 1)"
proof -
  let ?cbs = "station_callbacks build_PRISE id_ptr u1 u2 s" and ?c = "(mqttClient s)\<lparr>keepAliveTick := 0\<rparr>"
  have "observing ?cbs" by (simp add: observing_def station_callbacks_def user_callbacks_def)
  moreover have "holds ?c ms" "accepting ?c" using assms(2,3) by (simp_all add: accepting_def)
  moreover have "\<forall>p \<in> set ps. publication_ok p" using assms(4) by blast
  ultimately obtain c where c: "recv_loop ?cbs ?c (stream ps) (length (stream ps)) = Some (Some c)"
    "holds c (foldl acknowledge ms ps)" "trace c = trace ?c @ deliveries ps @ [Ev_Post]"
    using recv_loop_stream [of ?c ms ?cbs ps] assms(6) by blast
  obtain t ts where t: "topic s = t # ts" using assms(1) by (auto simp: station_ok_def texts_ok_def neq_Nil_conv)
  have "\<forall>p \<in> set ps. \<exists>v. pb_data p = [0x53, v]" using assms(4) by blast
  note r = react_levels [OF this, of "StationName s" t "user s" "dev s"]
  have "after_client build_PRISE c s = Some (s\<lparr>mqttClient := c, user := user s,
      dev := (dev s)\<lparr>puissance_triac := level_power (pb_data (last ps) ! 1)\<rparr>\<rparr>)"
    using c(3) r assms(5) by (simp add: after_client_def t load_def)
  then show ?thesis using c by (simp add: station_receive_def mqtt_tcpclient_recv_def)
qed

definition example_level :: publication where
  "example_level = example_publication\<lparr>pb_data := [0x53, 50]\<rparr>"

lemma command_sets_power_witness:
  "\<exists>s'. station_receive build_PRISE 0 example_locals example_locals
      (example_station\<lparr>mqttClient := example_online\<rparr>) [0x32, 7, 0, 1, 0x74, 0x12, 0x34, 0x53, 50] 9 = Some (Some s') \<and>
    puissance_triac (dev s') = 5050"
proof -
  let ?s = "example_station\<lparr>mqttClient := example_online\<rparr>" and ?ps = "[example_level]"
  have st: "stream ?ps = [0x32, 7, 0, 1, 0x74, 0x12, 0x34, 0x53, 50]"
    by (simp add: wire_def example_level_def example_publication_def publish_packet_def packet_def publish_body_def
      mqtt_str_def mqtt_id_def varint_small header_byte_def hi8_def lo8_def)
  have l: "length [0x32, 7, 0, 1, 0x74, 0x12, 0x34, 0x53, 50 :: u8] = 9" by simp
  have ok: "publication_ok example_level" "pb_data example_level = [0x53, 50]"
    by (simp_all add: example_level_def example_publication_def publication_ok_def)
  have "station_ok ?s"
    using example_station_ok(1) wellI [OF example_online(1)] by (simp add: station_ok_def texts_ok_def)
  moreover have "level_power 50 = 5050" by (simp add: level_power_def TRIAC_SCALL_def TRIAC_MIN_def)
  ultimately show ?thesis
    using command_sets_power [of ?s "[]" ?ps 0 example_locals example_locals, unfolded st l] ok
    by (fastforce simp: accepting_def MQTT_BUF_SIZE_def)
qed

end
