(* ===== verification/Console.thy ===== *)
theory Console
  imports Devices
begin

text \<open>
  Configuration in \<open>user/user_main.c\<close>: the serial console \<open>rx_uart0\<close>, saving to flash, and
  the part of \<open>user_init\<close> that reads the configuration back.

  The four addresses are rows of 16 characters in one array, \<open>adresse[n]\<close> points to row \<open>n\<close>:
  they are modelled as 64 bytes in which row \<open>n\<close> starts at \<open>16 * n\<close>. Text that is only printed
  is not modelled.
\<close>

section \<open>State\<close>

datatype stateRxUart =
    WAIT | CONFIG_SSID | CONFIG_TOPIC | CONFIG_T_SLEEP | CONFIG_NAME | CONFIG_PASSWORD | CONFIG_ADDRESSE

record firmware = station +
  ssid :: bytes
  password :: bytes
  adresse :: bytes
  rx_state :: stateRxUart
  pointeur :: u8
  num_adresse :: nat
  str_number :: bytes
  restarted :: bool

definition MAX_SSID_LENGTH :: nat where "MAX_SSID_LENGTH = 32"
definition MAX_PASSWORD_LENGTH :: nat where "MAX_PASSWORD_LENGTH = 64"
definition MAX_ADRESSE_LENGTH :: nat where "MAX_ADRESSE_LENGTH = 16"
definition MAX_TOPIC_LENGTH :: nat where "MAX_TOPIC_LENGTH = 128"
definition NB_ADRESSE :: nat where "NB_ADRESSE = 4"

text \<open>The sizes of the arrays.\<close>

definition sizes :: "firmware \<Rightarrow> bool" where
  "sizes w \<longleftrightarrow> length (ssid w) = MAX_SSID_LENGTH \<and> length (password w) = MAX_PASSWORD_LENGTH \<and>
     length (adresse w) = MAX_ADRESSE_LENGTH * NB_ADRESSE \<and> length (StationName w) = MAX_LENGTH_STATION_NAME \<and>
     length (MYID w) = MAX_ID_LENGTH \<and> length (topic w) = MAX_TOPIC_LENGTH \<and> length (str_number w) = 10"

lemmas size_defs = MAX_SSID_LENGTH_def MAX_PASSWORD_LENGTH_def MAX_ADRESSE_LENGTH_def NB_ADRESSE_def
  MAX_LENGTH_STATION_NAME_def MAX_ID_LENGTH_def MAX_TOPIC_LENGTH_def

section \<open>Flash\<close>

text \<open>
  The SDK's flash functions are not part of the sources: erasing a sector of 4096 bytes,
  writing, and reading. Their documented behaviour: reads return the stored bytes, an erased
  byte is \<open>0xFF\<close>, and writing over erased bytes stores them and nothing else.
\<close>

record 'f spi_flash =
  spi_flash_read :: "nat \<Rightarrow> nat \<Rightarrow> 'f \<Rightarrow> bytes"
  spi_flash_write :: "nat \<Rightarrow> bytes \<Rightarrow> 'f \<Rightarrow> 'f"
  spi_flash_erase_sector :: "nat \<Rightarrow> 'f \<Rightarrow> 'f"

definition cell :: "'f spi_flash \<Rightarrow> 'f \<Rightarrow> nat \<Rightarrow> u8" where
  "cell F f a = hd (spi_flash_read F a 1 f)"

definition flash_laws :: "'f spi_flash \<Rightarrow> bool" where
  "flash_laws F \<longleftrightarrow>
     (\<forall>a n f. spi_flash_read F a n f = map (cell F f) [a..<a + n]) \<and>
     (\<forall>s f a. s * 4096 \<le> a \<and> a < (s + 1) * 4096 \<longrightarrow> cell F (spi_flash_erase_sector F s f) a = 0xFF) \<and>
     (\<forall>a xs f x. (\<forall>i < length xs. cell F f (a + i) = 0xFF) \<longrightarrow>
       cell F (spi_flash_write F a xs f) x = (if a \<le> x \<and> x < a + length xs then xs ! (x - a) else cell F f x))"

definition ADRESSE_CONFIG_IN_FLASH :: nat where "ADRESSE_CONFIG_IN_FLASH = 0x7A000"

text \<open>\<open>save_and_restart\<close>: what it writes, at which address; \<open>t_sleep\<close> as its four bytes.\<close>

definition save_config :: "'f spi_flash \<Rightarrow> firmware \<Rightarrow> 'f \<Rightarrow> 'f" where
  "save_config F w f =
     (let f = spi_flash_erase_sector F (ADRESSE_CONFIG_IN_FLASH div 2 ^ 12) f;
          f = spi_flash_write F ADRESSE_CONFIG_IN_FLASH (ssid w) f;
          f = spi_flash_write F (ADRESSE_CONFIG_IN_FLASH + MAX_SSID_LENGTH) (password w) f;
          f = spi_flash_write F (ADRESSE_CONFIG_IN_FLASH + MAX_SSID_LENGTH + MAX_PASSWORD_LENGTH) (adresse w) f;
          f = spi_flash_write F (ADRESSE_CONFIG_IN_FLASH + MAX_SSID_LENGTH + MAX_PASSWORD_LENGTH
                + MAX_ADRESSE_LENGTH * NB_ADRESSE) (StationName w) f
      in spi_flash_write F (ADRESSE_CONFIG_IN_FLASH + MAX_SSID_LENGTH + MAX_PASSWORD_LENGTH
           + MAX_ADRESSE_LENGTH * NB_ADRESSE + MAX_LENGTH_STATION_NAME) (le32 (echelle (dev w))) f)"

definition save_and_restart :: "'f spi_flash \<Rightarrow> firmware \<times> 'f \<Rightarrow> firmware \<times> 'f" where
  "save_and_restart F = (\<lambda>(w, f). (w\<lparr>restarted := True\<rparr>, save_config F w f))"

text \<open>The part of \<open>user_init\<close> that reads the configuration; \<open>chip\<close> is \<open>system_get_chip_id()\<close>.\<close>

definition read_le32 :: "bytes \<Rightarrow> u32" where
  "read_le32 m = word_rcat (rev m)"

definition read_config :: "'f spi_flash \<Rightarrow> 'f \<Rightarrow> u32 \<Rightarrow> firmware \<Rightarrow> firmware option" where
  "read_config F f chip w = do {
     let base = ADRESSE_CONFIG_IN_FLASH;
     let w = w\<lparr>ssid := spi_flash_read F base MAX_SSID_LENGTH f\<rparr>;
     let base = base + MAX_SSID_LENGTH;
     let w = w\<lparr>password := spi_flash_read F base MAX_PASSWORD_LENGTH f\<rparr>;
     let base = base + MAX_PASSWORD_LENGTH;
     let w = w\<lparr>adresse := spi_flash_read F base (MAX_ADRESSE_LENGTH * NB_ADRESSE) f\<rparr>;
     let base = base + MAX_ADRESSE_LENGTH * NB_ADRESSE;
     let name = spi_flash_read F base MAX_LENGTH_STATION_NAME f;
     let base = base + MAX_LENGTH_STATION_NAME;
     let w = w\<lparr>dev := (dev w)\<lparr>echelle := read_le32 (spi_flash_read F base 4 f)\<rparr>\<rparr>;
     name \<leftarrow> store name (MAX_LENGTH_STATION_NAME - 1) 0;
     my \<leftarrow> int_to_srthex (sint chip) (MYID w);
     a \<leftarrow> store (adresse w) (MAX_ADRESSE_LENGTH * 0 + (MAX_ADRESSE_LENGTH - 1)) 0;
     a \<leftarrow> store a (MAX_ADRESSE_LENGTH * 1 + (MAX_ADRESSE_LENGTH - 1)) 0;
     a \<leftarrow> store a (MAX_ADRESSE_LENGTH * 2 + (MAX_ADRESSE_LENGTH - 1)) 0;
     a \<leftarrow> store a (MAX_ADRESSE_LENGTH * 3 + (MAX_ADRESSE_LENGTH - 1)) 0;
     p \<leftarrow> store (password w) (MAX_PASSWORD_LENGTH - 1) 0;
     s \<leftarrow> store (ssid w) (MAX_SSID_LENGTH - 1) 0;
     Some (w\<lparr>StationName := name, MYID := my, ssid := s, password := p, adresse := a\<rparr>)
   }"

section \<open>The serial console\<close>

text \<open>
  A character of a line: it is stored at \<open>pointeur\<close>, which moves on until the last place, and
  the end of a line. \<open>off\<close> is the offset of the line's array in \<open>buf\<close>.
\<close>

definition line_char :: "nat \<Rightarrow> nat \<Rightarrow> u8 \<Rightarrow> bytes \<Rightarrow> u8 \<Rightarrow> (bytes \<times> u8) option" where
  "line_char limit off c buf p = do {
     buf \<leftarrow> store buf (off + unat p) c;
     Some (buf, if unat p < limit - 1 then p + 1 else p)
   }"

definition line_end :: "nat \<Rightarrow> bytes \<Rightarrow> u8 \<Rightarrow> bytes option" where
  "line_end off buf p = store buf (off + unat p) 0"

definition is_eol :: "u8 \<Rightarrow> bool" where
  "is_eol c \<longleftrightarrow> c = 10 \<or> c = 13"

definition is_key :: "u8 \<Rightarrow> char \<Rightarrow> char \<Rightarrow> bool" where
  "is_key c x y \<longleftrightarrow> c = of_char x \<or> c = of_char y"

definition rx_wait :: "'f spi_flash \<Rightarrow> u8 \<Rightarrow> firmware \<times> 'f \<Rightarrow> firmware \<times> 'f" where
  "rx_wait F c = (\<lambda>(w, f).
     if is_key c CHR ''s'' CHR ''S'' then (w\<lparr>rx_state := CONFIG_SSID, pointeur := 0\<rparr>, f)
     else if is_key c CHR ''p'' CHR ''P'' then (w\<lparr>rx_state := CONFIG_PASSWORD, pointeur := 0\<rparr>, f)
     else if is_key c CHR ''a'' CHR ''A'' then (w\<lparr>rx_state := CONFIG_ADDRESSE, pointeur := 0, num_adresse := 0\<rparr>, f)
     else if is_key c CHR ''n'' CHR ''N'' then (w\<lparr>rx_state := CONFIG_ADDRESSE, pointeur := 0, num_adresse := 1\<rparr>, f)
     else if is_key c CHR ''g'' CHR ''G'' then (w\<lparr>rx_state := CONFIG_ADDRESSE, pointeur := 0, num_adresse := 2\<rparr>, f)
     else if is_key c CHR ''m'' CHR ''M'' then (w\<lparr>rx_state := CONFIG_ADDRESSE, pointeur := 0, num_adresse := 3\<rparr>, f)
     else if is_key c CHR ''i'' CHR ''I'' then (w\<lparr>rx_state := CONFIG_NAME, pointeur := 0\<rparr>, f)
     else if is_key c CHR ''c'' CHR ''C'' then save_and_restart F (w, f)
     else if is_key c CHR ''t'' CHR ''T'' then (w\<lparr>rx_state := CONFIG_TOPIC, pointeur := 0\<rparr>, f)
     else if is_key c CHR ''x'' CHR ''X'' then (w\<lparr>rx_state := CONFIG_T_SLEEP, pointeur := 0\<rparr>, f)
     else (w, f))"

text \<open>
  A character in one of the lines. The bound of an address is that of the password. The clamp
  of the sleep time is compiled only \<open>#ifdef sleep\<close>, which no build defines.
\<close>

definition rx_line :: "build \<Rightarrow> locals \<Rightarrow> u8 \<Rightarrow> firmware \<Rightarrow> firmware option" where
  "rx_line b u c w =
     (case rx_state w of
        WAIT \<Rightarrow> Some w
      | CONFIG_T_SLEEP \<Rightarrow>
          (if is_eol c then do {
             str \<leftarrow> line_end 0 (str_number w) (pointeur w);
             t \<leftarrow> stringToUint str;
             str \<leftarrow> int_to_srthex (sint t) str;
             Some (w\<lparr>dev := (dev w)\<lparr>echelle := t\<rparr>, rx_state := WAIT, str_number := str\<rparr>)
           } else do {
             (str, p) \<leftarrow> line_char 10 0 c (str_number w) (pointeur w);
             Some (w\<lparr>pointeur := p, str_number := str\<rparr>)
           })
      | CONFIG_TOPIC \<Rightarrow>
          (if is_eol c then do {
             t \<leftarrow> line_end 0 (topic w) (pointeur w);
             (ok, cl) \<leftarrow> MQTT_Subscribe (mqttClient w) u (Some t) 0;
             Some (w\<lparr>mqttClient := cl, dev := (if SLEEP b then (dev w)\<lparr>timer_DisconnectMQTT := Some (Call_DisconnectMQTT, 800)\<rparr> else dev w),
               topic := t, rx_state := WAIT\<rparr>)
           } else do {
             (t, p) \<leftarrow> line_char MAX_TOPIC_LENGTH 0 c (topic w) (pointeur w);
             Some (w\<lparr>topic := t, pointeur := p\<rparr>)
           })
      | CONFIG_SSID \<Rightarrow>
          (if is_eol c then do {
             s \<leftarrow> line_end 0 (ssid w) (pointeur w);
             Some (w\<lparr>ssid := s, rx_state := WAIT\<rparr>)
           } else do {
             (s, p) \<leftarrow> line_char MAX_SSID_LENGTH 0 c (ssid w) (pointeur w);
             Some (w\<lparr>ssid := s, pointeur := p\<rparr>)
           })
      | CONFIG_NAME \<Rightarrow>
          (if is_eol c then do {
             s \<leftarrow> line_end 0 (StationName w) (pointeur w);
             Some (w\<lparr>StationName := s, rx_state := WAIT\<rparr>)
           } else do {
             (s, p) \<leftarrow> line_char MAX_LENGTH_STATION_NAME 0 c (StationName w) (pointeur w);
             Some (w\<lparr>StationName := s, pointeur := p\<rparr>)
           })
      | CONFIG_PASSWORD \<Rightarrow>
          (if is_eol c then do {
             s \<leftarrow> line_end 0 (password w) (pointeur w);
             Some (w\<lparr>password := s, rx_state := WAIT\<rparr>)
           } else do {
             (s, p) \<leftarrow> line_char MAX_PASSWORD_LENGTH 0 c (password w) (pointeur w);
             Some (w\<lparr>password := s, pointeur := p\<rparr>)
           })
      | CONFIG_ADDRESSE \<Rightarrow>
          (if is_eol c then do {
             s \<leftarrow> line_end (MAX_ADRESSE_LENGTH * num_adresse w) (adresse w) (pointeur w);
             Some (w\<lparr>adresse := s, rx_state := WAIT\<rparr>)
           } else do {
             (s, p) \<leftarrow> line_char MAX_PASSWORD_LENGTH (MAX_ADRESSE_LENGTH * num_adresse w) c (adresse w) (pointeur w);
             Some (w\<lparr>adresse := s, pointeur := p\<rparr>)
           }))"

definition rx_uart0 :: "build \<Rightarrow> 'f spi_flash \<Rightarrow> locals \<Rightarrow> u8 \<Rightarrow> firmware \<times> 'f \<Rightarrow> (firmware \<times> 'f) option" where
  "rx_uart0 b F u c = (\<lambda>(w, f).
     (let w = (if SLEEP b then w\<lparr>dev := (dev w)\<lparr>timer_DisconnectMQTT := Some (Call_DisconnectMQTT, 3000)\<rparr>\<rparr> else w)
      in if rx_state w = WAIT then Some (rx_wait F c (w, f)) else do { w \<leftarrow> rx_line b u c w; Some (w, f) }))"

section \<open>Typing\<close>

text \<open>The line that a state edits: its array, the limit of the code, and where it starts.\<close>

definition line_of :: "stateRxUart \<Rightarrow> firmware \<Rightarrow> bytes" where
  "line_of st w = (case st of WAIT \<Rightarrow> [] | CONFIG_SSID \<Rightarrow> ssid w | CONFIG_TOPIC \<Rightarrow> topic w
     | CONFIG_T_SLEEP \<Rightarrow> str_number w | CONFIG_NAME \<Rightarrow> StationName w | CONFIG_PASSWORD \<Rightarrow> password w
     | CONFIG_ADDRESSE \<Rightarrow> adresse w)"

definition set_line :: "stateRxUart \<Rightarrow> bytes \<Rightarrow> firmware \<Rightarrow> firmware" where
  "set_line st s w = (case st of WAIT \<Rightarrow> w | CONFIG_SSID \<Rightarrow> w\<lparr>ssid := s\<rparr> | CONFIG_TOPIC \<Rightarrow> w\<lparr>topic := s\<rparr>
     | CONFIG_T_SLEEP \<Rightarrow> w\<lparr>str_number := s\<rparr> | CONFIG_NAME \<Rightarrow> w\<lparr>StationName := s\<rparr>
     | CONFIG_PASSWORD \<Rightarrow> w\<lparr>password := s\<rparr> | CONFIG_ADDRESSE \<Rightarrow> w\<lparr>adresse := s\<rparr>)"

definition line_limit :: "stateRxUart \<Rightarrow> nat" where
  "line_limit st = (case st of WAIT \<Rightarrow> 0 | CONFIG_SSID \<Rightarrow> 32 | CONFIG_TOPIC \<Rightarrow> 128 | CONFIG_T_SLEEP \<Rightarrow> 10
     | CONFIG_NAME \<Rightarrow> 32 | CONFIG_PASSWORD \<Rightarrow> 64 | CONFIG_ADDRESSE \<Rightarrow> 64)"

definition line_start :: "stateRxUart \<Rightarrow> firmware \<Rightarrow> nat" where
  "line_start st w = (if st = CONFIG_ADDRESSE then 16 * num_adresse w else 0)"

lemma set_line_simps [simp]:
  "st \<noteq> WAIT \<Longrightarrow> line_of st (set_line st s w) = s" "rx_state (set_line st s w) = rx_state w"
  "pointeur (set_line st s w) = pointeur w" "line_start st (set_line st s w) = line_start st w"
  "line_of st (w\<lparr>pointeur := p\<rparr>) = line_of st w" "line_start st (w\<lparr>pointeur := p\<rparr>) = line_start st w"
  "line_of st (w\<lparr>dev := d\<rparr>) = line_of st w" "line_start st (w\<lparr>dev := d\<rparr>) = line_start st w"
  by (cases st; simp add: line_of_def set_line_def line_start_def)+

lemma rx_line_char:
  assumes "\<not> is_eol c" and "rx_state w \<noteq> WAIT"
  shows "rx_line b u c w = do {
    (s, p) \<leftarrow> line_char (line_limit (rx_state w)) (line_start (rx_state w) w) c (line_of (rx_state w) w) (pointeur w);
    Some (set_line (rx_state w) s (w\<lparr>pointeur := p\<rparr>)) }"
  using assms by (cases "rx_state w")
    (simp_all add: rx_line_def line_limit_def line_start_def line_of_def set_line_def size_defs split: bind_splits)

text \<open>The whole text of a line, on its array.\<close>

fun line_text :: "nat \<Rightarrow> nat \<Rightarrow> bytes \<Rightarrow> bytes \<Rightarrow> u8 \<Rightarrow> (bytes \<times> u8) option" where
  "line_text limit off [] buf p = Some (buf, p)"
| "line_text limit off (c # cs) buf p = do {
     (buf, p) \<leftarrow> line_char limit off c buf p;
     line_text limit off cs buf p
   }"

fun rx_text :: "build \<Rightarrow> 'f spi_flash \<Rightarrow> locals \<Rightarrow> bytes \<Rightarrow> firmware \<times> 'f \<Rightarrow> (firmware \<times> 'f) option" where
  "rx_text b F u [] s = Some s"
| "rx_text b F u (c # cs) s = do { s \<leftarrow> rx_uart0 b F u c s; rx_text b F u cs s }"

text \<open>The console's timer is no part of the line.\<close>

definition keep_awake :: "build \<Rightarrow> firmware \<Rightarrow> firmware" where
  "keep_awake b w = (if SLEEP b then w\<lparr>dev := (dev w)\<lparr>timer_DisconnectMQTT := Some (Call_DisconnectMQTT, 3000)\<rparr>\<rparr> else w)"

lemma rx_text_line:
  assumes "\<forall>c \<in> set cs. \<not> is_eol c" and "rx_state w = st" and "st \<noteq> WAIT"
  shows "case line_text (line_limit st) (line_start st w) cs (line_of st w) (pointeur w) of
      None \<Rightarrow> rx_text b F u cs (w, f) = None
    | Some (s, p) \<Rightarrow> \<exists>w'. rx_text b F u cs (w, f) = Some (w', f) \<and> line_of st w' = s \<and> pointeur w' = p \<and>
        rx_state w' = st \<and> line_start st w' = line_start st w"
  using assms
proof (induction cs arbitrary: w)
  case (Cons c cs)
  let ?w = "keep_awake b w"
  have k: "rx_state ?w = st" "line_of st ?w = line_of st w" "line_start st ?w = line_start st w" "pointeur ?w = pointeur w"
    using Cons.prems(2) by (simp_all add: keep_awake_def)
  have step: "rx_uart0 b F u c (w, f) = do { w \<leftarrow> rx_line b u c ?w; Some (w, f) }"
    using Cons.prems(3) k(1) by (simp add: rx_uart0_def keep_awake_def Let_def)
  have "rx_line b u c ?w = do {
      (s, p) \<leftarrow> line_char (line_limit st) (line_start st w) c (line_of st w) (pointeur w);
      Some (set_line st s (?w\<lparr>pointeur := p\<rparr>)) }"
    using rx_line_char [of c ?w b u] Cons.prems(1,3) k by simp
  with step have rx: "rx_uart0 b F u c (w, f) = do {
      (s, p) \<leftarrow> line_char (line_limit st) (line_start st w) c (line_of st w) (pointeur w);
      Some (set_line st s (?w\<lparr>pointeur := p\<rparr>), f) }" by (simp split: bind_splits)
  show ?case
  proof (cases "line_char (line_limit st) (line_start st w) c (line_of st w) (pointeur w)")
    case None
    with rx show ?thesis by simp
  next
    case (Some sp)
    obtain s p where sp: "sp = (s, p)" by (cases sp)
    let ?w1 = "set_line st s (?w\<lparr>pointeur := p\<rparr>)"
    have "rx_uart0 b F u c (w, f) = Some (?w1, f)" using rx Some sp by simp
    moreover have "line_of st ?w1 = s" "pointeur ?w1 = p" "rx_state ?w1 = st" "line_start st ?w1 = line_start st w"
      using k Cons.prems(3) by simp_all
    ultimately show ?thesis using Cons.IH [of ?w1] Cons.prems Some sp by (simp split: option.splits prod.splits)
  qed
qed simp

lemma line_text_defined:
  assumes "0 < limit" and "limit \<le> 128" and "unat p < limit"
  shows "line_text limit off cs buf p \<noteq> None \<longleftrightarrow>
    (cs = [] \<or> off + min (unat p + (length cs - 1)) (limit - 1) < length buf)"
  using assms(3)
proof (induction cs arbitrary: buf p)
  case (Cons c cs)
  let ?p = "if unat p < limit - 1 then p + 1 else p"
  have up: "unat ?p = min (unat p + 1) (limit - 1)"
    using Cons.prems assms(2) by (auto simp: unat_word_ariths min_def)
  show ?case
  proof (cases "off + unat p < length buf")
    case False
    moreover have "unat p \<le> min (unat p + length cs) (limit - 1)" using Cons.prems by simp
    ultimately show ?thesis by (simp add: line_char_def store_None)
  next
    case True
    have "unat ?p < limit" using up assms(1) by simp
    note ih = Cons.IH [OF this, of "buf[off + unat p := c]"]
    have run: "line_text limit off (c # cs) buf p = line_text limit off cs (buf[off + unat p := c]) ?p"
      using True by (simp add: line_char_def store_Some)
    show ?thesis
    proof (cases "cs = []")
      case True
      with \<open>off + unat p < length buf\<close> run Cons.prems show ?thesis by simp
    next
      case False
      have "min (unat ?p + (length cs - 1)) (limit - 1) = min (unat p + length cs) (limit - 1)"
        using False unfolding up by (cases cs) simp_all
      with ih run False show ?thesis by simp
    qed
  qed
qed simp

lemma line_text_short:
  assumes "limit \<le> 128" and "unat p + length cs < limit" and "off + unat p + length cs \<le> length buf"
  shows "line_text limit off cs buf p =
    Some (take (off + unat p) buf @ cs @ drop (off + unat p + length cs) buf, p + of_nat (length cs))"
  using assms(2,3)
proof (induction cs arbitrary: buf p)
  case (Cons c cs)
  have up: "unat (p + 1) = unat p + 1" using Cons.prems(1) assms(1) by (simp add: unat_word_ariths)
  have st: "store buf (off + unat p) c = Some (buf[off + unat p := c])"
    using Cons.prems(2) by (intro store_Some) simp
  have lim: "unat p < limit - 1" using Cons.prems(1) by simp
  have "line_text limit off (c # cs) buf p = line_text limit off cs (buf[off + unat p := c]) (p + 1)"
    using st lim by (simp add: line_char_def)
  also have "\<dots> = Some (take (off + unat p + 1) (buf[off + unat p := c]) @ cs @
      drop (off + unat p + 1 + length cs) (buf[off + unat p := c]), p + 1 + of_nat (length cs))"
    using Cons.IH [of "p + 1" "buf[off + unat p := c]"] Cons.prems up by simp
  also have "take (off + unat p + 1) (buf[off + unat p := c]) = take (off + unat p) buf @ [c]"
    using Cons.prems(2) by (simp add: take_Suc_conv_app_nth)
  finally show ?case using Cons.prems(2) by (simp add: add.assoc add.left_commute)
qed simp

text \<open>A terminating line end, in a state that only edits its text.\<close>

lemma rx_eol:
  assumes "rx_state w = st" and "st \<in> {CONFIG_SSID, CONFIG_NAME, CONFIG_PASSWORD, CONFIG_ADDRESSE}"
    and "line_start st w + unat (pointeur w) < length (line_of st w)"
  shows "\<exists>w'. rx_uart0 b F u 10 (w, f) = Some (w', f) \<and> rx_state w' = WAIT \<and>
    line_of st w' = (line_of st w)[line_start st w + unat (pointeur w) := 0]"
proof -
  let ?w = "keep_awake b w"
  have k: "rx_state ?w = st" "line_of st ?w = line_of st w" "line_start st ?w = line_start st w" "pointeur ?w = pointeur w"
    using assms(1) by (simp_all add: keep_awake_def)
  have "\<exists>w'. rx_line b u 10 ?w = Some w' \<and> rx_state w' = WAIT \<and>
      line_of st w' = (line_of st w)[line_start st w + unat (pointeur w) := 0]"
    using assms(2,3) k
    by (auto simp: rx_line_def is_eol_def line_end_def line_of_def line_start_def store_Some MAX_ADRESSE_LENGTH_def)
  then show ?thesis using assms(1,2) k(1) by (auto simp: rx_uart0_def keep_awake_def Let_def)
qed

lemma rx_text_append: "rx_text b F u (xs @ ys) s = do { s \<leftarrow> rx_text b F u xs s; rx_text b F u ys s }"
  by (induction xs arbitrary: s) (simp_all split: bind_splits)


section \<open>The configuration in flash\<close>

lemma read_le32_le32: "read_le32 (le32 x) = x"
proof -
  have l: "[0..<4] = [0, 1, 2, 3 :: nat]" by code_simp
  have b: "word_of_int (drop_bit n (uint x)) = (of_nat (unat x div 2 ^ n) :: u8)" for n
  proof -
    have u: "uint x = int (unat x)" by simp
    have "drop_bit n (uint x) = int (unat x div 2 ^ n)"
      unfolding drop_bit_eq_div u zdiv_int by (simp only: of_nat_power of_nat_numeral)
    then show ?thesis by (simp only: of_int_of_nat_eq)
  qed
  have "rev (le32 x) = be32 (uint x)"
    unfolding be32_def l list.map b unfolding le32_def by simp
  then show ?thesis by (simp add: read_le32_def be32_word)
qed

text \<open>Blocks written one behind the other over erased bytes.\<close>

fun write_all :: "'f spi_flash \<Rightarrow> nat \<Rightarrow> bytes list \<Rightarrow> 'f \<Rightarrow> 'f" where
  "write_all F a [] f = f"
| "write_all F a (x # xs) f = write_all F (a + length x) xs (spi_flash_write F a x f)"

lemma cell_write:
  assumes "flash_laws F" and "\<forall>i < length xs. cell F f (a + i) = 0xFF"
  shows "cell F (spi_flash_write F a xs f) x = (if a \<le> x \<and> x < a + length xs then xs ! (x - a) else cell F f x)"
  using assms by (simp add: flash_laws_def)

lemma cell_write_all:
  assumes F: "flash_laws F" and "\<forall>i < length (concat xs). cell F f (a + i) = 0xFF"
  shows "cell F (write_all F a xs f) x =
    (if a \<le> x \<and> x < a + length (concat xs) then concat xs ! (x - a) else cell F f x)"
  using assms(2)
proof (induction xs arbitrary: a f)
  case (Cons y ys)
  have y: "\<forall>i < length y. cell F f (a + i) = 0xFF" using Cons.prems by simp
  have "cell F (spi_flash_write F a y f) (a + length y + i) = 0xFF" if "i < length (concat ys)" for i
    using Cons.prems [rule_format, of "length y + i"] that cell_write [OF F y] by (simp add: add.assoc)
  then have "cell F (write_all F a (y # ys) f) x =
      (if a + length y \<le> x \<and> x < a + length y + length (concat ys) then concat ys ! (x - (a + length y))
       else cell F (spi_flash_write F a y f) x)"
    using Cons.IH [of "spi_flash_write F a y f" "a + length y"] by simp
  then show ?case using cell_write [OF F y, of x] by (auto simp: nth_append)
qed auto

lemma read_written:
  assumes F: "flash_laws F" and "s * 4096 \<le> a" and "a + length (concat xs) \<le> (s + 1) * 4096"
    and "i + n \<le> length (concat xs)"
  shows "spi_flash_read F (a + i) n (write_all F a xs (spi_flash_erase_sector F s f)) = take n (drop i (concat xs))"
proof -
  have "\<forall>i < length (concat xs). cell F (spi_flash_erase_sector F s f) (a + i) = 0xFF"
    using F assms(2,3) by (simp add: flash_laws_def)
  note c = cell_write_all [OF F this]
  have "spi_flash_read F (a + i) n g = map (cell F g) [a + i..<a + i + n]" for g
    using F by (simp add: flash_laws_def)
  then show ?thesis using assms(4) by (intro nth_equalityI) (simp_all add: c)
qed

lemma save_config_blocks:
  assumes "sizes w"
  shows "save_config F w f = write_all F 0x7A000
    [ssid w, password w, adresse w, StationName w, le32 (echelle (dev w))] (spi_flash_erase_sector F 0x7A f)"
  using assms by (simp add: save_config_def Let_def sizes_def size_defs ADRESSE_CONFIG_IN_FLASH_def)

text \<open>What \<open>user_init\<close> reads after \<open>save_and_restart\<close>, whatever the memory held before.\<close>

lemma read_saved:
  assumes "flash_laws F" and "sizes w" and "length (MYID w0) = MAX_ID_LENGTH"
  shows "read_config F (snd (save_and_restart F (w, f))) chip w0 = Some (w0\<lparr>
    dev := (dev w0)\<lparr>echelle := echelle (dev w)\<rparr>, StationName := (StationName w)[31 := 0],
    MYID := hex_text (sint chip) @ drop 10 (MYID w0), ssid := (ssid w)[31 := 0],
    password := (password w)[63 := 0], adresse := (adresse w)[15 := 0, 31 := 0, 47 := 0, 63 := 0]\<rparr>)"
proof -
  let ?xs = "[ssid w, password w, adresse w, StationName w, le32 (echelle (dev w))]"
  let ?f = "snd (save_and_restart F (w, f))"
  have l: "length (ssid w) = 32" "length (password w) = 64" "length (adresse w) = 64"
    "length (StationName w) = 32" "length (le32 (echelle (dev w))) = 4"
    using assms(2) by (simp_all add: sizes_def size_defs le32_def)
  have f: "?f = write_all F 0x7A000 ?xs (spi_flash_erase_sector F 0x7A f)"
    by (simp add: save_and_restart_def save_config_blocks [OF assms(2)])
  have rd: "spi_flash_read F (0x7A000 + i) n ?f = take n (drop i (concat ?xs))" if "i + n \<le> 196" for i n
    unfolding f by (rule read_written [OF assms(1)]) (use that l in simp_all)
  have r: "spi_flash_read F 0x7A000 32 ?f = ssid w" "spi_flash_read F 0x7A020 64 ?f = password w"
    "spi_flash_read F 0x7A060 64 ?f = adresse w" "spi_flash_read F 0x7A0A0 32 ?f = StationName w"
    "spi_flash_read F 0x7A0C0 4 ?f = le32 (echelle (dev w))"
    using rd [of 0 32] rd [of 32 64] rd [of 96 64] rd [of 160 32] rd [of 192 4] l by simp_all
  have "length (MYID w0) = 16" using assms(3) by (simp add: sizes_def size_defs)
  then have "length (take 10 (MYID w0)) = 10" by simp
  from int_to_srthex_spec(1) [OF this, of "sint chip" "drop 10 (MYID w0)"] int_to_srthex_spec(2) [OF this, of "sint chip"]
    \<open>length (MYID w0) = 16\<close>
  have my: "int_to_srthex (sint chip) (MYID w0) = Some (hex_text (sint chip) @ drop 10 (MYID w0))" by simp
  show ?thesis using l r my
    by (simp add: read_config_def Let_def size_defs ADRESSE_CONFIG_IN_FLASH_def store_def read_le32_le32 sizes_def)
qed

text \<open>
  C12: the configuration survives a restart. With a flash that behaves as documented, what
  \<open>save_and_restart\<close> writes is what \<open>user_init\<close> reads: network name, password, addresses,
  station name and sleep time come back, with the last character of each text replaced by a
  terminator, whatever the flash and the variables held before.
\<close>

theorem config_roundtrip:
  assumes "flash_laws F" and "sizes w" and "sizes w0"
  shows "\<exists>w'. read_config F (snd (save_and_restart F (w, f))) chip w0 = Some w' \<and> sizes w' \<and>
    ssid w' = (ssid w)[31 := 0] \<and> password w' = (password w)[63 := 0] \<and>
    adresse w' = (adresse w)[15 := 0, 31 := 0, 47 := 0, 63 := 0] \<and>
    StationName w' = (StationName w)[31 := 0] \<and> echelle (dev w') = echelle (dev w)"
proof -
  have "length (MYID w0) = MAX_ID_LENGTH" "length (hex_text (sint chip)) = 10"
    using assms(3) int_to_srthex_spec(2) [of "replicate 10 0" "sint chip"] by (simp_all add: sizes_def)
  with read_saved [OF assms(1,2)] assms(2,3) show ?thesis by (simp add: sizes_def size_defs)
qed

text \<open>A station under configuration, and a flash that behaves as documented.\<close>

definition example_firmware :: firmware where
  "example_firmware = station.extend example_station \<lparr>ssid = replicate 32 0, password = replicate 64 0,
     adresse = replicate 64 0, rx_state = CONFIG_ADDRESSE, pointeur = 0, num_adresse = 3,
     str_number = replicate 10 0, restarted = False\<rparr>"

lemma example_sizes: "sizes example_firmware"
  by (simp add: sizes_def size_defs example_firmware_def example_station_def station.extend_def)

definition nor_flash :: "(nat \<Rightarrow> u8) spi_flash" where
  "nor_flash = \<lparr>spi_flash_read = (\<lambda>a n f. map f [a..<a + n]),
     spi_flash_write = (\<lambda>a xs f x. if a \<le> x \<and> x < a + length xs then f x AND xs ! (x - a) else f x),
     spi_flash_erase_sector = (\<lambda>s f x. if s * 4096 \<le> x \<and> x < (s + 1) * 4096 then 0xFF else f x)\<rparr>"


lemma nor_flash_laws: "flash_laws nor_flash"
proof -
  have c: "cell nor_flash f a = f a" for f a by (simp add: cell_def nor_flash_def)
  have "(0xFF :: u8) = - 1" by simp
  then have a: "(0xFF :: u8) AND y = y" for y by (simp only: and.left_neutral)
  have "f x AND xs ! (x - a) = xs ! (x - a)"
    if "\<forall>i < length xs. f (a + i) = 0xFF" "a \<le> x" "x < a + length xs" for a x and xs :: bytes and f :: "nat \<Rightarrow> u8"
    using that(1) [rule_format, of "x - a"] that(2,3) a [of "xs ! (x - a)"] by simp
  then show ?thesis unfolding flash_laws_def c by (auto simp: nor_flash_def)
qed

lemma config_roundtrip_witness:
  "\<exists>w'. read_config nor_flash (snd (save_and_restart nor_flash (example_firmware\<lparr>ssid := chars ''home'' @ replicate 28 0\<rparr>,
      \<lambda>_. 0))) 0xABCDEF example_firmware = Some w' \<and> ssid w' = chars ''home'' @ replicate 28 0"
proof -
  let ?s = "chars ''home'' @ replicate 28 0"
  have "sizes (example_firmware\<lparr>ssid := ?s\<rparr>)" using example_sizes by (simp add: sizes_def size_defs)
  moreover have "?s[31 := 0] = ?s" by code_simp
  ultimately show ?thesis
    using config_roundtrip [OF nor_flash_laws, of "example_firmware\<lparr>ssid := ?s\<rparr>" example_firmware "\<lambda>_. 0" "0xABCDEF"]
      example_sizes by auto
qed

end
