(* ===== verification/Boot.thy ===== *)
theory Boot
  imports Console
begin

text \<open>
  The start of the firmware, \<open>user_rf_pre_init\<close> and \<open>user_init\<close> of \<open>user/user_main.c\<close>, from the
  reset state to the state in which the station's steps begin.

  The registers that select pin functions, enable interrupts and configure the UART, SPI, clock
  and sleep type are not part of the state, nor is the SDK timer that sends the power.
\<close>

section \<open>Network\<close>

text \<open>\<open>config_ap\<close>: how the interface gets its address, and the texts given to the SDK.\<close>

datatype ip_setup = DHCP | Static bytes bytes bytes

definition config_ap :: "firmware \<Rightarrow> (ip_setup \<times> bytes \<times> bytes \<times> firmware) option" where
  "config_ap w = do {
     a \<leftarrow> load (adresse w) 0;
     let ip = (if a \<noteq> 0 then Static (adresse w) (drop MAX_ADRESSE_LENGTH (adresse w))
         (drop (2 * MAX_ADRESSE_LENGTH) (adresse w)) else DHCP);
     s \<leftarrow> store (ssid w) (MAX_SSID_LENGTH - 1) 0;
     p \<leftarrow> store (password w) (MAX_PASSWORD_LENGTH - 1) 0;
     Some (ip, s, p, w\<lparr>ssid := s, password := p\<rparr>)
   }"

section \<open>Start\<close>

text \<open>The variables at reset: zero, but for the last level reported by the shutter and the first PWM power of the other builds.\<close>

definition reset_device :: "build \<Rightarrow> device" where
  "reset_device b = \<lparr>puissance_triac = 0, timer_triack_on = False,
     puissance_pwm = (if STORE b then replicate (length (BIT_PWM b)) 0
       else take (length (BIT_PWM b)) (100 # replicate (length (BIT_PWM b) - 1) 0)),
     pwm_on = [False, False], niveau = 0, consinge = 0, niveau_100 = - 1, echelle = 0,
     timer_timout_store = None, timer_0V = None, timer_DisconnectMQTT = None, timer_mesure = None, timer_time_out_connection = None,
     irq_store = False, pins = (\<lambda>_. False), TLI4970_is_enable = 0, temp_from_zero_cross = 0, num_mesure = 0,
     mesure_sum = 0, moyen_power = 0, old_stat_switch = 0, ubat = 0,
     disconnect_ignored = False, deep_sleep = None,
     timers = \<lparr>tab_callback_time = replicate (NB_MAX_CALLBACK_TIME b) \<lparr>cb_period = 0, cb_cpt = 0, cb_fn = None\<rparr>,
       tm_us = 0, tm_ticks = 0\<rparr>, reports = []\<rparr>"

text \<open>\<open>mqttClient\<close> is zero until \<open>mqttInit\<close> clears and fills it.\<close>

definition reset_firmware :: "build \<Rightarrow> mqtt_client \<Rightarrow> firmware" where
  "reset_firmware b zero_client = \<lparr>mqttClient = zero_client, user = user_reset, dev = reset_device b,
     StationName = replicate 32 0, MYID = replicate 16 0, id_string = replicate 100 0, topic = replicate 128 0,
     ssid = replicate 32 0, password = replicate 64 0, adresse = replicate 64 0, rx_state = WAIT,
     pointeur = 0, num_adresse = 0, str_number = replicate 10 0, restarted = False\<rparr>"

fun add_callbacks :: "(u32 \<times> t_call_back) list \<Rightarrow> timers \<Rightarrow> timers option" where
  "add_callbacks [] t = Some t"
| "add_callbacks ((p, f) # fs) t = do { t \<leftarrow> timer_add_callback p f t; add_callbacks fs t }"

text \<open>The callbacks that \<open>user_init\<close> registers for the triac and for the PWM outputs.\<close>

definition triac_callbacks :: "build \<Rightarrow> (u32 \<times> t_call_back) list" where
  "triac_callbacks b =
     (if \<not> TRIACK b then [] else if HALF_SIN b
      then [(20001, CB_ZeroCross), (100000, CB_timerDisableTriack)] else [(20001, CB_timerZeroCross)])"

definition pwm_callbacks :: "build \<Rightarrow> (u32 \<times> t_call_back) list" where
  "pwm_callbacks b =
     (if \<not> PWM b then [] else (100 * PWM_SCALL b, CB_timerPwm1) #
        (if length (BIT_PWM b) > 1 then [(150 * PWM_SCALL b, CB_timerPwm2)] else []))"

definition user_rf_pre_init :: "build \<Rightarrow> i2c \<Rightarrow> i2c" where
  "user_rf_pre_init b bus = (if PCF8885 b then i2c_master_gpio_init bus else bus)"

text \<open>
  The parts of \<open>user_init\<close>: up to the configuration; the outputs; the timers; the power meter.
  An empty battery sends the chip to sleep for half an hour; the code goes on until it does.
\<close>

definition T_LONG_SLEEP :: u32 where "T_LONG_SLEEP = 30 * 60"
definition TIMOUT_CONNECTION :: nat where "TIMOUT_CONNECTION = 40000"

definition battery_voltage :: "u16 \<Rightarrow> int" where
  "battery_voltage adc = to_s16 (push_bit 6 (uint adc) div 21)"

definition init_power :: "build \<Rightarrow> u16 \<Rightarrow> 'c spi \<Rightarrow> 'c sensor \<Rightarrow> device \<Rightarrow> ('c sensor \<times> device) option" where
  "init_power b adc spi s d = do {
     let d = (if SWITCH_ONLY b then set_pin 13 True d else d);
     let d = (if SLEEP b then d\<lparr>ubat := battery_voltage adc\<rparr> else d);
     let d = (if METEO b \<and> ubat d < 1200 then system_deep_sleep (T_LONG_SLEEP * 1000 * 1000) d else d);
     (s, d) \<leftarrow> (if METEO b then do {
         s \<leftarrow> bme280_init_user spi s;
         Some (s, if SLEEP b then d\<lparr>timer_mesure := Some (Call_timer_mesure_handler, 100)\<rparr> else d)
       } else Some (s, d));
     Some (s, if ADS786x b then set_pin 5 False d else d)
   }"

definition init_pins :: "build \<Rightarrow> device \<Rightarrow> device" where
  "init_pins b d =
     (let d = (if PWM b then fold (\<lambda>n. set_pin n False) (BIT_PWM b) d else d)
      in if RELAY b then set_pin (BIT_RELAY b) True d else d)"

definition init_timers :: "build \<Rightarrow> device \<Rightarrow> device option" where
  "init_timers b d = do {
     let d = (if TRIACK b \<or> TLI4970_ENABLE b \<or> PWM b then d\<lparr>timers := timer_init (PRECISION_TIMER b) (timers d)\<rparr> else d);
     let d = (if SLEEP b then d\<lparr>timer_time_out_connection := Some TIMOUT_CONNECTION\<rparr> else d);
     d \<leftarrow> on_timers (add_callbacks (triac_callbacks b)) d;
     let d = (if TRIACK b then set_pin BIT_TRIAC False d else d);
     on_timers (add_callbacks (pwm_callbacks b)) d
   }"

definition init_meter :: "build \<Rightarrow> device \<Rightarrow> device option" where
  "init_meter b d = do {
     let d = (if DETECT_0V b then d\<lparr>timer_0V := None\<rparr> else d);
     if TLI4970_ENABLE b then on_timers (timer_add_callback 500 CB_timerMesureSampleAdc) (TLI4970_disable d) else Some d
   }"

text \<open>An operation of the station in the whole firmware.\<close>

definition on_station :: "(station \<Rightarrow> station option) \<Rightarrow> firmware \<Rightarrow> firmware option" where
  "on_station f w = do { s \<leftarrow> f (station.truncate w); Some (station.extend s (station.more w)) }"

text \<open>What the code finds: flash, chip number, ADC, the two buses, and the memory of the calls of \<open>send_paquet_sensor\<close>.\<close>

record ('f, 'c) board =
  bd_flash :: "'f spi_flash"
  bd_mem :: 'f
  bd_chip :: u32
  bd_adc :: u16
  bd_spi :: "'c spi"
  bd_peer :: bus_peer
  bd_stack :: "nat \<Rightarrow> bytes \<times> locals"

definition user_init ::
    "build \<Rightarrow> ('f, 'c) board \<Rightarrow> 'c sensor \<Rightarrow> i2c \<Rightarrow> firmware \<Rightarrow> ('c sensor \<times> i2c \<times> firmware) option" where
  "user_init b B s bus w = do {
     (s, d) \<leftarrow> init_power b (bd_adc B) (bd_spi B) s (dev w);
     w \<leftarrow> read_config (bd_flash B) (bd_mem B) (bd_chip B) (w\<lparr>dev := d\<rparr>);
     let w = w\<lparr>dev := init_pins b (dev w)\<rparr>;
     (ip, ssid', password', w) \<leftarrow> config_ap w;
     first \<leftarrow> load (StationName w) 0;
     w \<leftarrow> (if first \<noteq> 0 then do {
            (c, us) \<leftarrow> mqttInit b (drop (3 * MAX_ADRESSE_LENGTH) (adresse w)) (bd_chip B) (user w);
            Some (w\<lparr>mqttClient := c, user := us\<rparr>)
          } else Some w);
     d \<leftarrow> init_timers b (dev w);
     let w = w\<lparr>dev := d\<rparr>;
     (bus, w) \<leftarrow> (if PCF8885 b \<and> SWITCH_ONLY b then do {
            let (_, bus, d) = send_PCF8885 b (bd_peer B) bus (dev w);
            w \<leftarrow> on_station (after_device (bd_stack B) d) w;
            Some (bus, w)
          } else Some (bus, w));
     d \<leftarrow> init_meter b (dev w);
     Some (s, bus, w\<lparr>dev := d\<rparr>)
   }"

text \<open>The flash layouts of the SDK.\<close>

datatype flash_size_map =
    FLASH_SIZE_4M_MAP_256_256 | FLASH_SIZE_2M | FLASH_SIZE_8M_MAP_512_512 | FLASH_SIZE_16M_MAP_512_512
  | FLASH_SIZE_32M_MAP_512_512 | FLASH_SIZE_16M_MAP_1024_1024 | FLASH_SIZE_32M_MAP_1024_1024

definition user_rf_cal_sector_set :: "flash_size_map \<Rightarrow> u32" where
  "user_rf_cal_sector_set size_map = (case size_map of
       FLASH_SIZE_4M_MAP_256_256 \<Rightarrow> 128 - 5
     | FLASH_SIZE_8M_MAP_512_512 \<Rightarrow> 256 - 5
     | FLASH_SIZE_16M_MAP_512_512 \<Rightarrow> 512 - 5
     | FLASH_SIZE_16M_MAP_1024_1024 \<Rightarrow> 512 - 5
     | FLASH_SIZE_32M_MAP_512_512 \<Rightarrow> 1024 - 5
     | FLASH_SIZE_32M_MAP_1024_1024 \<Rightarrow> 1024 - 5
     | _ \<Rightarrow> 0)"

section \<open>The timers after a start\<close>

lemma update_first_total: "(\<And>x. \<exists>y. f x = Some y) \<Longrightarrow> \<exists>ys. update_first P f xs = Some ys"
proof (induction xs)
  case (Cons x xs)
  assume f: "\<And>x. \<exists>y. f x = Some y"
  obtain y where "f x = Some y" using f by blast
  with Cons f show ?case by auto
qed simp

lemma add_callbacks_defined: "tm_us t \<noteq> 0 \<Longrightarrow> \<exists>t'. add_callbacks fs t = Some t' \<and> tm_us t' = tm_us t"
proof (induction fs t rule: add_callbacks.induct)
  case (2 p f fs t)
  have "\<exists>y. do { s \<leftarrow> set_period p (tm_us t) s; Some (s\<lparr>cb_fn := Some f\<rparr>) } = Some y" for s
    using "2.prems" by (simp add: set_period_def)
  then have "\<exists>tab. update_first (\<lambda>s. cb_fn s = None)
      (\<lambda>s. do { s \<leftarrow> set_period p (tm_us t) s; Some (s\<lparr>cb_fn := Some f\<rparr>) }) (tab_callback_time t) = Some tab"
    by (rule update_first_total)
  then obtain tab where "timer_add_callback p f t = Some (t\<lparr>tab_callback_time := tab\<rparr>)"
    by (auto simp: timer_add_callback_def)
  with 2 show ?case by simp
qed simp

text \<open>What the timers leave alone.\<close>

definition untouched :: "device \<Rightarrow> device \<Rightarrow> bool" where
  "untouched d d' \<longleftrightarrow> puissance_triac d' = puissance_triac d \<and> timer_triack_on d' = timer_triack_on d \<and>
     puissance_pwm d' = puissance_pwm d \<and> old_stat_switch d' = old_stat_switch d \<and> reports d' = reports d"

lemma untouched_refl [simp]: "untouched d d"
  by (simp add: untouched_def)

lemma untouched_fields [simp]:
  "untouched d (d'\<lparr>timers := t\<rparr>) = untouched d d'" "untouched d (set_pin n v d') = untouched d d'"
  "untouched d (d'\<lparr>timer_time_out_connection := x\<rparr>) = untouched d d'" "untouched d (d'\<lparr>timer_0V := y\<rparr>) = untouched d d'"
  "untouched d (TLI4970_disable d') = untouched d d'"
  by (simp_all add: untouched_def set_pin_def TLI4970_disable_def)

lemma set_pin_fields [simp]: "timers (set_pin n v d) = timers d"
    "timer_time_out_connection (set_pin n v d) = timer_time_out_connection d"
  by (simp_all add: set_pin_def)

lemma ucast_zero: "x \<noteq> 0 \<Longrightarrow> (ucast x :: u32) \<noteq> 0" for x :: u16
proof
  assume x: "x \<noteq> 0" "(ucast x :: u32) = 0"
  then have "uint (ucast x :: u32) = 0" by simp
  moreover have "take_bit 32 (uint x) = uint x"
    using uint_lt2p [of x] by (intro take_bit_int_eq_self) simp_all
  ultimately have "uint x = 0" by (simp add: unsigned_ucast_eq)
  with x show False by (simp add: uint_0_iff)
qed

lemma init_timers_defined:
  assumes "PRECISION_TIMER b \<noteq> 0"
  shows "\<exists>d'. init_timers b d = Some d' \<and> untouched d d' \<and>
    (SLEEP b \<longrightarrow> timer_time_out_connection d' \<noteq> None) \<and>
    (TRIACK b \<or> TLI4970_ENABLE b \<or> PWM b \<longrightarrow> tm_us (timers d') \<noteq> 0 \<and>
      do { t \<leftarrow> add_callbacks (triac_callbacks b) (timer_init (PRECISION_TIMER b) (timers d));
        add_callbacks (pwm_callbacks b) t } = Some (timers d'))"
proof -
  define d0 where "d0 = (if SLEEP b then d\<lparr>timer_time_out_connection := Some TIMOUT_CONNECTION\<rparr> else d)"
  have d0: "untouched d d0" "SLEEP b \<longrightarrow> timer_time_out_connection d0 \<noteq> None" by (simp_all add: d0_def)
  show ?thesis
  proof (cases "TRIACK b \<or> TLI4970_ENABLE b \<or> PWM b")
    case True
    let ?t = "timer_init (PRECISION_TIMER b) (timers d)"
    have us: "tm_us ?t \<noteq> 0" using assms by (simp add: timer_init_def ucast_zero)
    obtain t1 where t1: "add_callbacks (triac_callbacks b) ?t = Some t1" "tm_us t1 = tm_us ?t"
      using add_callbacks_defined [OF us] by blast
    with us add_callbacks_defined [of t1] obtain t2 where t2: "add_callbacks (pwm_callbacks b) t1 = Some t2" "tm_us t2 = tm_us ?t"
      by auto
    define d1 where "d1 = (if TRIACK b then set_pin BIT_TRIAC False (d0\<lparr>timers := t1\<rparr>) else d0\<lparr>timers := t1\<rparr>)"
    have d1: "timers d1 = t1" "untouched d d1" "timer_time_out_connection d1 = timer_time_out_connection d0"
      using d0 by (simp_all add: d1_def)
    have d0': "(if SLEEP b then d\<lparr>timers := ?t, timer_time_out_connection := Some TIMOUT_CONNECTION\<rparr> else d\<lparr>timers := ?t\<rparr>) = d0\<lparr>timers := ?t\<rparr>"
      by (simp add: d0_def)
    have "init_timers b d = do { d \<leftarrow> on_timers (add_callbacks (triac_callbacks b)) (d0\<lparr>timers := ?t\<rparr>);
        on_timers (add_callbacks (pwm_callbacks b)) (if TRIACK b then set_pin BIT_TRIAC False d else d) }"
      unfolding init_timers_def Let_def if_P [OF True] d0' by (rule refl)
    also have "on_timers (add_callbacks (triac_callbacks b)) (d0\<lparr>timers := ?t\<rparr>) = Some (d0\<lparr>timers := t1\<rparr>)"
      using t1(1) by (simp add: on_timers_def)
    finally have "init_timers b d = on_timers (add_callbacks (pwm_callbacks b)) d1"
      by (simp add: d1_def)
    then have "init_timers b d = Some (d1\<lparr>timers := t2\<rparr>)"
      using t2(1) d1(1) by (simp add: on_timers_def)
    then show ?thesis using t1(1) t2 us d1 d0(2) by (intro exI [of _ "d1\<lparr>timers := t2\<rparr>"] conjI) simp_all
  next
    case False
    then have "init_timers b d = Some d0"
      by (simp add: init_timers_def on_timers_def triac_callbacks_def pwm_callbacks_def Let_def d0_def)
    with d0 False show ?thesis by auto
  qed
qed

lemma init_meter_defined:
  assumes "TLI4970_ENABLE b \<longrightarrow> tm_us (timers d) \<noteq> 0"
  shows "\<exists>d'. init_meter b d = Some d' \<and> untouched d d' \<and> timer_time_out_connection d' = timer_time_out_connection d \<and>
    (TLI4970_ENABLE b \<longrightarrow> timer_add_callback 500 CB_timerMesureSampleAdc (timers d) = Some (timers d'))"
proof (cases "TLI4970_ENABLE b")
  case True
  then obtain t where t: "timer_add_callback 500 CB_timerMesureSampleAdc (timers d) = Some t"
    using assms add_callbacks_defined [of "timers d" "[(500, CB_timerMesureSampleAdc)]"] by (auto split: bind_splits)
  then show ?thesis
    using True by (simp add: init_meter_def on_timers_def TLI4970_disable_def Let_def)
qed (simp add: init_meter_def)

lemma build_precision: "device_kind b act safe \<Longrightarrow> PRECISION_TIMER b \<noteq> 0"
  by (auto simp: device_kind_def plain_builds_def build_PRISE_def build_PWM_TRIACK_def
    build_PWM_TRIACK_0V_DETECT_def build_RADIATOR_def build_STORE_def build_PWM_12V_def
    build_PWM_12V_AND_SWITCH_PCF8885_def build_SONOFF_def build_METEO_def build_METEO_ADS786X_def
    build_SWITCH_PCF8885_def plain_build_def)

text \<open>The plug: the timer of the triac is free, and its callback not registered.\<close>

lemma plug_timers:
  assumes "timers d = timers (reset_device build_PRISE)" and "init_timers build_PRISE d = Some d1"
    and "init_meter build_PRISE d1 = Some d2"
  shows "tm_us (timers d2) \<noteq> 0 \<and> registered CB_timerEnableTriack (timers d2) = 0 \<and> free_slot (timers d2)"
proof -
  let ?f = "\<lambda>t. do { t \<leftarrow> add_callbacks (triac_callbacks build_PRISE) (timer_init (PRECISION_TIMER build_PRISE) t);
      t \<leftarrow> add_callbacks (pwm_callbacks build_PRISE) t; timer_add_callback 500 CB_timerMesureSampleAdc t }"
  have b: "TRIACK build_PRISE" "TLI4970_ENABLE build_PRISE" "PRECISION_TIMER build_PRISE \<noteq> 0"
    by (simp_all add: build_PRISE_def plain_build_def)
  note t = init_timers_defined [OF b(3), of d]
  have "do { t \<leftarrow> add_callbacks (triac_callbacks build_PRISE) (timer_init (PRECISION_TIMER build_PRISE) (timers d));
      add_callbacks (pwm_callbacks build_PRISE) t } = Some (timers d1)" "tm_us (timers d1) \<noteq> 0"
    using t assms(2) b by auto
  moreover have "timer_add_callback 500 CB_timerMesureSampleAdc (timers d1) = Some (timers d2)"
    using init_meter_defined [of build_PRISE d1] calculation(2) assms(3) b by auto
  ultimately have "?f (timers (reset_device build_PRISE)) = Some (timers d2)"
    using assms(1) by (auto simp: bind_eq_Some_conv)
  moreover have "case ?f (timers (reset_device build_PRISE)) of None \<Rightarrow> False
      | Some t \<Rightarrow> tm_us t \<noteq> 0 \<and> registered CB_timerEnableTriack t = 0 \<and> free_slot t"
    by code_simp
  ultimately show ?thesis by simp
qed

text \<open>The device before the timers are started, and that it is safe once they are.\<close>

definition fresh :: "build \<Rightarrow> device \<Rightarrow> bool" where
  "fresh b d \<longleftrightarrow> untouched (reset_device b) d \<and> timers d = timers (reset_device b)"

lemma start_safe:
  assumes "device_kind b act safe" and "fresh b d" and "init_timers b d = Some d1"
    and "untouched (d1\<lparr>old_stat_switch := old_stat_switch d2, reports := reports d2\<rparr>) d2"
    and "timers d2 = timers d1" and "timer_time_out_connection d2 = timer_time_out_connection d1"
    and "old_stat_switch d2 AND MASQUE_SWITCH = old_stat_switch d2"
    and "init_meter b d2 = Some d3"
  shows "safe d3"
proof -
  have "PRECISION_TIMER b \<noteq> 0" using assms(1) by (rule build_precision)
  from init_timers_defined [OF this, of d] assms(3) have d1: "untouched d d1"
    "SLEEP b \<longrightarrow> timer_time_out_connection d1 \<noteq> None"
    "TRIACK b \<or> TLI4970_ENABLE b \<or> PWM b \<longrightarrow> tm_us (timers d1) \<noteq> 0" by auto
  have "untouched d2 d3 \<and> timer_time_out_connection d3 = timer_time_out_connection d2"
    using init_meter_defined [of b d2] d1(3) assms(5,8) by auto
  then have p: "puissance_triac d3 = 0" "\<not> timer_triack_on d3" "puissance_pwm d3 = puissance_pwm (reset_device b)"
    "old_stat_switch d3 = old_stat_switch d2" "SLEEP b \<longrightarrow> timer_time_out_connection d3 \<noteq> None"
    using assms(2,4,6) d1 by (simp_all add: fresh_def untouched_def reset_device_def)
  consider "b = build_PRISE" "safe = dimmer_ok"
    | "safe = on_off b" | "b = build_STORE" "safe = motor_ok" | "b \<in> set plain_builds" "safe = plain_ok b"
    using assms(1) by (auto simp: device_kind_def)
  then show ?thesis
  proof cases
    case 1
    have "\<exists>d4. init_meter build_PRISE d1 = Some d4 \<and> timers d4 = timers d3"
      using init_meter_defined [of build_PRISE d1] init_meter_defined [of build_PRISE d2] d1(3) assms(5,8)
      by (auto simp: 1(1) build_PRISE_def plain_build_def)
    then show ?thesis
      using plug_timers [of d d1] assms(2,3) p by (auto simp: 1 dimmer_ok_def fresh_def power_ok_def)
  next
    case 2
    with p show ?thesis by (simp add: on_off_def)
  next
    case 3
    with p show ?thesis by (simp add: motor_ok_def reset_device_def build_STORE_def)
  next
    case 4
    have "\<forall>x \<in> set (puissance_pwm (reset_device b)). unat x \<le> 100"
      using set_take_subset [of "length (BIT_PWM b)" "100 # replicate (length (BIT_PWM b) - 1) (0 :: u32)"]
      by (auto simp: reset_device_def split: if_splits dest!: in_set_takeD)
    with 4 p assms(7) show ?thesis by (simp add: plain_ok_def)
  qed
qed

section \<open>From the flash to a running station\<close>

lemma init_power_defined:
  assumes "METEO b \<longrightarrow> (\<exists>s'. bme280_init_user spi s = Some s')"
  shows "\<exists>s' d'. init_power b adc spi s d = Some (s', d') \<and> untouched d d' \<and> timers d' = timers d"
proof -
  define d1 where "d1 = (if SWITCH_ONLY b then set_pin 13 True d else d)"
  define d2 where "d2 = (if SLEEP b then d1\<lparr>ubat := battery_voltage adc\<rparr> else d1)"
  define d3 where "d3 = (if METEO b \<and> ubat d2 < 1200 then system_deep_sleep (T_LONG_SLEEP * 1000 * 1000) d2 else d2)"
  define d4 where "d4 = (if SLEEP b then d3\<lparr>timer_mesure := Some (Call_timer_mesure_handler, 100)\<rparr> else d3)"
  have k1: "untouched d d1 \<and> timers d1 = timers d" by (simp add: d1_def)
  have k2: "untouched d d2 \<and> timers d2 = timers d" using k1 by (simp add: d2_def untouched_def)
  have k3: "untouched d d3 \<and> timers d3 = timers d" using k2 by (simp add: d3_def untouched_def system_deep_sleep_def)
  have k4: "untouched d d4 \<and> timers d4 = timers d" using k3 by (simp add: d4_def untouched_def)
  have "\<exists>s' d5. (if METEO b then do {
         s \<leftarrow> bme280_init_user spi s;
         Some (s, if SLEEP b then d3\<lparr>timer_mesure := Some (Call_timer_mesure_handler, 100)\<rparr> else d3)
       } else Some (s, d3)) = Some (s', d5) \<and> untouched d d5 \<and> timers d5 = timers d"
    using assms k3 k4 by (auto simp: d4_def)
  then obtain s' d5 where d5: "(if METEO b then do {
         s \<leftarrow> bme280_init_user spi s;
         Some (s, if SLEEP b then d3\<lparr>timer_mesure := Some (Call_timer_mesure_handler, 100)\<rparr> else d3)
       } else Some (s, d3)) = Some (s', d5)" "untouched d d5" "timers d5 = timers d" by blast
  have "init_power b adc spi s d = Some (s', if ADS786x b then set_pin 5 False d5 else d5)"
    unfolding init_power_def Let_def d1_def [symmetric] d2_def [symmetric] d3_def [symmetric] d5(1) by simp
  with d5(2,3) show ?thesis by simp
qed

lemma init_pins_untouched: "untouched d (init_pins b d) \<and> timers (init_pins b d) = timers d"
proof -
  have "untouched d' (fold (\<lambda>n. set_pin n False) ps d) \<and> timers (fold (\<lambda>n. set_pin n False) ps d) = timers d"
    if "untouched d' d" for ps d d'
    using that by (induction ps arbitrary: d) simp_all
  from this [OF untouched_refl, of d "BIT_PWM b"] show ?thesis by (simp add: init_pins_def)
qed

lemma untouched_trans: "untouched d d1 \<Longrightarrow> untouched d1 d2 \<Longrightarrow> untouched d d2"
  by (simp add: untouched_def)

lemma config_ap_defined:
  assumes "sizes w"
  shows "\<exists>ip s p. config_ap w = Some (ip, s, p, w\<lparr>ssid := (ssid w)[31 := 0], password := (password w)[63 := 0]\<rparr>)"
  using assms by (simp add: config_ap_def load_def store_def sizes_def size_defs Let_def)

lemma on_station_reports:
  assumes "station_ok (station.truncate w)" and "reports d = reports (dev w) @ rs" and "\<forall>r \<in> set rs. sendable r"
    and "\<forall>n. length (fst (mem n)) = 40 \<and> locals_ok (snd (mem n))"
  shows "\<exists>w'. on_station (after_device mem d) w = Some w' \<and> station_ok (station.truncate w') \<and> dev w' = d \<and> user w' = user w"
proof -
  let ?s = "(station.truncate w)\<lparr>dev := d\<rparr>"
  have "station_ok ?s" using assms(1) by (simp add: station_ok_def texts_ok_def)
  from publish_reports_ok [OF this assms(3,4)] obtain s' where
    s': "publish_reports mem rs ?s = Some s'" "station_ok s'" "dev s' = d" "user s' = user w"
    by (auto simp: station.truncate_def)
  have "after_device mem d (station.truncate w) = Some s'"
    using s'(1) assms(2) by (simp add: after_device_def station.truncate_def)
  moreover have "station.truncate (station.extend s' (station.more w)) = s'" "dev (station.extend s' (station.more w)) = dev s'"
    "user (station.extend s' (station.more w)) = user s'"
    by (simp_all add: station.truncate_def station.extend_def)
  ultimately show ?thesis using s'(2-4) by (simp add: on_station_def)
qed

lemma hex_text_ends: "length (hex_text v) = 10" "0 \<in> set (hex_text v)"
  using int_to_srthex_spec(2) [of "replicate 10 0" v] by (simp_all add: hex_text_def Let_def)

lemma cstr_length: "length (cstr s) \<le> length s"
  by (simp add: cstr_def length_takeWhile_le)

text \<open>The broker's address as \<open>user_init\<close> leaves it: the fourth of the addresses, terminated.\<close>

definition broker :: "firmware \<Rightarrow> bytes" where
  "broker w = (drop 48 (adresse w))[15 := 0]"

lemma reset_firmware_parts: "dev (reset_firmware b z) = reset_device b" "user (reset_firmware b z) = user_reset"
  by (simp_all add: reset_firmware_def)

lemma broker_ok:
  assumes "sizes w"
  shows "0 \<in> set (broker w)" "length (cstr (broker w)) < 64"
  using assms le_less_trans [OF cstr_length, of "broker w" 64]
  by (simp_all add: broker_def sizes_def size_defs set_update_memI)

text \<open>The firmware once it has read what was saved of \<open>w\<close>.\<close>

definition configured :: "build \<Rightarrow> mqtt_client \<Rightarrow> firmware \<Rightarrow> u32 \<Rightarrow> device \<Rightarrow> firmware" where
  "configured b zero_client w chip d = (reset_firmware b zero_client)\<lparr>dev := d\<lparr>echelle := echelle (dev w)\<rparr>,
     StationName := (StationName w)[31 := 0], MYID := hex_text (sint chip) @ replicate 6 0,
     ssid := (ssid w)[31 := 0], password := (password w)[63 := 0], adresse := (adresse w)[15 := 0, 31 := 0, 47 := 0, 63 := 0]\<rparr>"

lemma read_configured:
  assumes "flash_laws F" and "sizes w"
  shows "read_config F (snd (save_and_restart F (w, f))) chip ((reset_firmware b zero_client)\<lparr>dev := d\<rparr>) =
    Some (configured b zero_client w chip d)"
  by (subst read_saved [OF assms]) (simp_all add: configured_def reset_firmware_def size_defs)

lemma configured_parts:
  assumes "sizes w"
  shows "dev (configured b zero_client w chip d) = d\<lparr>echelle := echelle (dev w)\<rparr>"
    "user (configured b zero_client w chip d) = user_reset"
    "load (StationName (configured b zero_client w chip d)) 0 = Some (StationName w ! 0)"
    "drop (3 * MAX_ADRESSE_LENGTH) (adresse (configured b zero_client w chip d)) = broker w"
  using assms by (simp_all add: configured_def reset_firmware_def load_def sizes_def size_defs broker_def drop_update_swap)

lemma configured_ap:
  assumes "sizes w"
  shows "\<exists>ip s p. config_ap ((configured b zero_client w chip d)\<lparr>dev := d'\<rparr>) =
    Some (ip, s, p, (configured b zero_client w chip d)\<lparr>dev := d'\<rparr>)"
proof -
  have "sizes ((configured b zero_client w chip d)\<lparr>dev := d'\<rparr>)"
    using assms by (simp add: configured_def sizes_def size_defs reset_firmware_def hex_text_ends(1))
  from config_ap_defined [OF this] show ?thesis by (auto simp: configured_def)
qed

lemma configured_station:
  assumes "sizes w" and "well c" and "user_ok us"
  shows "station_ok (station.truncate ((configured b zero_client w chip d)\<lparr>mqttClient := c, user := us, dev := d'\<rparr>))"
  using assms by (simp add: configured_def station_ok_def texts_ok_def station.truncate_def
    sizes_def size_defs reset_firmware_def hex_text_ends le_trans [OF cstr_length])

text \<open>The report of the switches at the start.\<close>

lemma switches_sent:
  assumes w: "station_ok (station.truncate w)" and "old_stat_switch (dev w) AND MASQUE_SWITCH = old_stat_switch (dev w)"
    and "\<forall>n. length (fst (mem n)) = 40 \<and> locals_ok (snd (mem n))"
  shows "\<exists>bus' w'. (if PCF8885 b \<and> SWITCH_ONLY b then do {
            let (_, bus, d) = send_PCF8885 b peer bus (dev w);
            w \<leftarrow> on_station (after_device mem d) w;
            Some (bus, w)
          } else Some (bus, w)) = Some (bus', w') \<and> station_ok (station.truncate w') \<and> user w' = user w \<and>
      untouched ((dev w)\<lparr>old_stat_switch := old_stat_switch (dev w'), reports := reports (dev w')\<rparr>) (dev w') \<and>
      timers (dev w') = timers (dev w) \<and> timer_time_out_connection (dev w') = timer_time_out_connection (dev w) \<and>
      old_stat_switch (dev w') AND MASQUE_SWITCH = old_stat_switch (dev w')" (is "\<exists>bus' w'. ?send = _ \<and> ?ok w'")
proof (cases "PCF8885 b \<and> SWITCH_ONLY b")
  case True
  obtain v bus1 where v: "read_PCF8885 peer bus = (v, bus1)" by fastforce
  note sw = send_PCF8885_reports [OF v assms(2), of b]
  let ?d = "(dev w)\<lparr>reports := reports (dev w) @ change_reports b v (dev w) [0..<4], old_stat_switch := v AND MASQUE_SWITCH\<rparr>"
  obtain w' where w': "on_station (after_device mem ?d) w = Some w'" "station_ok (station.truncate w')"
    "dev w' = ?d" "user w' = user w"
    using on_station_reports [OF w _ change_reports_sendable assms(3), of ?d b v "dev w" "[0..<4]"] by auto
  have "?send = Some (bus1, w')" using True w'(1) sw by simp
  moreover have "?ok w'" using w'(2-4) by (simp add: untouched_def and.assoc)
  ultimately show ?thesis by blast
next
  case False
  have "?ok w" using w assms(2) by (simp add: untouched_def)
  then show ?thesis unfolding if_not_P [OF False] by blast
qed

text \<open>
  C4: a configured device starts. When the flash holds what \<open>save_and_restart\<close> wrote, with a
  station name and a broker address whose numbers do not overflow, then \<open>user_init\<close> runs to its end
  from the reset state on every build, whatever the battery, the switches and the settings of
  the weather sensor: no array is left, no undefined operation is reached. Afterwards
  the messaging is in order and its retry timer armed, and the device has its build's
  invariant, which is where the steps of a station begin.
\<close>

theorem boot_safe:
  assumes "flash_laws (bd_flash B)" and "sizes w" and "StationName w ! 0 \<noteq> 0"
    and "UTILS_StrToIP (cstr (broker w) @ [0]) [0, 0, 0, 0] \<noteq> None"
    and "bd_mem B = snd (save_and_restart (bd_flash B) (w, f))"
    and "\<forall>n. length (fst (bd_stack B n)) = 40 \<and> locals_ok (snd (bd_stack B n))"
    and "sensor_laws (bd_spi B) regs" and "calibrated (regs c) cal"
    and "device_kind b act safe"
  shows "\<exists>s bus' w'. user_init b B (bme280_reset, c) (user_rf_pre_init b bus) (reset_firmware b zero_client) =
      Some (s, bus', w') \<and> station_ok (station.truncate w') \<and> safe (dev w') \<and>
    timer_try_connect (user w') = Some (MQTT_TIME_TRY_CONNECT b)"
proof -
  let ?w0 = "reset_firmware b zero_client" and ?bus = "user_rf_pre_init b bus"
  have "ctrl_meas_reg bme280_reset = 0" by (simp add: bme280_reset_def)
  then obtain s d1 where d1: "init_power b (bd_adc B) (bd_spi B) (bme280_reset, c) (reset_device b) = Some (s, d1)"
    "untouched (reset_device b) d1" "timers d1 = timers (reset_device b)"
    using init_power_defined [of b "bd_spi B" "(bme280_reset, c)"] bme280_init_user_spec [OF assms(7,8)] by blast
  define w1 where "w1 = configured b zero_client w (bd_chip B) d1"
  have r: "read_config (bd_flash B) (bd_mem B) (bd_chip B) (?w0\<lparr>dev := d1\<rparr>) = Some w1"
    unfolding assms(5) w1_def by (rule read_configured [OF assms(1,2)])
  note w1 = configured_parts [OF assms(2), of b zero_client "bd_chip B" d1, folded w1_def]
  define d2 where "d2 = init_pins b (dev w1)"
  have d2: "fresh b d2"
    using init_pins_untouched [of "dev w1" b] d1(2,3) by (simp add: fresh_def d2_def w1(1) untouched_def)
  obtain ip s1 p where ap: "config_ap (w1\<lparr>dev := d2\<rparr>) = Some (ip, s1, p, w1\<lparr>dev := d2\<rparr>)"
    using configured_ap [OF assms(2)] unfolding w1_def by blast
  obtain c' us where m: "mqttInit b (broker w) (bd_chip B) user_reset = Some (c', us)" "holds c' []" "user_ok us"
    "timer_try_connect us = Some (MQTT_TIME_TRY_CONNECT b)"
    using mqttInit_spec [OF broker_ok [OF assms(2)] assms(4)] by blast
  obtain d3 where d3: "init_timers b d2 = Some d3" "untouched d2 d3" "TLI4970_ENABLE b \<longrightarrow> tm_us (timers d3) \<noteq> 0"
    using init_timers_defined [OF build_precision [OF assms(9)], of d2] by blast
  define w2 where "w2 = w1\<lparr>mqttClient := c', user := us, dev := d3\<rparr>"
  have "station_ok (station.truncate w2)"
    unfolding w2_def w1_def by (rule configured_station [OF assms(2) wellI [OF m(2)] m(3)])
  moreover have w2: "dev w2 = d3" "user w2 = us" by (simp_all add: w2_def)
  moreover have "old_stat_switch d3 = 0" using d3(2) d2 by (simp add: untouched_def fresh_def reset_device_def)
  ultimately obtain bus' w3 where w3: "(if PCF8885 b \<and> SWITCH_ONLY b then do {
            let (_, bus, d) = send_PCF8885 b (bd_peer B) ?bus d3;
            w \<leftarrow> on_station (after_device (bd_stack B) d) w2;
            Some (bus, w)
          } else Some (?bus, w2)) = Some (bus', w3)" "station_ok (station.truncate w3)" "user w3 = us"
    "untouched (d3\<lparr>old_stat_switch := old_stat_switch (dev w3), reports := reports (dev w3)\<rparr>) (dev w3)"
    "timers (dev w3) = timers d3" "timer_time_out_connection (dev w3) = timer_time_out_connection d3"
    "old_stat_switch (dev w3) AND MASQUE_SWITCH = old_stat_switch (dev w3)"
    using switches_sent [of w2 "bd_stack B" b "bd_peer B" ?bus] assms(6) by auto
  obtain d4 where d4: "init_meter b (dev w3) = Some d4" using init_meter_defined [of b "dev w3"] d3(3) w3(5) by auto
  have "user_init b B (bme280_reset, c) ?bus ?w0 = Some (s, bus', w3\<lparr>dev := d4\<rparr>)"
    using ap w1(2-4) m(1) d3(1) w3(1) w2 d4 assms(3) unfolding user_init_def
    by (simp add: reset_firmware_parts d1(1) r d2_def [symmetric] w2_def cong: if_cong)
  moreover have "station_ok (station.truncate (w3\<lparr>dev := d4\<rparr>))"
    using w3(2) by (simp add: station_ok_def texts_ok_def station.truncate_def)
  ultimately show ?thesis using start_safe [OF assms(9) d2 d3(1) w3(4-7) d4] w3(3) m(4) by auto
qed

text \<open>A weather station that has been configured, and what it finds when it wakes up.\<close>

definition example_config :: firmware where
  "example_config = example_firmware\<lparr>adresse := replicate 48 0 @ chars ''192.168.1.2'' @ replicate 5 0\<rparr>"

definition example_board :: "(nat \<Rightarrow> u8, u8 \<Rightarrow> u8) board" where
  "example_board = \<lparr>bd_flash = nor_flash, bd_mem = snd (save_and_restart nor_flash (example_config, \<lambda>_. 0)),
     bd_chip = 0xABCDEF, bd_adc = 900, bd_spi = register_file, bd_peer = \<lambda>_. True,
     bd_stack = \<lambda>_. (replicate 40 0, example_locals)\<rparr>"

lemma boot_safe_witness:
  "\<exists>s bus' w'. user_init build_METEO example_board (bme280_reset, example_registers) (user_rf_pre_init build_METEO example_bus)
      (reset_firmware build_METEO example_client) = Some (s, bus', w') \<and>
    timer_time_out_connection (dev w') \<noteq> None \<and> timer_try_connect (user w') = Some 50"
proof -
  have sizes: "sizes example_config" using example_sizes by (simp add: example_config_def sizes_def size_defs chars_of)
  have ip: "UTILS_StrToIP (cstr (broker example_config) @ [0]) [0, 0, 0, 0] \<noteq> None"
    unfolding example_config_def broker_def by code_simp
  have name: "StationName example_config ! 0 \<noteq> 0"
    by (simp add: example_config_def example_firmware_def station.extend_def example_station_def chars_of)
  have k: "device_kind build_METEO (plain_act build_METEO) (plain_ok build_METEO)"
    by (simp add: device_kind_def plain_builds_def)
  have B: "flash_laws (bd_flash example_board)" "sensor_laws (bd_spi example_board) (\<lambda>f. f)"
    "bd_mem example_board = snd (save_and_restart (bd_flash example_board) (example_config, \<lambda>_. 0))"
    "\<forall>n. length (fst (bd_stack example_board n)) = 40 \<and> locals_ok (snd (bd_stack example_board n))"
    using nor_flash_laws register_file_laws by (simp_all add: example_board_def)
  have "SLEEP build_METEO" "MQTT_TIME_TRY_CONNECT build_METEO = 50"
    by (simp_all add: build_METEO_def plain_build_def MQTT_TIME_TRY_CONNECT_def)
  then show ?thesis
    using boot_safe [where regs = "\<lambda>f. f" and c = example_registers and cal = zero_calibration, OF B(1) sizes name ip B(3,4,2) example_calibrated k, of example_bus example_client]
    by (auto simp: plain_ok_def)
qed

end
