(* ===== verification/Weather.thy ===== *)
theory Weather
  imports Battery
begin

text \<open>
  A weather measurement (\<open>timer_mesure_handler\<close> of \<open>user/user_main.c\<close>, the compensation formulas of
  \<open>user/bme280.c\<close>) never overflows, when the calibration is of the size that the sensor's is and the
  temperature is in its range of operation.
\<close>

section \<open>The temperature never overflows\<close>

text \<open>
  The formula of the data sheet over unbounded integers: \<open>fine_temperature\<close> is the fine temperature that the
  other compensations use. For calibration values of the size the sensor has, no step of the driver's 32-bit
  arithmetic overflows, whatever the converter returns.
\<close>

definition fine_temperature :: "calibration \<Rightarrow> int \<Rightarrow> int" where
  "fine_temperature cal v = (v div 8 - 2 * dig_T1 cal) * dig_T2 cal div 2048 +
     (v div 16 - dig_T1 cal)\<^sup>2 div 4096 * dig_T3 cal div 16384"

definition usual_temperature_calibration :: "calibration \<Rightarrow> bool" where
  "usual_temperature_calibration cal \<longleftrightarrow>
     25000 \<le> dig_T1 cal \<and> dig_T1 cal \<le> 40500 \<and> \<bar>dig_T2 cal\<bar> \<le> 26450 \<and> \<bar>dig_T3 cal\<bar> \<le> 5000"

lemma shift_bounds:
  fixes x :: int
  assumes "- (a * 2 ^ n) \<le> x" and "x \<le> a * 2 ^ n"
  shows "- a \<le> drop_bit n x \<and> drop_bit n x \<le> a"
proof -
  have "x div 2 ^ n \<le> (a * 2 ^ n) div 2 ^ n" by (rule zdiv_mono1 [OF assms(2)]) simp
  moreover have "(- a * 2 ^ n) div 2 ^ n \<le> x div 2 ^ n" by (rule zdiv_mono1) (use assms(1) in simp_all)
  moreover have "(- a * 2 ^ n) div 2 ^ n = - a" by (rule nonzero_mult_div_cancel_right) simp
  ultimately show ?thesis unfolding drop_bit_eq_div by (simp del: mult_minus_left)
qed

lemma product_bounds:
  fixes x y :: int
  assumes "- a \<le> x" "x \<le> a" "- b \<le> y" "y \<le> b"
  shows "- (a * b) \<le> x * y \<and> x * y \<le> a * b"
proof -
  have "\<bar>x * y\<bar> \<le> a * b" unfolding abs_mult using assms by (intro mult_mono) auto
  then show ?thesis by auto
qed

lemma rounded_bounds: "- 1169675 \<le> t \<Longrightarrow> t \<le> 1169675 \<Longrightarrow> \<bar>(5 * t + 128) div 256\<bar> \<le> (22846 :: int)"
  using shift_bounds [of 22846 8 "5 * t + 128"] unfolding drop_bit_eq_div by auto

lemma temperature_defined:
  assumes v: "0 \<le> v" "v < 2 ^ 20" and "usual_temperature_calibration cal"
  shows "bme280_compensate_temperature_int32 cal v =
      Some ((5 * fine_temperature cal v + 128) div 256, cal\<lparr>t_fine := fine_temperature cal v\<rparr>) \<and>
    \<bar>(5 * fine_temperature cal v + 128) div 256\<bar> \<le> 22846"
proof -
  have cal: "25000 \<le> dig_T1 cal" "dig_T1 cal \<le> 40500" "\<bar>dig_T2 cal\<bar> \<le> 26450" "\<bar>dig_T3 cal\<bar> \<le> 5000"
    using assms(3) by (simp_all add: usual_temperature_calibration_def)
  let ?d3 = "drop_bit 3 v - dig_T1 cal * 2" and ?d4 = "drop_bit 4 v - dig_T1 cal"
  have b3: "0 \<le> drop_bit 3 v" "drop_bit 3 v \<le> 131071" and b4: "0 \<le> drop_bit 4 v" "drop_bit 4 v \<le> 65535"
    unfolding drop_bit_eq_div using v by auto
  have d3: "- 81071 \<le> ?d3" "?d3 \<le> 81071" and d4: "- 40535 \<le> ?d4" "?d4 \<le> 40535" using b3 b4 cal by linarith+
  have t2: "- 26450 \<le> dig_T2 cal" "dig_T2 cal \<le> 26450" and t3: "- 5000 \<le> dig_T3 cal" "dig_T3 cal \<le> 5000" using cal by auto
  have m1: "- 2144327950 \<le> ?d3 * dig_T2 cal" "?d3 * dig_T2 cal \<le> 2144327950"
    using product_bounds [OF d3 t2] by auto
  have m2: "- 1643086225 \<le> ?d4 * ?d4" "?d4 * ?d4 \<le> 1643086225" using product_bounds [OF d4 d4] by auto
  have h: "- 401145 \<le> drop_bit 12 (?d4 * ?d4)" "drop_bit 12 (?d4 * ?d4) \<le> 401145"
    using shift_bounds [of 401145 12 "?d4 * ?d4"] m2 by auto
  have m3: "- 2005725000 \<le> drop_bit 12 (?d4 * ?d4) * dig_T3 cal" "drop_bit 12 (?d4 * ?d4) * dig_T3 cal \<le> 2005725000"
    using product_bounds [OF h t3] by auto
  have x1: "- 1047036 \<le> drop_bit 11 (?d3 * dig_T2 cal)" "drop_bit 11 (?d3 * dig_T2 cal) \<le> 1047036"
    using shift_bounds [of 1047036 11 "?d3 * dig_T2 cal"] m1 by auto
  have x2: "- 122420 \<le> drop_bit 14 (drop_bit 12 (?d4 * ?d4) * dig_T3 cal)"
    "drop_bit 14 (drop_bit 12 (?d4 * ?d4) * dig_T3 cal) \<le> 122420"
    using shift_bounds [of 122420 14 "drop_bit 12 (?d4 * ?d4) * dig_T3 cal"] m3 by auto
  let ?t = "drop_bit 11 (?d3 * dig_T2 cal) + drop_bit 14 (drop_bit 12 (?d4 * ?d4) * dig_T3 cal)"
  have t: "- 1169675 \<le> ?t" "?t \<le> 1169675" using x1 x2 by auto
  have "push_bit 1 (dig_T1 cal) = dig_T1 cal * 2" by (simp add: push_bit_eq_mult)
  then have "bme280_compensate_temperature_int32 cal v = Some (drop_bit 8 (5 * ?t + 128), cal\<lparr>t_fine := ?t\<rparr>)"
    unfolding bme280_compensate_temperature_int32_def shl_s32_def sub_s32_def mul_s32_def add_s32_def Let_def
    using b3 b4 cal d3 d4 m1 m2 m3 t by (simp add: mult.commute [of 5])
  moreover have f: "fine_temperature cal v = ?t"
    unfolding fine_temperature_def drop_bit_eq_div power2_eq_square mult.commute [of 2] by simp
  moreover have "drop_bit 8 (5 * ?t + 128) = (5 * ?t + 128) div 256" unfolding drop_bit_eq_div by simp
  moreover have "\<bar>(5 * ?t + 128) div 256\<bar> \<le> 22846" using t by (rule rounded_bounds)
  ultimately show ?thesis unfolding f by metis
qed

text \<open>
  C24: For every 20-bit value of the converter and every usual calibration the integer compensation of the
  temperature is defined and is the data sheet's formula, so its result lies within 228.46 degrees of zero.
\<close>

theorem temperature_compensated:
  assumes v: "0 \<le> v" "v < 2 ^ 20" and "usual_temperature_calibration cal"
  shows "bme280_compensate_temperature_int32 cal v =
      Some ((5 * fine_temperature cal v + 128) div 256, cal\<lparr>t_fine := fine_temperature cal v\<rparr>) \<and>
    \<bar>(5 * fine_temperature cal v + 128) div 256\<bar> \<le> 22846"
  using assms by (rule temperature_defined)

lemma temperature_compensated_witness:
  "bme280_compensate_temperature_int32 data_sheet_calibration 1048575 =
      Some ((5 * fine_temperature data_sheet_calibration 1048575 + 128) div 256,
        data_sheet_calibration\<lparr>t_fine := fine_temperature data_sheet_calibration 1048575\<rparr>) \<and>
    \<bar>(5 * fine_temperature data_sheet_calibration 1048575 + 128) div 256\<bar> \<le> 22846"
proof -
  have "usual_temperature_calibration data_sheet_calibration"
    by (simp add: usual_temperature_calibration_def data_sheet_calibration_def)
  from temperature_compensated [OF _ _ this] show ?thesis by simp
qed

section \<open>Pressure and humidity\<close>

text \<open>
  The other parameters, and the fine temperature from 40 degrees below zero to 86 above. Without a bound on
  the temperature the square in the formula of the pressure overflows.
\<close>

definition usual_calibration :: "calibration \<Rightarrow> bool" where
  "usual_calibration cal \<longleftrightarrow> usual_temperature_calibration cal \<and>
     30000 \<le> dig_P1 cal \<and> dig_P1 cal \<le> 56000 \<and> \<bar>dig_P2 cal\<bar> \<le> 12800 \<and> \<bar>dig_P3 cal\<bar> \<le> 10000 \<and>
     \<bar>dig_P4 cal\<bar> \<le> 16000 \<and> \<bar>dig_P5 cal\<bar> \<le> 4000 \<and> \<bar>dig_P6 cal\<bar> \<le> 500 \<and> \<bar>dig_P7 cal\<bar> \<le> 32768 \<and>
     \<bar>dig_P8 cal\<bar> \<le> 25000 \<and> \<bar>dig_P9 cal\<bar> \<le> 9000 \<and>
     0 \<le> dig_H1 cal \<and> dig_H1 cal \<le> 120 \<and> 0 \<le> dig_H2 cal \<and> dig_H2 cal \<le> 380 \<and> 0 \<le> dig_H3 cal \<and> dig_H3 cal \<le> 20 \<and>
     280 \<le> dig_H4 cal \<and> dig_H4 cal \<le> 450 \<and> \<bar>dig_H5 cal\<bar> \<le> 100 \<and> \<bar>dig_H6 cal\<bar> \<le> 40"

definition operating_range :: "int \<Rightarrow> bool" where
  "operating_range t \<longleftrightarrow> - 204800 \<le> t \<and> t \<le> 440320"

lemma mul_s32_bounded:
  assumes "\<bar>x\<bar> \<le> a" and "\<bar>y\<bar> \<le> b" and "a * b \<le> 2147483647"
  shows "mul_s32 x y = Some (x * y) \<and> \<bar>x * y\<bar> \<le> a * b"
proof -
  have "\<bar>x * y\<bar> \<le> a * b" unfolding abs_mult using assms(1,2) by (intro mult_mono) auto
  with assms(3) show ?thesis by (simp add: mul_s32_def)
qed

lemma add_s32_bounded:
  "\<bar>x\<bar> \<le> a \<Longrightarrow> \<bar>y\<bar> \<le> b \<Longrightarrow> a + b \<le> 2147483647 \<Longrightarrow> add_s32 x y = Some (x + y) \<and> \<bar>x + y\<bar> \<le> a + b"
  by (simp add: add_s32_def)

lemma shl_s32_bounded:
  assumes "\<bar>x\<bar> \<le> a" and "a * 2 ^ n \<le> 2147483647"
  shows "shl_s32 x n = Some (push_bit n x) \<and> \<bar>push_bit n x\<bar> \<le> a * 2 ^ n"
proof -
  have "\<bar>push_bit n x\<bar> \<le> a * 2 ^ n" using assms(1) by (simp add: push_bit_eq_mult abs_mult)
  with assms(2) show ?thesis by (simp add: shl_s32_def)
qed

lemma shift_bounded: "\<bar>x\<bar> \<le> a * 2 ^ n \<Longrightarrow> \<bar>drop_bit n x\<bar> \<le> a" for x :: int
  using shift_bounds [of a n x] by (simp add: abs_le_iff)

lemma pressure_terms_defined:
  assumes "usual_calibration cal" and "operating_range (t_fine cal)"
  shows "\<exists>x1 x2. pressure_terms cal = Some (x1, x2) \<and> 25358 \<le> x1 \<and> x1 \<le> 64665"
proof -
  define x where "x = drop_bit 1 (t_fine cal) - 64000"
  define s where "s = drop_bit 2 x"
  have x: "\<bar>x\<bar> \<le> 166400" "sub_s32 (drop_bit 1 (t_fine cal)) 64000 = Some x"
    using assms(2) by (auto simp: operating_range_def sub_s32_def x_def drop_bit_eq_div)
  have s: "\<bar>s\<bar> \<le> 41600" unfolding s_def using x(1) by (intro shift_bounded) simp
  have p: "\<bar>dig_P2 cal\<bar> \<le> 12800" "\<bar>dig_P3 cal\<bar> \<le> 10000" "\<bar>dig_P4 cal\<bar> \<le> 16000" "\<bar>dig_P5 cal\<bar> \<le> 4000" "\<bar>dig_P6 cal\<bar> \<le> 500"
    "30000 \<le> dig_P1 cal" "dig_P1 cal \<le> 56000" using assms(1) by (simp_all add: usual_calibration_def)
  have q: "mul_s32 s s = Some (s * s)" "\<bar>s * s\<bar> \<le> 1730560000" using mul_s32_bounded [OF s s] by simp_all
  have q11: "\<bar>drop_bit 11 (s * s)\<bar> \<le> 845000" and q13: "\<bar>drop_bit 13 (s * s)\<bar> \<le> 211250"
    using shift_bounded [of "s * s" 845000 11] shift_bounded [of "s * s" 211250 13] q(2) by simp_all
  define a where "a = drop_bit 11 (s * s) * dig_P6 cal"
  have a: "mul_s32 (drop_bit 11 (s * s)) (dig_P6 cal) = Some a" "\<bar>a\<bar> \<le> 422500000"
    using mul_s32_bounded [OF q11 p(5)] by (simp_all add: a_def)
  have b: "mul_s32 x (dig_P5 cal) = Some (x * dig_P5 cal)" "\<bar>x * dig_P5 cal\<bar> \<le> 665600000"
    using mul_s32_bounded [OF x(1) p(4)] by simp_all
  define c where "c = push_bit 1 (x * dig_P5 cal)"
  have c: "shl_s32 (x * dig_P5 cal) 1 = Some c" "\<bar>c\<bar> \<le> 1331200000"
    using shl_s32_bounded [OF b(2), of 1] by (simp_all add: c_def)
  have d: "add_s32 a c = Some (a + c)" "\<bar>a + c\<bar> \<le> 1753700000" using add_s32_bounded [OF a(2) c(2)] by simp_all
  have d2: "\<bar>drop_bit 2 (a + c)\<bar> \<le> 438425000" using d(2) by (intro shift_bounded) simp
  define e where "e = push_bit 16 (dig_P4 cal)"
  have e: "shl_s32 (dig_P4 cal) 16 = Some e" "\<bar>e\<bar> \<le> 1048576000"
    using shl_s32_bounded [OF p(3), of 16] by (simp_all add: e_def)
  have x2: "add_s32 (drop_bit 2 (a + c)) e = Some (drop_bit 2 (a + c) + e)" using add_s32_bounded [OF d2 e(2)] by simp
  define f where "f = dig_P3 cal * drop_bit 13 (s * s)"
  have f: "mul_s32 (dig_P3 cal) (drop_bit 13 (s * s)) = Some f" "\<bar>f\<bar> \<le> 2112500000"
    using mul_s32_bounded [OF p(2) q13] by (simp_all add: f_def)
  define g where "g = dig_P2 cal * x"
  have g: "mul_s32 (dig_P2 cal) x = Some g" "\<bar>g\<bar> \<le> 2129920000"
    using mul_s32_bounded [OF p(1) x(1)] by (simp_all add: g_def)
  have f3: "\<bar>drop_bit 3 f\<bar> \<le> 264062500" and g1: "\<bar>drop_bit 1 g\<bar> \<le> 1064960000" using f(2) g(2) by (auto intro!: shift_bounded)
  define k where "k = drop_bit 3 f + drop_bit 1 g"
  have k: "add_s32 (drop_bit 3 f) (drop_bit 1 g) = Some k" "\<bar>k\<bar> \<le> 1329022500"
    using add_s32_bounded [OF f3 g1] by (simp_all add: k_def)
  have "\<bar>drop_bit 18 k\<bar> \<le> 5070" using k(2) by (intro shift_bounded) simp
  then have l: "add_s32 32768 (drop_bit 18 k) = Some (32768 + drop_bit 18 k)" "27698 \<le> 32768 + drop_bit 18 k"
    "32768 + drop_bit 18 k \<le> 37838" using add_s32_bounded [of 32768 32768 "drop_bit 18 k" 5070] by auto
  define n where "n = (32768 + drop_bit 18 k) * dig_P1 cal"
  have "27698 * 30000 \<le> n" "n \<le> 37838 * 56000" unfolding n_def using l(2,3) p(6,7) by (intro mult_mono; simp)+
  then have n: "mul_s32 (32768 + drop_bit 18 k) (dig_P1 cal) = Some n" "25358 \<le> n div 2 ^ 15" "n div 2 ^ 15 \<le> 64665"
    unfolding mul_s32_def n_def [symmetric] by simp_all
  show ?thesis
    unfolding pressure_terms_def x(2) s_def [symmetric] using n(1) n(2,3) [folded drop_bit_eq_div]
    by (simp add: s_def [symmetric] q(1) a(1) b(1) c(1) d(1) e(1) x2 f(1) g(1) k(1) l(1) del: One_nat_def)
qed

lemma sint_small:
  fixes w :: u32
  assumes "unat w < 2147483648"
  shows "sint w = int (unat w)"
proof -
  have u: "int (unat w) = uint w" by simp
  have "- (2 ^ 31) \<le> uint w" by (rule order.trans [of _ 0]) simp_all
  moreover have "int (unat w) < int 2147483648" using assms by (simp only: of_nat_less_iff)
  then have "uint w < 2 ^ 31" unfolding u by simp
  ultimately have "signed_take_bit 31 (uint w) = uint w" by (rule signed_take_bit_int_eq_self)
  then show ?thesis unfolding u by (simp add: sint_uint)
qed

lemma sint_drop:
  fixes w :: u32
  assumes "unat w < 2147483648"
  shows "sint (drop_bit n w) = int (unat w div 2 ^ n)"
proof -
  have "unat (drop_bit n w) = unat w div 2 ^ n" by (simp only: unat_drop_bit_eq) (simp only: drop_bit_eq_div)
  moreover from this have "unat (drop_bit n w) < 2147483648"
    by (rule ssubst) (rule order.strict_trans1 [OF div_le_dividend assms])
  ultimately show ?thesis using sint_small [of "drop_bit n w"] by simp
qed

lemma unat_drop_le:
  fixes w :: u32
  shows "unat w \<le> a \<Longrightarrow> unat (drop_bit n w) \<le> a div 2 ^ n"
  by (simp only: unat_drop_bit_eq) (simp only: drop_bit_eq_div div_le_mono)
lemma unat_mult_le:
  fixes x y :: u32
  assumes "unat x \<le> a" "unat y \<le> b"
  shows "unat (x * y) \<le> a * b"
proof -
  have le: "unat x * unat y \<le> a * b" using assms by (intro mult_le_mono)
  have "unat (x * y) = unat x * unat y mod 4294967296" by (simp add: unat_word_ariths)
  also have "\<dots> \<le> unat x * unat y" by (rule mod_less_eq_dividend)
  finally show ?thesis using le by linarith
qed

lemma unat_div_le:
  fixes x y :: u32
  assumes "unat x \<le> a" "b \<le> unat y" "0 < b"
  shows "unat (x div y) \<le> a div b"
proof -
  have "unat (x div y) = unat x div unat y" by (simp add: unat_div)
  also have "\<dots> \<le> a div unat y" using assms(1) by (rule div_le_mono)
  also have "\<dots> \<le> a div b" using assms(3,2) by (rule div_le_mono2)
  finally show ?thesis .
qed

text \<open>The division by \<open>x1\<close> brings the pressure below 338747, where the correction does not overflow.\<close>

lemma pressure_correct_defined:
  assumes "usual_calibration cal" and p: "unat p \<le> 338746"
  shows "\<exists>r. pressure_correct cal p = Some r \<and> \<bar>sint r\<bar> \<le> 387003"
proof -
  have c: "\<bar>dig_P7 cal\<bar> \<le> 32768" "\<bar>dig_P8 cal\<bar> \<le> 25000" "\<bar>dig_P9 cal\<bar> \<le> 9000"
    using assms(1) by (simp_all add: usual_calibration_def)
  define s where "s = sint (drop_bit 13 (drop_bit 3 p * drop_bit 3 p))"
  define h where "h = sint (drop_bit 2 p)"
  have p3: "unat (drop_bit 3 p) \<le> 42343" using unat_drop_le [OF p, of 3] by simp
  have "unat (drop_bit 3 p * drop_bit 3 p) \<le> 1792929649" using unat_mult_le [OF p3 p3] by simp
  moreover from this have "unat (drop_bit 3 p * drop_bit 3 p) div 2 ^ 13 \<le> 1792929649 div 2 ^ 13" by (rule div_le_mono)
  ultimately have s: "\<bar>s\<bar> \<le> 218863" unfolding s_def by (subst sint_drop) simp_all
  have "unat p div 2 ^ 2 \<le> 338746 div 2 ^ 2" using p by (rule div_le_mono)
  then have h: "\<bar>h\<bar> \<le> 84686" unfolding h_def using p by (subst sint_drop) simp_all
  have sp: "sint p = int (unat p)" using p by (intro sint_small) simp
  define x where "x = dig_P9 cal * s"
  define y where "y = h * dig_P8 cal"
  have x: "mul_s32 (dig_P9 cal) s = Some x" "\<bar>x\<bar> \<le> 1969767000" using mul_s32_bounded [OF c(3) s] by (simp_all add: x_def)
  have y: "mul_s32 h (dig_P8 cal) = Some y" "\<bar>y\<bar> \<le> 2117150000" using mul_s32_bounded [OF h c(2)] by (simp_all add: y_def)
  have x12: "\<bar>drop_bit 12 x\<bar> \<le> 480901" and y13: "\<bar>drop_bit 13 y\<bar> \<le> 258442"
    using x(2) y(2) by (auto intro!: shift_bounded)
  define a where "a = drop_bit 12 x + drop_bit 13 y"
  have a: "add_s32 (drop_bit 12 x) (drop_bit 13 y) = Some a" "\<bar>a\<bar> \<le> 739343"
    using add_s32_bounded [OF x12 y13] by (simp_all add: a_def)
  have b: "add_s32 a (dig_P7 cal) = Some (a + dig_P7 cal)" "\<bar>a + dig_P7 cal\<bar> \<le> 772111"
    using add_s32_bounded [OF a(2) c(1)] by simp_all
  have b4: "\<bar>drop_bit 4 (a + dig_P7 cal)\<bar> \<le> 48257" using b(2) by (intro shift_bounded) simp
  define r where "r = sint p + drop_bit 4 (a + dig_P7 cal)"
  have "int (unat p) \<le> int 338746" using p by (simp only: of_nat_le_iff)
  then have "\<bar>sint p\<bar> \<le> 338746" unfolding sp by simp
  then have r: "add_s32 (sint p) (drop_bit 4 (a + dig_P7 cal)) = Some r" "\<bar>r\<bar> \<le> 387003"
    using add_s32_bounded [OF _ b4, of "sint p" 338746] by (simp_all add: r_def)
  have "sint (word_of_int r :: u32) = r"
    using r(2) by (simp add: sint_sbintrunc' signed_take_bit_int_eq_self)
  with r show ?thesis
    by (simp add: pressure_correct_def s_def [symmetric] h_def [symmetric] x(1) y(1) a(1) b(1))
qed

lemma pressure_defined:
  assumes "usual_calibration cal" and "operating_range (t_fine cal)" and "0 \<le> v" "v < 2 ^ 20"
  shows "\<exists>r. bme280_compensate_pressure_int32 cal v = Some r \<and> \<bar>sint r\<bar> \<le> 387003"
proof -
  obtain x1 x2 where x: "pressure_terms cal = Some (x1, x2)" "25358 \<le> x1" "x1 \<le> 64665"
    using pressure_terms_defined [OF assms(1,2)] by blast
  have sub: "sub_s32 1048576 v = Some (1048576 - v)" using assms(3,4) by (simp add: sub_s32_def)
  define p :: u32 where "p = (word_of_int (1048576 - v) - word_of_int (drop_bit 12 x2)) * 3125"
  have w: "25358 \<le> unat (word_of_int x1 :: u32)"
    using x(2,3) by (simp add: unsigned_of_int take_bit_int_eq_self le_nat_iff)
  have le: "unat q \<le> 4294967295" for q :: u32
    using unsigned_less [of q, where 'a = nat] by simp
  have q: "unat (q div word_of_int x1) \<le> 169373" for q :: u32
    using unat_div_le [OF le w, of q] by simp
  let ?q = "if p < 0x80000000 then push_bit 1 p div word_of_int x1 else p div word_of_int x1 * 2"
  have "unat (p div word_of_int x1 * 2) \<le> 169373 * 2" by (rule unat_mult_le [OF q]) simp
  then have "unat ?q \<le> 338746" using q [of "push_bit 1 p"] by simp
  moreover have "bme280_compensate_pressure_int32 cal v = pressure_correct cal ?q"
    unfolding bme280_compensate_pressure_int32_def x(1) bind.bind_lunit case_prod_conv sub Let_def p_def [symmetric]
    using x(2) by (simp only: if_distrib) simp
  ultimately show ?thesis using pressure_correct_defined [OF assms(1)] by metis
qed

lemma humidity_defined:
  assumes "usual_calibration cal" and "operating_range (t_fine cal)" and "0 \<le> v" "v < 2 ^ 16"
  shows "\<exists>r. bme280_compensate_humidity_int32 cal v = Some r"
proof -
  have h: "\<bar>dig_H5 cal\<bar> \<le> 100" "\<bar>dig_H6 cal\<bar> \<le> 40" "\<bar>dig_H1 cal\<bar> \<le> 120" "0 \<le> dig_H2 cal" "dig_H2 cal \<le> 380"
    "\<bar>dig_H3 cal\<bar> \<le> 20" "280 \<le> dig_H4 cal" "dig_H4 cal \<le> 450"
    using assms(1) by (simp_all add: usual_calibration_def)
  define x where "x = t_fine cal - 76800"
  have x: "sub_s32 (t_fine cal) 76800 = Some x" "\<bar>x\<bar> \<le> 363520"
    using assms(2) by (auto simp: operating_range_def sub_s32_def x_def)
  define a1 where "a1 = push_bit 14 v"
  have a1: "shl_s32 v 14 = Some a1" "0 \<le> a1" "a1 \<le> 1073725440"
    using assms(3,4) by (simp_all add: shl_s32_def a1_def push_bit_eq_mult)
  define h4 where "h4 = push_bit 20 (dig_H4 cal)"
  have h4: "shl_s32 (dig_H4 cal) 20 = Some h4" "293601280 \<le> h4" "h4 \<le> 471859200"
    using h(7,8) by (simp_all add: shl_s32_def h4_def push_bit_eq_mult)
  have a2: "sub_s32 a1 h4 = Some (a1 - h4)" using a1 h4 by (simp add: sub_s32_def)
  define h5 where "h5 = dig_H5 cal * x"
  have h5: "mul_s32 (dig_H5 cal) x = Some h5" "\<bar>h5\<bar> \<le> 36352000" using mul_s32_bounded [OF h(1) x(2)] by (simp_all add: h5_def)
  have a3: "sub_s32 (a1 - h4) h5 = Some (a1 - h4 - h5)" using a1 h4 h5 by (auto simp: sub_s32_def)
  define a where "a = a1 - h4 - h5 + 16384"
  have a: "add_s32 (a1 - h4 - h5) 16384 = Some a" "\<bar>a\<bar> \<le> 816492544" using a1 h4 h5 by (auto simp: add_s32_def a_def)
  have a15: "\<bar>drop_bit 15 a\<bar> \<le> 24918" using a(2) by (intro shift_bounded) simp
  define b1 where "b1 = x * dig_H6 cal"
  have b1: "mul_s32 x (dig_H6 cal) = Some b1" "\<bar>b1\<bar> \<le> 14540800" using mul_s32_bounded [OF x(2) h(2)] by (simp_all add: b1_def)
  define e1 where "e1 = x * dig_H3 cal"
  have e1: "mul_s32 x (dig_H3 cal) = Some e1" "\<bar>e1\<bar> \<le> 7270400" using mul_s32_bounded [OF x(2) h(6)] by (simp_all add: e1_def)
  have b10: "\<bar>drop_bit 10 b1\<bar> \<le> 14200" and e11: "\<bar>drop_bit 11 e1\<bar> \<le> 3550" using b1(2) e1(2) by (auto intro!: shift_bounded)
  have e: "add_s32 (drop_bit 11 e1) 32768 = Some (drop_bit 11 e1 + 32768)" "\<bar>drop_bit 11 e1 + 32768\<bar> \<le> 36318"
    using add_s32_bounded [OF e11, of 32768 32768] by simp_all
  define b2 where "b2 = drop_bit 10 b1 * (drop_bit 11 e1 + 32768)"
  have b2: "mul_s32 (drop_bit 10 b1) (drop_bit 11 e1 + 32768) = Some b2" "\<bar>b2\<bar> \<le> 515715600"
    using mul_s32_bounded [OF b10 e(2)] by (simp_all add: b2_def)
  have b20: "\<bar>drop_bit 10 b2\<bar> \<le> 503629" using b2(2) by (intro shift_bounded) simp
  define b3 where "b3 = drop_bit 10 b2 + 2097152"
  have b3: "add_s32 (drop_bit 10 b2) 2097152 = Some b3" "\<bar>b3\<bar> \<le> 2600781"
    using add_s32_bounded [OF b20, of 2097152 2097152] by (simp_all add: b3_def)
  define b4 where "b4 = b3 * dig_H2 cal"
  have h2: "\<bar>dig_H2 cal\<bar> \<le> 380" using h(4,5) by simp
  have b4: "mul_s32 b3 (dig_H2 cal) = Some b4" "\<bar>b4\<bar> \<le> 988296780" using mul_s32_bounded [OF b3(2) h2] by (simp_all add: b4_def)
  have b5: "add_s32 b4 8192 = Some (b4 + 8192)" "\<bar>b4 + 8192\<bar> \<le> 988304972"
    using add_s32_bounded [OF b4(2), of 8192 8192] by simp_all
  have b14: "\<bar>drop_bit 14 (b4 + 8192)\<bar> \<le> 60322" using b5(2) by (intro shift_bounded) simp
  define y where "y = drop_bit 15 a * drop_bit 14 (b4 + 8192)"
  have y: "mul_s32 (drop_bit 15 a) (drop_bit 14 (b4 + 8192)) = Some y" "\<bar>y\<bar> \<le> 1503103596"
    using mul_s32_bounded [OF a15 b14] by (simp_all add: y_def)
  have y15: "\<bar>drop_bit 15 y\<bar> \<le> 45872" using y(2) by (intro shift_bounded) simp
  define q where "q = drop_bit 15 y * drop_bit 15 y"
  have q: "mul_s32 (drop_bit 15 y) (drop_bit 15 y) = Some q" "\<bar>q\<bar> \<le> 2104240384"
    using mul_s32_bounded [OF y15 y15] by (simp_all add: q_def)
  have q7: "\<bar>drop_bit 7 q\<bar> \<le> 16439378" using q(2) by (intro shift_bounded) simp
  define r where "r = drop_bit 7 q * dig_H1 cal"
  have r: "mul_s32 (drop_bit 7 q) (dig_H1 cal) = Some r" "\<bar>r\<bar> \<le> 1972725360" using mul_s32_bounded [OF q7 h(3)] by (simp_all add: r_def)
  have r4: "\<bar>drop_bit 4 r\<bar> \<le> 123295335" using r(2) by (intro shift_bounded) simp
  have z: "sub_s32 y (drop_bit 4 r) = Some (y - drop_bit 4 r)" using y(2) r4 by (auto simp: sub_s32_def)
  show ?thesis
    by (simp add: bme280_compensate_humidity_int32_def x(1) a1(1) h4(1) a2 h5(1) a3 a(1) b1(1) e1(1) e(1) b2(1)
      b3(1) b4(1) b5(1) y(1) q(1) r(1) z Let_def)
qed

section \<open>A measurement\<close>

lemma short_word:
  fixes w :: u32
  assumes "take_bit n w = w" and "n < 32"
  shows "0 \<le> sint w \<and> sint w < 2 ^ n"
proof -
  have "unat (take_bit n w) = take_bit n (unat w)" by (rule unsigned_take_bit_eq)
  then have u: "unat w < 2 ^ n" using take_bit_nat_less_exp [of n "unat w"] assms(1) by simp
  have "(2 :: nat) ^ n \<le> 2 ^ 31" using assms(2) by (intro power_increasing) simp_all
  with u have "sint w = int (unat w)" by (intro sint_small) simp
  moreover have "int (unat w) < int (2 ^ n)" using u by (simp only: of_nat_less_iff)
  ultimately show ?thesis by simp
qed

lemma raw20_bounds:
  assumes "raw20 a i = Some v"
  shows "0 \<le> v \<and> v < 2 ^ 20"
proof -
  obtain msb lsb xlsb :: u8 where
    v: "v = sint (push_bit 12 (ucast msb :: u32) OR push_bit 4 (ucast lsb) OR drop_bit 4 (ucast xlsb))" (is "_ = sint ?w")
    using assms by (auto simp: raw20_def bind_eq_Some_conv)
  have "take_bit 20 ?w = ?w"
    by (rule bit_word_eqI) (auto simp: bit_simps dest: bit_imp_le_length)
  then show ?thesis unfolding v by (rule short_word) simp
qed

lemma raw16_bounds:
  assumes "raw16 a i = Some v"
  shows "0 \<le> v \<and> v < 2 ^ 16"
proof -
  obtain msb lsb :: u8 where v: "v = sint (push_bit 8 (ucast msb :: u32) OR ucast lsb)" (is "_ = sint ?w")
    using assms by (auto simp: raw16_def bind_eq_Some_conv)
  have "take_bit 16 ?w = ?w"
    by (rule bit_word_eqI) (auto simp: bit_simps dest: bit_imp_le_length)
  then show ?thesis unfolding v by (rule short_word) simp
qed

text \<open>The eight registers of a measurement.\<close>

definition raw_frame :: "(u8 \<Rightarrow> u8) \<Rightarrow> bytes" where
  "raw_frame f = map (\<lambda>i. f (0xF7 + of_nat i)) [0..<8]"

lemma raw_frame_values:
  "\<exists>p t h. frame_values (raw_frame f) = Some (p, t, h)"
  by (simp add: raw_frame_def frame_values_def raw20_def raw16_def load_def)

lemma frame_read:
  assumes "sensor_laws spi regs" and "p_bme280 b" and "frame_values (raw_frame (regs c)) = Some v"
  shows "\<exists>c'. bme280_read_uncomp_pressure_temperature_humidity spi old (b, c) = Some (0, v, b, c') \<and> regs c' = regs c"
proof -
  have "(0xF7 :: u8) OR 0x80 = 0xF7" by simp
  from bus_read [OF assms(1) this, of 8 c] obtain c' where
    "BME280_SPI_bus_read spi 0xF7 8 c = Some (raw_frame (regs c), c')" "regs c' = regs c" by (auto simp: raw_frame_def)
  with assms(2,3) show ?thesis
    by (simp add: bme280_read_uncomp_pressure_temperature_humidity_def read_raw_def BME280_PRESSURE_MSB_REG_def)
qed

lemma measurement_defined:
  assumes spi: "sensor_laws spi regs" and "p_bme280 b" and cal: "usual_calibration (cal_param b)"
    and v: "frame_values (raw_frame (regs c)) = Some (p, t, h)"
    and range: "operating_range (fine_temperature (cal_param b) t)"
  shows "\<exists>P H c'. bme280_read_pressure_temperature_humidity spi old (b, c) =
      Some (0, (P, (5 * fine_temperature (cal_param b) t + 128) div 256, H),
        b\<lparr>cal_param := (cal_param b)\<lparr>t_fine := fine_temperature (cal_param b) t\<rparr>\<rparr>, c') \<and>
    regs c' = regs c \<and> \<bar>sint P\<bar> \<le> 387003 \<and> unat H \<le> 102400 \<and>
    bme280_compensate_pressure_int32 ((cal_param b)\<lparr>t_fine := fine_temperature (cal_param b) t\<rparr>) p = Some P \<and>
    bme280_compensate_humidity_int32 ((cal_param b)\<lparr>t_fine := fine_temperature (cal_param b) t\<rparr>) h = Some H"
proof -
  let ?cal = "(cal_param b)\<lparr>t_fine := fine_temperature (cal_param b) t\<rparr>"
  have raw: "0 \<le> p" "p < 2 ^ 20" "0 \<le> t" "t < 2 ^ 20" "0 \<le> h" "h < 2 ^ 16"
    using v raw20_bounds raw16_bounds by (auto simp: frame_values_def bind_eq_Some_conv)
  from cal have "usual_temperature_calibration (cal_param b)" by (simp add: usual_calibration_def)
  from temperature_defined [OF raw(3,4) this]
  have T: "bme280_compensate_temperature_int32 (cal_param b) t =
    Some ((5 * fine_temperature (cal_param b) t + 128) div 256, ?cal)" by blast
  have cal': "usual_calibration ?cal" "operating_range (t_fine ?cal)"
    using cal range by (simp_all add: usual_calibration_def usual_temperature_calibration_def)
  obtain P where P: "bme280_compensate_pressure_int32 ?cal p = Some P" "\<bar>sint P\<bar> \<le> 387003"
    using pressure_defined [OF cal' raw(1,2)] by blast
  obtain H where H: "bme280_compensate_humidity_int32 ?cal h = Some H"
    using humidity_defined [OF cal' raw(5,6)] by blast
  obtain c' where c': "bme280_read_uncomp_pressure_temperature_humidity spi (0, 0, 0) (b, c) = Some (0, (p, t, h), b, c')"
    "regs c' = regs c" using frame_read [OF spi assms(2) v] by blast
  show ?thesis
    using assms(2) c' T P H humidity_bounded [OF H] by (simp add: bme280_read_pressure_temperature_humidity_def)
qed


text \<open>The parameters of the data sheet's example with usual ones for the humidity, and a sensor at rest.\<close>

definition usual_example :: calibration where
  "usual_example = data_sheet_calibration\<lparr>dig_H1 := 75, dig_H2 := 370, dig_H4 := 313, dig_H5 := 50, dig_H6 := 30\<rparr>"

definition measuring :: bme280 where
  "measuring = bme280_reset\<lparr>p_bme280 := True, cal_param := usual_example, ctrl_meas_reg := 0x25\<rparr>"

definition measured_registers :: "u8 \<Rightarrow> u8" where
  "measured_registers r = (if r = 0xF4 then 0x25 else if r = 0xF7 then 0x65 else if r = 0xFA then 0x7E
     else if r = 0xFB then 0xED else if r = 0xFD then 0x7A else 0)"

lemma measured_frame: "frame_values (raw_frame measured_registers) = Some (413696, 519888, 31232)"
  by code_simp

lemma usual_example: "usual_calibration usual_example" "fine_temperature usual_example 519888 = 128422"
  by (simp_all add: usual_calibration_def usual_temperature_calibration_def usual_example_def data_sheet_calibration_def
    zero_calibration_def fine_temperature_def)

lemma measuring_remembers: "remembers (\<lambda>f. f) (measuring, measured_registers)"
  by (simp add: remembers_def measuring_def measured_registers_def bme280_reset_def reg_defs)


end
