(* ===== verification/Sine.thy ===== *)
theory Sine
  imports Complex_Main Dimmer
begin

text \<open>
  The generator of the mains voltage table (\<open>sin.c\<close>), which prints the lines of \<open>include/sin.h\<close>. Floating-point
  arithmetic is a parameter: \<open>sample l\<close> is the value the program computes for \<open>l\<close>, and what is used of it is an error of
  at most a hundredth, which is far more than that of any evaluation in single or double precision.
\<close>

section \<open>The program\<close>

text \<open>The conversion of a floating-point number to \<open>int\<close> discards the fraction.\<close>

definition c_int :: "real \<Rightarrow> int" where
  "c_int x = (if x < 0 then - \<lfloor>- x\<rfloor> else \<lfloor>x\<rfloor>)"

text \<open>The numbers printed; the program's expression, read over the real numbers.\<close>

definition sin_main :: "(nat \<Rightarrow> real) \<Rightarrow> int list" where
  "sin_main sample = map (\<lambda>l. c_int (sample l)) [0..<40]"

definition sample_expr :: "nat \<Rightarrow> real" where
  "sample_expr l = sin (2 * pi / 40 * l) * 230 * (1414 / 1000)"

section \<open>The sines of multiples of nine degrees\<close>

lemma sq_bounds:
  fixes v :: real
  assumes "0 \<le> v" "0 \<le> u" "l\<^sup>2 \<le> v\<^sup>2" "v\<^sup>2 \<le> u\<^sup>2"
  shows "l \<le> v \<and> v \<le> u"
  using assms by (meson power2_le_imp_le)

definition sn :: "nat \<Rightarrow> real" where
  "sn k = sin (pi / 20 * k)"

lemma sn_nonneg: "k \<le> 20 \<Longrightarrow> 0 \<le> sn k"
  unfolding sn_def by (intro sin_ge_zero) (simp_all add: field_simps)

lemma sn_complement:
  assumes "k \<le> 10"
  shows "sn (10 - k) = cos (pi / 20 * k)"
proof -
  have "pi / 20 * real (10 - k) = pi / 2 - pi / 20 * k" using assms by (simp add: of_nat_diff field_simps)
  then show ?thesis unfolding sn_def by (simp only: sin_diff cos_pi_half sin_pi_half)
qed

lemma sn_square: "k \<le> 10 \<Longrightarrow> (sn (10 - k))\<^sup>2 = 1 - (sn k)\<^sup>2"
  by (simp add: sn_complement cos_squared_eq) (simp add: sn_def)

lemma sn_half:
  assumes "2 * k \<le> 10"
  shows "2 * (sn k)\<^sup>2 = 1 - sn (10 - 2 * k)"
proof -
  have "pi / 20 * real (2 * k) = 2 * (pi / 20 * k)" by simp
  then have "sn (10 - 2 * k) = cos (2 * (pi / 20 * k))" unfolding sn_complement [OF assms] by (rule arg_cong)
  then show ?thesis unfolding cos_double_sin by (simp add: sn_def)
qed

text \<open>Eighteen degrees, from \<open>cos 54 = sin 36\<close>.\<close>

lemma sn_2_equation: "(4 * sn 2 + 1)\<^sup>2 = 5"
proof -
  let ?s = "sin (pi / 10)" and ?c = "cos (pi / 10)"
  have "3 * (pi / 10) = pi / 2 - 2 * (pi / 10)" by simp
  then have "cos (3 * (pi / 10)) = cos (pi / 2 - 2 * (pi / 10))" by (rule arg_cong)
  also have "\<dots> = sin (2 * (pi / 10))" unfolding cos_diff cos_pi_half sin_pi_half by simp
  finally have "4 * ?c ^ 3 - 3 * ?c = 2 * ?s * ?c" unfolding cos_treble_cos sin_double .
  then have "?c * (4 * ?c\<^sup>2 - 3 - 2 * ?s) = 0" by (simp add: algebra_simps power2_eq_square power3_eq_cube)
  moreover have "0 < ?c" by (rule cos_gt_zero) (use pi_gt_zero in simp_all)
  ultimately have "4 * ?c\<^sup>2 = 3 + 2 * ?s" by simp
  then have "4 * (1 - ?s\<^sup>2) = 3 + 2 * ?s" unfolding cos_squared_eq .
  then show ?thesis by (simp add: sn_def power2_eq_square algebra_simps)
qed

definition between :: "nat \<Rightarrow> real \<Rightarrow> real \<Rightarrow> bool" where
  "between k l u \<longleftrightarrow> l / 10 ^ 6 \<le> sn k \<and> sn k \<le> u / 10 ^ 6"

lemma between_complement:
  assumes "between k l u" and "k \<le> 10" and "0 \<le> l" and "0 \<le> u'"
    and "l'\<^sup>2 + u\<^sup>2 \<le> 10 ^ 12" and "10 ^ 12 \<le> u'\<^sup>2 + l\<^sup>2"
  shows "between (10 - k) l' u'"
proof -
  have s: "(l / 10 ^ 6)\<^sup>2 \<le> (sn k)\<^sup>2" "(sn k)\<^sup>2 \<le> (u / 10 ^ 6)\<^sup>2"
    using assms(1-3) sn_nonneg [of k] by (auto simp: between_def intro!: power_mono)
  have "l' / 10 ^ 6 \<le> sn (10 - k) \<and> sn (10 - k) \<le> u' / 10 ^ 6"
  proof (rule sq_bounds)
    show "(l' / 10 ^ 6)\<^sup>2 \<le> (sn (10 - k))\<^sup>2"
      using s(2) assms(5) unfolding sn_square [OF assms(2)] by (simp add: power_divide field_simps)
    show "(sn (10 - k))\<^sup>2 \<le> (u' / 10 ^ 6)\<^sup>2"
      using s(1) assms(6) unfolding sn_square [OF assms(2)] by (simp add: power_divide field_simps)
  qed (use assms(4) sn_nonneg [of "10 - k"] in auto)
  then show ?thesis by (simp add: between_def)
qed

lemma between_half:
  assumes "between (10 - 2 * k) l u" and "2 * k \<le> 10" and "0 \<le> u'"
    and "2 * l'\<^sup>2 \<le> 10 ^ 12 - 10 ^ 6 * u" and "10 ^ 12 - 10 ^ 6 * l \<le> 2 * u'\<^sup>2"
  shows "between k l' u'"
proof -
  have s: "(sn k)\<^sup>2 = (1 - sn (10 - 2 * k)) / 2" using sn_half [OF assms(2)] by simp
  have "l' / 10 ^ 6 \<le> sn k \<and> sn k \<le> u' / 10 ^ 6"
  proof (rule sq_bounds)
    show "(l' / 10 ^ 6)\<^sup>2 \<le> (sn k)\<^sup>2"
      using assms(1,4) unfolding s between_def by (simp add: power_divide field_simps)
    show "(sn k)\<^sup>2 \<le> (u' / 10 ^ 6)\<^sup>2"
      using assms(1,5) unfolding s between_def by (simp add: power_divide field_simps)
  qed (use assms(2,3) sn_nonneg [of k] in auto)
  then show ?thesis by (simp add: between_def)
qed

lemma sn_bounds:
  "between 0 0 0" "between 1 156433 156436" "between 2 309016 309018" "between 3 453988 453993" "between 4 587782 587789"
  "between 5 707106 707107" "between 6 809015 809019" "between 7 891005 891008" "between 8 951056 951057"
  "between 9 987688 987689" "between 10 1000000 1000000"
proof -
  show "between 0 0 0" by (simp add: between_def sn_def)
  show "between 10 1000000 1000000" by (simp add: between_def sn_def)
  have "2236067 / 10 ^ 6 \<le> 4 * sn 2 + 1 \<and> 4 * sn 2 + 1 \<le> 2236068 / 10 ^ 6"
    using sn_nonneg [of 2] by (intro sq_bounds) (simp_all only: sn_2_equation, simp_all add: power2_eq_square)
  then show b2: "between 2 309016 309018" by (simp add: between_def)
  have "2 * (sn 2)\<^sup>2 = 1 - sn 6" using sn_half [of 2] by simp
  moreover have "(309016 / 10 ^ 6)\<^sup>2 \<le> (sn 2)\<^sup>2" "(sn 2)\<^sup>2 \<le> (309018 / 10 ^ 6)\<^sup>2"
    using b2 sn_nonneg [of 2] unfolding between_def by (auto intro!: power_mono)
  ultimately show b6: "between 6 809015 809019" unfolding between_def power2_eq_square by simp
  show b8: "between 8 951056 951057" using between_complement [OF b2, of 951057 951056] by simp
  show b4: "between 4 587782 587789" using between_complement [OF b6, of 587789 587782] by simp
  have "between 0 0 0" by (simp add: between_def sn_def)
  then show "between 5 707106 707107" using between_half [of 5 0 0 707107 707106] by simp
  show b1: "between 1 156433 156436" using between_half [of 1 951056 951057 156436 156433] b8 by simp
  show "between 9 987688 987689" using between_complement [OF b1, of 987689 987688] by simp
  show b3: "between 3 453988 453993" using between_half [of 3 587782 587789 453993 453988] b4 by simp
  show "between 7 891005 891008" using between_complement [OF b3, of 891008 891005] by simp
qed

section \<open>The table\<close>

text \<open>The four quarters of the period.\<close>

lemma sample_expr_quarters:
  "k \<le> 20 \<Longrightarrow> sample_expr k = 32522 / 100 * sn k"
  "sample_expr (20 + k) = - (32522 / 100 * sn k)"
  "k \<le> 20 \<Longrightarrow> sn (20 - k) = sn k"
proof -
  have e: "2 * pi / 40 * real l = pi / 20 * l" for l by simp
  show "sample_expr k = 32522 / 100 * sn k" unfolding sample_expr_def sn_def e by simp
  have "pi / 20 * real (20 + k) = pi / 20 * k + pi" by (simp add: field_simps)
  then show "sample_expr (20 + k) = - (32522 / 100 * sn k)"
    unfolding sample_expr_def sn_def e by (simp only: sin_periodic_pi)
  show "sn (20 - k) = sn k" if "k \<le> 20"
  proof -
    have "pi / 20 * real (20 - k) = pi - pi / 20 * k" using that by (simp add: of_nat_diff field_simps)
    then show ?thesis unfolding sn_def by (simp only: sin_pi_minus)
  qed
qed

lemma c_int_eq:
  "of_int n \<le> x \<Longrightarrow> x < of_int n + 1 \<Longrightarrow> 0 \<le> n \<Longrightarrow> c_int x = n"
  "of_int n \<le> - x \<Longrightarrow> - x < of_int n + 1 \<Longrightarrow> 0 \<le> n \<Longrightarrow> c_int x = - n"
proof -
  show "c_int x = n" if "of_int n \<le> x" "x < of_int n + 1" "0 \<le> n"
    using that floor_unique [of n x] by (simp add: c_int_def)
  show "c_int x = - n" if "of_int n \<le> - x" "- x < of_int n + 1" "0 \<le> n"
  proof (cases "x < 0")
    case False
    with that have "n = 0" "x = 0" by linarith+
    then show ?thesis by (simp add: c_int_def)
  qed (use that floor_unique [of n "- x"] in \<open>simp add: c_int_def\<close>)
qed

definition first_quarter :: "int list" where
  "first_quarter = [0, 50, 100, 147, 191, 229, 263, 289, 309, 321, 325]"

lemma first_quarter_near:
  assumes "0 < k" "k \<le> 10" and "\<bar>x - 32522 / 100 * sn k\<bar> \<le> 1 / 100"
  shows "of_int (first_quarter ! k) \<le> x \<and> x < of_int (first_quarter ! k) + 1"
proof -
  have d: "x \<le> 32522 / 100 * sn k + 1 / 100" "32522 / 100 * sn k - 1 / 100 \<le> x" using assms(3) by linarith+
  have b: "n \<le> x \<and> x < n + 1"
    if "between k l u" "10 ^ 8 * (n + 1 / 100) \<le> 32522 * l" "32522 * u < 10 ^ 8 * (n + 99 / 100)" for l u n :: real
  proof -
    have "l \<le> 1000000 * sn k" "1000000 * sn k \<le> u" using that(1) by (simp_all add: between_def field_simps)
    moreover have "100000000 * n + 1000000 \<le> 32522 * l" "32522 * u < 100000000 * n + 99000000" using that(2,3) by simp_all
    ultimately show ?thesis using d by linarith
  qed
  have "k = 1 \<or> k = 2 \<or> k = 3 \<or> k = 4 \<or> k = 5 \<or> k = 6 \<or> k = 7 \<or> k = 8 \<or> k = 9 \<or> k = 10"
    using assms(1,2) by presburger
  then have "\<exists>l u. between k l u \<and> 10 ^ 8 * (real_of_int (first_quarter ! k) + 1 / 100) \<le> 32522 * l \<and>
      32522 * u < 10 ^ 8 * (real_of_int (first_quarter ! k) + 99 / 100)"
    by - (elim disjE; hypsubst; intro exI; (rule conjI, rule sn_bounds, simp add: first_quarter_def))
  then show ?thesis using b by blast
qed

lemma first_quarter_nonneg: "k \<le> 10 \<Longrightarrow> 0 \<le> first_quarter ! k"
proof -
  have "\<forall>k \<in> set [0..<11]. 0 \<le> first_quarter ! k" by code_simp
  then show "k \<le> 10 \<Longrightarrow> 0 \<le> first_quarter ! k" by simp
qed

lemma c_int_small: "\<bar>x\<bar> < 1 \<Longrightarrow> c_int x = 0"
  using c_int_eq(1) [of 0 x] c_int_eq(2) [of 0 x] by (cases "0 \<le> x") auto

lemma c_int_quarter:
  assumes "k \<le> 10"
  shows "\<bar>x - 32522 / 100 * sn k\<bar> \<le> 1 / 100 \<Longrightarrow> c_int x = first_quarter ! k"
    and "\<bar>x + 32522 / 100 * sn k\<bar> \<le> 1 / 100 \<Longrightarrow> c_int x = - first_quarter ! k"
proof -
  have n: "0 \<le> first_quarter ! k" by (rule first_quarter_nonneg [OF assms])
  have z: "sn 0 = 0" "first_quarter ! 0 = 0" by (simp_all add: sn_def first_quarter_def)
  show "c_int x = first_quarter ! k" if x: "\<bar>x - 32522 / 100 * sn k\<bar> \<le> 1 / 100"
  proof (cases "k = 0")
    case True
    then have "\<bar>x\<bar> < 1" using x z(1) by simp
    from c_int_small [OF this] True z(2) show ?thesis by simp
  next
    case False
    then show ?thesis using first_quarter_near [OF _ assms x] c_int_eq(1) [OF _ _ n] by simp
  qed
  show "c_int x = - first_quarter ! k" if x: "\<bar>x + 32522 / 100 * sn k\<bar> \<le> 1 / 100"
  proof (cases "k = 0")
    case True
    then have "\<bar>x\<bar> < 1" using x z(1) by simp
    from c_int_small [OF this] True z(2) show ?thesis by simp
  next
    case False
    have "\<bar>- x - 32522 / 100 * sn k\<bar> \<le> 1 / 100" using x by linarith
    with False show ?thesis using first_quarter_near [OF _ assms, of "- x"] c_int_eq(2) [OF _ _ n] by simp
  qed
qed

lemma tab_sin_quarters:
  "\<forall>l \<in> set [0..<40]. tab_sin ! l = (if l \<le> 10 then first_quarter ! l else if l \<le> 20 then first_quarter ! (20 - l)
     else if l \<le> 30 then - first_quarter ! (l - 20) else - first_quarter ! (40 - l))"
  by code_simp

text \<open>
  C23: The table of the mains voltage in \<open>include/sin.h\<close>, with which the power meter multiplies, is what its generator
  prints, whatever floating-point arithmetic evaluates the sine to a hundredth: entry \<open>l\<close> is the
  voltage of a 230 volt mains at the 40th part \<open>l\<close> of its period, cut to an integer.
\<close>

theorem sine_table:
  assumes "\<forall>l < 40. \<bar>sample l - sample_expr l\<bar> \<le> 1 / 100"
  shows "sin_main sample = tab_sin"
proof -
  have "c_int (sample l) = tab_sin ! l" if l: "l < 40" for l
  proof -
    have near: "\<bar>sample l - sample_expr l\<bar> \<le> 1 / 100" using assms l by blast
    have t: "tab_sin ! l = (if l \<le> 10 then first_quarter ! l else if l \<le> 20 then first_quarter ! (20 - l)
       else if l \<le> 30 then - first_quarter ! (l - 20) else - first_quarter ! (40 - l))" using tab_sin_quarters l by simp
    have up: "c_int (sample l) = first_quarter ! k" if "k \<le> 10" "sample_expr l = 32522 / 100 * sn k" for k
      using c_int_quarter [OF that(1), of "sample l"] near that(2) by simp
    have down: "c_int (sample l) = - first_quarter ! k" if "k \<le> 10" "sample_expr l = - (32522 / 100 * sn k)" for k
      using c_int_quarter [OF that(1), of "sample l"] near that(2) by simp
    consider "l \<le> 10" | "10 < l" "l \<le> 20" | "20 < l" "l \<le> 30" | "30 < l" by linarith
    then show ?thesis
    proof cases
      case 1
      then show ?thesis using up [of l] sample_expr_quarters(1) [of l] t by simp
    next
      case 2
      then show ?thesis using up [of "20 - l"] sample_expr_quarters(1,3) [of l] t by simp
    next
      case 3
      then show ?thesis using down [of "l - 20"] sample_expr_quarters(2) [of "l - 20"] t by simp
    next
      case 4
      then show ?thesis
        using l down [of "40 - l"] sample_expr_quarters(2) [of "l - 20"] sample_expr_quarters(3) [of "l - 20"] t by simp
    qed
  qed
  then show ?thesis unfolding sin_main_def by (intro nth_equalityI) (simp_all add: tab_sin_def)
qed

lemma sine_table_witness: "sin_main sample_expr = tab_sin"
  by (rule sine_table) simp

end
