(* ===== verification/Queue_Interrupt.thy ===== *)
theory Queue_Interrupt
  imports Msg_Queue
begin

text \<open>
  \<open>QUEUE_Puts\<close> (\<open>mqtt/queue.c\<close>) when an interrupt strikes in its middle. \<open>storeIRQ\<close>, which runs in the
  GPIO interrupt, reports through \<open>send_paquet_sensor\<close> and \<open>MQTT_Publish\<close>, so the interrupt handler
  itself calls \<open>QUEUE_Puts\<close> on the queue of the interrupted call. The two calls share the ring buffer, the
  globals \<open>last_rb_p_r\<close>, \<open>last_rb_p_w\<close> and \<open>last_fill_cnt\<close>, and the client's output buffer, from
  which the packet is copied. All three are the record \<open>shared\<close>, which the handler transforms.
\<close>

section \<open>State and operations\<close>

text \<open>\<open>sh_rets\<close> collects what the calls made by the handler returned.\<close>

record shared =
  sh_queue :: msg_queue
  last_rb_p_r :: nat
  last_rb_p_w :: nat
  last_fill_cnt :: int
  sh_packet :: bytes
  sh_rets :: "int list"

abbreviation sh_rb :: "shared \<Rightarrow> ringbuf" where
  "sh_rb s \<equiv> q_rb (sh_queue s)"

definition set_rb :: "shared \<Rightarrow> ringbuf \<Rightarrow> shared" where
  "set_rb s rb = s\<lparr>sh_queue := (sh_queue s)\<lparr>q_rb := rb\<rparr>\<rparr>"

definition shared_put :: "shared \<Rightarrow> u8 \<Rightarrow> (int \<times> shared) option" where
  "shared_put s b = do { (t, rb) \<leftarrow> RINGBUF_Put (sh_rb s) b; Some (t, set_rb s rb) }"

text \<open>
  \<open>PROTO_AddRb\<close> on the shared state: \<open>isr\<close> runs at the head of the loop when \<open>at\<close> bytes of the
  packet have been copied (for \<open>at\<close> beyond the packet it does not run).
\<close>

fun AddRb_interrupted_loop ::
    "(shared \<Rightarrow> shared option) \<Rightarrow> nat \<Rightarrow> shared \<Rightarrow> nat \<Rightarrow> nat \<Rightarrow> nat \<Rightarrow> (int \<times> shared) option" where
  "AddRb_interrupted_loop isr at s off 0 i = do {
     s \<leftarrow> (if off = at then isr s else Some s);
     (t, s) \<leftarrow> shared_put s 0x7F;
     if t = -1 then Some (-1, s) else Some (to_s16 (int i), s)
   }"
| "AddRb_interrupted_loop isr at s off (Suc len) i = do {
     s \<leftarrow> (if off = at then isr s else Some s);
     b \<leftarrow> load (sh_packet s) off;
     if special b then do {
       (t, s) \<leftarrow> shared_put s 0x7D;
       if t = -1 then Some (-1, s)
       else do {
         (t, s) \<leftarrow> shared_put s (b XOR 0x20);
         if t = -1 then Some (-1, s) else AddRb_interrupted_loop isr at s (off + 1) len (i + 2)
       }
     } else do {
       (t, s) \<leftarrow> shared_put s b;
       if t = -1 then Some (-1, s) else AddRb_interrupted_loop isr at s (off + 1) len (i + 1)
     }
   }"

definition AddRb_interrupted ::
    "(shared \<Rightarrow> shared option) \<Rightarrow> nat \<Rightarrow> shared \<Rightarrow> int \<Rightarrow> (int \<times> shared) option" where
  "AddRb_interrupted isr at s len = do {
     (t, s) \<leftarrow> shared_put s 0x7E;
     if t = -1 then Some (-1, s) else AddRb_interrupted_loop isr at s 0 (to_u16 len) 2
   }"

definition QUEUE_Puts_interrupted ::
    "(shared \<Rightarrow> shared option) \<Rightarrow> nat \<Rightarrow> shared \<Rightarrow> nat \<Rightarrow> (int \<times> shared) option" where
  "QUEUE_Puts_interrupted isr at s len = do {
     let s = s\<lparr>last_rb_p_r := p_r (sh_rb s), last_rb_p_w := p_w (sh_rb s),
               last_fill_cnt := fill_cnt (sh_rb s)\<rparr>;
     (ret, s) \<leftarrow> AddRb_interrupted isr at s (to_s16 (int len));
     let s = (if ret = -1
              then set_rb s ((sh_rb s)\<lparr>p_r := last_rb_p_r s, p_w := last_rb_p_w s,
                                       fill_cnt := last_fill_cnt s\<rparr>)
              else s);
     Some (ret, s)
   }"

text \<open>
  The handler: it builds its own packet \<open>m\<close> in the output buffer (\<open>mqtt_msg_publish\<close>) and queues
  it. It is not interrupted in turn.
\<close>

definition publishing_isr :: "bytes \<Rightarrow> shared \<Rightarrow> shared option" where
  "publishing_isr m s = do {
     let s = s\<lparr>sh_packet := m @ drop (length m) (sh_packet s)\<rparr>;
     (ret, s) \<leftarrow> QUEUE_Puts_interrupted Some (length m + 1) s (length m);
     Some (s\<lparr>sh_rets := sh_rets s @ [ret]\<rparr>)
   }"

section \<open>Lemmas\<close>

lemma set_rb_simps [simp]:
  "sh_rb (set_rb s r) = r" "sh_packet (set_rb s r) = sh_packet s" "set_rb (set_rb s r) r' = set_rb s r'"
  "last_rb_p_r (set_rb s r) = last_rb_p_r s" "last_rb_p_w (set_rb s r) = last_rb_p_w s"
  "last_fill_cnt (set_rb s r) = last_fill_cnt s" "sh_rets (set_rb s r) = sh_rets s"
  "set_rb s (sh_rb s) = s"
  by (simp_all add: set_rb_def)

text \<open>After the interruption point, and without a handler, the loop is that of \<open>PROTO_AddRb\<close>.\<close>

lemma interrupted_loop_after:
  "isr = Some \<or> at < off \<Longrightarrow> AddRb_interrupted_loop isr at s off len i = do {
     (t, rb) \<leftarrow> PROTO_AddRb_loop (sh_rb s) (sh_packet s) off len i;
     Some (t, set_rb s rb)
   }"
proof (induction len arbitrary: s off i)
  case 0
  then have "(if off = at then isr s else Some s) = Some s" by auto
  then show ?case by (cases "RINGBUF_Put (sh_rb s) 0x7F") (auto simp: shared_put_def)
next
  case (Suc len)
  have IH: "AddRb_interrupted_loop isr at (set_rb s r) (Suc off) len j = do {
      (t, rb) \<leftarrow> PROTO_AddRb_loop r (sh_packet s) (Suc off) len j; Some (t, set_rb s rb) }" for r j
    using Suc.IH [of "Suc off" "set_rb s r" j] Suc.prems by auto
  have run: "(if off = at then isr s else Some s) = Some s" using Suc.prems by auto
  show ?case
  proof (cases "load (sh_packet s) off")
    case b: (Some b)
    show ?thesis
    proof (cases "special b")
      case True
      show ?thesis
      proof (cases "RINGBUF_Put (sh_rb s) 0x7D")
        case (Some x)
        obtain s1 r1 where x: "x = (s1, r1)" by (cases x)
        with True Some b run show ?thesis
          by (cases "s1 = -1"; cases "RINGBUF_Put r1 (b XOR 0x20)")
            (auto simp: IH shared_put_def cong: if_cong)
      qed (use b True run in \<open>simp add: shared_put_def\<close>)
    next
      case False
      with b run show ?thesis
        by (cases "RINGBUF_Put (sh_rb s) b") (auto simp: IH shared_put_def cong: if_cong)
    qed
  qed (use run in simp)
qed

lemma uninterrupted_AddRb:
  "AddRb_interrupted Some at s len = do {
     (t, rb) \<leftarrow> PROTO_AddRb (sh_rb s) (sh_packet s) len;
     Some (t, set_rb s rb)
   }"
  by (cases "RINGBUF_Put (sh_rb s) 0x7E")
    (auto simp: AddRb_interrupted_def PROTO_AddRb_def shared_put_def interrupted_loop_after)

text \<open>Before it, the packet's bytes are put one by one; then the handler runs, then the loop goes on.\<close>

lemma interrupted_loop_split:
  "off \<le> at \<Longrightarrow> at \<le> off + len \<Longrightarrow> off + len \<le> length (sh_packet s) \<Longrightarrow>
   AddRb_interrupted_loop isr at s off len i = do {
     (t, rb) \<leftarrow> put_all RINGBUF_Put (sh_rb s) (escs (take (at - off) (drop off (sh_packet s))));
     if t = -1 then Some (-1, set_rb s rb)
     else AddRb_interrupted_loop isr at (set_rb s rb) at (off + len - at)
            (i + length (escs (take (at - off) (drop off (sh_packet s)))))
   }"
proof (induction len arbitrary: s off i)
  case 0
  then show ?case by simp
next
  case (Suc len)
  let ?pk = "sh_packet s"
  show ?case
  proof (cases "off = at")
    case False
    with Suc.prems have lt: "off < at" by simp
    let ?b = "?pk ! off" and ?t = "take (at - Suc off) (drop (Suc off) ?pk)"
    have b: "load ?pk off = Some ?b" using Suc.prems by (simp add: mem_simps)
    have seg: "take (at - off) (drop off ?pk) = ?b # ?t"
      using take_drop_Suc [of off "at - Suc off" ?pk] Suc.prems lt by (simp add: Suc_diff_Suc)
    have IH: "AddRb_interrupted_loop isr at (set_rb s r) (Suc off) len j = do {
        (t, rb) \<leftarrow> put_all RINGBUF_Put r (escs ?t);
        if t = -1 then Some (-1, set_rb s rb)
        else AddRb_interrupted_loop isr at (set_rb s rb) at (Suc off + len - at) (j + length (escs ?t))
      }" for r j
      using Suc.IH [of "Suc off" "set_rb s r" j] Suc.prems lt
      by (cases "put_all RINGBUF_Put r (escs ?t)") auto
    show ?thesis
    proof (cases "special ?b")
      case True
      show ?thesis
      proof (cases "RINGBUF_Put (sh_rb s) 0x7D")
        case (Some x)
        obtain s1 r1 where x: "x = (s1, r1)" by (cases x)
        with True Some lt show ?thesis
          by (cases "s1 = -1"; cases "RINGBUF_Put r1 (?b XOR 0x20)")
            (auto simp: IH b seg esc_def shared_put_def add.assoc cong: if_cong)
      qed (use lt True in \<open>simp add: b seg esc_def shared_put_def\<close>)
    next
      case False
      with lt show ?thesis
        by (cases "RINGBUF_Put (sh_rb s) ?b")
          (auto simp: IH b seg esc_def shared_put_def cong: if_cong)
    qed
  qed simp
qed

lemma interrupted_loop_at:
  "AddRb_interrupted_loop isr at s at len i = do {
     s \<leftarrow> isr s;
     (t, rb) \<leftarrow> PROTO_AddRb_loop (sh_rb s) (sh_packet s) at len i;
     Some (t, set_rb s rb)
   }"
proof -
  have "AddRb_interrupted_loop isr at s at len i = do {
      s \<leftarrow> isr s; AddRb_interrupted_loop Some at s at len i }"
    by (cases len) (simp_all add: interrupted_loop_after cong: if_cong)
  then show ?thesis by (simp add: interrupted_loop_after)
qed

text \<open>\<open>extended r r' xs\<close>: the ring \<open>r'\<close> is \<open>r\<close> with \<open>xs\<close> written behind its contents.\<close>

definition extended :: "ringbuf \<Rightarrow> ringbuf \<Rightarrow> bytes \<Rightarrow> bool" where
  "extended r r' xs \<longleftrightarrow> rb_inv r' \<and> rb_size r' = rb_size r \<and> p_r r' = p_r r \<and> rb_list r' = rb_list r @ xs"

lemma extended_trans: "extended r r1 xs \<Longrightarrow> extended r1 r2 ys \<Longrightarrow> extended r r2 (xs @ ys)"
  by (simp add: extended_def)

lemma put_all_grown:
  assumes "rb_inv r"
  shows "length (rb_list r) + length bs \<le> nat (rb_size r) \<Longrightarrow>
      \<exists>r'. put_all RINGBUF_Put r bs = Some (0, r') \<and> extended r r' bs"
    and "nat (rb_size r) < length (rb_list r) + length bs \<Longrightarrow>
      \<exists>r' xs. put_all RINGBUF_Put r bs = Some (-1, r') \<and> extended r r' xs"
proof -
  from rb.put_all_spec [OF assms, of bs] obtain s r' where
    p: "put_all RINGBUF_Put r bs = Some (s, r')" "rb_inv r'" "nat (rb_size r') = nat (rb_size r)"
      "s = 0 \<longleftrightarrow> length (rb_list r) + length bs \<le> nat (rb_size r)" "s = 0 \<or> s = -1"
      "rb_list r' = take (nat (rb_size r)) (rb_list r @ bs)" by auto
  from RINGBUF_put_all_p_r [OF p(1)] have r': "p_r r' = p_r r" "rb_size r' = rb_size r" by auto
  have bound: "length (rb_list r) \<le> nat (rb_size r)" by (rule rb.content_bound [OF assms])
  show "\<exists>r'. put_all RINGBUF_Put r bs = Some (0, r') \<and> extended r r' bs"
    if "length (rb_list r) + length bs \<le> nat (rb_size r)" using p r' that by (auto simp: extended_def)
  show "\<exists>r' xs. put_all RINGBUF_Put r bs = Some (-1, r') \<and> extended r r' xs"
    if "nat (rb_size r) < length (rb_list r) + length bs" using p r' that bound
    by (auto simp: extended_def simp del: length_rb_list)
qed

lemma put_grown:
  assumes "rb_inv r" and "length (rb_list r) < nat (rb_size r)"
  shows "\<exists>r'. RINGBUF_Put r b = Some (0, r') \<and> extended r r' [b]"
proof -
  from rb.put_ok [OF assms, of b] obtain r' where r': "RINGBUF_Put r b = Some (0, r')" "rb_inv r'"
    "rb_list r' = rb_list r @ [b]" by auto
  then have "put_all RINGBUF_Put r [b] = Some (0, r')" by simp
  from RINGBUF_put_all_p_r [OF this] r' show ?thesis by (simp add: extended_def)
qed

text \<open>A call that is not interrupted, when there is room.\<close>

lemma uninterrupted_put:
  assumes inv: "rb_inv (sh_rb s)" and size: "rb_size (sh_rb s) < 65535"
    and n: "n \<le> length (sh_packet s)" "n < 65536"
    and room: "length (rb_list (sh_rb s)) + length (frame (take n (sh_packet s))) \<le> nat (rb_size (sh_rb s))"
  shows "\<exists>ret s'. QUEUE_Puts_interrupted Some k s n = Some (ret, s') \<and> ret \<noteq> -1 \<and>
    extended (sh_rb s) (sh_rb s') (frame (take n (sh_packet s))) \<and>
    sh_packet s' = sh_packet s \<and> sh_rets s' = sh_rets s \<and> last_rb_p_r s' = p_r (sh_rb s) \<and>
    last_rb_p_w s' = p_w (sh_rb s) \<and> last_fill_cnt s' = fill_cnt (sh_rb s)"
proof -
  let ?f = "frame (take n (sh_packet s))"
  from PROTO_AddRb_spec [OF inv, of "to_s16 (int n)" "sh_packet s"] n room obtain r' where
    r': "PROTO_AddRb (sh_rb s) (sh_packet s) (to_s16 (int n)) = Some (to_s16 (int (length ?f)), r')"
      "extended (sh_rb s) r' ?f"
    by (auto simp: extended_def simp del: length_rb_list)
  from room size have "to_s16 (int (length ?f)) \<noteq> -1" by (intro to_s16_not_m1) auto
  with r' show ?thesis by (simp add: QUEUE_Puts_interrupted_def uninterrupted_AddRb Let_def)
qed

text \<open>
  The pieces of the interrupted call: the bytes before the interrupt, the packet in the output buffer
  after it, and the bytes that the interrupted call writes when it goes on.
\<close>

definition cut_head :: "bytes \<Rightarrow> nat \<Rightarrow> bytes" where
  "cut_head packet at = 0x7E # escs (take at packet)"

definition cut_tail :: "bytes \<Rightarrow> nat \<Rightarrow> nat \<Rightarrow> bytes \<Rightarrow> bytes" where
  "cut_tail packet at n m = take (n - at) (drop at (m @ drop (length m) packet))"

lemma publishing_isr_put:
  assumes inv: "rb_inv (sh_rb s)" and size: "rb_size (sh_rb s) < 65535"
    and m: "length m < 65536"
    and room: "length (rb_list (sh_rb s)) + length (frame m) \<le> nat (rb_size (sh_rb s))"
  shows "\<exists>r s'. publishing_isr m s = Some s' \<and> sh_rets s' = sh_rets s @ [r] \<and> r \<noteq> -1 \<and>
    extended (sh_rb s) (sh_rb s') (frame m) \<and> sh_packet s' = m @ drop (length m) (sh_packet s) \<and>
    last_rb_p_r s' = p_r (sh_rb s) \<and> last_rb_p_w s' = p_w (sh_rb s) \<and>
    last_fill_cnt s' = fill_cnt (sh_rb s)"
proof -
  let ?s = "s\<lparr>sh_packet := m @ drop (length m) (sh_packet s)\<rparr>"
  from uninterrupted_put [of ?s "length m" "length m + 1"] assms obtain ret s' where
    "QUEUE_Puts_interrupted Some (length m + 1) ?s (length m) = Some (ret, s')" "ret \<noteq> -1"
    "extended (sh_rb s) (sh_rb s') (frame m)" "sh_packet s' = sh_packet ?s" "sh_rets s' = sh_rets s"
    "last_rb_p_r s' = p_r (sh_rb s)" "last_rb_p_w s' = p_w (sh_rb s)"
    "last_fill_cnt s' = fill_cnt (sh_rb s)"
    by auto
  then show ?thesis by (simp add: publishing_isr_def Let_def)
qed

lemma interrupted_AddRb:
  assumes inv: "rb_inv (sh_rb s)" and size: "rb_size (sh_rb s) < 65535"
    and n: "n \<le> length (sh_packet s)" "n < 65536" "at \<le> n"
    and m: "length m \<le> length (sh_packet s)" "length m < 65536"
    and room: "length (rb_list (sh_rb s)) + length (cut_head (sh_packet s) at) + length (frame m)
      \<le> nat (rb_size (sh_rb s))"
  shows "\<exists>ret r s' s1 xs. AddRb_interrupted (publishing_isr m) at s (to_s16 (int n)) = Some (ret, s') \<and>
    sh_rets s' = sh_rets s @ [r] \<and> r \<noteq> -1 \<and> extended (sh_rb s) s1 (cut_head (sh_packet s) at) \<and>
    last_rb_p_r s' = p_r s1 \<and> last_rb_p_w s' = p_w s1 \<and> last_fill_cnt s' = fill_cnt s1 \<and>
    extended s1 (sh_rb s') (frame m @ xs) \<and>
    (let post = escs (cut_tail (sh_packet s) at n m) @ [0x7F] in
     if length (rb_list s1) + length (frame m) + length post \<le> nat (rb_size (sh_rb s))
     then ret \<noteq> -1 \<and> xs = post else ret = -1)"
proof -
  let ?pk = "sh_packet s" and ?pre = "escs (take at (sh_packet s))"
  let ?post = "escs (cut_tail ?pk at n m) @ [0x7F]"
  have len: "length (cut_head ?pk at) = length ?pre + 1" by (simp add: cut_head_def)
  from put_grown [OF inv, of "0x7E"] room len obtain r0 where
    r0: "RINGBUF_Put (sh_rb s) 0x7E = Some (0, r0)" "extended (sh_rb s) r0 [0x7E]"
    by (auto simp: length_frame simp del: length_rb_list)
  from put_all_grown(1) [of r0 ?pre] r0(2) room len obtain r1 where
    r1: "put_all RINGBUF_Put r0 ?pre = Some (0, r1)" "extended r0 r1 ?pre"
    by (auto simp: extended_def simp del: length_rb_list)
  have g1: "extended (sh_rb s) r1 (cut_head ?pk at)"
    using extended_trans [OF r0(2) r1(2)] by (simp add: cut_head_def)
  define s1 where "s1 = set_rb s r1"
  have s1: "sh_rb s1 = r1" "sh_packet s1 = ?pk" "sh_rets s1 = sh_rets s" by (simp_all add: s1_def)
  from publishing_isr_put [of s1 m] g1 s1 size m room obtain r s2 where
    s2: "publishing_isr m s1 = Some s2" "sh_rets s2 = sh_rets s @ [r]" "r \<noteq> -1"
      "extended r1 (sh_rb s2) (frame m)" "sh_packet s2 = m @ drop (length m) ?pk"
      "last_rb_p_r s2 = p_r r1" "last_rb_p_w s2 = p_w r1" "last_fill_cnt s2 = fill_cnt r1"
    by (auto simp: extended_def simp del: length_rb_list)
  have run: "AddRb_interrupted (publishing_isr m) at s (to_s16 (int n)) = do {
      (t, rb) \<leftarrow> PROTO_AddRb_loop (sh_rb s2) (sh_packet s2) at (n - at) (2 + length ?pre);
      Some (t, set_rb s2 rb) }"
    using r0 r1 s2(1) n interrupted_loop_split [of 0 at n "set_rb s r0" "publishing_isr m" 2]
    by (simp add: AddRb_interrupted_def shared_put_def interrupted_loop_at s1_def)
  also have "PROTO_AddRb_loop (sh_rb s2) (sh_packet s2) at (n - at) (2 + length ?pre) = do {
      (t, rb') \<leftarrow> put_all RINGBUF_Put (sh_rb s2) ?post;
      Some (if t = -1 then -1
            else to_s16 (int (2 + length ?pre + length (escs (cut_tail ?pk at n m)))), rb') }"
    unfolding cut_tail_def s2(5) [symmetric]
    by (rule AddRb_loop_put_all) (use n m s2(5) in simp)
  finally have run': "AddRb_interrupted (publishing_isr m) at s (to_s16 (int n)) = do {
      (t, rb') \<leftarrow> put_all RINGBUF_Put (sh_rb s2) ?post;
      Some (if t = -1 then -1
            else to_s16 (int (2 + length ?pre + length (escs (cut_tail ?pk at n m)))), set_rb s2 rb') }"
    by (cases "put_all RINGBUF_Put (sh_rb s2) ?post") auto
  have l2: "rb_list (sh_rb s2) = rb_list r1 @ frame m" "rb_inv (sh_rb s2)"
    "rb_size (sh_rb s2) = rb_size (sh_rb s)" using s2(4) g1 by (auto simp: extended_def)
  show ?thesis
  proof (cases "length (rb_list r1) + length (frame m) + length ?post \<le> nat (rb_size (sh_rb s))")
    case True
    with put_all_grown(1) [OF l2(2), of ?post] l2 obtain r3 where
      r3: "put_all RINGBUF_Put (sh_rb s2) ?post = Some (0, r3)" "extended (sh_rb s2) r3 ?post"
      by (auto simp del: length_rb_list)
    have "length (rb_list r1) \<ge> length ?pre" using g1 by (simp add: extended_def cut_head_def del: length_rb_list)
    with True size have ne: "to_s16 (int (2 + length ?pre + length (escs (cut_tail ?pk at n m)))) \<noteq> -1"
      by (intro to_s16_not_m1) (auto simp: length_frame simp del: length_rb_list)
    show ?thesis
      by (rule exI [of _ "to_s16 (int (2 + length ?pre + length (escs (cut_tail ?pk at n m))))"],
          rule exI [of _ r], rule exI [of _ "set_rb s2 r3"], rule exI [of _ r1], rule exI [of _ ?post])
        (use run' r3 g1 s2 True ne extended_trans [OF s2(4) r3(2)] in \<open>auto simp: Let_def\<close>)
  next
    case False
    with put_all_grown(2) [OF l2(2), of ?post] l2 obtain r3 xs where
      r3: "put_all RINGBUF_Put (sh_rb s2) ?post = Some (-1, r3)" "extended (sh_rb s2) r3 xs"
      by (auto simp del: length_rb_list)
    show ?thesis
      by (rule exI [of _ "-1"], rule exI [of _ r], rule exI [of _ "set_rb s2 r3"], rule exI [of _ r1],
          rule exI [of _ xs])
        (use run' r3 g1 s2 False extended_trans [OF s2(4) r3(2)] in \<open>auto simp: Let_def\<close>)
  qed
qed

text \<open>Both calls together: the interrupted one restores what the handler's call saved.\<close>

lemma interrupted_put:
  assumes inv: "rb_inv (sh_rb s)" and size: "rb_size (sh_rb s) < 65535"
    and n: "n \<le> length (sh_packet s)" "n < 65536" "at \<le> n"
    and m: "length m \<le> length (sh_packet s)" "length m < 65536"
    and room: "length (rb_list (sh_rb s)) + length (cut_head (sh_packet s) at) + length (frame m)
      \<le> nat (rb_size (sh_rb s))"
  shows "\<exists>ret r s'. QUEUE_Puts_interrupted (publishing_isr m) at s n = Some (ret, s') \<and>
    sh_rets s' = sh_rets s @ [r] \<and> r \<noteq> -1 \<and> rb_inv (sh_rb s') \<and>
    (if length (rb_list (sh_rb s)) + length (cut_head (sh_packet s) at) + length (frame m) +
        length (escs (cut_tail (sh_packet s) at n m)) < nat (rb_size (sh_rb s))
     then ret \<noteq> -1 \<and> rb_list (sh_rb s') = rb_list (sh_rb s) @ cut_head (sh_packet s) at @ frame m @
       escs (cut_tail (sh_packet s) at n m) @ [0x7F]
     else ret = -1 \<and> rb_list (sh_rb s') = rb_list (sh_rb s) @ cut_head (sh_packet s) at)"
proof -
  let ?s = "s\<lparr>last_rb_p_r := p_r (sh_rb s), last_rb_p_w := p_w (sh_rb s), last_fill_cnt := fill_cnt (sh_rb s)\<rparr>"
  let ?post = "escs (cut_tail (sh_packet s) at n m) @ [0x7F]"
  from interrupted_AddRb [of ?s n at m] assms obtain ret r s' r1 xs where
    a: "AddRb_interrupted (publishing_isr m) at ?s (to_s16 (int n)) = Some (ret, s')"
      "sh_rets s' = sh_rets s @ [r]" "r \<noteq> -1" "extended (sh_rb s) r1 (cut_head (sh_packet s) at)"
      "last_rb_p_r s' = p_r r1" "last_rb_p_w s' = p_w r1" "last_fill_cnt s' = fill_cnt r1"
      "extended r1 (sh_rb s') (frame m @ xs)"
      "if length (rb_list r1) + length (frame m) + length ?post \<le> nat (rb_size (sh_rb s))
       then ret \<noteq> -1 \<and> xs = ?post else ret = -1"
    by (auto simp: Let_def simp del: length_rb_list)
  have l: "length (rb_list r1) = length (rb_list (sh_rb s)) + length (cut_head (sh_packet s) at)"
    using a(4) by (simp add: extended_def del: length_rb_list)
  show ?thesis
  proof (cases "length (rb_list r1) + length (frame m) + length ?post \<le> nat (rb_size (sh_rb s))")
    case True
    with a l show ?thesis
      by (simp add: QUEUE_Puts_interrupted_def extended_def Let_def del: length_rb_list)
  next
    case False
    have "rb_inv ((sh_rb s')\<lparr>p_r := p_r r1, p_w := p_w r1, fill_cnt := fill_cnt r1\<rparr>) \<and>
        rb_list ((sh_rb s')\<lparr>p_r := p_r r1, p_w := p_w r1, fill_cnt := fill_cnt r1\<rparr>) = rb_list r1"
      using a(4,8) by (intro rollback_list [of r1 _ "frame m @ xs"]) (auto simp: extended_def)
    with False a l show ?thesis
      by (simp add: QUEUE_Puts_interrupted_def extended_def Let_def del: length_rb_list)
  qed
qed

subsection \<open>Reading the queue afterwards\<close>

definition gets :: "u8 \<Rightarrow> proto_parser \<Rightarrow> nat \<Rightarrow> msg_queue \<Rightarrow> bytes \<Rightarrow> nat \<Rightarrow>
    (int \<times> bytes \<times> nat \<times> msg_queue) option" where
  "gets c0 p0 len0 q buf n = QUEUE_Gets q c0 p0 buf len0 n"

lemma run_get:
  assumes "rb_inv (q_rb q)" and "rb_list (q_rb q) = junk @ frame m @ rest" and "0x7F \<notin> set junk"
    and "length m \<le> length buf"
  shows "\<exists>q'. rb_inv (q_rb q') \<and> rb_list (q_rb q') = rest \<and>
    (\<forall>ops. msg_run QUEUE_Puts (gets c0 p0 len0) buf q (GetsOp # ops) =
       do { (out, q'') \<leftarrow> msg_run QUEUE_Puts (gets c0 p0 len0) buf q' ops; Some (Got m # out, q'') })"
proof -
  from PROTO_ParseRb_frame [OF assms(1) order_refl assms(2,3), of c0 p0 buf len0] assms(4) obtain buf' rb' where
    "PROTO_ParseRb (q_rb q) c0 p0 buf len0 (length buf) = Some (0, buf', length m, rb')"
    "take (length m) buf' = m" "rb_inv rb'" "rb_list rb' = rest"
    by (auto simp: min_absorb2)
  then show ?thesis
    by (intro exI [of _ "q\<lparr>q_rb := rb'\<rparr>"]) (simp add: gets_def QUEUE_Gets_def)
qed

lemma run_gets:
  "rb_inv (q_rb q) \<Longrightarrow> rb_list (q_rb q) = frames ms @ rest \<Longrightarrow> \<forall>m \<in> set ms. length m \<le> length buf \<Longrightarrow>
   \<exists>q'. rb_inv (q_rb q') \<and> rb_list (q_rb q') = rest \<and>
     (\<forall>ops. msg_run QUEUE_Puts (gets c0 p0 len0) buf q (replicate (length ms) GetsOp @ ops) =
        do { (out, q'') \<leftarrow> msg_run QUEUE_Puts (gets c0 p0 len0) buf q' ops; Some (map Got ms @ out, q'') })"
proof (induction ms arbitrary: q)
  case Nil
  then show ?case by (intro exI [of _ q]) auto
next
  case (Cons m ms)
  from run_get [of q "[]" m "frames ms @ rest" buf c0 p0 len0] Cons.prems obtain q1 where
    q1: "rb_inv (q_rb q1)" "rb_list (q_rb q1) = frames ms @ rest"
      "\<And>ops. msg_run QUEUE_Puts (gets c0 p0 len0) buf q (GetsOp # ops) =
        do { (out, q'') \<leftarrow> msg_run QUEUE_Puts (gets c0 p0 len0) buf q1 ops; Some (Got m # out, q'') }"
    by auto
  from Cons.IH [OF q1(1,2)] Cons.prems(3) obtain q2 where
    q2: "rb_inv (q_rb q2)" "rb_list (q_rb q2) = rest"
      "\<And>ops. msg_run QUEUE_Puts (gets c0 p0 len0) buf q1 (replicate (length ms) GetsOp @ ops) =
        do { (out, q'') \<leftarrow> msg_run QUEUE_Puts (gets c0 p0 len0) buf q2 ops; Some (map Got ms @ out, q'') }"
    by auto
  have "msg_run QUEUE_Puts (gets c0 p0 len0) buf q (replicate (length (m # ms)) GetsOp @ ops) =
      do { (out, q'') \<leftarrow> msg_run QUEUE_Puts (gets c0 p0 len0) buf q2 ops;
           Some (map Got (m # ms) @ out, q'') }" for ops
    using q1(3) [of "replicate (length ms) GetsOp @ ops"] q2(3) [of ops]
    by (cases "msg_run QUEUE_Puts (gets c0 p0 len0) buf q2 ops") auto
  with q2(1,2) show ?case by blast
qed

lemma run_get_nothing:
  assumes "rb_inv (q_rb q)" and "0x7F \<notin> set (rb_list (q_rb q))"
  shows "\<exists>q'. msg_run QUEUE_Puts (gets c0 p0 len0) buf q [GetsOp] = Some ([Nothing], q') \<and>
    rb_list (q_rb q') = []"
proof -
  from PROTO_ParseRb_total [OF assms(1) order_refl, of c0 p0 buf len0] assms(2) obtain buf' rb' where
    "PROTO_ParseRb (q_rb q) c0 p0 buf len0 (length buf) = Some (-1, buf', len0, rb')" "rb_list rb' = []"
    by auto
  then show ?thesis by (simp add: gets_def QUEUE_Gets_def del: rb_list_Nil_iff)
qed

text \<open>
  What the interrupted call leaves at the end is read as a message of its own, although it never
  began: as an empty one when the parser's uninitialised \<open>isBegin\<close> happens to be zero.
\<close>

lemma feed_not_begun:
  "isBegin p = 0 \<Longrightarrow> \<exists>p'. feed p (escs xs @ 0x7F # rest) = Some (True, p', rest) \<and>
     pbuf p' = pbuf p \<and> dataLen p' = dataLen p"
proof (induction xs arbitrary: p)
  case Nil
  then show ?case by (auto simp: PROTO_ParseByte_def)
next
  case (Cons x xs)
  define p1 where "p1 = (if special x then p\<lparr>isEsc := 1\<rparr> else p)"
  have p1: "isBegin p1 = 0" "pbuf p1 = pbuf p" "dataLen p1 = dataLen p"
    using Cons.prems by (simp_all add: p1_def)
  from Cons.IH [OF p1(1)] p1 obtain p' where
    p': "feed p1 (escs xs @ 0x7F # rest) = Some (True, p', rest)" "pbuf p' = pbuf p" "dataLen p' = dataLen p"
    by auto
  have "feed p (esc x @ escs xs @ 0x7F # rest) = feed p1 (escs xs @ 0x7F # rest)"
  proof (cases "special x")
    case True
    then have "esc x = [0x7D, x XOR 0x20]" by (simp add: esc_def)
    moreover have "PROTO_ParseByte p1 (x XOR 0x20) = Some (-1, p1)"
      using special_xor [OF True] p1(1) by (simp add: not_special_iff PROTO_ParseByte_def)
    moreover have "PROTO_ParseByte p 0x7D = Some (-1, p1)"
      using True by (simp add: p1_def PROTO_ParseByte_def)
    ultimately show ?thesis by simp
  next
    case False
    then have "esc x = [x]" "p1 = p" by (simp_all add: esc_def p1_def)
    moreover have "PROTO_ParseByte p x = Some (-1, p)"
      using False Cons.prems by (simp add: not_special_iff PROTO_ParseByte_def)
    ultimately show ?thesis by simp
  qed
  with p' show ?case by auto
qed

lemma feed_tail:
  assumes "parser_ok p" and "isEsc p = 0" and "dataLen p = 0" and "length xs \<le> bufSize p"
  shows "\<exists>p'. feed p (escs xs @ 0x7F # rest) = Some (True, p', rest) \<and>
    take (dataLen p') (pbuf p') = (if isBegin p = 0 then [] else xs)"
proof (cases "isBegin p = 0")
  case True
  from feed_not_begun [OF this, of xs rest] assms(3) True show ?thesis by auto
next
  case False
  then have "receiving p []" using assms by (simp add: receiving_def)
  from feed_escs [OF this, of xs "0x7F # rest"] obtain p1 where
    p1: "feed p (escs xs @ 0x7F # rest) = feed p1 (0x7F # rest)" "receiving p1 xs" "same_buffer p p1"
    by auto
  from ParseByte_end [OF p1(2)] obtain p2 where
    p2: "PROTO_ParseByte p1 0x7F = Some (0, p2)" "pbuf p2 = pbuf p1" "dataLen p2 = dataLen p1" by auto
  from p1 p2 assms(4) False show ?thesis
    by (auto simp: receiving_def same_buffer_def min_absorb2)
qed

lemma run_get_tail:
  assumes "rb_inv (q_rb q)" and "rb_list (q_rb q) = escs xs @ [0x7F]" and "length xs \<le> length buf"
  shows "\<exists>q'. rb_inv (q_rb q') \<and> rb_list (q_rb q') = [] \<and>
    (\<forall>ops. msg_run QUEUE_Puts (gets c0 p0 len0) buf q (GetsOp # ops) =
       do { (out, q'') \<leftarrow> msg_run QUEUE_Puts (gets c0 p0 len0) buf q' ops;
            Some (Got (if isBegin p0 = 0 then [] else xs) # out, q'') })"
proof -
  let ?p = "snd (PROTO_Init p0 False buf (length buf))"
  from feed_tail [of ?p xs "[]"] assms(3) obtain p' where
    p': "feed ?p (rb_list (q_rb q)) = Some (True, p', [])"
      "take (dataLen p') (pbuf p') = (if isBegin p0 = 0 then [] else xs)"
    unfolding assms(2) by (auto simp: PROTO_Init_def parser_ok_def)
  from ParseRb_loop_feed [OF assms(1) p'(1), of c0] obtain rb' where
    "PROTO_ParseRb_loop (q_rb q) c0 ?p = Some (True, p', rb')" "rb_inv rb'" "rb_list rb' = []" by auto
  with p'(2) show ?thesis
    by (intro exI [of _ "q\<lparr>q_rb := rb'\<rparr>"])
      (simp add: gets_def QUEUE_Gets_def PROTO_ParseRb_def PROTO_Init_def del: rb_list_Nil_iff)
qed

text \<open>A queue of \<open>k\<close> bytes, and a packet of five bytes in the output buffer.\<close>

definition example_shared :: "nat \<Rightarrow> shared" where
  "example_shared k = \<lparr>sh_queue = \<lparr>q_buf = True, q_rb = \<lparr>rb_mem = replicate k 0, p_r = 0, p_w = 0,
     fill_cnt = 0, rb_size = int k\<rparr>\<rparr>, last_rb_p_r = 0, last_rb_p_w = 0, last_fill_cnt = 0,
     sh_packet = [0x30, 3, 1, 0x41, 0x7E], sh_rets = []\<rparr>"

lemma example_shared_holds:
  "2 \<le> k \<Longrightarrow> k < 65535 \<Longrightarrow> queue_holds (sh_queue (example_shared k)) [] \<and>
     queue_size (sh_queue (example_shared k)) = k \<and>
     sh_packet (example_shared k) = [0x30, 3, 1, 0x41, 0x7E]"
  by (simp add: example_shared_def queue_holds_def queue_size_def rb_inv_def rb_list_def)

section \<open>Properties\<close>

text \<open>
  C19: \<open>QUEUE_Puts\<close> is not reentrant. If a handler that queues a message \<open>m\<close> interrupts it after
  \<open>at\<close> bytes of the packet, and both frames fit, both calls report success; but reading the queue
  gives the older messages, then \<open>m\<close>, and in place of the interrupted packet a fragment of the
  handler's packet (or an empty message, whatever the parser's uninitialised flag says). The
  interrupted message is lost, and a fragment that is no MQTT packet is sent to the broker.
\<close>

theorem interrupted_put_corrupts:
  assumes "queue_holds (sh_queue s) ms" and "n \<le> length (sh_packet s)" and "n < 65536" and "at \<le> n"
    and "length m \<le> length (sh_packet s)" and "length m < 65536"
    and "\<forall>x \<in> set ms. length x \<le> length buf" and "length m \<le> length buf" and "n \<le> length buf"
    and "length (frames ms) + length (cut_head (sh_packet s) at) + length (frame m) +
      length (escs (cut_tail (sh_packet s) at n m)) < queue_size (sh_queue s)"
  shows "\<exists>ret r s' q'. QUEUE_Puts_interrupted (publishing_isr m) at s n = Some (ret, s') \<and> ret \<noteq> -1 \<and>
    sh_rets s' = sh_rets s @ [r] \<and> r \<noteq> -1 \<and>
    msg_run QUEUE_Puts (gets c0 p0 len0) buf (sh_queue s') (replicate (length ms) GetsOp @ [GetsOp, GetsOp, GetsOp]) =
      Some (map Got ms @ [Got m, Got (if isBegin p0 = 0 then [] else cut_tail (sh_packet s) at n m), Nothing], q')"
proof -
  let ?pk = "sh_packet s" and ?run = "\<lambda>q. msg_run QUEUE_Puts (gets c0 p0 len0) buf q"
  have q: "rb_inv (sh_rb s)" "rb_size (sh_rb s) < 65535" "rb_list (sh_rb s) = frames ms"
    "queue_size (sh_queue s) = nat (rb_size (sh_rb s))"
    using assms(1) by (auto simp: queue_holds_def queue_size_def)
  from interrupted_put [OF q(1,2) assms(2-6)] assms(10) q obtain ret r s' where
    s': "QUEUE_Puts_interrupted (publishing_isr m) at s n = Some (ret, s')" "ret \<noteq> -1"
      "sh_rets s' = sh_rets s @ [r]" "r \<noteq> -1" "rb_inv (sh_rb s')"
      "rb_list (sh_rb s') = frames ms @ cut_head ?pk at @ frame m @ escs (cut_tail ?pk at n m) @ [0x7F]"
    by (auto simp del: length_rb_list)
  from run_gets [OF s'(5,6) assms(7), of c0 p0 len0] obtain q1 where
    q1: "rb_inv (q_rb q1)"
      "rb_list (q_rb q1) = cut_head ?pk at @ frame m @ escs (cut_tail ?pk at n m) @ [0x7F]"
      "\<And>ops. ?run (sh_queue s') (replicate (length ms) GetsOp @ ops) =
         do { (out, q'') \<leftarrow> ?run q1 ops; Some (map Got ms @ out, q'') }" by blast
  have "0x7F \<notin> set (cut_head ?pk at)" by (simp add: cut_head_def escs_no_marker)
  from run_get [OF q1(1,2) this assms(8), of c0 p0 len0] obtain q2 where
    q2: "rb_inv (q_rb q2)" "rb_list (q_rb q2) = escs (cut_tail ?pk at n m) @ [0x7F]"
      "\<And>ops. ?run q1 (GetsOp # ops) = do { (out, q'') \<leftarrow> ?run q2 ops; Some (Got m # out, q'') }" by blast
  have "length (cut_tail ?pk at n m) \<le> length buf" using assms(9) by (simp add: cut_tail_def)
  from run_get_tail [OF q2(1,2) this, of c0 p0 len0] obtain q3 where
    q3: "rb_inv (q_rb q3)" "rb_list (q_rb q3) = []"
      "\<And>ops. ?run q2 (GetsOp # ops) = do { (out, q'') \<leftarrow> ?run q3 ops;
         Some (Got (if isBegin p0 = 0 then [] else cut_tail ?pk at n m) # out, q'') }" by blast
  have "0x7F \<notin> set (rb_list (q_rb q3))" unfolding q3(2) by simp
  from run_get_nothing [OF q3(1) this, of c0 p0 len0 buf] obtain q4 where
    q4: "?run q3 [GetsOp] = Some ([Nothing], q4)" by blast
  have "?run (sh_queue s') (replicate (length ms) GetsOp @ [GetsOp, GetsOp, GetsOp]) =
      Some (map Got ms @ [Got m, Got (if isBegin p0 = 0 then [] else cut_tail ?pk at n m), Nothing], q4)"
    unfolding q1(3) q2(3) q3(3) q4 by simp
  with s' show ?thesis by blast
qed

lemma interrupted_put_corrupts_witness:
  "\<exists>ret r s' q'. QUEUE_Puts_interrupted (publishing_isr [0x30, 1, 2, 0x42]) 3 (example_shared 30) 5 = Some (ret, s') \<and>
    ret \<noteq> -1 \<and> sh_rets s' = sh_rets (example_shared 30) @ [r] \<and> r \<noteq> -1 \<and>
    msg_run QUEUE_Puts (gets 0 \<lparr>pbuf = [], bufSize = 0, dataLen = 0, isEsc = 1, isBegin = 1, callback = False, cb_calls = 0\<rparr> 0)
      (replicate 8 0) (sh_queue s') [GetsOp, GetsOp, GetsOp] =
      Some ([Got [0x30, 1, 2, 0x42], Got [0x42, 0x7E], Nothing], q')"
  using interrupted_put_corrupts [of "example_shared 30" "[]" 5 3 "[0x30, 1, 2, 0x42]" "replicate 8 0" 0
      "\<lparr>pbuf = [], bufSize = 0, dataLen = 0, isEsc = 1, isBegin = 1, callback = False, cb_calls = 0\<rparr>" 0]
    example_shared_holds [of 30]
  by (simp add: cut_head_def cut_tail_def frame_def esc_def special_def)

text \<open>
  When the handler's message fits and the interrupted one then does not, the interrupted call
  rolls back to what the handler's call saved: the message whose queuing the handler saw
  succeed is gone, and the beginning of the rejected one stays in the ring buffer.
\<close>

theorem interrupted_put_rolls_back:
  assumes "queue_holds (sh_queue s) ms" and "n \<le> length (sh_packet s)" and "n < 65536" and "at \<le> n"
    and "length m \<le> length (sh_packet s)" and "length m < 65536" and "\<forall>x \<in> set ms. length x \<le> length buf"
    and "length (frames ms) + length (cut_head (sh_packet s) at) + length (frame m)
      \<le> queue_size (sh_queue s)"
    and "queue_size (sh_queue s) \<le> length (frames ms) + length (cut_head (sh_packet s) at) +
      length (frame m) + length (escs (cut_tail (sh_packet s) at n m))"
  shows "\<exists>r s' q'. QUEUE_Puts_interrupted (publishing_isr m) at s n = Some (-1, s') \<and>
    sh_rets s' = sh_rets s @ [r] \<and> r \<noteq> -1 \<and>
    rb_list (sh_rb s') = frames ms @ cut_head (sh_packet s) at \<and>
    msg_run QUEUE_Puts (gets c0 p0 len0) buf (sh_queue s') (replicate (length ms) GetsOp @ [GetsOp]) =
      Some (map Got ms @ [Nothing], q')"
proof -
  let ?pk = "sh_packet s" and ?run = "\<lambda>q. msg_run QUEUE_Puts (gets c0 p0 len0) buf q"
  have q: "rb_inv (sh_rb s)" "rb_size (sh_rb s) < 65535" "rb_list (sh_rb s) = frames ms"
    "queue_size (sh_queue s) = nat (rb_size (sh_rb s))"
    using assms(1) by (auto simp: queue_holds_def queue_size_def)
  from interrupted_put [OF q(1,2) assms(2-6)] assms(8,9) q obtain r s' where
    s': "QUEUE_Puts_interrupted (publishing_isr m) at s n = Some (-1, s')"
      "sh_rets s' = sh_rets s @ [r]" "r \<noteq> -1" "rb_inv (sh_rb s')"
      "rb_list (sh_rb s') = frames ms @ cut_head ?pk at"
    by (auto simp del: length_rb_list)
  from run_gets [OF s'(4,5) assms(7), of c0 p0 len0] obtain q1 where
    q1: "rb_inv (q_rb q1)" "rb_list (q_rb q1) = cut_head ?pk at"
      "\<And>ops. ?run (sh_queue s') (replicate (length ms) GetsOp @ ops) =
         do { (out, q'') \<leftarrow> ?run q1 ops; Some (map Got ms @ out, q'') }" by blast
  from run_get_nothing [of q1 c0 p0 len0 buf] q1(1,2) obtain q2 where
    "?run q1 [GetsOp] = Some ([Nothing], q2)" by (auto simp: cut_head_def escs_no_marker)
  then have "?run (sh_queue s') (replicate (length ms) GetsOp @ [GetsOp]) = Some (map Got ms @ [Nothing], q2)"
    unfolding q1(3) by simp
  with s' show ?thesis by blast
qed

lemma interrupted_put_rolls_back_witness:
  "\<exists>r s' q'. QUEUE_Puts_interrupted (publishing_isr [0x30, 1, 2, 0x42]) 3 (example_shared 12) 5 = Some (-1, s') \<and>
    sh_rets s' = sh_rets (example_shared 12) @ [r] \<and> r \<noteq> -1 \<and> rb_list (sh_rb s') = [0x7E, 0x30, 3, 1] \<and>
    msg_run QUEUE_Puts (gets 0 \<lparr>pbuf = [], bufSize = 0, dataLen = 0, isEsc = 1, isBegin = 1, callback = False, cb_calls = 0\<rparr> 0)
      (replicate 8 0) (sh_queue s') [GetsOp] = Some ([Nothing], q')"
  using interrupted_put_rolls_back [of "example_shared 12" "[]" 5 3 "[0x30, 1, 2, 0x42]" "replicate 8 0" 0
      "\<lparr>pbuf = [], bufSize = 0, dataLen = 0, isEsc = 1, isBegin = 1, callback = False, cb_calls = 0\<rparr>" 0]
    example_shared_holds [of 12]
  by (simp add: cut_head_def cut_tail_def frame_def esc_def special_def)

end
