(* ===== verification/Registers.thy ===== *)
theory Registers
  imports Device_State
begin

unbundle bit_operations_syntax

text \<open>
  The peripheral registers of the chip as the drivers see them (the macros of \<open>include/eagle_soc.h\<close>),
  and the drivers that only set registers: \<open>driver/gpio16.c\<close>, \<open>driver/adc.c\<close>, the pins of
  \<open>user/TLI4970.c\<close> and the set-up of the GPIO interrupts in \<open>user/user_main.c\<close>.

  The chip is a parameter: \<open>'h\<close> is its state, and a \<open>bus\<close> says what reading and writing a register
  does to it (reading can have an effect, as for a FIFO), and what a call of the SDK or of the ROM
  does. What the drivers rely on is stated as laws about a bus.
\<close>

section \<open>Registers\<close>

datatype gpio_int_type =
    GPIO_PIN_INTR_DISABLE | GPIO_PIN_INTR_POSEDGE | GPIO_PIN_INTR_NEGEDGE | GPIO_PIN_INTR_ANYEDGE
  | GPIO_PIN_INTR_LOLEVEL | GPIO_PIN_INTR_HILEVEL

datatype sdk_call =
    Gpio_intr_disable | Gpio_intr_enable | Gpio_intr_attach nat
  | Gpio_output_set u32 u32 u32 u32
  | Gpio_pin_intr_state_set nat gpio_int_type
  | Uart_intr_attach | Uart_intr_enable | Uart_div_modify u8 u32
  | Rom_i2c_writeReg_Mask u8 u8 u8 u8 u8 u8

record 'h bus =
  rd :: "'h \<Rightarrow> u32 \<Rightarrow> u32 \<times> 'h"
  wr :: "'h \<Rightarrow> u32 \<Rightarrow> u32 \<Rightarrow> 'h"
  sdk :: "sdk_call \<Rightarrow> 'h \<Rightarrow> 'h"

definition READ_PERI_REG :: "'h bus \<Rightarrow> u32 \<Rightarrow> 'h \<Rightarrow> u32 \<times> 'h" where
  "READ_PERI_REG B a h = rd B h a"

definition WRITE_PERI_REG :: "'h bus \<Rightarrow> u32 \<Rightarrow> u32 \<Rightarrow> 'h \<Rightarrow> 'h" where
  "WRITE_PERI_REG B a v h = wr B h a v"

definition CLEAR_PERI_REG_MASK :: "'h bus \<Rightarrow> u32 \<Rightarrow> u32 \<Rightarrow> 'h \<Rightarrow> 'h" where
  "CLEAR_PERI_REG_MASK B a msk h =
     (let (v, h) = READ_PERI_REG B a h in WRITE_PERI_REG B a (v AND NOT msk) h)"

definition SET_PERI_REG_MASK :: "'h bus \<Rightarrow> u32 \<Rightarrow> u32 \<Rightarrow> 'h \<Rightarrow> 'h" where
  "SET_PERI_REG_MASK B a msk h =
     (let (v, h) = READ_PERI_REG B a h in WRITE_PERI_REG B a (v OR msk) h)"

definition GET_PERI_REG_BITS :: "'h bus \<Rightarrow> u32 \<Rightarrow> nat \<Rightarrow> nat \<Rightarrow> 'h \<Rightarrow> u32 \<times> 'h" where
  "GET_PERI_REG_BITS B a hipos lowpos h =
     (let (v, h) = READ_PERI_REG B a h
      in (drop_bit lowpos v AND (push_bit (hipos - lowpos + 1) 1 - 1), h))"

text \<open>A loop that reads a register until its value is accepted. It may run forever.\<close>

partial_function (option) poll :: "'h bus \<Rightarrow> u32 \<Rightarrow> (u32 \<Rightarrow> bool) \<Rightarrow> 'h \<Rightarrow> 'h option" where
  "poll B a ok h = (let (v, h) = rd B h a in if ok v then Some h else poll B a ok h)"

text \<open>The pads: bits 4, 5 and 8 select the function, bit 7 the pull-up.\<close>

definition PERIPHS_IO_MUX :: u32 where "PERIPHS_IO_MUX = 0x60000800"
definition PERIPHS_IO_MUX_MTDI_U :: u32 where "PERIPHS_IO_MUX_MTDI_U = 0x60000804"
definition PERIPHS_IO_MUX_MTCK_U :: u32 where "PERIPHS_IO_MUX_MTCK_U = 0x60000808"
definition PERIPHS_IO_MUX_MTMS_U :: u32 where "PERIPHS_IO_MUX_MTMS_U = 0x6000080C"
definition PERIPHS_IO_MUX_U0TXD_U :: u32 where "PERIPHS_IO_MUX_U0TXD_U = 0x60000818"
definition PERIPHS_IO_MUX_GPIO2_U :: u32 where "PERIPHS_IO_MUX_GPIO2_U = 0x60000838"
definition PERIPHS_IO_MUX_GPIO4_U :: u32 where "PERIPHS_IO_MUX_GPIO4_U = 0x6000083C"
definition PERIPHS_IO_MUX_PULLUP :: u32 where "PERIPHS_IO_MUX_PULLUP = 0x80"

definition func_bits :: "u32 \<Rightarrow> u32" where
  "func_bits f = push_bit 4 (push_bit 2 (f AND 4) OR (f AND 3))"

definition PIN_FUNC_SELECT :: "'h bus \<Rightarrow> u32 \<Rightarrow> u32 \<Rightarrow> 'h \<Rightarrow> 'h" where
  "PIN_FUNC_SELECT B pad f h =
     (let (v, h) = READ_PERI_REG B pad h
      in WRITE_PERI_REG B pad ((v AND NOT (push_bit 4 0x13)) OR func_bits f) h)"

definition PIN_PULLUP_DIS :: "'h bus \<Rightarrow> u32 \<Rightarrow> 'h \<Rightarrow> 'h" where
  "PIN_PULLUP_DIS B pad = CLEAR_PERI_REG_MASK B pad PERIPHS_IO_MUX_PULLUP"

definition PIN_PULLUP_EN :: "'h bus \<Rightarrow> u32 \<Rightarrow> 'h \<Rightarrow> 'h" where
  "PIN_PULLUP_EN B pad = SET_PERI_REG_MASK B pad PERIPHS_IO_MUX_PULLUP"

definition GPIO_REG_WRITE :: "'h bus \<Rightarrow> u32 \<Rightarrow> u32 \<Rightarrow> 'h \<Rightarrow> 'h" where
  "GPIO_REG_WRITE B reg v = WRITE_PERI_REG B (0x60000300 + reg) v"

definition GPIO_DIS_OUTPUT :: "'h bus \<Rightarrow> nat \<Rightarrow> 'h \<Rightarrow> 'h" where
  "GPIO_DIS_OUTPUT B pin = sdk B (Gpio_output_set 0 0 0 (push_bit pin 1))"

text \<open>\<open>GPIO_OUTPUT_SET(pin, v)\<close>.\<close>

definition GPIO_OUTPUT_SET :: "'h bus \<Rightarrow> nat \<Rightarrow> bool \<Rightarrow> 'h \<Rightarrow> 'h" where
  "GPIO_OUTPUT_SET B pin v =
     sdk B (Gpio_output_set (if v then push_bit pin 1 else 0) (if v then 0 else push_bit pin 1) (push_bit pin 1) 0)"

section \<open>GPIO16, the power meter's pins and the ADC\<close>

definition RTC_GPIO_OUT :: u32 where "RTC_GPIO_OUT = 0x60000768"
definition RTC_GPIO_ENABLE :: u32 where "RTC_GPIO_ENABLE = 0x60000774"
definition RTC_GPIO_IN_DATA :: u32 where "RTC_GPIO_IN_DATA = 0x6000078C"
definition RTC_GPIO_CONF :: u32 where "RTC_GPIO_CONF = 0x60000790"
definition PAD_XPD_DCDC_CONF :: u32 where "PAD_XPD_DCDC_CONF = 0x600007A0"

text \<open>\<open>WRITE_PERI_REG(a, (READ_PERI_REG(a) & keep) | val)\<close>.\<close>

definition update_reg :: "'h bus \<Rightarrow> u32 \<Rightarrow> u32 \<Rightarrow> u32 \<Rightarrow> 'h \<Rightarrow> 'h" where
  "update_reg B a keep val h = (let (v, h) = READ_PERI_REG B a h in WRITE_PERI_REG B a ((v AND keep) OR val) h)"

definition gpio16_output_conf :: "'h bus \<Rightarrow> 'h \<Rightarrow> 'h" where
  "gpio16_output_conf B h =
     (let h = update_reg B PAD_XPD_DCDC_CONF 0xffffffbc 0x1 h;
          h = update_reg B RTC_GPIO_CONF 0xfffffffe 0x0 h
      in update_reg B RTC_GPIO_ENABLE 0xfffffffe 0x1 h)"

definition gpio16_output_set :: "'h bus \<Rightarrow> u8 \<Rightarrow> 'h \<Rightarrow> 'h" where
  "gpio16_output_set B value = update_reg B RTC_GPIO_OUT 0xfffffffe (ucast (value AND 1))"

definition gpio16_input_conf :: "'h bus \<Rightarrow> 'h \<Rightarrow> 'h" where
  "gpio16_input_conf B h =
     (let h = update_reg B PAD_XPD_DCDC_CONF 0xffffffbc 0x1 h;
          h = update_reg B RTC_GPIO_CONF 0xfffffffe 0x0 h
      in update_reg B RTC_GPIO_ENABLE 0xfffffffe 0 h)"

definition gpio16_input_get :: "'h bus \<Rightarrow> 'h \<Rightarrow> u8 \<times> 'h" where
  "gpio16_input_get B h = (let (v, h) = READ_PERI_REG B RTC_GPIO_IN_DATA h in (ucast (v AND 1), h))"

definition BIT_TLI :: u32 where "BIT_TLI = 4"

definition TLI4970_init_pins :: "'h bus \<Rightarrow> 'h \<Rightarrow> 'h" where
  "TLI4970_init_pins B h = PIN_FUNC_SELECT B PERIPHS_IO_MUX_GPIO2_U 0 (gpio16_output_conf B h)"

definition TLI4970_enable_pins :: "'h bus \<Rightarrow> 'h \<Rightarrow> 'h" where
  "TLI4970_enable_pins B h = sdk B (Gpio_output_set BIT_TLI 0 BIT_TLI 0) (gpio16_output_set B 0 h)"

definition TLI4970_disable_pins :: "'h bus \<Rightarrow> 'h \<Rightarrow> 'h" where
  "TLI4970_disable_pins B h = gpio16_output_set B 1 (sdk B (Gpio_output_set 0 BIT_TLI BIT_TLI 0) h)"

text \<open>
  \<open>adc_read\<close>: \<open>sardata\<close> are the eight values the SDK's \<open>read_sar_dout\<close> stores. Their sum and the result
  are 16-bit.
\<close>

definition adc_idle :: "'h bus \<Rightarrow> 'h \<Rightarrow> 'h option" where
  "adc_idle B = poll B 0x60000D50 (\<lambda>v. drop_bit 24 v AND (push_bit (26 - 24 + 1) 1 - 1) = 0)"

definition adc_mean :: "u16 list \<Rightarrow> u16" where
  "adc_mean sardata = (let sar_dout = fold (\<lambda>x s. s + x) (take 8 sardata) 0
     in of_int ((uint sar_dout + 8) div 16))"

definition adc_read :: "'h bus \<Rightarrow> ('h \<Rightarrow> u16 list \<times> 'h) \<Rightarrow> 'h \<Rightarrow> (u16 \<times> 'h) option" where
  "adc_read B read_sar_dout h = do {
     let h = sdk B (Rom_i2c_writeReg_Mask 0x6C 2 0 5 5 1) h;
     let h = SET_PERI_REG_MASK B 0x60000D5C 0x200000 h;
     h \<leftarrow> adc_idle B h;
     let h = CLEAR_PERI_REG_MASK B 0x60000D50 0x02 h;
     let h = SET_PERI_REG_MASK B 0x60000D50 0x02 h;
     h \<leftarrow> adc_idle B h;
     let (sardata, h) = read_sar_dout h;
     let tout = adc_mean sardata;
     let h = sdk B (Rom_i2c_writeReg_Mask 0x6C 2 0 5 5 1) h;
     h \<leftarrow> adc_idle B h;
     let h = CLEAR_PERI_REG_MASK B 0x60000D5C 0x200000 h;
     let h = SET_PERI_REG_MASK B 0x60000D60 0x1 h;
     let h = CLEAR_PERI_REG_MASK B 0x60000D60 0x1 h;
     Some (tout, h)
   }"

section \<open>Set-up of the GPIO interrupts\<close>

definition GPIO_STATUS_W1TC_ADDRESS :: u32 where "GPIO_STATUS_W1TC_ADDRESS = 0x24"
definition RECEIVEGPIO_STORE2 :: nat where "RECEIVEGPIO_STORE2 = 13"

definition input_pin :: "'h bus \<Rightarrow> nat \<Rightarrow> u32 \<Rightarrow> u32 \<Rightarrow> 'h \<Rightarrow> 'h" where
  "input_pin B pin pad f h = PIN_PULLUP_EN B pad (GPIO_DIS_OUTPUT B pin (PIN_FUNC_SELECT B pad f h))"

definition interrupt_on :: "'h bus \<Rightarrow> nat \<Rightarrow> gpio_int_type \<Rightarrow> 'h \<Rightarrow> 'h" where
  "interrupt_on B pin t h =
     sdk B (Gpio_pin_intr_state_set pin t) (GPIO_REG_WRITE B GPIO_STATUS_W1TC_ADDRESS (push_bit pin 1) h)"

definition init_IRQ_zero_cross :: "'h bus \<Rightarrow> 'h \<Rightarrow> 'h" where
  "init_IRQ_zero_cross B h =
     (let h = sdk B Gpio_intr_disable h;
          h = sdk B (Gpio_intr_attach RECEIVEGPIO_ZERO_CROSS) h;
          h = input_pin B RECEIVEGPIO_ZERO_CROSS PERIPHS_IO_MUX_GPIO4_U 0 h;
          h = interrupt_on B RECEIVEGPIO_ZERO_CROSS GPIO_PIN_INTR_NEGEDGE h
      in sdk B Gpio_intr_enable h)"

definition init_IRQ_store :: "'h bus \<Rightarrow> 'h \<Rightarrow> 'h" where
  "init_IRQ_store B h =
     (let h = sdk B Gpio_intr_disable h;
          h = sdk B (Gpio_intr_attach RECEIVEGPIO_STORE) h;
          h = input_pin B RECEIVEGPIO_STORE PERIPHS_IO_MUX_MTDI_U 3 h;
          h = interrupt_on B RECEIVEGPIO_STORE GPIO_PIN_INTR_NEGEDGE h;
          h = input_pin B RECEIVEGPIO_STORE2 PERIPHS_IO_MUX_MTCK_U 3 h
      in sdk B Gpio_intr_enable h)"

text \<open>
  \<open>PERIPHS_IO_MUX_IRQ_PCF8885\<close> stands for \<open>PERIPHS_IO_MUX_MTCK_U3\<close>, which no header defines; the pad
  is an argument.
\<close>

definition init_IRQ_pcf8885 :: "'h bus \<Rightarrow> u32 \<Rightarrow> 'h \<Rightarrow> 'h" where
  "init_IRQ_pcf8885 B pad h =
     (let h = sdk B Gpio_intr_disable h;
          h = sdk B (Gpio_intr_attach RECEIVEGPIO_IRQ_PCF8885) h;
          h = input_pin B RECEIVEGPIO_IRQ_PCF8885 pad 3 h;
          h = interrupt_on B RECEIVEGPIO_IRQ_PCF8885 GPIO_PIN_INTR_LOLEVEL h
      in sdk B Gpio_intr_enable h)"

section \<open>Laws\<close>

text \<open>
  The register \<open>a\<close> is a plain one: \<open>reg h a\<close> is what it holds, and reading has no effect. SDK calls do
  not touch what \<open>reg\<close> shows.
\<close>

definition plain_reg :: "'h bus \<Rightarrow> ('h \<Rightarrow> u32 \<Rightarrow> u32) \<Rightarrow> u32 \<Rightarrow> bool" where
  "plain_reg B reg a \<longleftrightarrow> (\<forall>h. rd B h a = (reg h a, h) \<and> (\<forall>v. reg (wr B h a v) = (reg h)(a := v)))"

definition sdk_apart :: "'h bus \<Rightarrow> ('h \<Rightarrow> u32 \<Rightarrow> u32) \<Rightarrow> bool" where
  "sdk_apart B reg \<longleftrightarrow> (\<forall>c h. reg (sdk B c h) = reg h)"

text \<open>A chip in which every register is plain, and which remembers the calls.\<close>

definition plain_chip :: "((u32 \<Rightarrow> u32) \<times> sdk_call list) bus" where
  "plain_chip = \<lparr>rd = \<lambda>(m, cs) a. (m a, (m, cs)), wr = \<lambda>(m, cs) a v. (m(a := v), cs),
     sdk = \<lambda>c (m, cs). (m, cs @ [c])\<rparr>"

lemma plain_chip_laws: "plain_reg plain_chip fst a" "sdk_apart plain_chip fst"
  by (auto simp: plain_chip_def plain_reg_def sdk_apart_def)

named_theorems reg_simps \<open>what register operations do to plain registers\<close>

lemma plain_rd [reg_simps]: "plain_reg B reg a \<Longrightarrow> READ_PERI_REG B a h = (reg h a, h)"
  by (simp add: plain_reg_def READ_PERI_REG_def)

lemma plain_wr [reg_simps]: "plain_reg B reg a \<Longrightarrow> reg (WRITE_PERI_REG B a v h) = (reg h)(a := v)"
  by (simp add: plain_reg_def WRITE_PERI_REG_def)

lemma plain_set [reg_simps]: "plain_reg B reg a \<Longrightarrow> reg (SET_PERI_REG_MASK B a m h) = (reg h)(a := reg h a OR m)"
  by (simp add: SET_PERI_REG_MASK_def reg_simps fun_eq_iff)

lemma plain_clear [reg_simps]:
  "plain_reg B reg a \<Longrightarrow> reg (CLEAR_PERI_REG_MASK B a m h) = (reg h)(a := reg h a AND NOT m)"
  by (simp add: CLEAR_PERI_REG_MASK_def reg_simps fun_eq_iff)

lemma plain_update [reg_simps]:
  "plain_reg B reg a \<Longrightarrow> reg (update_reg B a k v h) = (reg h)(a := (reg h a AND k) OR v)"
  by (simp add: update_reg_def reg_simps fun_eq_iff)

lemma plain_func [reg_simps]:
  "plain_reg B reg a \<Longrightarrow> reg (PIN_FUNC_SELECT B a f h) = (reg h)(a := (reg h a AND NOT (push_bit 4 0x13)) OR func_bits f)"
  by (simp add: PIN_FUNC_SELECT_def reg_simps fun_eq_iff)

lemma sdk_reg [reg_simps]: "sdk_apart B reg \<Longrightarrow> reg (sdk B c h) = reg h"
  by (simp add: sdk_apart_def)

text \<open>Polling: \<open>settles n h h'\<close> says that the value is accepted after \<open>n\<close> readings that are not.\<close>

fun settles :: "'h bus \<Rightarrow> u32 \<Rightarrow> (u32 \<Rightarrow> bool) \<Rightarrow> nat \<Rightarrow> 'h \<Rightarrow> 'h \<Rightarrow> bool" where
  "settles B a ok 0 h h' = (ok (fst (rd B h a)) \<and> h' = snd (rd B h a))"
| "settles B a ok (Suc n) h h' = (\<not> ok (fst (rd B h a)) \<and> settles B a ok n (snd (rd B h a)) h')"

lemma settles_poll: "settles B a ok n h h' \<Longrightarrow> poll B a ok h = Some h'"
proof (induction n arbitrary: h)
  case 0
  then show ?case by (simp add: poll.simps [of B a ok h] case_prod_beta Let_def)
next
  case (Suc n)
  then show ?case by (simp add: poll.simps [of B a ok h] case_prod_beta Let_def)
qed

section \<open>What the drivers leave in the registers\<close>

text \<open>GPIO16 as an output: bit 0 of the output register is the level, and no other register changes.\<close>

definition gpio16_regs :: "u32 set" where
  "gpio16_regs = {PAD_XPD_DCDC_CONF, RTC_GPIO_CONF, RTC_GPIO_ENABLE, RTC_GPIO_OUT}"

lemmas gpio16_defs = gpio16_output_conf_def gpio16_output_set_def gpio16_input_conf_def gpio16_regs_def
  PAD_XPD_DCDC_CONF_def RTC_GPIO_CONF_def RTC_GPIO_ENABLE_def RTC_GPIO_OUT_def

lemma gpio16_output:
  assumes "\<forall>a \<in> gpio16_regs. plain_reg B reg a"
  shows "bit (reg (gpio16_output_set B v (gpio16_output_conf B h)) RTC_GPIO_OUT) 0 = bit v 0"
    and "bit (reg (gpio16_output_set B v (gpio16_output_conf B h)) RTC_GPIO_ENABLE) 0"
    and "\<not> bit (reg (gpio16_output_set B v (gpio16_output_conf B h)) RTC_GPIO_CONF) 0"
    and "a \<notin> gpio16_regs \<Longrightarrow> reg (gpio16_output_set B v (gpio16_output_conf B h)) a = reg h a"
  using assms by (simp_all add: gpio16_defs reg_simps bit_simps)

lemma gpio16_input:
  assumes "\<forall>a \<in> gpio16_regs. plain_reg B reg a"
  shows "\<not> bit (reg (gpio16_input_conf B h) RTC_GPIO_ENABLE) 0"
    and "reg (gpio16_input_conf B h) RTC_GPIO_OUT = reg h RTC_GPIO_OUT"
  using assms by (simp_all add: gpio16_defs reg_simps bit_simps)

text \<open>The meter is powered through GPIO16, which is active low.\<close>

lemma meter_power:
  assumes "plain_reg B reg RTC_GPIO_OUT" and "sdk_apart B reg"
  shows "\<not> bit (reg (TLI4970_enable_pins B h) RTC_GPIO_OUT) 0"
    and "bit (reg (TLI4970_disable_pins B h) RTC_GPIO_OUT) 0"
  using assms
  by (simp_all add: TLI4970_enable_pins_def TLI4970_disable_pins_def gpio16_output_set_def reg_simps bit_simps)

text \<open>Readings below 8192 do not overflow the sum.\<close>

lemma fold_add_unat:
  fixes s :: u16
  assumes "\<forall>x \<in> set xs. unat x < 8192" and "unat s + 8191 * length xs < 65536"
  shows "unat (fold (\<lambda>x s. s + x) xs s) = unat s + sum_list (map unat xs)"
  using assms
proof (induction xs arbitrary: s)
  case (Cons x xs)
  then have x: "unat x \<le> 8191" by simp
  with Cons.prems(2) have "unat s + unat x < 2 ^ LENGTH(16)" by simp
  then have s: "unat (s + x) = unat s + unat x" by (rule unat_add_lem [THEN iffD1])
  with Cons x show ?case by simp
qed simp

lemma mean_of_sum: "unat (of_int ((uint (s :: u16) + 8) div 16) :: u16) = (unat s + 8) div 16"
proof -
  have "unat s < 65536" using unsigned_less [of s, where 'a = nat] by simp
  then have "(unat s + 8) div 16 < 65536" by linarith
  then have "(unat s + 8) div 16 < 2 ^ LENGTH(16)" by simp
  moreover have "(uint s + 8) div 16 = int ((unat s + 8) div 16)" by (simp add: zdiv_int)
  ultimately show ?thesis by (simp only: of_int_of_nat_eq unat_of_nat mod_less)
qed

lemma adc_mean_exact:
  assumes "length xs = 8" and "\<forall>x \<in> set xs. unat x < 8192"
  shows "unat (adc_mean xs) = (sum_list (map unat xs) + 8) div 16"
proof -
  have "unat (fold (\<lambda>x s. s + x) xs (0 :: u16)) = sum_list (map unat xs)"
    using fold_add_unat [OF assms(2), of 0] assms by simp
  with mean_of_sum [of "fold (\<lambda>x s. s + x) xs 0"] assms(1) show ?thesis by (simp add: adc_mean_def)
qed

text \<open>
  An interrupt is set up with the interrupts of the GPIO unit disabled; the pin is an input with its pull-up,
  and its pending status is cleared before its trigger is chosen.
\<close>

lemma input_pin_reg:
  assumes "plain_reg B reg pad" and "sdk_apart B reg"
  shows "bit (reg (input_pin B pin pad f h) pad) 7"
    and "reg (input_pin B pin pad f h) pad AND 0x130 = func_bits f AND 0x130"
    and "a \<noteq> pad \<Longrightarrow> reg (input_pin B pin pad f h) a = reg h a"
proof -
  have r: "reg (input_pin B pin pad f h) = (reg h)(pad := ((reg h pad AND NOT 0x130) OR func_bits f) OR 0x80)"
    using assms by (simp add: input_pin_def PIN_PULLUP_EN_def GPIO_DIS_OUTPUT_def PERIPHS_IO_MUX_PULLUP_def reg_simps fun_eq_iff)
  show "bit (reg (input_pin B pin pad f h) pad) 7" by (simp add: r bit_simps)
  show "reg (input_pin B pin pad f h) pad AND 0x130 = func_bits f AND 0x130"
    unfolding r by (simp add: word_ao_dist and.assoc)
  show "reg (input_pin B pin pad f h) a = reg h a" if "a \<noteq> pad" using that by (simp add: r)
qed

lemma zero_cross_setup:
  "snd (init_IRQ_zero_cross plain_chip (m, cs)) = cs @ [Gpio_intr_disable, Gpio_intr_attach 4,
     Gpio_output_set 0 0 0 0x10, Gpio_pin_intr_state_set 4 GPIO_PIN_INTR_NEGEDGE, Gpio_intr_enable]"
  by (simp add: init_IRQ_zero_cross_def input_pin_def interrupt_on_def PIN_FUNC_SELECT_def PIN_PULLUP_EN_def
      SET_PERI_REG_MASK_def READ_PERI_REG_def WRITE_PERI_REG_def GPIO_DIS_OUTPUT_def GPIO_REG_WRITE_def
      plain_chip_def RECEIVEGPIO_ZERO_CROSS_def)

end
