(* ===== verification/Uart.thy ===== *)
theory Uart
  imports Registers Console
begin

text \<open>
  The serial port (\<open>driver/uart.c\<close>): its set-up, polled transmission, and the receive interrupt, which
  hands every byte to the console \<open>rx_uart0\<close> and keeps it in a circular buffer; and the forwarding of
  MQTT data in \<open>mqttDataCb\<close>, a build option. The chip is the parameter \<open>B\<close> of \<open>Registers\<close>. \<open>None\<close> is
  undefined behaviour, or a polling loop that does not end.
\<close>

section \<open>State\<close>

definition UART_BASE :: "u8 \<Rightarrow> u32" where "UART_BASE i = 0x60000000 + ucast i * 0xf00"
definition UART_FIFO :: "u8 \<Rightarrow> u32" where "UART_FIFO i = UART_BASE i"
definition UART_INT_ST :: "u8 \<Rightarrow> u32" where "UART_INT_ST i = UART_BASE i + 0x8"
definition UART_INT_ENA :: "u8 \<Rightarrow> u32" where "UART_INT_ENA i = UART_BASE i + 0xC"
definition UART_INT_CLR :: "u8 \<Rightarrow> u32" where "UART_INT_CLR i = UART_BASE i + 0x10"
definition UART_STATUS :: "u8 \<Rightarrow> u32" where "UART_STATUS i = UART_BASE i + 0x1C"
definition UART_CONF0 :: "u8 \<Rightarrow> u32" where "UART_CONF0 i = UART_BASE i + 0x20"
definition UART_CONF1 :: "u8 \<Rightarrow> u32" where "UART_CONF1 i = UART_BASE i + 0x24"
definition UART_RXFIFO_RST :: u32 where "UART_RXFIFO_RST = 0x20000"
definition UART_TXFIFO_RST :: u32 where "UART_TXFIFO_RST = 0x40000"
definition RX_BUFF_SIZE :: nat where "RX_BUFF_SIZE = 0x100"

datatype RcvMsgBuffState = EMPTY | UNDER_WRITE | WRITE_OVER

text \<open>\<open>RcvMsgBuff\<close>: \<open>pWritePos\<close> is an offset into the block \<open>pRcvMsgBuff\<close> points to. \<open>UartDevice\<close>.\<close>

record rcv_buff =
  pRcvMsgBuff :: bytes
  pWritePos :: nat
  TrigLvl :: u8
  BuffState :: RcvMsgBuffState

record uart_device =
  baut_rate :: u32
  data_bits :: u32
  exist_parity :: u32
  parity :: u32
  stop_bits :: u32
  rcv_buf :: rcv_buff

section \<open>Operations\<close>

definition uart_config :: "'h bus \<Rightarrow> u8 \<Rightarrow> uart_device \<Rightarrow> 'h \<Rightarrow> 'h option" where
  "uart_config B uart_no d h =
     (let h = (if uart_no = 1 then PIN_FUNC_SELECT B PERIPHS_IO_MUX_GPIO2_U 2 h
               else (let h = sdk B Uart_intr_attach h;
                         h = PIN_PULLUP_DIS B PERIPHS_IO_MUX_U0TXD_U h
                     in PIN_FUNC_SELECT B PERIPHS_IO_MUX_U0TXD_U 0 h))
      in if baut_rate d = 0 then None
         else (let h = sdk B (Uart_div_modify uart_no (80000000 div baut_rate d)) h;
                   h = WRITE_PERI_REG B (UART_CONF0 uart_no)
                         (exist_parity d OR parity d OR push_bit 4 (stop_bits d) OR push_bit 2 (data_bits d)) h;
                   h = SET_PERI_REG_MASK B (UART_CONF0 uart_no) (UART_RXFIFO_RST OR UART_TXFIFO_RST) h;
                   h = CLEAR_PERI_REG_MASK B (UART_CONF0 uart_no) (UART_RXFIFO_RST OR UART_TXFIFO_RST) h;
                   h = WRITE_PERI_REG B (UART_CONF1 uart_no) (ucast (TrigLvl (rcv_buf d)) AND 0x7F) h;
                   h = WRITE_PERI_REG B (UART_INT_CLR uart_no) 0xffff h
               in Some (SET_PERI_REG_MASK B (UART_INT_ENA uart_no) 1 h)))"

definition uart_init :: "'h bus \<Rightarrow> u32 \<Rightarrow> u32 \<Rightarrow> uart_device \<Rightarrow> 'h \<Rightarrow> (uart_device \<times> 'h) option" where
  "uart_init B uart0_br uart1_br d h = do {
     let d = d\<lparr>baut_rate := uart0_br\<rparr>;
     h \<leftarrow> uart_config B 0 d h;
     let d = d\<lparr>baut_rate := uart1_br\<rparr>;
     h \<leftarrow> uart_config B 1 d h;
     Some (d, sdk B Uart_intr_enable h)
   }"

definition disable_uart :: "'h bus \<Rightarrow> 'h \<Rightarrow> 'h" where
  "disable_uart B h = CLEAR_PERI_REG_MASK B (UART_INT_ENA 1) 1 (CLEAR_PERI_REG_MASK B (UART_INT_ENA 0) 1 h)"

text \<open>The exit test of the polling loops.\<close>

definition tx_ready :: "u32 \<Rightarrow> bool" where
  "tx_ready v \<longleftrightarrow> drop_bit 16 (v AND push_bit 16 0xFF) AND 0xFF < 126"

definition uart0_tx_one_char :: "'h bus \<Rightarrow> u8 \<Rightarrow> 'h \<Rightarrow> 'h option" where
  "uart0_tx_one_char B TxChar h = do {
     h \<leftarrow> poll B (UART_STATUS 0) tx_ready h;
     Some (WRITE_PERI_REG B (UART_FIFO 0) (ucast TxChar) h)
   }"

definition uart1_tx_one_char :: "'h bus \<Rightarrow> u8 \<Rightarrow> 'h \<Rightarrow> 'h option" where
  "uart1_tx_one_char B TxChar h = do {
     h \<leftarrow> poll B (UART_STATUS 1) tx_ready h;
     Some (WRITE_PERI_REG B (UART_FIFO 1) (ucast TxChar) h)
   }"

definition uart1_write_char :: "'h bus \<Rightarrow> u8 \<Rightarrow> 'h \<Rightarrow> 'h option" where
  "uart1_write_char = uart1_tx_one_char"

definition uart0_write_char :: "'h bus \<Rightarrow> u8 \<Rightarrow> 'h \<Rightarrow> 'h option" where
  "uart0_write_char = uart0_tx_one_char"

text \<open>The loops of \<open>uart0_tx_buffer\<close> and \<open>uart1_tx_buffer\<close>: \<open>n\<close> characters are left.\<close>

fun tx_loop :: "(u8 \<Rightarrow> 'h \<Rightarrow> 'h option) \<Rightarrow> bytes \<Rightarrow> nat \<Rightarrow> nat \<Rightarrow> 'h \<Rightarrow> 'h option" where
  "tx_loop put buf i 0 h = Some h"
| "tx_loop put buf i (Suc n) h = do {
     c \<leftarrow> load buf i;
     h \<leftarrow> put c h;
     tx_loop put buf (i + 1) n h
   }"

definition uart0_tx_buffer :: "'h bus \<Rightarrow> bytes \<Rightarrow> u16 \<Rightarrow> 'h \<Rightarrow> 'h option" where
  "uart0_tx_buffer B buf len = tx_loop (uart0_tx_one_char B) buf 0 (unat len)"

definition uart1_tx_buffer :: "'h bus \<Rightarrow> bytes \<Rightarrow> u16 \<Rightarrow> 'h \<Rightarrow> 'h option" where
  "uart1_tx_buffer B buf len = tx_loop (uart1_tx_one_char B) buf 0 (unat len)"

function send_loop :: "(u8 \<Rightarrow> 'h \<Rightarrow> 'h option) \<Rightarrow> bytes \<Rightarrow> nat \<Rightarrow> 'h \<Rightarrow> 'h option" where
  "send_loop put str i h =
     (if i < length str
      then if str ! i = 0 then Some h else do { h \<leftarrow> put (str ! i) h; send_loop put str (i + 1) h }
      else None)"
  by pat_completeness auto
termination by (relation "measure (\<lambda>(put, str, i, h). length str - i)") auto

declare send_loop.simps [simp del]

definition uart0_sendStr :: "'h bus \<Rightarrow> bytes \<Rightarrow> 'h \<Rightarrow> 'h option" where
  "uart0_sendStr B str = send_loop (uart0_tx_one_char B) str 0"

text \<open>Storing one received byte in the circular buffer.\<close>

definition rcv_store :: "u8 \<Rightarrow> rcv_buff \<Rightarrow> rcv_buff option" where
  "rcv_store c r = do {
     m \<leftarrow> store (pRcvMsgBuff r) (pWritePos r) c;
     let r = r\<lparr>pRcvMsgBuff := m\<rparr>;
     let r = (if c = 13 then r\<lparr>BuffState := WRITE_OVER\<rparr> else r);
     let r = r\<lparr>pWritePos := pWritePos r + 1\<rparr>;
     Some (if pWritePos r = RX_BUFF_SIZE then r\<lparr>pWritePos := 0\<rparr> else r)
   }"

partial_function (option) rx_loop ::
    "'h bus \<Rightarrow> (u8 \<Rightarrow> 'w \<Rightarrow> 'w option) \<Rightarrow> 'h \<Rightarrow> rcv_buff \<Rightarrow> 'w \<Rightarrow> ('h \<times> rcv_buff \<times> 'w) option" where
  "rx_loop B rx h r w =
     (let (v, h) = rd B h (UART_STATUS 0)
      in if v AND 0xFF = 0 then Some (h, r, w)
         else (let (v, h) = rd B h (UART_FIFO 0)
               in do {
                    w \<leftarrow> rx (ucast (v AND 0xFF)) w;
                    r \<leftarrow> rcv_store (ucast (v AND 0xFF)) r;
                    rx_loop B rx h r w
                  }))"

definition uart0_rx_intr_handler ::
    "'h bus \<Rightarrow> build \<Rightarrow> 'f spi_flash \<Rightarrow> locals \<Rightarrow> rcv_buff \<Rightarrow> firmware \<times> 'f \<Rightarrow> 'h \<Rightarrow>
     ('h \<times> rcv_buff \<times> firmware \<times> 'f) option" where
  "uart0_rx_intr_handler B b F u r w h =
     (let (v, h) = READ_PERI_REG B (UART_INT_ST 0) h
      in if v AND 1 \<noteq> 1 then Some (h, r, w)
         else rx_loop B (rx_uart0 b F u) (WRITE_PERI_REG B (UART_INT_CLR 0) 1 h) r w)"

text \<open>\<open>mqttDataCb\<close> with \<open>SEND_MQTT_ON_UART\<close>: the data behind a header with their length.\<close>

definition forward_mqtt_data :: "'h bus \<Rightarrow> bytes \<Rightarrow> u32 \<Rightarrow> 'h \<Rightarrow> 'h option" where
  "forward_mqtt_data B data data_len h = do {
     h \<leftarrow> uart0_sendStr B (1 # chars ''stS'' @ [0]) h;
     h \<leftarrow> uart0_write_char B (ucast data_len) h;
     h \<leftarrow> uart0_write_char B (ucast (drop_bit 8 data_len)) h;
     uart0_tx_buffer B data (ucast data_len) h
   }"

text \<open>
  \<open>print\<close> and \<open>print_debug\<close> (with \<open>DEBUG_PRINT\<close>, which every build sets), and the texts of the console.
  A literal is followed by its terminator; \<open>string0\<close> is the uninitialised local of \<open>print_config\<close>.
\<close>

definition print :: "'h bus \<Rightarrow> bytes \<Rightarrow> 'h \<Rightarrow> 'h option" where
  "print = uart0_sendStr"

definition print_debug :: "'h bus \<Rightarrow> bytes \<Rightarrow> 'h \<Rightarrow> 'h option" where
  "print_debug = print"

definition literal :: "bytes \<Rightarrow> bytes" where
  "literal cs = cs @ [0]"

definition print_menu :: "'h bus \<Rightarrow> 'h \<Rightarrow> 'h option" where
  "print_menu B = print B (literal ([10, 10] @ chars ''s) modifie ssid'' @ [10] @ chars ''p) modifie password'' @ [10] @
     chars ''a) modifie addresse'' @ [10] @ chars ''n) modifie netmask'' @ [10] @ chars ''g) modifie gateway'' @ [10] @
     chars ''m) modifie MQTT serveur'' @ [10] @ chars ''i) modifie name'' @ [10] @ chars ''x) modifie sleep time [s]'' @ [10] @
     chars ''c) Configure and save'' @ [10]))"

definition print_item :: "'h bus \<Rightarrow> bytes \<Rightarrow> bytes \<Rightarrow> 'h \<Rightarrow> 'h option" where
  "print_item B name val h = do {
     h \<leftarrow> print_debug B (literal (10 # name)) h;
     print_debug B val h
   }"

definition print_config :: "'h bus \<Rightarrow> bytes \<Rightarrow> firmware \<Rightarrow> 'h \<Rightarrow> 'h option" where
  "print_config B string0 w h = do {
     h \<leftarrow> print_item B (chars ''SSID='') (ssid w) h;
     h \<leftarrow> print_item B (chars ''password='') (password w) h;
     h \<leftarrow> print_item B (chars ''addresse='') (adresse w) h;
     h \<leftarrow> print_item B (chars ''Mask='') (drop MAX_ADRESSE_LENGTH (adresse w)) h;
     h \<leftarrow> print_item B (chars ''GW='') (drop (2 * MAX_ADRESSE_LENGTH) (adresse w)) h;
     h \<leftarrow> print_item B (chars ''MQTT='') (drop (3 * MAX_ADRESSE_LENGTH) (adresse w)) h;
     h \<leftarrow> print_item B (chars ''NAME='') (StationName w) h;
     h \<leftarrow> print_item B (chars ''ID='') (MYID w) h;
     string \<leftarrow> int_to_srthex (sint (echelle (dev w))) string0;
     h \<leftarrow> print_item B (chars ''SLEEP_TIME='') string h;
     print_debug B (literal [10]) h
   }"

section \<open>Laws of the port\<close>

text \<open>
  Transmission: \<open>sent h\<close> is what has been written to the FIFO. Reading the status does not change it,
  and after finitely many readings there is room.
\<close>

definition tx_laws :: "'h bus \<Rightarrow> u8 \<Rightarrow> ('h \<Rightarrow> bytes) \<Rightarrow> bool" where
  "tx_laws B i sent \<longleftrightarrow>
     (\<forall>h. (\<exists>n h'. settles B (UART_STATUS i) tx_ready n h h' \<and> sent h' = sent h) \<and>
          (\<forall>c. sent (wr B h (UART_FIFO i) (ucast c)) = sent h @ [c]))"

text \<open>
  Reception: \<open>fifo h\<close> are the bytes in the FIFO and \<open>coming h\<close> those still to come. Any access may move
  bytes from the line into the FIFO, in order, and none is lost; the status counts them, and reading the
  FIFO takes the first.
\<close>

definition arrives :: "('h \<Rightarrow> bytes) \<Rightarrow> ('h \<Rightarrow> bytes) \<Rightarrow> 'h \<Rightarrow> 'h \<Rightarrow> bool" where
  "arrives fifo coming h h' \<longleftrightarrow>
     fifo h' @ coming h' = fifo h @ coming h \<and> length (coming h') \<le> length (coming h)"

definition rx_laws :: "'h bus \<Rightarrow> ('h \<Rightarrow> bytes) \<Rightarrow> ('h \<Rightarrow> bytes) \<Rightarrow> bool" where
  "rx_laws B fifo coming \<longleftrightarrow>
     (\<forall>h. length (fifo h) < 256 \<and>
       (fst (rd B h (UART_STATUS 0)) AND 0xFF = of_nat (length (fifo (snd (rd B h (UART_STATUS 0))))) \<and>
        arrives fifo coming h (snd (rd B h (UART_STATUS 0)))) \<and>
       (fifo h \<noteq> [] \<longrightarrow> ucast (fst (rd B h (UART_FIFO 0)) AND 0xFF) = hd (fifo h) \<and>
          fifo h @ coming h = hd (fifo h) # fifo (snd (rd B h (UART_FIFO 0))) @ coming (snd (rd B h (UART_FIFO 0))) \<and>
          length (coming (snd (rd B h (UART_FIFO 0)))) \<le> length (coming h)) \<and>
       arrives fifo coming h (snd (rd B h (UART_INT_ST 0))) \<and>
       arrives fifo coming h (wr B h (UART_INT_CLR 0) 1))"

section \<open>Lemmas\<close>

lemma tx_one_char:
  assumes "tx_laws B 0 sent"
  shows "\<exists>h'. uart0_tx_one_char B c h = Some h' \<and> sent h' = sent h @ [c]"
proof -
  from assms obtain n h' where "settles B (UART_STATUS 0) tx_ready n h h'" "sent h' = sent h"
    unfolding tx_laws_def by blast
  with assms show ?thesis
    by (simp add: uart0_tx_one_char_def settles_poll WRITE_PERI_REG_def tx_laws_def)
qed

lemma tx_loop_sends:
  assumes "tx_laws B 0 sent" and "i + n \<le> length buf"
  shows "\<exists>h'. tx_loop (uart0_tx_one_char B) buf i n h = Some h' \<and> sent h' = sent h @ take n (drop i buf)"
  using assms(2)
proof (induction n arbitrary: i h)
  case (Suc n)
  from tx_one_char [OF assms(1), of "buf ! i" h] obtain h1 where
    h1: "uart0_tx_one_char B (buf ! i) h = Some h1" "sent h1 = sent h @ [buf ! i]" by blast
  from Suc.IH [of "i + 1" h1] Suc.prems obtain h2 where
    "tx_loop (uart0_tx_one_char B) buf (Suc i) n h1 = Some h2" "sent h2 = sent h1 @ take n (drop (Suc i) buf)"
    by auto
  with h1 Suc.prems show ?case by (simp add: mem_simps take_drop_Suc)
qed simp

lemma send_loop_sends:
  assumes "tx_laws B 0 sent" and "0 \<in> set (drop i str)"
  shows "\<exists>h'. send_loop (uart0_tx_one_char B) str i h = Some h' \<and> sent h' = sent h @ cstr (drop i str)"
  using assms(2)
proof (induction "length str - i" arbitrary: i h)
  case 0
  then show ?case by simp
next
  case (Suc k)
  then have i: "i < length str" by (cases "i < length str") auto
  then have d: "drop i str = str ! i # drop (Suc i) str" by (simp add: Cons_nth_drop_Suc)
  show ?case
  proof (cases "str ! i = 0")
    case True
    with i d show ?thesis by (simp add: send_loop.simps cstr_def)
  next
    case False
    from tx_one_char [OF assms(1), of "str ! i" h] obtain h1 where
      h1: "uart0_tx_one_char B (str ! i) h = Some h1" "sent h1 = sent h @ [str ! i]" by blast
    have "0 \<in> set (drop (Suc i) str)" using Suc.prems d False by auto
    moreover have "k = length str - Suc i" using Suc.hyps(2) by arith
    ultimately obtain h2 where
      "send_loop (uart0_tx_one_char B) str (Suc i) h1 = Some h2" "sent h2 = sent h1 @ cstr (drop (Suc i) str)"
      using Suc.hyps(1) [of "Suc i" h1] by auto
    with h1 i d False show ?thesis by (simp add: send_loop.simps [of _ str i] cstr_def)
  qed
qed

text \<open>Bytes stored one after the other, and handed to the console one after the other.\<close>

fun rcv_all :: "bytes \<Rightarrow> rcv_buff \<Rightarrow> rcv_buff option" where
  "rcv_all [] r = Some r"
| "rcv_all (c # cs) r = do { r \<leftarrow> rcv_store c r; rcv_all cs r }"

fun rx_all :: "(u8 \<Rightarrow> 'w \<Rightarrow> 'w option) \<Rightarrow> bytes \<Rightarrow> 'w \<Rightarrow> 'w option" where
  "rx_all rx [] w = Some w"
| "rx_all rx (c # cs) w = do { w \<leftarrow> rx c w; rx_all rx cs w }"

lemma rx_all_text: "rx_all (rx_uart0 b F u) cs w = rx_text b F u cs w"
  by (induction cs arbitrary: w) (auto cong: Option.bind_cong)

lemma rx_all_append: "rx_all rx (xs @ ys) w = do { w \<leftarrow> rx_all rx xs w; rx_all rx ys w }"
  by (induction xs arbitrary: w) (auto cong: Option.bind_cong)

lemma rcv_all_snoc: "rcv_all (cs @ [c]) r = do { r \<leftarrow> rcv_all cs r; rcv_store c r }"
  by (induction cs arbitrary: r) (auto cong: Option.bind_cong)

definition rcv_ok :: "rcv_buff \<Rightarrow> bool" where
  "rcv_ok r \<longleftrightarrow> length (pRcvMsgBuff r) = RX_BUFF_SIZE \<and> pWritePos r < RX_BUFF_SIZE"

text \<open>The cells behind the write position hold the latest bytes.\<close>

definition buffered :: "rcv_buff \<Rightarrow> bytes \<Rightarrow> rcv_buff \<Rightarrow> bool" where
  "buffered r cs r' \<longleftrightarrow> rcv_ok r' \<and> TrigLvl r' = TrigLvl r \<and>
     pWritePos r' = (pWritePos r + length cs) mod RX_BUFF_SIZE \<and>
     BuffState r' = (if 13 \<in> set cs then WRITE_OVER else BuffState r) \<and>
     (\<forall>k < length cs. length cs \<le> k + RX_BUFF_SIZE \<longrightarrow>
        pRcvMsgBuff r' ! ((pWritePos r + k) mod RX_BUFF_SIZE) = cs ! k)"

lemma rcv_store_step:
  assumes "rcv_ok r"
  shows "\<exists>r'. rcv_store c r = Some r' \<and> rcv_ok r' \<and> TrigLvl r' = TrigLvl r \<and>
    pWritePos r' = (pWritePos r + 1) mod RX_BUFF_SIZE \<and>
    BuffState r' = (if c = 13 then WRITE_OVER else BuffState r) \<and>
    pRcvMsgBuff r' = (pRcvMsgBuff r)[pWritePos r := c]"
  using assms by (auto simp: rcv_store_def rcv_ok_def mem_simps RX_BUFF_SIZE_def Let_def)

lemma mod_neq:
  fixes a :: nat
  assumes "k < n" and "n < k + m"
  shows "(a + k) mod m \<noteq> (a + n) mod m"
proof
  assume "(a + k) mod m = (a + n) mod m"
  with assms(1) have "m dvd (a + n) - (a + k)" by (metis less_imp_le_nat mod_eq_dvd_iff_nat add_le_cancel_left)
  with assms show False by (auto dest: dvd_imp_le)
qed

lemma rcv_all_received:
  assumes "rcv_ok r"
  shows "\<exists>r'. rcv_all cs r = Some r' \<and> buffered r cs r'"
proof (induction cs rule: rev_induct)
  case Nil
  then show ?case using assms by (simp add: buffered_def rcv_ok_def)
next
  case (snoc c cs)
  then obtain r1 where r1: "rcv_all cs r = Some r1" "buffered r cs r1" by blast
  then have "rcv_ok r1" by (simp add: buffered_def)
  from rcv_store_step [OF this, of c] obtain r2 where
    r2: "rcv_store c r1 = Some r2" "rcv_ok r2" "TrigLvl r2 = TrigLvl r1"
      "pWritePos r2 = (pWritePos r1 + 1) mod RX_BUFF_SIZE"
      "BuffState r2 = (if c = 13 then WRITE_OVER else BuffState r1)"
      "pRcvMsgBuff r2 = (pRcvMsgBuff r1)[pWritePos r1 := c]" by blast
  have pos: "pWritePos r1 = (pWritePos r + length cs) mod RX_BUFF_SIZE" using r1(2) by (simp add: buffered_def)
  have cell: "pRcvMsgBuff r2 ! ((pWritePos r + k) mod RX_BUFF_SIZE) = (cs @ [c]) ! k"
    if k: "k < length (cs @ [c])" "length (cs @ [c]) \<le> k + RX_BUFF_SIZE" for k
  proof (cases "k = length cs")
    case True
    with r2(6) pos \<open>rcv_ok r1\<close> show ?thesis by (simp add: rcv_ok_def)
  next
    case False
    with k have "k < length cs" "length cs < k + RX_BUFF_SIZE" by auto
    moreover from mod_neq [OF this, of "pWritePos r"] pos have
      "(pWritePos r + k) mod RX_BUFF_SIZE \<noteq> pWritePos r1" by simp
    ultimately show ?thesis using r1(2) r2(6) by (simp add: buffered_def nth_append)
  qed
  have "buffered r (cs @ [c]) r2"
    using r1(2) r2 pos cell by (auto simp: buffered_def mod_Suc_eq)
  with r1 r2 show ?case by (simp add: rcv_all_snoc)
qed

text \<open>The receive loop: everything that arrives is consumed in order until the FIFO is empty.\<close>

lemma count_zero: "v AND 0xFF = (of_nat n :: u32) \<Longrightarrow> n < 256 \<Longrightarrow> v AND 0xFF = 0 \<longleftrightarrow> n = 0"
proof -
  assume "v AND 0xFF = (of_nat n :: u32)" "n < 256"
  moreover from this(2) have "unat (of_nat n :: u32) = n" by (simp add: unat_of_nat)
  then have "(of_nat n :: u32) = 0 \<longleftrightarrow> n = 0" using unat_eq_zero [of "of_nat n :: u32"] by simp
  ultimately show ?thesis by simp
qed

lemma rx_laws_simps:
  assumes "rx_laws B fifo coming"
  shows "rd B h (UART_STATUS 0) = (v, h1) \<Longrightarrow> arrives fifo coming h h1 \<and> (v AND 0xFF = 0 \<longleftrightarrow> fifo h1 = [])"
    and "rd B h (UART_FIFO 0) = (v, h1) \<Longrightarrow> fifo h = c # cs \<Longrightarrow>
      ucast (v AND 0xFF) = c \<and> fifo h @ coming h = c # fifo h1 @ coming h1 \<and> length (coming h1) \<le> length (coming h)"
    and "rd B h (UART_INT_ST 0) = (v, h1) \<Longrightarrow> arrives fifo coming h h1"
    and "arrives fifo coming h (wr B h (UART_INT_CLR 0) 1)"
proof -
  note laws = assms [unfolded rx_laws_def, rule_format]
  show "arrives fifo coming h h1 \<and> (v AND 0xFF = 0 \<longleftrightarrow> fifo h1 = [])" if "rd B h (UART_STATUS 0) = (v, h1)"
    using laws [of h] laws [of h1] that count_zero [of v "length (fifo h1)"] by auto
  show "ucast (v AND 0xFF) = c \<and> fifo h @ coming h = c # fifo h1 @ coming h1 \<and> length (coming h1) \<le> length (coming h)"
    if "rd B h (UART_FIFO 0) = (v, h1)" "fifo h = c # cs" using laws [of h] that by auto
  show "arrives fifo coming h h1" if "rd B h (UART_INT_ST 0) = (v, h1)" using laws [of h] that by auto
  show "arrives fifo coming h (wr B h (UART_INT_CLR 0) 1)" using laws [of h] by auto
qed

lemma rx_loop_runs:
  assumes laws: "rx_laws B fifo coming"
  shows "rcv_ok r \<Longrightarrow> rx_all rx (fifo h @ coming h) w \<noteq> None \<Longrightarrow>
    \<exists>cs h' r' w'. rx_loop B rx h r w = Some (h', r', w') \<and> fifo h @ coming h = cs @ coming h' \<and>
      fifo h' = [] \<and> rx_all rx cs w = Some w' \<and> rcv_all cs r = Some r' \<and> length (coming h') \<le> length (coming h)"
proof (induction "length (fifo h @ coming h)" arbitrary: h r w rule: less_induct)
  case less
  obtain v h1 where st: "rd B h (UART_STATUS 0) = (v, h1)" by fastforce
  from rx_laws_simps(1) [OF laws st] have v0: "v AND 0xFF = 0 \<longleftrightarrow> fifo h1 = []"
    and a1: "fifo h1 @ coming h1 = fifo h @ coming h" "length (coming h1) \<le> length (coming h)"
    by (auto simp: arrives_def)
  show ?case
  proof (cases "fifo h1")
    case Nil
    then show ?thesis using st v0 a1
      by (intro exI [of _ "[]"] exI [of _ h1] exI [of _ r] exI [of _ w]) (simp add: rx_loop.simps [of B rx h])
  next
    case (Cons c rest)
    obtain x h2 where rf: "rd B h1 (UART_FIFO 0) = (x, h2)" by fastforce
    from rx_laws_simps(2) [OF laws rf Cons] have x: "ucast (x AND 0xFF) = c"
      and a2: "fifo h1 @ coming h1 = c # fifo h2 @ coming h2" "length (coming h2) \<le> length (coming h1)" by auto
    have bytes: "fifo h @ coming h = c # fifo h2 @ coming h2" using a1(1) a2(1) by simp
    from less.prems(2) obtain w1 where
      w1: "rx c w = Some w1" "rx_all rx (fifo h2 @ coming h2) w1 \<noteq> None"
      unfolding bytes by (cases "rx c w") auto
    from rcv_store_step [OF less.prems(1), of c] obtain r1 where r1: "rcv_store c r = Some r1" "rcv_ok r1" by blast
    have "length (fifo h2 @ coming h2) < length (fifo h @ coming h)" using a1(1) a2(1) by (metis length_Cons lessI)
    from less.hyps [OF this r1(2) w1(2)] obtain cs h' r' w' where
      run: "rx_loop B rx h2 r1 w1 = Some (h', r', w')" "fifo h2 @ coming h2 = cs @ coming h'" "fifo h' = []"
        "rx_all rx cs w1 = Some w'" "rcv_all cs r1 = Some r'" "length (coming h') \<le> length (coming h2)" by blast
    have loop: "rx_loop B rx h r w = Some (h', r', w')"
      using st v0 Cons rf x w1(1) r1(1) run(1) by (simp add: rx_loop.simps [of B rx h])
    have eq: "fifo h @ coming h = (c # cs) @ coming h'" using a1(1) a2(1) run(2) by simp
    have "length (coming h') \<le> length (coming h)" using a1(2) a2(2) run(6) by linarith
    with loop eq run(3-5) w1(1) r1(1) show ?thesis
      by (intro exI [of _ "c # cs"] exI [of _ h'] exI [of _ r'] exI [of _ w']) simp
  qed
qed

text \<open>
  The configuration on the port: every text up to its terminator. The four addresses are rows of one
  array; a row without a terminator would run on into the next.
\<close>

lemma cstr_literal: "0 \<notin> set xs \<Longrightarrow> takeWhile (\<lambda>c. c \<noteq> (0 :: u8)) (xs @ [0]) = xs"
  by (induction xs) auto

lemma print_item_sends:
  assumes "tx_laws B 0 sent" and "0 \<notin> set name" and "0 \<in> set val"
  shows "\<exists>h'. print_item B name val h = Some h' \<and> sent h' = sent h @ 10 # name @ cstr val"
proof -
  have l: "0 \<in> set (drop 0 (literal (10 # name)))" "cstr (drop 0 (literal (10 # name))) = 10 # name"
    using assms(2) by (simp_all add: literal_def cstr_def cstr_literal)
  from send_loop_sends [OF assms(1) l(1), of h] l(2) obtain h1 where
    h1: "print_debug B (literal (10 # name)) h = Some h1" "sent h1 = sent h @ 10 # name"
    by (auto simp: print_debug_def print_def uart0_sendStr_def)
  have "0 \<in> set (drop 0 val)" using assms(3) by simp
  from send_loop_sends [OF assms(1) this, of h1] h1 show ?thesis
    by (auto simp: print_item_def print_debug_def print_def uart0_sendStr_def)
qed

lemma no_zero_chars: "0 \<notin> set (chars ''SSID='')" "0 \<notin> set (chars ''password='')" "0 \<notin> set (chars ''addresse='')"
  "0 \<notin> set (chars ''Mask='')" "0 \<notin> set (chars ''GW='')" "0 \<notin> set (chars ''MQTT='')" "0 \<notin> set (chars ''NAME='')"
  "0 \<notin> set (chars ''ID='')" "0 \<notin> set (chars ''SLEEP_TIME='')"
  by (simp_all add: chars_def of_char_def)

lemma print_config_sends:
  assumes tx: "tx_laws B 0 sent" and "length string0 = 10"
    and z: "0 \<in> set (ssid w)" "0 \<in> set (password w)" "0 \<in> set (StationName w)" "0 \<in> set (MYID w)"
      "0 \<in> set (drop (3 * MAX_ADRESSE_LENGTH) (adresse w))"
  shows "\<exists>h' string. print_config B string0 w h = Some h' \<and>
    int_to_srthex (sint (echelle (dev w))) string0 = Some string \<and>
    sent h' = sent h @ 10 # chars ''SSID='' @ cstr (ssid w) @ 10 # chars ''password='' @ cstr (password w) @
      10 # chars ''addresse='' @ cstr (adresse w) @ 10 # chars ''Mask='' @ cstr (drop MAX_ADRESSE_LENGTH (adresse w)) @
      10 # chars ''GW='' @ cstr (drop (2 * MAX_ADRESSE_LENGTH) (adresse w)) @
      10 # chars ''MQTT='' @ cstr (drop (3 * MAX_ADRESSE_LENGTH) (adresse w)) @
      10 # chars ''NAME='' @ cstr (StationName w) @ 10 # chars ''ID='' @ cstr (MYID w) @
      10 # chars ''SLEEP_TIME='' @ cstr string @ [10]"
proof -
  let ?m = MAX_ADRESSE_LENGTH
  note item = print_item_sends [OF tx]
  have z': "0 \<in> set (drop (2 * ?m) (adresse w))" "0 \<in> set (drop ?m (adresse w))" "0 \<in> set (adresse w)"
    using z(5) set_drop_subset_set_drop [of "2 * ?m" "3 * ?m" "adresse w"]
      set_drop_subset_set_drop [of ?m "3 * ?m" "adresse w"] set_drop_subset [of "3 * ?m" "adresse w"] by auto
  from int_to_srthex_spec(1) [OF assms(2), of "sint (echelle (dev w))" "[]"] obtain string where
    string: "int_to_srthex (sint (echelle (dev w))) string0 = Some string" "string = hex_text (sint (echelle (dev w)))"
    by simp
  have "0 \<in> set string" unfolding string(2) hex_text_def by (simp add: Let_def)
  note facts = no_zero_chars z z' this
  from item [OF facts(1) z(1), of h] obtain h1 where
    h1: "print_item B (chars ''SSID='') (ssid w) h = Some h1" "sent h1 = sent h @ 10 # chars ''SSID='' @ cstr (ssid w)" by blast
  from item [OF facts(2) z(2), of h1] obtain h2 where
    h2: "print_item B (chars ''password='') (password w) h1 = Some h2"
      "sent h2 = sent h1 @ 10 # chars ''password='' @ cstr (password w)" by blast
  from item [OF facts(3) z'(3), of h2] obtain h3 where
    h3: "print_item B (chars ''addresse='') (adresse w) h2 = Some h3"
      "sent h3 = sent h2 @ 10 # chars ''addresse='' @ cstr (adresse w)" by blast
  from item [OF facts(4) z'(2), of h3] obtain h4 where
    h4: "print_item B (chars ''Mask='') (drop ?m (adresse w)) h3 = Some h4"
      "sent h4 = sent h3 @ 10 # chars ''Mask='' @ cstr (drop ?m (adresse w))" by blast
  from item [OF facts(5) z'(1), of h4] obtain h5 where
    h5: "print_item B (chars ''GW='') (drop (2 * ?m) (adresse w)) h4 = Some h5"
      "sent h5 = sent h4 @ 10 # chars ''GW='' @ cstr (drop (2 * ?m) (adresse w))" by blast
  from item [OF facts(6) z(5), of h5] obtain h6 where
    h6: "print_item B (chars ''MQTT='') (drop (3 * ?m) (adresse w)) h5 = Some h6"
      "sent h6 = sent h5 @ 10 # chars ''MQTT='' @ cstr (drop (3 * ?m) (adresse w))" by blast
  from item [OF facts(7) z(3), of h6] obtain h7 where
    h7: "print_item B (chars ''NAME='') (StationName w) h6 = Some h7"
      "sent h7 = sent h6 @ 10 # chars ''NAME='' @ cstr (StationName w)" by blast
  from item [OF facts(8) z(4), of h7] obtain h8 where
    h8: "print_item B (chars ''ID='') (MYID w) h7 = Some h8" "sent h8 = sent h7 @ 10 # chars ''ID='' @ cstr (MYID w)" by blast
  from item [OF facts(9) \<open>0 \<in> set string\<close>, of h8] obtain h9 where
    h9: "print_item B (chars ''SLEEP_TIME='') string h8 = Some h9"
      "sent h9 = sent h8 @ 10 # chars ''SLEEP_TIME='' @ cstr string" by blast
  have l: "0 \<in> set (drop 0 (literal [10]))" "cstr (drop 0 (literal [10])) = [10]" by (simp_all add: literal_def cstr_def)
  from send_loop_sends [OF tx l(1), of h9] l(2) obtain h10 where
    h10: "print_debug B (literal [10]) h9 = Some h10" "sent h10 = sent h9 @ [10]"
    by (auto simp: print_debug_def print_def uart0_sendStr_def)
  show ?thesis
    by (rule exI [of _ h10], rule exI [of _ string])
      (simp add: print_config_def h1 h2 h3 h4 h5 h6 h7 h8 h9 h10 string(1))
qed

text \<open>The header and the data of forwarded MQTT data.\<close>

lemma forward_sends:
  assumes tx: "tx_laws B 0 sent" and len: "unat data_len \<le> length data"
  shows "\<exists>h'. forward_mqtt_data B data data_len h = Some h' \<and>
    sent h' = sent h @ [1] @ chars ''stS'' @ [ucast data_len, ucast (drop_bit 8 data_len)] @
      take (unat data_len mod 65536) data"
proof -
  let ?str = "1 # chars ''stS'' @ [0]"
  have str: "0 \<in> set (drop 0 ?str)" "cstr (drop 0 ?str) = 1 # chars ''stS''"
    by (simp_all add: chars_def cstr_def of_char_def)
  from send_loop_sends [OF tx str(1), of h] str(2) obtain h1 where
    h1: "uart0_sendStr B ?str h = Some h1" "sent h1 = sent h @ 1 # chars ''stS''"
    by (auto simp: uart0_sendStr_def)
  from tx_one_char [OF tx] obtain h2 where
    h2: "uart0_write_char B (ucast data_len) h1 = Some h2" "sent h2 = sent h1 @ [ucast data_len]"
    unfolding uart0_write_char_def by blast
  from tx_one_char [OF tx] obtain h3 where
    h3: "uart0_write_char B (ucast (drop_bit 8 data_len)) h2 = Some h3" "sent h3 = sent h2 @ [ucast (drop_bit 8 data_len)]"
    unfolding uart0_write_char_def by blast
  have n: "unat (ucast data_len :: u16) = unat data_len mod 65536" by (simp add: unsigned_ucast_eq take_bit_eq_mod)
  then have "0 + unat (ucast data_len :: u16) \<le> length data" using len by (metis add_0 mod_less_eq_dividend le_trans)
  from tx_loop_sends [OF tx this, of h3] n obtain h4 where
    "uart0_tx_buffer B data (ucast data_len) h3 = Some h4" "sent h4 = sent h3 @ take (unat data_len mod 65536) data"
    by (auto simp: uart0_tx_buffer_def)
  with h1 h2 h3 show ?thesis by (simp add: forward_mqtt_data_def)
qed

text \<open>The receive interrupt.\<close>

lemma rx_intr_handler_runs:
  assumes laws: "rx_laws B fifo coming" and r: "rcv_ok r"
    and irq: "fst (rd B h (UART_INT_ST 0)) AND 1 = 1"
    and rx: "rx_text b F u (fifo h @ coming h) w \<noteq> None"
  shows "\<exists>cs h' r' w'. uart0_rx_intr_handler B b F u r w h = Some (h', r', w') \<and>
    fifo h @ coming h = cs @ coming h' \<and> fifo h' = [] \<and> length (coming h') \<le> length (coming h) \<and>
    rx_text b F u cs w = Some w' \<and> buffered r cs r'"
proof -
  obtain v h1 where st: "rd B h (UART_INT_ST 0) = (v, h1)" by fastforce
  define h2 where "h2 = wr B h1 (UART_INT_CLR 0) 1"
  have a: "fifo h2 @ coming h2 = fifo h @ coming h" "length (coming h2) \<le> length (coming h)"
    using rx_laws_simps(3) [OF laws st] rx_laws_simps(4) [OF laws, of h1] by (auto simp: arrives_def h2_def)
  from rx have "rx_all (rx_uart0 b F u) (fifo h2 @ coming h2) w \<noteq> None" by (simp only: a(1) rx_all_text not_False_eq_True)
  from rx_loop_runs [OF laws r this] obtain cs h' r' w' where
    run: "rx_loop B (rx_uart0 b F u) h2 r w = Some (h', r', w')" "fifo h2 @ coming h2 = cs @ coming h'"
      "fifo h' = []" "rx_text b F u cs w = Some w'" "rcv_all cs r = Some r'" "length (coming h') \<le> length (coming h2)"
    by (auto simp: rx_all_text)
  have "uart0_rx_intr_handler B b F u r w h = Some (h', r', w')"
    using st irq run(1) by (simp add: uart0_rx_intr_handler_def READ_PERI_REG_def WRITE_PERI_REG_def h2_def)
  moreover from rcv_all_received [OF r, of cs] run(5) have "buffered r cs r'" by simp
  moreover have "length (coming h') \<le> length (coming h)" using run(6) a(2) by linarith
  ultimately show ?thesis using run a(1) by auto
qed

text \<open>
  A port with a FIFO of 128 bytes: \<open>input\<close> is what has arrived and was not read, the first part of it is
  in the FIFO.
\<close>

definition serial_port :: "(bytes \<times> bytes) bus" where
  "serial_port = \<lparr>
     rd = \<lambda>(input, out) a.
       if a = UART_STATUS 0 then (of_nat (length (take 128 input)), (input, out))
       else if a = UART_FIFO 0 then (ucast (hd input), (tl input, out))
       else (1, (input, out)),
     wr = \<lambda>(input, out) a v. if a = UART_FIFO 0 then (input, out @ [ucast v]) else (input, out),
     sdk = \<lambda>c h. h\<rparr>"

lemma uart_addresses:
  "UART_STATUS 0 = 0x6000001C" "UART_FIFO 0 = 0x60000000" "UART_INT_ST 0 = 0x60000008"
  "UART_INT_CLR 0 = 0x60000010" "UART_INT_ENA 0 = 0x6000000C" "UART_INT_ENA 1 = 0x60000F0C"
  by (simp_all add: UART_STATUS_def UART_FIFO_def UART_INT_ST_def UART_INT_CLR_def UART_INT_ENA_def UART_BASE_def)

lemma fifo_byte: "ucast ((ucast (c :: u8) :: u32) AND 0xFF) = c"
proof -
  have m: "(0xFF :: u32) = Bit_Operations.mask 8" by (simp add: mask_eq_decr_exp)
  show ?thesis unfolding m by (rule bit_word_eqI) (auto simp: bit_simps)
qed

lemma fifo_written: "ucast (ucast (c :: u8) :: u32) = c"
  by (rule bit_word_eqI) (auto simp: bit_simps)

lemma fifo_count: "(of_nat (min (length xs) 128) :: u32) AND 0xFF = of_nat (min (length xs) 128)"
proof -
  let ?n = "min (length xs) 128"
  have "(of_nat ?n :: u32) AND 0xFF = take_bit 8 (of_nat ?n)" by (simp add: take_bit_eq_mask mask_eq_decr_exp)
  also have "\<dots> = of_nat (take_bit 8 ?n)" by (simp add: take_bit_of_nat)
  also have "take_bit 8 ?n = ?n" by (simp add: take_bit_nat_eq_self)
  finally show ?thesis .
qed

lemma serial_port_rx: "rx_laws serial_port (\<lambda>(input, out). take 128 input) (\<lambda>(input, out). drop 128 input)"
  unfolding rx_laws_def
proof (intro allI, goal_cases)
  case (1 h)
  obtain input out where h: "h = (input, out)" by (cases h)
  have len: "length (take 128 input) < 256" by (simp add: min_less_iff_disj)
  have st: "rd serial_port h (UART_STATUS 0) = (of_nat (min (length input) 128), h)"
    by (simp add: h serial_port_def min.commute)
  have int: "rd serial_port h (UART_INT_ST 0) = (1, h)" "wr serial_port h (UART_INT_CLR 0) 1 = h"
    by (simp_all add: h serial_port_def uart_addresses)
  have fifo: "rd serial_port h (UART_FIFO 0) = (ucast (hd input), (tl input, out))"
    by (simp add: h serial_port_def uart_addresses)
  show ?case unfolding st int fifo using len fifo_count [of input]
    by (cases input) (auto simp: h arrives_def fifo_byte)
qed

lemma serial_port_tx: "tx_laws serial_port 0 snd"
  unfolding tx_laws_def
proof (intro allI conjI)
  fix h :: "bytes \<times> bytes" and c :: u8
  obtain input out where h: "h = (input, out)" by (cases h)
  let ?v = "of_nat (min (length input) 128) :: u32"
  have "?v AND push_bit 16 0xFF = (?v AND 0xFF) AND push_bit 16 0xFF" by (simp only: fifo_count)
  also have "\<dots> = 0" by (simp add: and.assoc)
  finally have "tx_ready ?v" by (simp add: tx_ready_def)
  then have "settles serial_port (UART_STATUS 0) tx_ready 0 h h"
    by (simp add: h serial_port_def min.commute)
  then show "\<exists>n h'. settles serial_port (UART_STATUS 0) tx_ready n h h' \<and> snd h' = snd h" by blast
  show "snd (wr serial_port h (UART_FIFO 0) (ucast c)) = snd h @ [c]" by (simp add: h serial_port_def fifo_written)
qed

subsection \<open>Set-up\<close>

lemmas uart_config_defs = uart_config_def uart_init_def disable_uart_def UART_CONF0_def UART_CONF1_def
  UART_INT_ENA_def UART_INT_CLR_def UART_BASE_def PIN_PULLUP_DIS_def PERIPHS_IO_MUX_U0TXD_U_def
  PERIPHS_IO_MUX_GPIO2_U_def UART_RXFIFO_RST_def UART_TXFIFO_RST_def

lemma uart_init_regs:
  assumes "\<forall>a. plain_reg B reg a" and "sdk_apart B reg" and "br0 \<noteq> 0" and "br1 \<noteq> 0"
  shows "\<exists>h'. uart_init B br0 br1 d h = Some (d\<lparr>baut_rate := br1\<rparr>, h') \<and>
    bit (reg h' (UART_INT_ENA 0)) 0 \<and> bit (reg h' (UART_INT_ENA 1)) 0 \<and>
    reg h' (UART_CONF0 0) AND (UART_RXFIFO_RST OR UART_TXFIFO_RST) = 0 \<and>
    reg h' (UART_CONF1 0) = ucast (TrigLvl (rcv_buf d)) AND 0x7F"
  using assms by (simp add: uart_config_defs reg_simps Let_def and.assoc bit_simps)

lemma disable_uart_regs:
  assumes "\<forall>a. plain_reg B reg a"
  shows "\<not> bit (reg (disable_uart B h) (UART_INT_ENA 0)) 0 \<and> \<not> bit (reg (disable_uart B h) (UART_INT_ENA 1)) 0"
  using assms by (simp add: uart_config_defs reg_simps bit_simps)

section \<open>Properties\<close>

text \<open>
  C14: The serial port feeds the console. The receive interrupt ends, hands every byte that has arrived
  to \<open>rx_uart0\<close>, once and in order, until the FIFO is empty, and never writes outside its circular
  buffer of 256 bytes, which afterwards holds the latest bytes; a carriage return marks the buffer.
  This is so whatever arrives during the interrupt, as long as no byte makes the console leave its arrays.
\<close>

theorem uart_feeds_console:
  assumes "rx_laws B fifo coming" and "rcv_ok r" and "fst (rd B h (UART_INT_ST 0)) AND 1 = 1"
    and "rx_text b F u (fifo h @ coming h) w \<noteq> None"
  shows "\<exists>cs h' r' w'. uart0_rx_intr_handler B b F u r w h = Some (h', r', w') \<and>
    fifo h @ coming h = cs @ coming h' \<and> fifo h' = [] \<and> length (coming h') \<le> length (coming h) \<and>
    rx_text b F u cs w = Some w' \<and> buffered r cs r'"
  by (rule rx_intr_handler_runs [OF assms])

lemma uart_feeds_console_witness:
  "\<exists>cs h' r' w'. uart0_rx_intr_handler serial_port build_PRISE nor_flash example_locals
      \<lparr>pRcvMsgBuff = replicate 256 0, pWritePos = 255, TrigLvl = 1, BuffState = EMPTY\<rparr>
      (example_firmware, \<lambda>_. 0) (chars ''12'', []) = Some (h', r', w') \<and>
    cs @ drop 128 (fst h') = chars ''12'' \<and> take 128 (fst h') = [] \<and>
    rx_text build_PRISE nor_flash example_locals cs (example_firmware, \<lambda>_. 0) = Some w' \<and>
    buffered \<lparr>pRcvMsgBuff = replicate 256 0, pWritePos = 255, TrigLvl = 1, BuffState = EMPTY\<rparr> cs r'"
proof -
  let ?r = "\<lparr>pRcvMsgBuff = replicate 256 0, pWritePos = 255, TrigLvl = 1, BuffState = EMPTY\<rparr>"
  have r: "rcv_ok ?r" by (simp add: rcv_ok_def RX_BUFF_SIZE_def)
  have irq: "fst (rd serial_port (chars ''12'', []) (UART_INT_ST 0)) AND 1 = 1"
    by (simp add: serial_port_def uart_addresses)
  have c: "take 128 (chars ''12'') @ drop 128 (chars ''12'') = chars ''12''" by simp
  have "rx_text build_PRISE nor_flash example_locals (chars ''12'') (example_firmware, \<lambda>_. 0) \<noteq> None"
    by code_simp
  with uart_feeds_console [OF serial_port_rx r irq, of build_PRISE nor_flash example_locals "(example_firmware, \<lambda>_. 0)"]
  show ?thesis by (auto simp: case_prod_beta)
qed

text \<open>
  MQTT data forwarded to the serial port (\<open>SEND_MQTT_ON_UART\<close>) are sent whole behind the header
  that announces them, byte 1, \<open>stS\<close> and their length in two bytes, low byte first: the call ends, and a
  reader of the port gets the data back. From 65536 bytes on, length and data are cut alike.
\<close>

theorem uart_forwards_data:
  assumes "tx_laws B 0 sent" and "unat data_len \<le> length data"
  shows "\<exists>h' lo hi body. forward_mqtt_data B data data_len h = Some h' \<and>
    sent h' = sent h @ [1] @ chars ''stS'' @ [lo, hi] @ body \<and> be16 hi lo = length body \<and>
    body = take (unat data_len mod 65536) data"
proof -
  let ?n = "unat data_len mod 65536"
  from forward_sends [OF assms, of h] obtain h' where
    h': "forward_mqtt_data B data data_len h = Some h'"
      "sent h' = sent h @ [1] @ chars ''stS'' @ [ucast data_len, ucast (drop_bit 8 data_len)] @ take ?n data" by blast
  have "?n \<le> length data" using assms(2) by (metis mod_less_eq_dividend le_trans)
  moreover have "be16 (ucast (drop_bit 8 data_len)) (ucast data_len) = ?n"
  proof -
    have "unat (drop_bit 8 data_len) = unat data_len div 256"
      by (simp only: unat_drop_bit_eq) (simp add: drop_bit_eq_div)
    then have "unat (ucast data_len :: u8) = unat data_len mod 256"
      "unat (ucast (drop_bit 8 data_len) :: u8) = unat data_len div 256 mod 256"
      by (simp_all add: unsigned_ucast_eq take_bit_eq_mod)
    moreover have "unat data_len div 256 mod 256 * 256 + unat data_len mod 256 = ?n"
      using mod_mult2_eq [of "unat data_len" 256 256] by simp
    ultimately show ?thesis by (simp add: be16_def)
  qed
  ultimately show ?thesis using h' by (intro exI conjI) (assumption | simp)+
qed

lemma uart_forwards_data_witness:
  "\<exists>h' lo hi body. forward_mqtt_data serial_port [7, 8, 9] 2 ([], []) = Some h' \<and>
    snd h' = [] @ [1] @ chars ''stS'' @ [lo, hi] @ body \<and> be16 hi lo = length body \<and> body = [7, 8]"
  using uart_forwards_data [OF serial_port_tx, of 2 "[7, 8, 9]" "([], [])"] by simp

end
