(* ===== verification/Spi.thy ===== *)
theory Spi
  imports Registers Bme280 Dimmer
begin

unbundle bit_operations_syntax

text \<open>
  The SPI driver (\<open>driver/spi.c\<close>) on the registers of the chip, and what the BME280 and TLI4970 drivers
  do with it (\<open>user/bme280_user.c\<close>, \<open>user/TLI4970.c\<close>). \<open>None\<close> is undefined behaviour or a polling loop
  that does not end; left shifts of signed integers are taken as GCC defines them, on the bit pattern.
\<close>

section \<open>Registers of the driver\<close>

definition SPI_BASE :: "u8 \<Rightarrow> u32" where "SPI_BASE i = 0x60000200 - ucast i * 0x100"
definition SPI_CMD :: "u8 \<Rightarrow> u32" where "SPI_CMD i = SPI_BASE i"
definition SPI_ADDR :: "u8 \<Rightarrow> u32" where "SPI_ADDR i = SPI_BASE i + 0x4"
definition SPI_CTRL :: "u8 \<Rightarrow> u32" where "SPI_CTRL i = SPI_BASE i + 0x8"
definition SPI_CLOCK :: "u8 \<Rightarrow> u32" where "SPI_CLOCK i = SPI_BASE i + 0x18"
definition SPI_USER :: "u8 \<Rightarrow> u32" where "SPI_USER i = SPI_BASE i + 0x1C"
definition SPI_USER1 :: "u8 \<Rightarrow> u32" where "SPI_USER1 i = SPI_BASE i + 0x20"
definition SPI_USER2 :: "u8 \<Rightarrow> u32" where "SPI_USER2 i = SPI_BASE i + 0x24"
definition SPI_W0 :: "u8 \<Rightarrow> u32" where "SPI_W0 i = SPI_BASE i + 0x40"

definition SPI_USR :: u32 where "SPI_USR = 0x40000"
definition SPI_CLK_EQU_SYSCLK :: u32 where "SPI_CLK_EQU_SYSCLK = 0x80000000"
definition SPI_QIO_MODE :: u32 where "SPI_QIO_MODE = 0x1000000"
definition SPI_QOUT_MODE :: u32 where "SPI_QOUT_MODE = 0x100000"
definition SPI_USR_COMMAND :: u32 where "SPI_USR_COMMAND = 0x80000000"
definition SPI_USR_ADDR :: u32 where "SPI_USR_ADDR = 0x40000000"
definition SPI_USR_DUMMY :: u32 where "SPI_USR_DUMMY = 0x20000000"
definition SPI_USR_MISO :: u32 where "SPI_USR_MISO = 0x10000000"
definition SPI_USR_MOSI :: u32 where "SPI_USR_MOSI = 0x8000000"
definition SPI_WR_BYTE_ORDER :: u32 where "SPI_WR_BYTE_ORDER = 0x800"
definition SPI_RD_BYTE_ORDER :: u32 where "SPI_RD_BYTE_ORDER = 0x400"
definition SPI_CS_SETUP :: u32 where "SPI_CS_SETUP = 0x20"
definition SPI_CS_HOLD :: u32 where "SPI_CS_HOLD = 0x10"
definition SPI_FLASH_MODE :: u32 where "SPI_FLASH_MODE = 0x4"
definition SPI_DOUTDIN :: u32 where "SPI_DOUTDIN = 0x1"

lemmas spi_address_defs = SPI_BASE_def SPI_CMD_def SPI_ADDR_def SPI_CTRL_def SPI_CLOCK_def SPI_USER_def
  SPI_USER1_def SPI_USER2_def SPI_W0_def

lemmas spi_bit_defs = SPI_USR_def SPI_CLK_EQU_SYSCLK_def SPI_QIO_MODE_def SPI_QOUT_MODE_def SPI_USR_COMMAND_def
  SPI_USR_ADDR_def SPI_USR_DUMMY_def SPI_USR_MISO_def SPI_USR_MOSI_def SPI_WR_BYTE_ORDER_def
  SPI_RD_BYTE_ORDER_def SPI_CS_SETUP_def SPI_CS_HOLD_def SPI_FLASH_MODE_def SPI_DOUTDIN_def

section \<open>Set-up\<close>

definition spi_init_gpio :: "'h bus \<Rightarrow> u8 \<Rightarrow> u8 \<Rightarrow> 'h \<Rightarrow> 'h" where
  "spi_init_gpio B spi_no sysclk_as_spiclk h =
     (let clock_div_flag = (if sysclk_as_spiclk \<noteq> 0 then 1 else 0)
      in if spi_no = 0 then
           (let h = WRITE_PERI_REG B PERIPHS_IO_MUX (0x005 OR push_bit 8 clock_div_flag) h;
                h = PIN_FUNC_SELECT B 0x6000081c 1 h;
                h = PIN_FUNC_SELECT B 0x60000830 1 h;
                h = PIN_FUNC_SELECT B 0x60000820 1 h
            in PIN_FUNC_SELECT B 0x60000824 1 h)
         else if spi_no = 1 then
           (let h = WRITE_PERI_REG B PERIPHS_IO_MUX (0x105 OR push_bit 9 clock_div_flag) h;
                h = PIN_FUNC_SELECT B PERIPHS_IO_MUX_MTDI_U 2 h;
                h = PIN_FUNC_SELECT B PERIPHS_IO_MUX_MTCK_U 2 h
            in PIN_FUNC_SELECT B PERIPHS_IO_MUX_MTMS_U 2 h)
         else h)"

definition spi_clock_value :: "u16 \<Rightarrow> u8 \<Rightarrow> u32" where
  "spi_clock_value prediv cntdiv =
     push_bit 18 ((ucast prediv - 1) AND 0x1FFF) OR push_bit 12 ((ucast cntdiv - 1) AND 0x3F) OR
     push_bit 6 (drop_bit 1 (ucast cntdiv) AND 0x3F)"

definition spi_clock :: "'h bus \<Rightarrow> u8 \<Rightarrow> u16 \<Rightarrow> u8 \<Rightarrow> 'h \<Rightarrow> 'h" where
  "spi_clock B spi_no prediv cntdiv h =
     (if spi_no > 1 then h
      else if prediv = 0 \<or> cntdiv = 0 then WRITE_PERI_REG B (SPI_CLOCK spi_no) SPI_CLK_EQU_SYSCLK h
      else WRITE_PERI_REG B (SPI_CLOCK spi_no) (spi_clock_value prediv cntdiv) h)"

definition spi_tx_byte_order :: "'h bus \<Rightarrow> u8 \<Rightarrow> u8 \<Rightarrow> 'h \<Rightarrow> 'h" where
  "spi_tx_byte_order B spi_no byte_order h =
     (if spi_no > 1 then h
      else if byte_order \<noteq> 0 then SET_PERI_REG_MASK B (SPI_USER spi_no) SPI_WR_BYTE_ORDER h
      else CLEAR_PERI_REG_MASK B (SPI_USER spi_no) SPI_WR_BYTE_ORDER h)"

definition spi_rx_byte_order :: "'h bus \<Rightarrow> u8 \<Rightarrow> u8 \<Rightarrow> 'h \<Rightarrow> 'h" where
  "spi_rx_byte_order B spi_no byte_order h =
     (if spi_no > 1 then h
      else if byte_order \<noteq> 0 then SET_PERI_REG_MASK B (SPI_USER spi_no) SPI_RD_BYTE_ORDER h
      else CLEAR_PERI_REG_MASK B (SPI_USER spi_no) SPI_RD_BYTE_ORDER h)"

text \<open>\<open>clk_div - 1\<close> is converted to the \<open>uint16\<close> parameter of \<open>spi_clock\<close>; \<open>SPI_CLK_CNTDIV\<close> is 2.\<close>

definition spi_init :: "'h bus \<Rightarrow> u8 \<Rightarrow> u8 \<Rightarrow> 'h \<Rightarrow> 'h" where
  "spi_init B spi_no clk_div h =
     (if spi_no > 1 then h
      else (let h = spi_init_gpio B spi_no 0 h;
                h = spi_clock B spi_no (ucast clk_div - 1) 2 h;
                h = spi_tx_byte_order B spi_no 1 h;
                h = spi_rx_byte_order B spi_no 1 h;
                h = SET_PERI_REG_MASK B (SPI_USER spi_no) (SPI_CS_SETUP OR SPI_CS_HOLD) h;
                h = CLEAR_PERI_REG_MASK B (SPI_USER spi_no) SPI_FLASH_MODE h
            in CLEAR_PERI_REG_MASK B (SPI_CTRL spi_no) (SPI_QIO_MODE OR SPI_QOUT_MODE) h))"

text \<open>The globals of \<open>get_flash_spi_config\<close>.\<close>

record flash_spi_config =
  io_mux :: u32
  spi_user :: u32
  spi_ctrl :: u32
  spi_clock_s :: u32
  spi_user1 :: u32

definition get_flash_spi_config :: "'h bus \<Rightarrow> 'h \<Rightarrow> flash_spi_config \<times> 'h" where
  "get_flash_spi_config B h =
     (let (v0, h) = READ_PERI_REG B PERIPHS_IO_MUX h;
          (v1, h) = READ_PERI_REG B (SPI_USER 0) h;
          (v2, h) = READ_PERI_REG B (SPI_CTRL 0) h;
          (v3, h) = READ_PERI_REG B (SPI_CLOCK 0) h;
          (v4, h) = READ_PERI_REG B (SPI_USER1 0) h
      in (\<lparr>io_mux = v0, spi_user = v1, spi_ctrl = v2, spi_clock_s = v3, spi_user1 = v4\<rparr>, h))"

section \<open>Transactions\<close>

definition spi_wait :: "'h bus \<Rightarrow> u8 \<Rightarrow> 'h \<Rightarrow> 'h option" where
  "spi_wait B spi_no = poll B (SPI_CMD spi_no) (\<lambda>v. v AND SPI_USR = 0)"

definition SPI_PHASES :: u32 where
  "SPI_PHASES = SPI_USR_MOSI OR SPI_USR_MISO OR SPI_USR_COMMAND OR SPI_USR_ADDR OR SPI_USR_DUMMY"

definition spi_lengths :: "u32 \<Rightarrow> u32 \<Rightarrow> u32 \<Rightarrow> u32 \<Rightarrow> u32" where
  "spi_lengths addr_bits dout_bits din_bits dummy_bits =
     push_bit 26 ((addr_bits - 1) AND 0x3F) OR push_bit 17 ((dout_bits - 1) AND 0x1FF) OR
     push_bit 8 ((din_bits - 1) AND 0x1FF) OR ((dummy_bits - 1) AND 0xFF)"

definition spi_command :: "'h bus \<Rightarrow> u8 \<Rightarrow> u8 \<Rightarrow> u16 \<Rightarrow> 'h \<Rightarrow> 'h option" where
  "spi_command B spi_no cmd_bits cmd_data h =
     (if cmd_bits = 0 then Some h
      else if cmd_bits > 16 then None
      else (let h = SET_PERI_REG_MASK B (SPI_USER spi_no) SPI_USR_COMMAND h;
                command = push_bit (16 - unat cmd_bits) cmd_data;
                command = (drop_bit 8 command AND 0xff) OR (push_bit 8 command AND 0xff00)
            in Some (WRITE_PERI_REG B (SPI_USER2 spi_no)
                 (push_bit 28 ((ucast cmd_bits - 1) AND 0xF) OR (ucast command AND 0xFFFF)) h)))"

definition spi_address :: "'h bus \<Rightarrow> u8 \<Rightarrow> u32 \<Rightarrow> u32 \<Rightarrow> 'h \<Rightarrow> 'h option" where
  "spi_address B spi_no addr_bits addr_data h =
     (if addr_bits = 0 then Some h
      else if addr_bits > 32 then None
      else (let h = SET_PERI_REG_MASK B (SPI_USER spi_no) SPI_USR_ADDR h
            in Some (WRITE_PERI_REG B (SPI_ADDR spi_no) (push_bit (32 - unat addr_bits) addr_data) h)))"

text \<open>The data, aligned for the byte order; \<open>k\<close> are the bits in whole bytes.\<close>

definition spi_dout_low :: "u32 \<Rightarrow> u32 \<Rightarrow> u32 option" where
  "spi_dout_low dout_bits dout_data =
     (let x = unat dout_bits mod 8; k = unat dout_bits - x
      in if x = 0 then Some dout_data
         else if k = 0 \<or> k \<ge> 32 then None
         else Some (push_bit (8 - x) (push_bit k 0xFFFFFFFF AND dout_data) OR
                    (drop_bit (32 - k) 0xFFFFFFFF AND dout_data)))"

definition spi_dout :: "'h bus \<Rightarrow> u8 \<Rightarrow> u32 \<Rightarrow> u32 \<Rightarrow> 'h \<Rightarrow> 'h option" where
  "spi_dout B spi_no dout_bits dout_data h =
     (if dout_bits = 0 then Some h
      else (let h = SET_PERI_REG_MASK B (SPI_USER spi_no) SPI_USR_MOSI h;
                (v, h) = READ_PERI_REG B (SPI_USER spi_no) h
            in if v AND SPI_WR_BYTE_ORDER \<noteq> 0 then
                 (if dout_bits > 32 then None
                  else Some (WRITE_PERI_REG B (SPI_W0 spi_no) (push_bit (32 - unat dout_bits) dout_data) h))
               else do {
                 w \<leftarrow> spi_dout_low dout_bits dout_data;
                 Some (WRITE_PERI_REG B (SPI_W0 spi_no) w h)
               }))"

definition spi_din :: "'h bus \<Rightarrow> u8 \<Rightarrow> u32 \<Rightarrow> 'h \<Rightarrow> (u32 \<times> 'h) option" where
  "spi_din B spi_no din_bits h =
     (if din_bits = 0 then Some (1, h)
      else (let (v, h) = READ_PERI_REG B (SPI_USER spi_no) h;
                (w, h) = READ_PERI_REG B (SPI_W0 spi_no) h
            in if v AND SPI_RD_BYTE_ORDER \<noteq> 0
               then (if din_bits > 32 then None else Some (drop_bit (32 - unat din_bits) w, h))
               else Some (w, h)))"

definition spi_transaction ::
    "'h bus \<Rightarrow> u8 \<Rightarrow> u8 \<Rightarrow> u16 \<Rightarrow> u32 \<Rightarrow> u32 \<Rightarrow> u32 \<Rightarrow> u32 \<Rightarrow> u32 \<Rightarrow> u32 \<Rightarrow> 'h \<Rightarrow> (u32 \<times> 'h) option" where
  "spi_transaction B spi_no cmd_bits cmd_data addr_bits addr_data dout_bits dout_data din_bits dummy_bits h =
     (if spi_no > 1 then Some (0, h)
      else do {
        h \<leftarrow> spi_wait B spi_no h;
        let h = CLEAR_PERI_REG_MASK B (SPI_USER spi_no) SPI_PHASES h;
        let h = (if din_bits \<noteq> 0 then SET_PERI_REG_MASK B (SPI_USER spi_no) SPI_USR_MISO h else h);
        let h = (if dummy_bits \<noteq> 0 then SET_PERI_REG_MASK B (SPI_USER spi_no) SPI_USR_DUMMY h else h);
        let h = WRITE_PERI_REG B (SPI_USER1 spi_no) (spi_lengths addr_bits dout_bits din_bits dummy_bits) h;
        h \<leftarrow> spi_command B spi_no cmd_bits cmd_data h;
        h \<leftarrow> spi_address B spi_no addr_bits addr_data h;
        h \<leftarrow> spi_dout B spi_no dout_bits dout_data h;
        let h = SET_PERI_REG_MASK B (SPI_CMD spi_no) SPI_USR h;
        h \<leftarrow> spi_wait B spi_no h;
        spi_din B spi_no din_bits h
      })"

text \<open>The loops of \<open>spi_write\<close> and \<open>spi_read\<close>: \<open>n\<close> bytes are left, from \<open>l\<close> on.\<close>

fun spi_write_loop :: "'h bus \<Rightarrow> bytes \<Rightarrow> nat \<Rightarrow> nat \<Rightarrow> 'h \<Rightarrow> 'h option" where
  "spi_write_loop B data l 0 h = Some h"
| "spi_write_loop B data l (Suc n) h = do {
     d \<leftarrow> load data l;
     (r, h) \<leftarrow> spi_transaction B 1 0 0 0 0 8 (ucast d) 0 0 h;
     spi_write_loop B data (l + 1) n h
   }"

definition spi_write :: "'h bus \<Rightarrow> bytes \<Rightarrow> nat \<Rightarrow> 'h \<Rightarrow> 'h option" where
  "spi_write B data len = spi_write_loop B data 0 len"

definition spi_read_byte :: "'h bus \<Rightarrow> u8 \<Rightarrow> 'h \<Rightarrow> (u8 \<times> 'h) option" where
  "spi_read_byte B d h = do {
     h \<leftarrow> spi_wait B 1 h;
     let h = CLEAR_PERI_REG_MASK B (SPI_USER 1) SPI_PHASES h;
     let h = SET_PERI_REG_MASK B (SPI_USER 1) (SPI_USR_MOSI OR SPI_DOUTDIN) h;
     let h = WRITE_PERI_REG B (SPI_USER1 1) (push_bit 17 ((8 - 1) AND 0x1FF)) h;
     let h = SET_PERI_REG_MASK B (SPI_CMD 1) SPI_USR h;
     let h = WRITE_PERI_REG B (SPI_W0 1) (push_bit (32 - 8) (ucast d)) h;
     h \<leftarrow> spi_wait B 1 h;
     let (w, h) = READ_PERI_REG B (SPI_W0 1) h;
     Some (ucast (drop_bit (32 - 8) w), h)
   }"

fun spi_read_loop :: "'h bus \<Rightarrow> bytes \<Rightarrow> nat \<Rightarrow> nat \<Rightarrow> 'h \<Rightarrow> (bytes \<times> 'h) option" where
  "spi_read_loop B data l 0 h = Some (data, h)"
| "spi_read_loop B data l (Suc n) h = do {
     d \<leftarrow> load data l;
     (x, h) \<leftarrow> spi_read_byte B d h;
     data \<leftarrow> store data l x;
     spi_read_loop B data (l + 1) n h
   }"

definition spi_read :: "'h bus \<Rightarrow> bytes \<Rightarrow> nat \<Rightarrow> 'h \<Rightarrow> (bytes \<times> 'h) option" where
  "spi_read B data len = spi_read_loop B data 0 len"

section \<open>The sensors' use of it\<close>

text \<open>\<open>BME280_SPI_bus_read\<close> and \<open>BME280_SPI_bus_write\<close> down to the registers; \<open>CS\<close> is GPIO 4, active low.\<close>

definition bus_read_regs :: "'h bus \<Rightarrow> u8 \<Rightarrow> nat \<Rightarrow> 'h \<Rightarrow> (bytes \<times> 'h) option" where
  "bus_read_regs B reg_addr cnt h = do {
     let array = (reg_addr OR 0x80) # replicate 63 0;
     let h = GPIO_OUTPUT_SET B 4 False h;
     (array, h) \<leftarrow> spi_read B array (cnt + 1) h;
     let h = GPIO_OUTPUT_SET B 4 True h;
     Some (take cnt (drop 1 array), h)
   }"

definition bus_write_regs :: "'h bus \<Rightarrow> u8 \<Rightarrow> bytes \<Rightarrow> 'h \<Rightarrow> 'h option" where
  "bus_write_regs B reg_addr xs h =
     (if 2 * length xs > 128 then None
      else do {
        let array = write_pairs reg_addr xs;
        let h = GPIO_OUTPUT_SET B 4 False h;
        h \<leftarrow> spi_write B array (2 * length xs) h;
        Some (GPIO_OUTPUT_SET B 4 True h)
      })"

text \<open>\<open>TLI4970_get_curent\<close> down to the registers.\<close>

definition TLI4970_read :: "'h bus \<Rightarrow> 'h \<Rightarrow> (int \<times> 'h) option" where
  "TLI4970_read B h = do {
     let h = sdk B (Gpio_output_set 0 BIT_TLI BIT_TLI 0) h;
     (reply, h) \<leftarrow> spi_transaction B 1 0 0 0 0 0 0 16 0 h;
     let h = sdk B (Gpio_output_set BIT_TLI 0 BIT_TLI 0) h;
     v \<leftarrow> TLI4970_get_curent reply;
     Some (v, h)
   }"

section \<open>Laws of the controller\<close>

text \<open>
  The registers of HSPI (module 1) that the driver writes. \<open>idle h\<close>: no transfer is running. \<open>dev h\<close> is the
  state of the device on the other end, which
  only a transfer changes; \<open>exch d c\<close> is the exchange of a byte with it, and \<open>recv c\<close> the reading
  of 16 bits. With both byte orders from high to low, data leave and enter at the top of \<open>W0\<close>.
\<close>

definition hspi_regs :: "u32 set" where
  "hspi_regs = {SPI_USER 1, SPI_USER1 1, SPI_USER2 1, SPI_ADDR 1, SPI_W0 1}"

definition hspi_configured :: "u32 \<Rightarrow> bool" where
  "hspi_configured user \<longleftrightarrow> user AND SPI_WR_BYTE_ORDER \<noteq> 0 \<and> user AND SPI_RD_BYTE_ORDER \<noteq> 0"

text \<open>What one transfer does, by the phases and lengths that the registers ask for.\<close>

definition transferred ::
    "('h \<Rightarrow> u32 \<Rightarrow> u32) \<Rightarrow> ('h \<Rightarrow> 'c) \<Rightarrow> (u8 \<Rightarrow> 'c \<Rightarrow> u8 \<times> 'c) \<Rightarrow> ('c \<Rightarrow> u16 \<times> 'c) \<Rightarrow> 'h \<Rightarrow> 'h \<Rightarrow> bool" where
  "transferred reg dev exch recv h h' \<longleftrightarrow>
     (\<forall>a \<in> hspi_regs. a \<noteq> SPI_W0 1 \<longrightarrow> reg h' a = reg h a) \<and>
     (hspi_configured (reg h (SPI_USER 1)) \<and> reg h (SPI_USER 1) AND SPI_PHASES = SPI_USR_MOSI \<and>
      drop_bit 17 (reg h (SPI_USER1 1)) AND 0x1FF = 7 \<longrightarrow>
        dev h' = snd (exch (ucast (drop_bit 24 (reg h (SPI_W0 1)))) (dev h)) \<and>
        (reg h (SPI_USER 1) AND SPI_DOUTDIN \<noteq> 0 \<longrightarrow>
           ucast (drop_bit 24 (reg h' (SPI_W0 1))) = fst (exch (ucast (drop_bit 24 (reg h (SPI_W0 1)))) (dev h)))) \<and>
     (hspi_configured (reg h (SPI_USER 1)) \<and> reg h (SPI_USER 1) AND SPI_PHASES = SPI_USR_MISO \<and>
      reg h (SPI_USER 1) AND SPI_DOUTDIN = 0 \<and> drop_bit 8 (reg h (SPI_USER1 1)) AND 0x1FF = 15 \<longrightarrow>
        dev h' = snd (recv (dev h)) \<and> drop_bit 16 (reg h' (SPI_W0 1)) = ucast (fst (recv (dev h))))"

definition hspi_laws ::
    "'h bus \<Rightarrow> ('h \<Rightarrow> bool) \<Rightarrow> ('h \<Rightarrow> u32 \<Rightarrow> u32) \<Rightarrow> ('h \<Rightarrow> 'c) \<Rightarrow> (u8 \<Rightarrow> 'c \<Rightarrow> u8 \<times> 'c) \<Rightarrow> ('c \<Rightarrow> u16 \<times> 'c) \<Rightarrow> bool" where
  "hspi_laws B idle reg dev exch recv \<longleftrightarrow> (\<forall>h. idle h \<longrightarrow>
     (\<forall>a \<in> hspi_regs. rd B h a = (reg h a, h)) \<and>
     (\<forall>a \<in> hspi_regs. \<forall>v. idle (wr B h a v) \<and> reg (wr B h a v) = (reg h)(a := v) \<and> dev (wr B h a v) = dev h) \<and>
     rd B h (SPI_CMD 1) = (0, h) \<and>
     (\<exists>n h'. settles B (SPI_CMD 1) (\<lambda>v. v AND SPI_USR = 0) n (wr B h (SPI_CMD 1) SPI_USR) h' \<and> idle h' \<and>
        transferred reg dev exch recv h h'))"

text \<open>
  When the controller fetches the data of a transfer: a write to \<open>W0\<close> that follows the start at once
  still counts, or comes too late. The code of \<open>spi_read\<close> writes \<open>W0\<close> after the start.
\<close>

definition fetches_late :: "'h bus \<Rightarrow> ('h \<Rightarrow> bool) \<Rightarrow> bool" where
  "fetches_late B idle \<longleftrightarrow> (\<forall>h x. idle h \<longrightarrow>
     wr B (wr B h (SPI_CMD 1) SPI_USR) (SPI_W0 1) x = wr B (wr B h (SPI_W0 1) x) (SPI_CMD 1) SPI_USR)"

definition fetches_at_start :: "'h bus \<Rightarrow> ('h \<Rightarrow> bool) \<Rightarrow> bool" where
  "fetches_at_start B idle \<longleftrightarrow> (\<forall>h x. idle h \<longrightarrow>
     wr B (wr B h (SPI_CMD 1) SPI_USR) (SPI_W0 1) x = wr B h (SPI_CMD 1) SPI_USR)"

section \<open>Lemmas\<close>

definition ready :: "('h \<Rightarrow> bool) \<Rightarrow> ('h \<Rightarrow> u32 \<Rightarrow> u32) \<Rightarrow> 'h \<Rightarrow> bool" where
  "ready idle reg h \<longleftrightarrow> idle h \<and> hspi_configured (reg h (SPI_USER 1))"

lemma hspi_addresses:
  "SPI_CMD 1 = 0x60000100" "SPI_ADDR 1 = 0x60000104" "SPI_CTRL 1 = 0x60000108" "SPI_CLOCK 1 = 0x60000118"
  "SPI_USER 1 = 0x6000011C" "SPI_USER1 1 = 0x60000120" "SPI_USER2 1 = 0x60000124" "SPI_W0 1 = 0x60000140"
  by (simp_all add: spi_address_defs)

lemma hspi_regs_mem [simp]:
  "SPI_USER 1 \<in> hspi_regs" "SPI_USER1 1 \<in> hspi_regs" "SPI_USER2 1 \<in> hspi_regs" "SPI_ADDR 1 \<in> hspi_regs"
  "SPI_W0 1 \<in> hspi_regs"
  by (simp_all add: hspi_regs_def)

lemma hspi_distinct [simp]:
  "SPI_USER 1 \<noteq> SPI_USER1 1" "SPI_USER1 1 \<noteq> SPI_USER 1" "SPI_USER 1 \<noteq> SPI_W0 1" "SPI_W0 1 \<noteq> SPI_USER 1"
  "SPI_USER1 1 \<noteq> SPI_W0 1" "SPI_W0 1 \<noteq> SPI_USER1 1"
  by (simp_all add: hspi_addresses)

text \<open>Accesses to the registers while no transfer is running.\<close>

lemma idle_read:
  "hspi_laws B idle reg dev exch recv \<Longrightarrow> idle h \<Longrightarrow> a \<in> hspi_regs \<Longrightarrow> READ_PERI_REG B a h = (reg h a, h)"
  by (simp add: hspi_laws_def READ_PERI_REG_def)

lemma idle_write:
  assumes "hspi_laws B idle reg dev exch recv" and "idle h" and "a \<in> hspi_regs"
  shows "idle (WRITE_PERI_REG B a v h)" "reg (WRITE_PERI_REG B a v h) = (reg h)(a := v)"
    "dev (WRITE_PERI_REG B a v h) = dev h"
  using assms by (auto simp: hspi_laws_def WRITE_PERI_REG_def)

lemma idle_set:
  assumes "hspi_laws B idle reg dev exch recv" and "idle h" and "a \<in> hspi_regs"
  shows "idle (SET_PERI_REG_MASK B a m h)" "reg (SET_PERI_REG_MASK B a m h) = (reg h)(a := reg h a OR m)"
    "dev (SET_PERI_REG_MASK B a m h) = dev h"
  using idle_read [OF assms] idle_write [OF assms] by (auto simp: SET_PERI_REG_MASK_def)

lemma idle_clear:
  assumes "hspi_laws B idle reg dev exch recv" and "idle h" and "a \<in> hspi_regs"
  shows "idle (CLEAR_PERI_REG_MASK B a m h)" "reg (CLEAR_PERI_REG_MASK B a m h) = (reg h)(a := reg h a AND NOT m)"
    "dev (CLEAR_PERI_REG_MASK B a m h) = dev h"
  using idle_read [OF assms] idle_write [OF assms] by (auto simp: CLEAR_PERI_REG_MASK_def)

lemma idle_wait:
  assumes "hspi_laws B idle reg dev exch recv" and "idle h"
  shows "spi_wait B 1 h = Some h"
proof -
  have "settles B (SPI_CMD 1) (\<lambda>v. v AND SPI_USR = 0) 0 h h" using assms by (simp add: hspi_laws_def)
  from settles_poll [OF this] show ?thesis by (simp add: spi_wait_def)
qed

text \<open>Starting a transfer and waiting for its end.\<close>

lemma start_write:
  "hspi_laws B idle reg dev exch recv \<Longrightarrow> idle h \<Longrightarrow> SET_PERI_REG_MASK B (SPI_CMD 1) SPI_USR h = wr B h (SPI_CMD 1) SPI_USR"
  by (simp add: SET_PERI_REG_MASK_def READ_PERI_REG_def WRITE_PERI_REG_def hspi_laws_def)

lemma start_wait:
  assumes "hspi_laws B idle reg dev exch recv" and "idle h"
  shows "\<exists>h'. spi_wait B 1 (wr B h (SPI_CMD 1) SPI_USR) = Some h' \<and> idle h' \<and> transferred reg dev exch recv h h'"
proof -
  from assms obtain n h' where "settles B (SPI_CMD 1) (\<lambda>v. v AND SPI_USR = 0) n (wr B h (SPI_CMD 1) SPI_USR) h'"
    "idle h'" "transferred reg dev exch recv h h'"
    unfolding hspi_laws_def by blast
  then show ?thesis by (metis spi_wait_def settles_poll)
qed

lemma order_bits:
  "v AND SPI_WR_BYTE_ORDER \<noteq> 0 \<longleftrightarrow> bit v 11" "v AND SPI_RD_BYTE_ORDER \<noteq> 0 \<longleftrightarrow> bit v 10"
proof -
  have "SPI_WR_BYTE_ORDER = push_bit 11 1" "SPI_RD_BYTE_ORDER = push_bit 10 1"
    by (simp_all add: spi_bit_defs)
  then show "v AND SPI_WR_BYTE_ORDER \<noteq> 0 \<longleftrightarrow> bit v 11" "v AND SPI_RD_BYTE_ORDER \<noteq> 0 \<longleftrightarrow> bit v 10"
    by (simp_all only: bit_iff_and_push_bit_not_eq_0)
qed

lemma configured_bits: "hspi_configured v \<longleftrightarrow> bit v 11 \<and> bit v 10"
  by (simp add: hspi_configured_def order_bits)

lemma phases_value: "SPI_PHASES = 0xF8000000"
  by (simp add: SPI_PHASES_def spi_bit_defs)

lemma phases_cleared:
  "hspi_configured u \<Longrightarrow> hspi_configured (u AND NOT SPI_PHASES OR m)"
  "(u AND NOT SPI_PHASES OR SPI_USR_MOSI) AND SPI_PHASES = SPI_USR_MOSI"
  "(u AND NOT SPI_PHASES OR SPI_USR_MISO) AND SPI_PHASES = SPI_USR_MISO"
  "(u AND NOT SPI_PHASES OR (SPI_USR_MOSI OR SPI_DOUTDIN)) AND SPI_PHASES = SPI_USR_MOSI"
proof -
  have "bit (NOT SPI_PHASES) 11" "bit (NOT SPI_PHASES) 10" by (simp_all add: phases_value)
  then show "hspi_configured u \<Longrightarrow> hspi_configured (u AND NOT SPI_PHASES OR m)"
    by (simp add: configured_bits bit_or_iff bit_and_iff)
qed (simp_all add: phases_value SPI_USR_MOSI_def SPI_USR_MISO_def SPI_DOUTDIN_def word_ao_dist and.assoc)

lemma doutdin_set: "(u AND m OR (SPI_USR_MOSI OR SPI_DOUTDIN)) AND SPI_DOUTDIN \<noteq> 0"
proof -
  have "SPI_DOUTDIN = push_bit 0 1" by (simp add: SPI_DOUTDIN_def)
  moreover have "bit (u AND m OR (SPI_USR_MOSI OR SPI_DOUTDIN)) 0" by (simp add: SPI_DOUTDIN_def bit_or_iff)
  ultimately show ?thesis by (metis bit_iff_and_push_bit_not_eq_0)
qed

lemma byte_top: "ucast (drop_bit 24 (push_bit 24 (ucast (d :: u8)) :: u32)) = d"
  by (rule bit_word_eqI) (auto simp: bit_simps)

text \<open>The registers as \<open>spi_read\<close> sets them before it starts a transfer.\<close>

definition read_setup :: "'h bus \<Rightarrow> 'h \<Rightarrow> 'h" where
  "read_setup B h = WRITE_PERI_REG B (SPI_USER1 1) (push_bit 17 ((8 - 1) AND 0x1FF))
     (SET_PERI_REG_MASK B (SPI_USER 1) (SPI_USR_MOSI OR SPI_DOUTDIN) (CLEAR_PERI_REG_MASK B (SPI_USER 1) SPI_PHASES h))"

lemma read_setup_idle:
  assumes "hspi_laws B idle reg dev exch recv" and "idle h"
  shows "idle (read_setup B h)" "dev (read_setup B h) = dev h"
    "reg (read_setup B h) = (reg h)(SPI_USER 1 := reg h (SPI_USER 1) AND NOT SPI_PHASES OR (SPI_USR_MOSI OR SPI_DOUTDIN),
       SPI_USER1 1 := push_bit 17 7)"
  using assms(2)
  by (simp_all add: read_setup_def idle_write [OF assms(1)] idle_set [OF assms(1)] idle_clear [OF assms(1)])

lemma spi_read_byte_eq:
  assumes "hspi_laws B idle reg dev exch recv" and "idle h"
  shows "spi_read_byte B d h = do {
    h \<leftarrow> spi_wait B 1 (wr B (wr B (read_setup B h) (SPI_CMD 1) SPI_USR) (SPI_W0 1) (push_bit 24 (ucast d)));
    let (w, h) = READ_PERI_REG B (SPI_W0 1) h;
    Some (ucast (drop_bit 24 w), h)
  }"
  using assms start_write [OF assms(1) read_setup_idle(1) [OF assms]]
  by (simp add: spi_read_byte_def idle_wait [OF assms] read_setup_def WRITE_PERI_REG_def)

text \<open>A transfer that full duplex of one byte was set up for.\<close>

lemma transferred_byte:
  assumes t: "transferred reg dev exch recv h h'" and "hspi_configured u"
    and "reg h (SPI_USER 1) = u AND NOT SPI_PHASES OR (SPI_USR_MOSI OR SPI_DOUTDIN)"
    and "reg h (SPI_USER1 1) = push_bit 17 7"
  shows "dev h' = snd (exch (ucast (drop_bit 24 (reg h (SPI_W0 1)))) (dev h))"
    and "ucast (drop_bit 24 (reg h' (SPI_W0 1))) = fst (exch (ucast (drop_bit 24 (reg h (SPI_W0 1)))) (dev h))"
    and "hspi_configured (reg h' (SPI_USER 1))"
proof -
  have u: "hspi_configured (reg h (SPI_USER 1))" "reg h (SPI_USER 1) AND SPI_PHASES = SPI_USR_MOSI"
    "reg h (SPI_USER 1) AND SPI_DOUTDIN \<noteq> 0"
    unfolding assms(3) by (rule phases_cleared(1) [OF assms(2)], rule phases_cleared(4), rule doutdin_set)
  have l: "drop_bit 17 (reg h (SPI_USER1 1)) AND 0x1FF = 7" by (simp add: assms(4))
  from t u l show "dev h' = snd (exch (ucast (drop_bit 24 (reg h (SPI_W0 1)))) (dev h))"
    "ucast (drop_bit 24 (reg h' (SPI_W0 1))) = fst (exch (ucast (drop_bit 24 (reg h (SPI_W0 1)))) (dev h))"
    unfolding transferred_def by blast+
  have "reg h' (SPI_USER 1) = reg h (SPI_USER 1)"
    using t unfolding transferred_def by (simp add: hspi_regs_def hspi_addresses)
  with u show "hspi_configured (reg h' (SPI_USER 1))" by simp
qed

lemma spi_read_byte_exchanges:
  assumes laws: "hspi_laws B idle reg dev exch recv" and late: "fetches_late B idle" and r: "ready idle reg h"
  shows "\<exists>h'. spi_read_byte B d h = Some (fst (exch d (dev h)), h') \<and> ready idle reg h' \<and>
    dev h' = snd (exch d (dev h))"
proof -
  have idle: "idle h" and conf: "hspi_configured (reg h (SPI_USER 1))" using r by (auto simp: ready_def)
  note h1 = read_setup_idle [OF laws idle]
  define h2 where "h2 = wr B (read_setup B h) (SPI_W0 1) (push_bit 24 (ucast d))"
  have h2: "idle h2" "dev h2 = dev h" "reg h2 = (reg (read_setup B h))(SPI_W0 1 := push_bit 24 (ucast d))"
    using idle_write [OF laws h1(1), of "SPI_W0 1"] h1(2) by (auto simp: h2_def WRITE_PERI_REG_def)
  from start_wait [OF laws h2(1)] obtain h3 where
    h3: "spi_wait B 1 (wr B h2 (SPI_CMD 1) SPI_USR) = Some h3" "idle h3" "transferred reg dev exch recv h2 h3" by blast
  have "reg h2 (SPI_USER 1) = reg h (SPI_USER 1) AND NOT SPI_PHASES OR (SPI_USR_MOSI OR SPI_DOUTDIN)"
    "reg h2 (SPI_USER1 1) = push_bit 17 7" "ucast (drop_bit 24 (reg h2 (SPI_W0 1))) = d"
    using byte_top [of d] by (simp_all add: h2(3) h1(3) hspi_addresses)
  from transferred_byte [OF h3(3) conf this(1,2)] this(3) h2(2) have
    t: "dev h3 = snd (exch d (dev h))" "ucast (drop_bit 24 (reg h3 (SPI_W0 1))) = fst (exch d (dev h))"
      "hspi_configured (reg h3 (SPI_USER 1))" by simp_all
  have "wr B (wr B (read_setup B h) (SPI_CMD 1) SPI_USR) (SPI_W0 1) (push_bit 24 (ucast d)) = wr B h2 (SPI_CMD 1) SPI_USR"
    using late h1(1) by (simp add: fetches_late_def h2_def)
  with h3 t show ?thesis
    by (simp add: spi_read_byte_eq [OF laws idle] idle_read [OF laws h3(2)] ready_def)
qed

text \<open>When it fetches at the start, what is sent is what \<open>W0\<close> held before.\<close>

lemma spi_read_byte_stale:
  assumes laws: "hspi_laws B idle reg dev exch recv" and early: "fetches_at_start B idle" and r: "ready idle reg h"
    and old: "old = ucast (drop_bit 24 (reg h (SPI_W0 1)))"
  shows "\<exists>h'. spi_read_byte B d h = Some (fst (exch old (dev h)), h') \<and> ready idle reg h' \<and>
    dev h' = snd (exch old (dev h)) \<and> ucast (drop_bit 24 (reg h' (SPI_W0 1))) = fst (exch old (dev h))"
proof -
  have idle: "idle h" and conf: "hspi_configured (reg h (SPI_USER 1))" using r by (auto simp: ready_def)
  note h1 = read_setup_idle [OF laws idle]
  from start_wait [OF laws h1(1)] obtain h3 where
    h3: "spi_wait B 1 (wr B (read_setup B h) (SPI_CMD 1) SPI_USR) = Some h3" "idle h3"
      "transferred reg dev exch recv (read_setup B h) h3" by blast
  have "reg (read_setup B h) (SPI_USER 1) = reg h (SPI_USER 1) AND NOT SPI_PHASES OR (SPI_USR_MOSI OR SPI_DOUTDIN)"
    "reg (read_setup B h) (SPI_USER1 1) = push_bit 17 7"
    "reg (read_setup B h) (SPI_W0 1) = reg h (SPI_W0 1)"
    by (simp_all add: h1(3) hspi_addresses)
  from transferred_byte [OF h3(3) conf this(1,2)] this(3) h1(2) old have
    t: "dev h3 = snd (exch old (dev h))" "ucast (drop_bit 24 (reg h3 (SPI_W0 1))) = fst (exch old (dev h))"
      "hspi_configured (reg h3 (SPI_USER 1))" by simp_all
  have "wr B (wr B (read_setup B h) (SPI_CMD 1) SPI_USR) (SPI_W0 1) (push_bit 24 (ucast d)) =
      wr B (read_setup B h) (SPI_CMD 1) SPI_USR"
    using early h1(1) by (simp add: fetches_at_start_def)
  with h3 t show ?thesis
    by (simp add: spi_read_byte_eq [OF laws idle] idle_read [OF laws h3(2)] ready_def)
qed

text \<open>A transaction that sends a byte, and one that receives 16 bits.\<close>

lemma transaction_sends:
  assumes laws: "hspi_laws B idle reg dev exch recv" and r: "ready idle reg h"
  shows "\<exists>h'. spi_transaction B 1 0 0 0 0 8 (ucast d) 0 0 h = Some (1, h') \<and> ready idle reg h' \<and>
    dev h' = snd (exch d (dev h))"
proof -
  have idle: "idle h" and conf: "hspi_configured (reg h (SPI_USER 1))" using r by (auto simp: ready_def)
  define h1 where "h1 = SET_PERI_REG_MASK B (SPI_USER 1) SPI_USR_MOSI
    (WRITE_PERI_REG B (SPI_USER1 1) (spi_lengths 0 8 0 0) (CLEAR_PERI_REG_MASK B (SPI_USER 1) SPI_PHASES h))"
  have h1: "idle h1" "dev h1 = dev h" "reg h1 (SPI_USER1 1) = spi_lengths 0 8 0 0"
    and user: "reg h1 (SPI_USER 1) = reg h (SPI_USER 1) AND NOT SPI_PHASES OR SPI_USR_MOSI"
    using idle by (simp_all add: h1_def idle_write [OF laws] idle_set [OF laws] idle_clear [OF laws])
  have order: "reg h1 (SPI_USER 1) AND SPI_WR_BYTE_ORDER \<noteq> 0"
    using phases_cleared(1) [OF conf, of SPI_USR_MOSI] by (simp add: user hspi_configured_def)
  define h2 where "h2 = WRITE_PERI_REG B (SPI_W0 1) (push_bit 24 (ucast d)) h1"
  have h2: "idle h2" "dev h2 = dev h" "reg h2 = (reg h1)(SPI_W0 1 := push_bit 24 (ucast d))"
    using h1 by (simp_all add: h2_def idle_write [OF laws])
  from start_wait [OF laws h2(1)] obtain h3 where
    h3: "spi_wait B 1 (wr B h2 (SPI_CMD 1) SPI_USR) = Some h3" "idle h3" "transferred reg dev exch recv h2 h3" by blast
  have run: "spi_transaction B 1 0 0 0 0 8 (ucast d) 0 0 h = Some (1, h3)"
    using order h3(1)
    by (simp add: spi_transaction_def idle_wait [OF laws idle] spi_command_def spi_address_def spi_dout_def spi_din_def
        h1_def [symmetric] h2_def [symmetric] idle_read [OF laws h1(1)] start_write [OF laws h2(1)])
  have u2: "reg h2 (SPI_USER 1) = reg h (SPI_USER 1) AND NOT SPI_PHASES OR SPI_USR_MOSI"
    "reg h2 (SPI_USER1 1) = spi_lengths 0 8 0 0" "reg h2 (SPI_W0 1) = push_bit 24 (ucast d)"
    by (simp_all add: h2(3) h1(3) user)
  have len: "drop_bit 17 (spi_lengths 0 8 0 0) AND 0x1FF = 7" by (simp add: spi_lengths_def)
  have c2: "hspi_configured (reg h2 (SPI_USER 1))" "reg h2 (SPI_USER 1) AND SPI_PHASES = SPI_USR_MOSI"
    unfolding u2(1) by (rule phases_cleared(1) [OF conf], rule phases_cleared(2))
  from h3(3) c2 len u2 byte_top [of d] h2(2) have "dev h3 = snd (exch d (dev h))"
    unfolding transferred_def by metis
  moreover have "reg h3 (SPI_USER 1) = reg h2 (SPI_USER 1)"
    using h3(3) unfolding transferred_def by (simp add: hspi_regs_def hspi_addresses)
  ultimately show ?thesis using run h3(2) c2(1) by (simp add: ready_def)
qed

lemma transaction_receives:
  assumes laws: "hspi_laws B idle reg dev exch recv" and r: "ready idle reg h"
    and half: "reg h (SPI_USER 1) AND SPI_DOUTDIN = 0"
  shows "\<exists>h'. spi_transaction B 1 0 0 0 0 0 0 16 0 h = Some (ucast (fst (recv (dev h))), h') \<and>
    ready idle reg h' \<and> dev h' = snd (recv (dev h))"
proof -
  have idle: "idle h" and conf: "hspi_configured (reg h (SPI_USER 1))" using r by (auto simp: ready_def)
  define h1 where "h1 = WRITE_PERI_REG B (SPI_USER1 1) (spi_lengths 0 0 16 0)
    (SET_PERI_REG_MASK B (SPI_USER 1) SPI_USR_MISO (CLEAR_PERI_REG_MASK B (SPI_USER 1) SPI_PHASES h))"
  have h1: "idle h1" "dev h1 = dev h"
    and u1: "reg h1 (SPI_USER 1) = reg h (SPI_USER 1) AND NOT SPI_PHASES OR SPI_USR_MISO"
      "reg h1 (SPI_USER1 1) = spi_lengths 0 0 16 0"
    using idle by (simp_all add: h1_def idle_write [OF laws] idle_set [OF laws] idle_clear [OF laws])
  from start_wait [OF laws h1(1)] obtain h3 where
    h3: "spi_wait B 1 (wr B h1 (SPI_CMD 1) SPI_USR) = Some h3" "idle h3" "transferred reg dev exch recv h1 h3" by blast
  have c1: "hspi_configured (reg h1 (SPI_USER 1))" "reg h1 (SPI_USER 1) AND SPI_PHASES = SPI_USR_MISO"
    unfolding u1(1) by (rule phases_cleared(1) [OF conf], rule phases_cleared(3))
  have half1: "reg h1 (SPI_USER 1) AND SPI_DOUTDIN = 0"
  proof -
    have "(u AND NOT p OR m) AND e = ((u AND e) AND NOT p) OR (m AND e)" for u p m e :: u32
      by (rule bit_word_eqI) (auto simp: bit_simps)
    moreover have "SPI_USR_MISO AND SPI_DOUTDIN = 0" by (simp add: SPI_USR_MISO_def SPI_DOUTDIN_def)
    ultimately show ?thesis using half by (simp add: u1(1))
  qed
  have len: "drop_bit 8 (spi_lengths 0 0 16 0) AND 0x1FF = 15" by (simp add: spi_lengths_def)
  from h3(3) c1 half1 len u1(2) h1(2) have t: "dev h3 = snd (recv (dev h))"
    "drop_bit 16 (reg h3 (SPI_W0 1)) = ucast (fst (recv (dev h)))"
    unfolding transferred_def by metis+
  have same: "reg h3 (SPI_USER 1) = reg h1 (SPI_USER 1)"
    using h3(3) unfolding transferred_def by (simp add: hspi_regs_def hspi_addresses)
  with c1(1) have order: "reg h3 (SPI_USER 1) AND SPI_RD_BYTE_ORDER \<noteq> 0" by (simp add: hspi_configured_def)
  have "spi_transaction B 1 0 0 0 0 0 0 16 0 h = Some (ucast (fst (recv (dev h))), h3)"
    using order h3(1) t(2)
    by (simp add: spi_transaction_def idle_wait [OF laws idle] spi_command_def spi_address_def spi_dout_def spi_din_def
        h1_def [symmetric] idle_read [OF laws h3(2)] start_write [OF laws h1(1)])
  with h3(2) c1(1) same t(1) show ?thesis by (simp add: ready_def)
qed

text \<open>Bytes exchanged one after the other.\<close>

fun exchange :: "(u8 \<Rightarrow> 'c \<Rightarrow> u8 \<times> 'c) \<Rightarrow> 'c spi" where
  "exchange exch [] c = ([], c)"
| "exchange exch (d # ds) c =
     (let (x, c) = exch d c; (xs, c) = exchange exch ds c in (x # xs, c))"

lemma exchange_length [simp]: "length (fst (exchange exch ds c)) = length ds"
  by (induction ds arbitrary: c) (simp_all add: case_prod_beta Let_def)

lemma spi_write_loop_sends:
  assumes laws: "hspi_laws B idle reg dev exch recv"
  shows "ready idle reg h \<Longrightarrow> l + n \<le> length data \<Longrightarrow>
    \<exists>h'. spi_write_loop B data l n h = Some h' \<and> ready idle reg h' \<and>
      dev h' = snd (exchange exch (take n (drop l data)) (dev h))"
proof (induction n arbitrary: l h)
  case 0
  then show ?case by simp
next
  case (Suc n)
  from transaction_sends [OF laws Suc.prems(1), of "data ! l"] obtain h1 where
    h1: "spi_transaction B 1 0 0 0 0 8 (ucast (data ! l)) 0 0 h = Some (1, h1)" "ready idle reg h1"
      "dev h1 = snd (exch (data ! l) (dev h))" by blast
  from Suc.IH [OF h1(2), of "l + 1"] Suc.prems(2) obtain h2 where
    "spi_write_loop B data (Suc l) n h1 = Some h2" "ready idle reg h2"
      "dev h2 = snd (exchange exch (take n (drop (Suc l) data)) (dev h1))" by auto
  with h1 Suc.prems(2) show ?case
    by (simp add: mem_simps take_drop_Suc case_prod_beta Let_def)
qed

lemma spi_read_loop_exchanges:
  assumes laws: "hspi_laws B idle reg dev exch recv" and late: "fetches_late B idle"
  shows "ready idle reg h \<Longrightarrow> l + n \<le> length data \<Longrightarrow>
    \<exists>h'. spi_read_loop B data l n h =
        Some (take l data @ fst (exchange exch (take n (drop l data)) (dev h)) @ drop (l + n) data, h') \<and>
      ready idle reg h' \<and> dev h' = snd (exchange exch (take n (drop l data)) (dev h))"
proof (induction n arbitrary: l h data)
  case 0
  then show ?case by simp
next
  case (Suc n)
  let ?x = "fst (exch (data ! l) (dev h))"
  from spi_read_byte_exchanges [OF laws late Suc.prems(1), of "data ! l"] obtain h1 where
    h1: "spi_read_byte B (data ! l) h = Some (?x, h1)" "ready idle reg h1" "dev h1 = snd (exch (data ! l) (dev h))"
    by blast
  from Suc.IH [OF h1(2), of "l + 1" "data[l := ?x]"] Suc.prems(2) obtain h2 where
    h2: "spi_read_loop B (data[l := ?x]) (Suc l) n h1 =
        Some (take (Suc l) (data[l := ?x]) @ fst (exchange exch (take n (drop (Suc l) data)) (dev h1)) @
          drop (Suc l + n) data, h2)" "ready idle reg h2"
      "dev h2 = snd (exchange exch (take n (drop (Suc l) data)) (dev h1))" by auto
  have "take (Suc l) (data[l := ?x]) = take l data @ [?x]"
    using Suc.prems(2) by (simp add: take_Suc_conv_app_nth)
  with h1 h2 Suc.prems(2) show ?case
    by (simp add: mem_simps take_drop_Suc case_prod_beta Let_def)
qed

lemma spi_read_stale_first:
  assumes laws: "hspi_laws B idle reg dev exch recv" and early: "fetches_at_start B idle"
  shows "ready idle reg h \<Longrightarrow> l + n \<le> length data \<Longrightarrow>
    \<exists>data' h'. spi_read_loop B data l n h = Some (data', h') \<and> ready idle reg h' \<and>
      (\<exists>sent. length sent = n \<and> dev h' = snd (exchange exch sent (dev h)) \<and>
        take n (drop l data') = fst (exchange exch sent (dev h)) \<and> take l data' = take l data \<and>
        length data' = length data \<and>
        (n > 0 \<longrightarrow> hd sent = ucast (drop_bit 24 (reg h (SPI_W0 1)))) \<and>
        (\<forall>k. Suc k < n \<longrightarrow> sent ! Suc k = fst (exchange exch sent (dev h)) ! k))"
proof (induction n arbitrary: l h data)
  case 0
  then show ?case by (auto intro!: exI [of _ "[]"])
next
  case (Suc n)
  let ?old = "ucast (drop_bit 24 (reg h (SPI_W0 1))) :: u8"
  let ?x = "fst (exch ?old (dev h))"
  from spi_read_byte_stale [OF laws early Suc.prems(1) refl, of "data ! l"] obtain h1 where
    h1: "spi_read_byte B (data ! l) h = Some (?x, h1)" "ready idle reg h1" "dev h1 = snd (exch ?old (dev h))"
      "ucast (drop_bit 24 (reg h1 (SPI_W0 1))) = ?x"
    by blast
  from Suc.IH [OF h1(2), of "l + 1" "data[l := ?x]"] Suc.prems(2) obtain data' h2 sent where
    h2: "spi_read_loop B (data[l := ?x]) (Suc l) n h1 = Some (data', h2)" "ready idle reg h2" "length sent = n"
      "dev h2 = snd (exchange exch sent (dev h1))" "take n (drop (Suc l) data') = fst (exchange exch sent (dev h1))"
      "take (Suc l) data' = take (Suc l) (data[l := ?x])" "length data' = length data"
      "n > 0 \<longrightarrow> hd sent = ucast (drop_bit 24 (reg h1 (SPI_W0 1)))"
      "\<forall>k. Suc k < n \<longrightarrow> sent ! Suc k = fst (exchange exch sent (dev h1)) ! k" by auto
  have l: "l < length data" using Suc.prems(2) by simp
  have t: "take (Suc l) data' = take l data @ [?x]" using h2(6) l by (simp add: take_Suc_conv_app_nth)
  have x: "data' ! l = ?x" "take l data' = take l data"
    using t l h2(7) by (auto simp: take_Suc_conv_app_nth)
  have seg: "take (Suc n) (drop l data') = ?x # fst (exchange exch sent (dev h1))"
    using h2(5,7) x(1) Suc.prems(2) by (simp add: take_drop_Suc)
  have chain: "(?old # sent) ! Suc k = (?x # fst (exchange exch sent (dev h1))) ! k" if "Suc k < Suc n" for k
    using that h2(3,8,9) h1(4) by (cases k) (auto simp: hd_conv_nth)
  show ?case
    by (rule exI [of _ data'], rule exI [of _ h2], intro conjI exI [of _ "?old # sent"])
      (use h1 h2 l x seg chain in \<open>simp_all add: mem_simps case_prod_beta Let_def\<close>)
qed

text \<open>
  Chip select: the two SDK calls select and deselect the device, and touch nothing else. A framed
  transfer is what the sensor driver takes as its bus.
\<close>

definition cs_laws ::
    "'h bus \<Rightarrow> ('h \<Rightarrow> bool) \<Rightarrow> ('h \<Rightarrow> u32 \<Rightarrow> u32) \<Rightarrow> ('h \<Rightarrow> 'c) \<Rightarrow> sdk_call \<Rightarrow> sdk_call \<Rightarrow> ('c \<Rightarrow> 'c) \<Rightarrow> ('c \<Rightarrow> 'c) \<Rightarrow> bool" where
  "cs_laws B idle reg dev on off sel desel \<longleftrightarrow> (\<forall>h. idle h \<longrightarrow>
     idle (sdk B on h) \<and> reg (sdk B on h) = reg h \<and> dev (sdk B on h) = sel (dev h) \<and>
     idle (sdk B off h) \<and> reg (sdk B off h) = reg h \<and> dev (sdk B off h) = desel (dev h))"

definition bme_on :: sdk_call where "bme_on = Gpio_output_set 0 0x10 0x10 0"
definition bme_off :: sdk_call where "bme_off = Gpio_output_set 0x10 0 0x10 0"

definition framed_spi :: "(u8 \<Rightarrow> 'c \<Rightarrow> u8 \<times> 'c) \<Rightarrow> ('c \<Rightarrow> 'c) \<Rightarrow> ('c \<Rightarrow> 'c) \<Rightarrow> 'c spi" where
  "framed_spi exch sel desel ds c = (let (xs, c) = exchange exch ds (sel c) in (xs, desel c))"

lemma cs_pins: "GPIO_OUTPUT_SET B 4 False h = sdk B bme_on h" "GPIO_OUTPUT_SET B 4 True h = sdk B bme_off h"
  by (simp_all add: GPIO_OUTPUT_SET_def bme_on_def bme_off_def)

lemma cs_ready:
  assumes "cs_laws B idle reg dev on off sel desel" and "ready idle reg h"
  shows "ready idle reg (sdk B on h)" "dev (sdk B on h) = sel (dev h)"
    "ready idle reg (sdk B off h)" "dev (sdk B off h) = desel (dev h)"
  using assms by (auto simp: cs_laws_def ready_def)

lemma write_pairs_length [simp]: "length (write_pairs r xs) = 2 * length xs"
  by (induction xs arbitrary: r) simp_all

lemma bus_read_refines:
  assumes laws: "hspi_laws B idle reg dev exch recv" and late: "fetches_late B idle"
    and cs: "cs_laws B idle reg dev bme_on bme_off sel desel" and r: "ready idle reg h" and n: "n < 64"
  shows "\<exists>xs h'. bus_read_regs B a n h = Some (xs, h') \<and> ready idle reg h' \<and>
    BME280_SPI_bus_read (framed_spi exch sel desel) a n (dev h) = Some (xs, dev h')"
proof -
  let ?arr = "(a OR 0x80) # replicate 63 0" and ?out = "(a OR 0x80) # replicate n 0"
  let ?x = "exchange exch ?out (sel (dev h))"
  have out: "take (n + 1) (drop 0 ?arr) = ?out" using n by (simp add: take_Cons' min_def)
  have "0 + (n + 1) \<le> length ?arr" using n by simp
  from spi_read_loop_exchanges [OF laws late cs_ready(1) [OF cs r] this]
  obtain h2 where h2: "spi_read B ?arr (n + 1) (sdk B bme_on h) = Some (fst ?x @ drop (n + 1) ?arr, h2)"
    "ready idle reg h2" "dev h2 = snd ?x"
    unfolding out cs_ready(2) [OF cs r] by (auto simp: spi_read_def)
  have "take n (drop 1 (fst ?x @ drop (n + 1) ?arr)) = take n (drop 1 (fst ?x))"
    by (simp add: case_prod_beta Let_def)
  with h2 cs_ready(3,4) [OF cs h2(2)] n show ?thesis
    by (simp add: bus_read_regs_def cs_pins BME280_SPI_bus_read_def framed_spi_def case_prod_beta Let_def)
qed

lemma bus_write_refines:
  assumes laws: "hspi_laws B idle reg dev exch recv" and cs: "cs_laws B idle reg dev bme_on bme_off sel desel"
    and r: "ready idle reg h" and n: "length xs \<le> 64"
  shows "\<exists>h'. bus_write_regs B a xs h = Some h' \<and> ready idle reg h' \<and>
    BME280_SPI_bus_write (framed_spi exch sel desel) a xs (dev h) = Some (dev h')"
proof -
  have "0 + 2 * length xs \<le> length (write_pairs a xs)" by simp
  from spi_write_loop_sends [OF laws cs_ready(1) [OF cs r] this] obtain h2 where
    h2: "spi_write B (write_pairs a xs) (2 * length xs) (sdk B bme_on h) = Some h2" "ready idle reg h2"
      "dev h2 = snd (exchange exch (write_pairs a xs) (sel (dev h)))"
    by (auto simp: spi_write_def cs_ready(2) [OF cs r])
  with cs_ready(3,4) [OF cs h2(2)] n show ?thesis
    by (simp add: bus_write_regs_def cs_pins BME280_SPI_bus_write_def framed_spi_def case_prod_beta Let_def)
qed

text \<open>
  \<open>spi_init\<close>: both byte orders are from high to low, the flash modes are off, and the clock is the system
  clock divided by twice \<open>clk_div - 1\<close>, unless that is 1 (\<open>clk_div\<close> 1 or 0).
\<close>

lemma clk_div_zero: "(ucast (d :: u8) :: u16) - 1 = 0 \<longleftrightarrow> d = 1"
proof -
  have "unat d < 2 ^ 8" using unsigned_less [of d, where 'a = nat] by simp
  then have "unat d < 2 ^ 16" by (rule order.strict_trans2) simp
  then have "(ucast d :: u16) = 1 \<longleftrightarrow> d = 1"
    by (simp add: word_unat_eq_iff unsigned_ucast_eq take_bit_nat_eq_self)
  then show ?thesis by simp
qed

lemma spi_init_regs:
  assumes "\<forall>a. plain_reg B reg a"
  shows "hspi_configured (reg (spi_init B 1 d h) (SPI_USER 1))"
    and "reg (spi_init B 1 d h) (SPI_USER 1) AND SPI_FLASH_MODE = 0"
    and "reg (spi_init B 1 d h) (SPI_CTRL 1) AND (SPI_QIO_MODE OR SPI_QOUT_MODE) = 0"
    and "reg (spi_init B 1 d h) (SPI_CLOCK 1) =
      (if d = 1 then SPI_CLK_EQU_SYSCLK else spi_clock_value (ucast d - 1) 2)"
proof -
  let ?user = "(((reg h (SPI_USER 1) OR SPI_WR_BYTE_ORDER) OR SPI_RD_BYTE_ORDER) OR (SPI_CS_SETUP OR SPI_CS_HOLD)) AND NOT SPI_FLASH_MODE"
  have zero: "(ucast d :: u16) = 1 \<longleftrightarrow> d = 1" using clk_div_zero [of d] by simp
  have u: "reg (spi_init B 1 d h) (SPI_USER 1) = ?user" 
    "reg (spi_init B 1 d h) (SPI_CTRL 1) = reg h (SPI_CTRL 1) AND NOT (SPI_QIO_MODE OR SPI_QOUT_MODE)"
    "reg (spi_init B 1 d h) (SPI_CLOCK 1) =
      (if d = 1 then SPI_CLK_EQU_SYSCLK else spi_clock_value (ucast d - 1) 2)"
    using assms
    by (simp_all add: spi_init_def spi_init_gpio_def spi_clock_def spi_tx_byte_order_def spi_rx_byte_order_def
        reg_simps zero hspi_addresses PERIPHS_IO_MUX_def PERIPHS_IO_MUX_MTDI_U_def PERIPHS_IO_MUX_MTCK_U_def
        PERIPHS_IO_MUX_MTMS_U_def Let_def)
  show "hspi_configured (reg (spi_init B 1 d h) (SPI_USER 1))"
    unfolding u(1) configured_bits by (simp add: bit_simps spi_bit_defs)
  show "reg (spi_init B 1 d h) (SPI_USER 1) AND SPI_FLASH_MODE = 0"
    unfolding u(1) by (simp add: and.assoc)
  show "reg (spi_init B 1 d h) (SPI_CTRL 1) AND (SPI_QIO_MODE OR SPI_QOUT_MODE) = 0"
    unfolding u(2) by (simp add: and.assoc SPI_QIO_MODE_def SPI_QOUT_MODE_def)
  show "reg (spi_init B 1 d h) (SPI_CLOCK 1) =
      (if d = 1 then SPI_CLK_EQU_SYSCLK else spi_clock_value (ucast d - 1) 2)"
    by (rule u(3))
qed

text \<open>The divider that a clock register asks for: \<open>(CLKDIV_PRE + 1) * (CLKCNT_N + 1)\<close>.\<close>

definition clock_divider :: "u32 \<Rightarrow> nat" where
  "clock_divider v = (if bit v 31 then 1
     else (unat (drop_bit 18 v AND 0x1FFF) + 1) * (unat (drop_bit 12 v AND 0x3F) + 1))"

lemma clock_fields:
  fixes y :: u8
  defines "v \<equiv> push_bit 18 (ucast y) OR push_bit 12 1 OR push_bit 6 1 :: u32"
  shows "drop_bit 18 v AND Bit_Operations.mask 13 = ucast y" "drop_bit 12 v AND Bit_Operations.mask 6 = 1" "\<not> bit v 31"
  unfolding v_def
  by (rule bit_word_eqI, auto simp: bit_simps dest: bit_imp_le_length)+

lemma clock_masks: "(0x1FFF :: u32) = Bit_Operations.mask 13" "(0x3F :: u32) = Bit_Operations.mask 6"
  by (simp_all add: mask_eq_decr_exp)

lemma prediv_value: assumes "2 \<le> unat (d :: u8)"
  shows "(ucast (ucast d - 1 :: u16) - 1 :: u32) = ucast (d - 2)"
proof -
  define y where "y = unat d - 2"
  have "unat d < 256" by (rule order.strict_trans2 [OF unsigned_less]) simp
  then have b: "y < 256" unfolding y_def by linarith
  have d: "unat d = y + 2" using assms by (simp add: y_def)
  have "of_nat (unat d) = d" by simp
  then have "d = of_nat (y + 2)" unfolding d by (rule sym)
  then have "d - 2 = of_nat y" by simp
  moreover have "ucast d = (of_nat (y + 2) :: u16)" by (metis d of_nat_unat)
  then have "ucast d - 1 = (of_nat (y + 1) :: u16)" by simp
  moreover have "ucast (of_nat (y + 1) :: u16) = (of_nat (y + 1) :: u32)"
  proof -
    have "unat (of_nat (y + 1) :: u16) = y + 1" using b by (simp only: unat_of_nat) simp
    then show ?thesis by (metis of_nat_unat)
  qed
  moreover have "ucast (of_nat y :: u8) = (of_nat y :: u32)"
  proof -
    have "unat (of_nat y :: u8) = y" using b by (simp only: unat_of_nat) simp
    then show ?thesis by (metis of_nat_unat)
  qed
  ultimately show ?thesis by simp
qed

lemma clock_value_fields:
  assumes "2 \<le> unat (d :: u8)"
  shows "clock_divider (spi_clock_value (ucast d - 1) 2) = 2 * (unat d - 1)"
proof -
  let ?x = "ucast (d - 2) :: u32"
  have "?x AND 0x1FFF = ?x" unfolding clock_masks
    by (rule bit_word_eqI) (auto simp: bit_simps dest: bit_imp_le_length)
  then have v: "spi_clock_value (ucast d - 1) 2 = push_bit 18 ?x OR push_bit 12 1 OR push_bit 6 1"
    using prediv_value [OF assms] by (simp add: spi_clock_value_def)
  have "2 \<le> d" using assms by (simp add: word_le_nat_alt)
  then have "unat (d - 2) = unat d - 2" by (simp add: unat_sub)
  moreover have "unat ?x = unat (d - 2)"
  proof -
    have "unat (d - 2) < 2 ^ 8" using unsigned_less [of "d - 2", where 'a = nat] by simp
    then have "unat (d - 2) < 2 ^ 32" by (rule order.strict_trans2) simp
    then show ?thesis by (simp add: unsigned_ucast_eq take_bit_nat_eq_self)
  qed
  ultimately have "unat ?x + 1 = unat d - 1" using assms by simp
  then show ?thesis
    unfolding clock_divider_def v clock_masks by (simp only: clock_fields if_False) simp
qed

section \<open>Two controllers\<close>

text \<open>
  A transfer as the registers ask for it, on a device that answers a byte with its successor, logs what
  it gets, and sends 0x1234 when 16 bits are read.
\<close>

definition echo :: "u8 \<Rightarrow> bytes \<Rightarrow> u8 \<times> bytes" where
  "echo d c = (d + 1, c @ [d])"

definition echo16 :: "bytes \<Rightarrow> u16 \<times> bytes" where
  "echo16 c = (0x1234, c)"

definition transfer :: "(u32 \<Rightarrow> u32) \<times> bytes \<Rightarrow> (u32 \<Rightarrow> u32) \<times> bytes" where
  "transfer mc = (let (m, c) = mc; u = m (SPI_USER 1)
     in if u AND SPI_PHASES = SPI_USR_MOSI then
          (let (x, c) = echo (ucast (drop_bit 24 (m (SPI_W0 1)))) c
           in (if u AND SPI_DOUTDIN \<noteq> 0 then m(SPI_W0 1 := push_bit 24 (ucast x)) else m, c))
        else (m(SPI_W0 1 := push_bit 16 (ucast (fst (echo16 c)))), c))"

text \<open>
  The state is the registers, the device, and whether a transfer runs. The first controller does the
  transfer when its end is polled; the second at once, and ignores writes until then.
\<close>

definition late_chip :: "(((u32 \<Rightarrow> u32) \<times> bytes) \<times> bool) bus" where
  "late_chip = \<lparr>
     rd = \<lambda>(mc, busy) a. if a = SPI_CMD 1 then (if busy then (SPI_USR, (transfer mc, False)) else (0, (mc, False)))
            else (fst mc a, (mc, busy)),
     wr = \<lambda>(mc, busy) a v. if a = SPI_CMD 1 then (mc, v AND SPI_USR \<noteq> 0) else (((fst mc)(a := v), snd mc), busy),
     sdk = \<lambda>c h. h\<rparr>"

definition early_chip :: "(((u32 \<Rightarrow> u32) \<times> bytes) \<times> bool) bus" where
  "early_chip = \<lparr>
     rd = \<lambda>(mc, busy) a. if a = SPI_CMD 1 then (if busy then SPI_USR else 0, (mc, False)) else (fst mc a, (mc, busy)),
     wr = \<lambda>(mc, busy) a v. if busy then (mc, busy)
            else if a = SPI_CMD 1 then (if v AND SPI_USR \<noteq> 0 then (transfer mc, True) else (mc, False))
            else (((fst mc)(a := v), snd mc), busy),
     sdk = \<lambda>c h. h\<rparr>"

definition chip_idle :: "((u32 \<Rightarrow> u32) \<times> bytes) \<times> bool \<Rightarrow> bool" where "chip_idle h \<longleftrightarrow> \<not> snd h"
definition chip_reg :: "((u32 \<Rightarrow> u32) \<times> bytes) \<times> bool \<Rightarrow> u32 \<Rightarrow> u32" where "chip_reg h = fst (fst h)"
definition chip_dev :: "((u32 \<Rightarrow> u32) \<times> bytes) \<times> bool \<Rightarrow> bytes" where "chip_dev h = snd (fst h)"

lemmas chip_defs = chip_idle_def chip_reg_def chip_dev_def

lemma w0_fields: "ucast (drop_bit 24 (push_bit 24 (ucast (x :: u8)) :: u32)) = x"
    "drop_bit 16 (push_bit 16 (ucast (y :: u16)) :: u32) = ucast y"
  by (rule byte_top) (rule bit_word_eqI, auto simp: bit_simps dest: bit_imp_le_length)

lemma transfer_transferred: "transferred chip_reg chip_dev echo echo16 (mc, b) (transfer mc, b')"
proof -
  have "SPI_USR_MISO \<noteq> SPI_USR_MOSI" by (simp add: spi_bit_defs)
  then show ?thesis
    by (cases mc) (auto simp: transferred_def transfer_def chip_defs echo_def echo16_def Let_def case_prod_beta
        hspi_regs_def byte_top w0_fields)
qed

lemma cmd_not_reg: "a \<in> hspi_regs \<Longrightarrow> a \<noteq> SPI_CMD 1"
  by (auto simp: hspi_regs_def hspi_addresses)

lemma usr_nonzero: "SPI_USR \<noteq> 0" "SPI_USR AND SPI_USR = SPI_USR"
  by (simp_all add: SPI_USR_def)

lemma late_chip_laws: "hspi_laws late_chip chip_idle chip_reg chip_dev echo echo16" "fetches_late late_chip chip_idle"
proof -
  show "hspi_laws late_chip chip_idle chip_reg chip_dev echo echo16"
    unfolding hspi_laws_def
  proof (intro allI impI, goal_cases)
    case (1 h)
    then obtain mc where h: "h = (mc, False)" by (cases h) (auto simp: chip_idle_def)
    have "settles late_chip (SPI_CMD 1) (\<lambda>v. v AND SPI_USR = 0) 1 (wr late_chip h (SPI_CMD 1) SPI_USR) (transfer mc, False)"
      by (simp add: late_chip_def h usr_nonzero)
    moreover have "transferred chip_reg chip_dev echo echo16 h (transfer mc, False)"
      unfolding h by (rule transfer_transferred)
    ultimately have "\<exists>n h'. settles late_chip (SPI_CMD 1) (\<lambda>v. v AND SPI_USR = 0) n (wr late_chip h (SPI_CMD 1) SPI_USR) h' \<and>
        chip_idle h' \<and> transferred chip_reg chip_dev echo echo16 h h'"
      by (metis chip_idle_def snd_conv)
    then show ?case by (auto simp: h late_chip_def chip_defs dest: cmd_not_reg)
  qed
  show "fetches_late late_chip chip_idle"
    by (auto simp: fetches_late_def late_chip_def hspi_addresses)
qed

lemma early_chip_laws: "hspi_laws early_chip chip_idle chip_reg chip_dev echo echo16" "fetches_at_start early_chip chip_idle"
proof -
  show "hspi_laws early_chip chip_idle chip_reg chip_dev echo echo16"
    unfolding hspi_laws_def
  proof (intro allI impI, goal_cases)
    case (1 h)
    then obtain mc where h: "h = (mc, False)" by (cases h) (auto simp: chip_idle_def)
    have "settles early_chip (SPI_CMD 1) (\<lambda>v. v AND SPI_USR = 0) 1 (wr early_chip h (SPI_CMD 1) SPI_USR) (transfer mc, False)"
      by (simp add: early_chip_def h usr_nonzero)
    moreover have "transferred chip_reg chip_dev echo echo16 h (transfer mc, False)"
      unfolding h by (rule transfer_transferred)
    ultimately have "\<exists>n h'. settles early_chip (SPI_CMD 1) (\<lambda>v. v AND SPI_USR = 0) n (wr early_chip h (SPI_CMD 1) SPI_USR) h' \<and>
        chip_idle h' \<and> transferred chip_reg chip_dev echo echo16 h h'"
      by (metis chip_idle_def snd_conv)
    then show ?case by (auto simp: h early_chip_def chip_defs dest: cmd_not_reg)
  qed
  show "fetches_at_start early_chip chip_idle"
    by (auto simp: fetches_at_start_def early_chip_def chip_idle_def usr_nonzero)
qed

lemma chip_cs: "cs_laws late_chip chip_idle chip_reg chip_dev on off (\<lambda>c. c) (\<lambda>c. c)"
    "cs_laws early_chip chip_idle chip_reg chip_dev on off (\<lambda>c. c) (\<lambda>c. c)"
  by (simp_all add: cs_laws_def late_chip_def early_chip_def)

text \<open>The controller after \<open>spi_init\<close>, with 0x55 left in \<open>W0\<close>.\<close>

definition fresh_chip :: "((u32 \<Rightarrow> u32) \<times> bytes) \<times> bool" where
  "fresh_chip = (((\<lambda>_. 0)(SPI_USER 1 := 0xC30, SPI_W0 1 := 0x55000000), []), False)"

lemma fresh_chip_ready: "ready chip_idle chip_reg fresh_chip" "chip_dev fresh_chip = []"
    "drop_bit 24 (chip_reg fresh_chip (SPI_W0 1)) = 0x55" "chip_reg fresh_chip (SPI_USER 1) AND SPI_DOUTDIN = 0"
  by (simp_all add: ready_def fresh_chip_def chip_defs hspi_configured_def spi_bit_defs)

lemma current_value:
  "\<exists>v. TLI4970_get_curent (ucast (reply :: u16)) = Some v \<and> (bit reply 15 \<longrightarrow> v = 0) \<and> - 51200 \<le> v \<and> v \<le> 51187"
proof (cases "bit reply 15")
  case True
  then have "bit (ucast reply :: u32) 15" by (simp add: bit_simps)
  then show ?thesis using True by (simp add: TLI4970_get_curent_def)
next
  case False
  then have "\<not> bit (ucast reply :: u32) 15" by (simp add: bit_simps)
  moreover have "\<exists>v. div_s32 ((x - 0x1000) * 25) 2 = Some v \<and> - 51200 \<le> v \<and> v \<le> 51187" if "0 \<le> x" "x \<le> 8191" for x
    using that by (cases "0 \<le> (x - 0x1000) * 25") (auto simp: div_s32_def s32_def signed_divide_int_def sgn_if)
  moreover have "0 \<le> uint (ucast reply AND 0x1FFF :: u32)" "uint (ucast reply AND 0x1FFF :: u32) \<le> 8191"
  proof -
    have "ucast reply AND 0x1FFF = take_bit 13 (ucast reply :: u32)" unfolding clock_masks by (simp only: take_bit_eq_mask)
    then have "uint (ucast reply AND 0x1FFF :: u32) = take_bit 13 (uint (ucast reply :: u32))"
      by (simp only: unsigned_take_bit_eq)
    also have "\<dots> < 2 ^ 13" by (rule take_bit_int_less_exp)
    finally show "uint (ucast reply AND 0x1FFF :: u32) \<le> 8191" by simp
  qed simp
  ultimately show ?thesis using False by (simp add: TLI4970_get_curent_def)
qed

section \<open>Properties\<close>



text \<open>
  C37: \<open>spi_read\<close> starts each transfer before it writes the byte to send to \<open>W0\<close>, unlike \<open>spi_transaction\<close>. On
  a controller that fetches the data at the start, a register read returns all the same, but sends the byte
  that \<open>W0\<close> held before instead of the register's address, and then what it has just received.
\<close>

theorem spi_read_starts_early:
  assumes "hspi_laws B idle reg dev exch recv" and "fetches_at_start B idle"
    and "cs_laws B idle reg dev bme_on bme_off sel desel" and "ready idle reg h" and "n < 64"
  shows "\<exists>ys h' sent. bus_read_regs B a n h = Some (ys, h') \<and> length sent = n + 1 \<and>
    hd sent = ucast (drop_bit 24 (reg h (SPI_W0 1))) \<and>
    (\<forall>k < n. sent ! Suc k = fst (exchange exch sent (sel (dev h))) ! k) \<and>
    (ys, dev h') = (let (xs, c) = framed_spi exch sel desel sent (dev h) in (drop 1 xs, c))"
proof -
  let ?arr = "(a OR 0x80) # replicate 63 0"
  note cs = cs_ready [OF assms(3)]
  have w0: "reg (sdk B bme_on h) = reg h" using assms(3,4) by (simp add: cs_laws_def ready_def)
  have "0 + (n + 1) \<le> length ?arr" using assms(5) by simp
  from spi_read_stale_first [OF assms(1,2) cs(1) [OF assms(4)] this] obtain data' h2 sent where
    h2: "spi_read B ?arr (n + 1) (sdk B bme_on h) = Some (data', h2)" "ready idle reg h2" "length sent = n + 1"
      "dev h2 = snd (exchange exch sent (sel (dev h)))" "take (n + 1) data' = fst (exchange exch sent (sel (dev h)))"
      "hd sent = ucast (drop_bit 24 (reg h (SPI_W0 1)))"
      "\<forall>k. Suc k < n + 1 \<longrightarrow> sent ! Suc k = fst (exchange exch sent (sel (dev h))) ! k"
    unfolding w0 cs(2) [OF assms(4)] by (auto simp: spi_read_def)
  have "take n (drop 1 data') = drop 1 (fst (exchange exch sent (sel (dev h))))"
    using h2(5) by (metis add.commute drop_take diff_add_inverse2)
  with h2 cs(4) [OF h2(2)] show ?thesis
    by (intro exI [of _ "take n (drop 1 data')"] exI [of _ "sdk B bme_off h2"] exI [of _ sent])
      (simp add: bus_read_regs_def cs_pins framed_spi_def case_prod_beta Let_def)
qed

lemma spi_read_starts_early_witness:
  "\<exists>ys h' sent. bus_read_regs early_chip 0xD0 2 fresh_chip = Some (ys, h') \<and> length sent = 2 + 1 \<and>
    hd sent = 0x55 \<and> (\<forall>k < 2. sent ! Suc k = fst (exchange echo sent []) ! k) \<and>
    (ys, chip_dev h') = (let (xs, c) = framed_spi echo (\<lambda>c. c) (\<lambda>c. c) sent [] in (drop 1 xs, c))"
  using spi_read_starts_early [OF early_chip_laws chip_cs(2) fresh_chip_ready(1), where n = 2 and a = "0xD0"]
  by (simp add: fresh_chip_ready)

text \<open>
  C35: Reading the current down to the registers: the transaction returns, receives 16 bits from the
  selected sensor, and the reply is what \<open>TLI4970_get_curent\<close> converts to milliamperes, never with an
  overflow.
\<close>

theorem current_read:
  assumes "hspi_laws B idle reg dev exch recv" and "ready idle reg h"
    and "cs_laws B idle reg dev (Gpio_output_set 0 BIT_TLI BIT_TLI 0) (Gpio_output_set BIT_TLI 0 BIT_TLI 0) sel desel"
    and "reg h (SPI_USER 1) AND SPI_DOUTDIN = 0" and "reply = fst (recv (sel (dev h)))"
  shows "\<exists>v h'. TLI4970_read B h = Some (v, h') \<and> ready idle reg h' \<and> dev h' = desel (snd (recv (sel (dev h)))) \<and>
    TLI4970_get_curent (ucast reply) = Some v \<and>
    (bit reply 15 \<longrightarrow> v = 0) \<and> - 51200 \<le> v \<and> v \<le> 51187"
proof -
  note cs = cs_ready [OF assms(3)]
  have on: "reg (sdk B (Gpio_output_set 0 BIT_TLI BIT_TLI 0) h) = reg h"
    using assms(2,3) by (simp add: cs_laws_def ready_def)
  then have half: "reg (sdk B (Gpio_output_set 0 BIT_TLI BIT_TLI 0) h) (SPI_USER 1) AND SPI_DOUTDIN = 0"
    using assms(4) by simp
  from transaction_receives [OF assms(1) cs(1) [OF assms(2)] half] obtain h2 where
    h2: "spi_transaction B 1 0 0 0 0 0 0 16 0 (sdk B (Gpio_output_set 0 BIT_TLI BIT_TLI 0) h) = Some (ucast reply, h2)"
      "ready idle reg h2" "dev h2 = snd (recv (sel (dev h)))"
    by (auto simp: assms(5) cs(2) [OF assms(2)])
  from current_value [of reply] obtain v where
    v: "TLI4970_get_curent (ucast reply) = Some v" "bit reply 15 \<longrightarrow> v = 0" "- 51200 \<le> v" "v \<le> 51187" by blast
  from h2 v cs(3,4) [OF h2(2)] show ?thesis by (simp add: TLI4970_read_def)
qed

lemma current_read_witness:
  "\<exists>v h'. TLI4970_read late_chip fresh_chip = Some (v, h') \<and> ready chip_idle chip_reg h' \<and> chip_dev h' = [] \<and>
    TLI4970_get_curent (ucast (0x1234 :: u16)) = Some v \<and> (bit (0x1234 :: u16) 15 \<longrightarrow> v = 0) \<and> - 51200 \<le> v \<and> v \<le> 51187"
  using current_read [OF late_chip_laws(1) fresh_chip_ready(1) chip_cs(1) fresh_chip_ready(4), where reply = "0x1234"]
  by (simp add: fresh_chip_ready echo16_def)

end
