(* ===== verification/Wifi.thy ===== *)
theory Wifi
  imports Esp_Prelude
begin

text \<open>
  The supervision of the WiFi link in \<open>modules/wifi.c\<close>: \<open>WIFI_Connect\<close> configures the station and arms a
  timer whose function \<open>wifi_check_ip\<close> looks at the link, connects again after a failure, reports changes
  to a callback, and arms the timer again. What the SDK tells (the status, read up to four times in one
  call, and the address) is an argument.
\<close>

section \<open>State and operations\<close>

definition STATION_IDLE :: u8 where "STATION_IDLE = 0"
definition STATION_WRONG_PASSWORD :: u8 where "STATION_WRONG_PASSWORD = 2"
definition STATION_NO_AP_FOUND :: u8 where "STATION_NO_AP_FOUND = 3"
definition STATION_CONNECT_FAIL :: u8 where "STATION_CONNECT_FAIL = 4"
definition STATION_GOT_IP :: u8 where "STATION_GOT_IP = 5"

lemmas station_defs = STATION_IDLE_def STATION_WRONG_PASSWORD_def STATION_NO_AP_FOUND_def
  STATION_CONNECT_FAIL_def STATION_GOT_IP_def

text \<open>
  \<open>wifiCb\<close> says that there is a callback, \<open>cb_args\<close> with what it was called; \<open>linker\<close> is the period
  the one-shot timer \<open>WiFiLinker\<close> is armed with; \<open>connects\<close> counts the calls of \<open>wifi_station_connect\<close>,
  \<open>station_conf\<close> is what was given to \<open>wifi_station_set_config_current\<close>.
\<close>

record wifi =
  wifiCb :: bool
  wifiStatus :: u8
  lastWifiStatus :: u8
  cb_args :: "u8 list"
  linker :: "nat option"
  connects :: nat
  station_conf :: "(bytes \<times> bytes) option"

definition wifi_station_connect :: "wifi \<Rightarrow> wifi" where
  "wifi_station_connect w = w\<lparr>connects := connects w + 1\<rparr>"

definition wifi_check_ip :: "(nat \<Rightarrow> u8) \<Rightarrow> u32 \<Rightarrow> wifi \<Rightarrow> wifi" where
  "wifi_check_ip status ip w =
     (let w = w\<lparr>linker := None\<rparr>;
          w = w\<lparr>wifiStatus := status 0\<rparr>;
          w = (if wifiStatus w = STATION_GOT_IP \<and> ip \<noteq> 0 then w\<lparr>linker := Some 2000\<rparr>
               else (let w = (if status 1 = STATION_WRONG_PASSWORD then wifi_station_connect w
                              else if status 2 = STATION_NO_AP_FOUND then wifi_station_connect w
                              else if status 3 = STATION_CONNECT_FAIL then wifi_station_connect w
                              else w)
                     in w\<lparr>linker := Some 500\<rparr>))
      in if wifiStatus w \<noteq> lastWifiStatus w then
           (let w = w\<lparr>lastWifiStatus := wifiStatus w\<rparr>
            in if wifiCb w then w\<lparr>cb_args := cb_args w @ [wifiStatus w]\<rparr> else w)
         else w)"

text \<open>\<open>os_sprintf(dst, "%s", src)\<close> into a cleared array of \<open>n\<close> bytes.\<close>

definition conf_sprintf :: "nat \<Rightarrow> bytes \<Rightarrow> bytes option" where
  "conf_sprintf n src = do {
     l \<leftarrow> strlen src;
     store_block (replicate n 0) 0 (take l src @ [0])
   }"

definition WIFI_Connect :: "bytes \<Rightarrow> bytes \<Rightarrow> bool \<Rightarrow> wifi \<Rightarrow> wifi option" where
  "WIFI_Connect ssid pass cb w = do {
     let w = w\<lparr>wifiCb := cb\<rparr>;
     s \<leftarrow> conf_sprintf 32 ssid;
     p \<leftarrow> conf_sprintf 64 pass;
     let w = w\<lparr>station_conf := Some (s, p)\<rparr>;
     let w = w\<lparr>linker := Some 1000\<rparr>;
     Some (wifi_station_connect w)
   }"

text \<open>The timer's function over time.\<close>

fun checks :: "((nat \<Rightarrow> u8) \<times> u32) list \<Rightarrow> wifi \<Rightarrow> wifi" where
  "checks [] w = w"
| "checks ((status, ip) # cs) w = checks cs (wifi_check_ip status ip w)"

section \<open>Lemmas\<close>

definition failed :: "(nat \<Rightarrow> u8) \<times> u32 \<Rightarrow> bool" where
  "failed c \<longleftrightarrow> \<not> (fst c 0 = STATION_GOT_IP \<and> snd c \<noteq> 0) \<and>
     (fst c 1 = STATION_WRONG_PASSWORD \<or> fst c 2 = STATION_NO_AP_FOUND \<or> fst c 3 = STATION_CONNECT_FAIL)"

lemma check_step:
  "wifiStatus (wifi_check_ip status ip w) = status 0"
  "lastWifiStatus (wifi_check_ip status ip w) = status 0"
  "wifiCb (wifi_check_ip status ip w) = wifiCb w"
  "station_conf (wifi_check_ip status ip w) = station_conf w"
  "linker (wifi_check_ip status ip w) = Some (if status 0 = STATION_GOT_IP \<and> ip \<noteq> 0 then 2000 else 500)"
  "connects (wifi_check_ip status ip w) = connects w + (if failed (status, ip) then 1 else 0)"
  "cb_args (wifi_check_ip status ip w) =
     cb_args w @ (if wifiCb w \<and> status 0 \<noteq> lastWifiStatus w then [status 0] else [])"
  by (auto simp: wifi_check_ip_def wifi_station_connect_def failed_def Let_def)

text \<open>The changes in a sequence of values that starts after \<open>x\<close>.\<close>

fun changes :: "u8 \<Rightarrow> u8 list \<Rightarrow> u8 list" where
  "changes x [] = []"
| "changes x (y # ys) = (if y = x then changes x ys else y # changes y ys)"

lemma changes_remdups: "changes x ys = tl (remdups_adj (x # ys))"
  by (induction ys arbitrary: x) auto

lemma checks_run:
  "wifiCb (checks cs w) = wifiCb w"
  "station_conf (checks cs w) = station_conf w"
  "linker (checks cs w) = (if cs = [] then linker w
     else Some (if fst (last cs) 0 = STATION_GOT_IP \<and> snd (last cs) \<noteq> 0 then 2000 else 500))"
  "connects (checks cs w) = connects w + length (filter failed cs)"
  "wifiCb w \<Longrightarrow> cb_args (checks cs w) = cb_args w @ changes (lastWifiStatus w) (map (\<lambda>c. fst c 0) cs)"
  by (induction cs w rule: checks.induct) (auto simp: check_step)

lemma conf_sprintf_fits:
  assumes "0 \<in> set src" and "length (cstr src) < n"
  shows "conf_sprintf n src = Some (cstr src @ replicate (n - length (cstr src)) 0)"
proof -
  have l: "strlen src = Some (length (cstr src))" using assms(1) by (simp add: strlen_def cstr_def)
  have t: "take (length (cstr src)) src = cstr src" by (metis cstr_def takeWhile_eq_take)
  have "replicate (n - length (cstr src)) (0 :: u8) = 0 # replicate (n - Suc (length (cstr src))) 0"
    using assms(2) by (metis Suc_diff_Suc replicate_Suc)
  with l t assms(2) show ?thesis by (simp add: conf_sprintf_def store_block_def)
qed

lemma WIFI_Connect_starts:
  assumes "0 \<in> set ssid" and "length (cstr ssid) < 32" and "0 \<in> set pass" and "length (cstr pass) < 64"
  shows "\<exists>w'. WIFI_Connect ssid pass cb w = Some w' \<and> wifiCb w' = cb \<and> linker w' = Some 1000 \<and>
    connects w' = connects w + 1 \<and> lastWifiStatus w' = lastWifiStatus w \<and> cb_args w' = cb_args w \<and>
    station_conf w' = Some (cstr ssid @ replicate (32 - length (cstr ssid)) 0, cstr pass @ replicate (64 - length (cstr pass)) 0)"
  using assms by (simp add: WIFI_Connect_def conf_sprintf_fits wifi_station_connect_def)

text \<open>A name of 32 bytes, which WiFi allows, is one too long: the terminator leaves the array.\<close>

lemma conf_sprintf_overflow:
  assumes "0 \<in> set src" and "n \<le> length (cstr src)"
  shows "conf_sprintf n src = None"
proof -
  have "length (cstr src) \<le> length src" by (simp add: cstr_def length_takeWhile_le)
  with assms show ?thesis by (simp add: conf_sprintf_def strlen_def cstr_def store_block_def)
qed

section \<open>Properties\<close>

text \<open>
  The link is supervised for good. After \<open>WIFI_Connect\<close> and any number of calls of the timer's function, the timer
  is armed, for two seconds when the station has an address and for half a second otherwise; the station
  was told to connect once for the start and once for every failure seen; and the callback has been told
  exactly the changes of the status, in order.
\<close>

theorem wifi_supervised:
  assumes "0 \<in> set ssid" and "length (cstr ssid) < 32" and "0 \<in> set pass" and "length (cstr pass) < 64"
  shows "\<exists>w1. WIFI_Connect ssid pass True w = Some w1 \<and>
    linker (checks cs w1) = Some (if cs = [] then 1000
      else if fst (last cs) 0 = STATION_GOT_IP \<and> snd (last cs) \<noteq> 0 then 2000 else 500) \<and>
    connects (checks cs w1) = connects w + 1 + length (filter failed cs) \<and>
    cb_args (checks cs w1) = cb_args w @ tl (remdups_adj (lastWifiStatus w # map (\<lambda>c. fst c 0) cs))"
proof -
  from WIFI_Connect_starts [OF assms, of True w] obtain w1 where
    w1: "WIFI_Connect ssid pass True w = Some w1" "wifiCb w1" "linker w1 = Some 1000" "connects w1 = connects w + 1"
      "lastWifiStatus w1 = lastWifiStatus w" "cb_args w1 = cb_args w" by auto
  then show ?thesis by (simp add: checks_run changes_remdups)
qed

lemma wifi_supervised_witness:
  "\<exists>w1. WIFI_Connect [65, 0] [66, 0] True
      \<lparr>wifiCb = False, wifiStatus = 0, lastWifiStatus = 0, cb_args = [], linker = None, connects = 0, station_conf = None\<rparr> = Some w1 \<and>
    linker (checks [(\<lambda>_. 1, 0), (\<lambda>_. 3, 0), (\<lambda>_. 3, 0), (\<lambda>_. 5, 7)] w1) = Some 2000 \<and>
    connects (checks [(\<lambda>_. 1, 0), (\<lambda>_. 3, 0), (\<lambda>_. 3, 0), (\<lambda>_. 5, 7)] w1) = 3 \<and>
    cb_args (checks [(\<lambda>_. 1, 0), (\<lambda>_. 3, 0), (\<lambda>_. 3, 0), (\<lambda>_. 5, 7)] w1) = [1, 3, 5]"
  using wifi_supervised [of "[65, 0]" "[66, 0]" "\<lparr>wifiCb = False, wifiStatus = 0, lastWifiStatus = 0, cb_args = [],
      linker = None, connects = 0, station_conf = None\<rparr>" "[(\<lambda>_. 1, 0), (\<lambda>_. 3, 0), (\<lambda>_. 3, 0), (\<lambda>_. 5, 7)]"]
  by (simp add: cstr_def station_defs failed_def numeral_3_eq_3)

end
